(* ===== verification/Prelude.thy ===== *)
theory Prelude
  imports Main "HOL-Library.Word" "HOL-Library.AList" "HOL-Library.Multiset"
begin

text \<open>
  Shared vocabulary of the development: Rust's \<^verbatim>\<open>Result\<close> with the
  \<^verbatim>\<open>?\<close> operator as a sum with \<open>and_then\<close>, operations on \<open>&mut self\<close> as state
  transformers that keep the state an error leaves behind, \<^verbatim>\<open>HashMap\<close> as an association
  list, \<^verbatim>\<open>std::cmp::Ordering\<close> with the stable \<^verbatim>\<open>slice::sort_by\<close> and
  \<^verbatim>\<open>Iterator::max_by\<close>, and the lemma collections the component proofs use.
\<close>

named_theorems res_simps \<open>unfolding rules for results and stateful operations\<close>
named_theorems hm_simps \<open>rules for hash maps\<close>
named_theorems sort_simps \<open>rules for stable sorting\<close>

section \<open>Results and the question-mark operator\<close>

definition and_then :: "'e + 'a \<Rightarrow> ('a \<Rightarrow> 'e + 'b) \<Rightarrow> 'e + 'b" where
  "and_then m f = (case m of Inl e \<Rightarrow> Inl e | Inr x \<Rightarrow> f x)"

lemma and_then_Inl [simp, res_simps]: "and_then (Inl e) f = Inl e"
  by (simp add: and_then_def)

lemma and_then_Inr [simp, res_simps]: "and_then (Inr x) f = f x"
  by (simp add: and_then_def)

lemma and_then_eq_Inr: "and_then m f = Inr y \<longleftrightarrow> (\<exists>x. m = Inr x \<and> f x = Inr y)"
  by (cases m) auto

lemma and_then_eq_Inl:
  "and_then m f = Inl e \<longleftrightarrow> m = Inl e \<or> (\<exists>x. m = Inr x \<and> f x = Inl e)"
  by (cases m) auto

lemma and_then_assoc: "and_then (and_then m f) g = and_then m (\<lambda>x. and_then (f x) g)"
  by (cases m) auto

lemma and_then_cong [fundef_cong]:
  "m = m' \<Longrightarrow> (\<And>x. m' = Inr x \<Longrightarrow> f x = f' x) \<Longrightarrow> and_then m f = and_then m' f'"
  by (cases m') auto

text \<open>\<^verbatim>\<open>iter().map(f).collect::<Result<Vec<_>, _>>()\<close>: stops at the first error.\<close>

fun collect_results :: "('a \<Rightarrow> 'e + 'b) \<Rightarrow> 'a list \<Rightarrow> 'e + 'b list" where
  "collect_results f [] = Inr []"
| "collect_results f (x # xs) =
     and_then (f x) (\<lambda>y. and_then (collect_results f xs) (\<lambda>ys. Inr (y # ys)))"

lemma collect_results_Inr_iff:
  "collect_results f xs = Inr ys \<longleftrightarrow> list_all2 (\<lambda>x y. f x = Inr y) xs ys"
  by (induction xs arbitrary: ys) (auto simp: and_then_eq_Inr list_all2_Cons1)

lemma collect_results_length: "collect_results f xs = Inr ys \<Longrightarrow> length ys = length xs"
  by (auto simp: collect_results_Inr_iff dest: list_all2_lengthD)

lemma collect_results_total:
  "(\<And>x. x \<in> set xs \<Longrightarrow> f x = Inr (g x)) \<Longrightarrow> collect_results f xs = Inr (map g xs)"
  by (induction xs) auto

text \<open>A \<^verbatim>\<open>for\<close> loop whose body may leave the function with an error.\<close>

fun fold_results :: "('a \<Rightarrow> 's \<Rightarrow> 'e + 's) \<Rightarrow> 'a list \<Rightarrow> 's \<Rightarrow> 'e + 's" where
  "fold_results f [] s = Inr s"
| "fold_results f (x # xs) s = and_then (f x s) (fold_results f xs)"

lemma fold_results_append:
  "fold_results f (xs @ ys) s = and_then (fold_results f xs s) (fold_results f ys)"
proof (induction xs arbitrary: s)
  case Nil
  then show ?case by simp
next
  case (Cons x xs)
  then show ?case by (cases "f x s") simp_all
qed

lemma fold_results_invariant:
  assumes "fold_results f xs s = Inr s'" and "P s"
    and "\<And>x s s'. x \<in> set xs \<Longrightarrow> P s \<Longrightarrow> f x s = Inr s' \<Longrightarrow> P s'"
  shows "P s'"
  using assms by (induction xs arbitrary: s) (auto simp: and_then_eq_Inr)

section \<open>Operations on mutable state\<close>

text \<open>
  A method on \<^verbatim>\<open>&mut self\<close> returns its result and the state it leaves: an early
  return or a panic keeps whatever was written before it.
\<close>

type_synonym ('s, 'e, 'a) op = "'s \<Rightarrow> ('e + 'a) \<times> 's"

definition op_return :: "'a \<Rightarrow> ('s, 'e, 'a) op" where
  "op_return x = (\<lambda>s. (Inr x, s))"

definition op_then :: "('s, 'e, 'a) op \<Rightarrow> ('a \<Rightarrow> ('s, 'e, 'b) op) \<Rightarrow> ('s, 'e, 'b) op" where
  "op_then m f = (\<lambda>s. case m s of (Inl e, s') \<Rightarrow> (Inl e, s') | (Inr x, s') \<Rightarrow> f x s')"

lemma op_return_apply [simp, res_simps]: "op_return x s = (Inr x, s)"
  by (simp add: op_return_def)

lemma op_then_apply [res_simps]:
  "op_then m f s = (case m s of (Inl e, s') \<Rightarrow> (Inl e, s') | (Inr x, s') \<Rightarrow> f x s')"
  by (simp add: op_then_def)

lemma op_then_Inr: "m s = (Inr x, s') \<Longrightarrow> op_then m f s = f x s'"
  by (simp add: op_then_def)

lemma op_then_Inl: "m s = (Inl e, s') \<Longrightarrow> op_then m f s = (Inl e, s')"
  by (simp add: op_then_def)

lemma op_then_eq_Inr:
  "op_then m f s = (Inr y, t) \<longleftrightarrow> (\<exists>x s'. m s = (Inr x, s') \<and> f x s' = (Inr y, t))"
  by (auto simp: op_then_def split: prod.splits sum.splits)

lemma op_then_eq_Inl:
  "op_then m f s = (Inl e, t) \<longleftrightarrow>
     m s = (Inl e, t) \<or> (\<exists>x s'. m s = (Inr x, s') \<and> f x s' = (Inl e, t))"
  by (auto simp: op_then_def split: prod.splits sum.splits)

text \<open>Reading the state, and writing it.\<close>

definition op_read :: "('s \<Rightarrow> 'e + 'a) \<Rightarrow> ('s, 'e, 'a) op" where
  "op_read f = (\<lambda>s. (f s, s))"

definition op_modify :: "('s \<Rightarrow> 's) \<Rightarrow> ('s, 'e, unit) op" where
  "op_modify f = (\<lambda>s. (Inr (), f s))"

lemma op_read_apply [simp, res_simps]: "op_read f s = (f s, s)"
  by (simp add: op_read_def)

lemma op_modify_apply [simp, res_simps]: "op_modify f s = (Inr (), f s)"
  by (simp add: op_modify_def)

fun op_for :: "('a \<Rightarrow> ('s, 'e, unit) op) \<Rightarrow> 'a list \<Rightarrow> ('s, 'e, unit) op" where
  "op_for f [] = op_return ()"
| "op_for f (x # xs) = op_then (f x) (\<lambda>_. op_for f xs)"

lemma op_for_Inr_invariant:
  assumes "op_for f xs s = (Inr u, t)" and "I s"
    and "\<And>x s t u. x \<in> set xs \<Longrightarrow> I s \<Longrightarrow> f x s = (Inr u, t) \<Longrightarrow> I t"
  shows "I t"
  using assms by (induction xs arbitrary: s) (auto simp: op_then_eq_Inr)

definition op_preserves :: "('s \<Rightarrow> bool) \<Rightarrow> ('s, 'e, 'a) op \<Rightarrow> bool" where
  "op_preserves P m \<longleftrightarrow> (\<forall>s. P s \<longrightarrow> P (snd (m s)))"

lemma op_preservesI: "(\<And>s. P s \<Longrightarrow> P (snd (m s))) \<Longrightarrow> op_preserves P m"
  by (simp add: op_preserves_def)

lemma op_preservesD: "op_preserves P m \<Longrightarrow> P s \<Longrightarrow> P (snd (m s))"
  by (simp add: op_preserves_def)

lemma op_preserves_return [intro, simp]: "op_preserves P (op_return x)"
  by (simp add: op_preserves_def)

lemma op_preserves_Pair [intro, simp]: "op_preserves P (Pair r)"
  by (simp add: op_preserves_def)

lemma op_preserves_then [intro]:
  "op_preserves P m \<Longrightarrow> (\<And>x. op_preserves P (f x)) \<Longrightarrow> op_preserves P (op_then m f)"
  by (force simp: op_preserves_def op_then_def split: prod.splits sum.splits
      dest: spec [where x = "_"])

lemma op_preserves_read [intro, simp]: "op_preserves P (op_read f)"
  by (simp add: op_preserves_def)

lemma op_preserves_modify [intro]: "(\<And>s. P s \<Longrightarrow> P (f s)) \<Longrightarrow> op_preserves P (op_modify f)"
  by (simp add: op_preserves_def)

lemma op_preserves_Inr: "op_preserves P m \<Longrightarrow> P s \<Longrightarrow> m s = (r, t) \<Longrightarrow> P t"
  using op_preservesD by fastforce

lemma op_preserves_for [intro]:
  "(\<And>x. x \<in> set xs \<Longrightarrow> op_preserves P (f x)) \<Longrightarrow> op_preserves P (op_for f xs)"
  by (induction xs) auto

section \<open>Hash maps\<close>

text \<open>
  A \<^verbatim>\<open>HashMap\<close> is an association list with distinct keys. Its iteration order is
  arbitrary in Rust: the operations that iterate take the order as a parameter
  \<open>ord\<close>, of which only \<open>hash_order ord\<close> is assumed (every entry is visited once).
\<close>

type_synonym ('k, 'v) hmap = "('k \<times> 'v) list"

definition hm_get :: "('k, 'v) hmap \<Rightarrow> 'k \<Rightarrow> 'v option" where
  "hm_get m k = map_of m k"

definition hm_insert :: "'k \<Rightarrow> 'v \<Rightarrow> ('k, 'v) hmap \<Rightarrow> ('k, 'v) hmap" where
  "hm_insert k v m = AList.update k v m"

definition hm_remove :: "'k \<Rightarrow> ('k, 'v) hmap \<Rightarrow> ('k, 'v) hmap" where
  "hm_remove k m = AList.delete k m"

definition hm_keys :: "('k, 'v) hmap \<Rightarrow> 'k list" where
  "hm_keys m = map fst m"

definition hm_contains :: "('k, 'v) hmap \<Rightarrow> 'k \<Rightarrow> bool" where
  "hm_contains m k \<longleftrightarrow> k \<in> set (hm_keys m)"

definition hm_ok :: "('k, 'v) hmap \<Rightarrow> bool" where
  "hm_ok m \<longleftrightarrow> distinct (hm_keys m)"

definition hash_order :: "('k list \<Rightarrow> 'k list) \<Rightarrow> bool" where
  "hash_order ord \<longleftrightarrow> (\<forall>ks. mset (ord ks) = mset ks)"

definition hm_iter :: "('k list \<Rightarrow> 'k list) \<Rightarrow> ('k, 'v) hmap \<Rightarrow> 'k list" where
  "hm_iter ord m = ord (hm_keys m)"

lemma hm_get_insert [simp, hm_simps]:
  "hm_get (hm_insert k v m) = (hm_get m)(k \<mapsto> v)"
  by (rule ext) (simp add: hm_get_def hm_insert_def update_conv)

lemma hm_get_remove [simp, hm_simps]: "hm_get (hm_remove k m) = (hm_get m)(k := None)"
  by (rule ext) (simp add: hm_get_def hm_remove_def delete_conv)

lemma hm_get_Nil [simp, hm_simps]: "hm_get [] k = None"
  by (simp add: hm_get_def)

lemma hm_contains_iff [hm_simps]: "hm_contains m k \<longleftrightarrow> hm_get m k \<noteq> None"
  by (simp add: hm_contains_def hm_get_def hm_keys_def map_of_eq_None_iff)

lemma hm_get_key: "hm_get m k = Some v \<Longrightarrow> k \<in> set (hm_keys m)"
  by (force simp: hm_get_def hm_keys_def dest: map_of_SomeD)

lemma hm_keys_get: "k \<in> set (hm_keys m) \<longleftrightarrow> (\<exists>v. hm_get m k = Some v)"
  using hm_contains_iff [of m k] by (auto simp: hm_contains_def)

lemma set_hm_keys_insert [simp, hm_simps]:
  "set (hm_keys (hm_insert k v m)) = insert k (set (hm_keys m))"
  by (simp add: hm_keys_def hm_insert_def dom_update)

lemma set_hm_keys_remove [simp, hm_simps]:
  "set (hm_keys (hm_remove k m)) = set (hm_keys m) - {k}"
  by (simp add: hm_keys_def hm_remove_def delete_keys)

lemma hm_ok_Nil [simp, intro]: "hm_ok []"
  by (simp add: hm_ok_def hm_keys_def)

lemma hm_ok_insert [simp, intro]: "hm_ok m \<Longrightarrow> hm_ok (hm_insert k v m)"
  by (simp add: hm_ok_def hm_keys_def hm_insert_def distinct_update)

lemma hm_ok_remove [simp, intro]: "hm_ok m \<Longrightarrow> hm_ok (hm_remove k m)"
  by (simp add: hm_ok_def hm_keys_def hm_remove_def distinct_delete)

lemma hm_remove_absent: "k \<notin> set (hm_keys m) \<Longrightarrow> hm_remove k m = m"
  by (simp add: hm_keys_def hm_remove_def delete_id)

lemma hm_insert_twice [simp, hm_simps]: "hm_insert k v (hm_insert k w m) = hm_insert k v m"
  by (induction m) (auto simp: hm_insert_def)

lemma length_hm_insert:
  "length (hm_insert k v m) = (if hm_contains m k then length m else Suc (length m))"
  by (induction m) (auto simp: hm_insert_def hm_contains_def hm_keys_def)

lemma length_hm_remove:
  "hm_ok m \<Longrightarrow>
   length (hm_remove k m) = (if hm_contains m k then length m - 1 else length m)"
proof (induction m)
  case Nil
  then show ?case by (simp add: hm_remove_def)
next
  case (Cons p m)
  show ?case
  proof (cases "fst p = k")
    case True
    with Cons.prems have "AList.delete k m = m"
      by (auto simp: hm_ok_def hm_keys_def delete_id)
    with True show ?thesis
      by (cases p) (simp add: hm_remove_def hm_contains_def hm_keys_def)
  next
    case False
    have "hm_contains m k \<Longrightarrow> 0 < length m"
      by (cases m) (auto simp: hm_contains_def hm_keys_def)
    with False Cons show ?thesis
      by (cases p) (auto simp: hm_ok_def hm_remove_def hm_contains_def hm_keys_def)
  qed
qed

lemma set_hm_iter: "hash_order ord \<Longrightarrow> set (hm_iter ord m) = set (hm_keys m)"
  unfolding hash_order_def hm_iter_def by (metis set_mset_mset)

lemma length_hm_iter: "hash_order ord \<Longrightarrow> length (hm_iter ord m) = length m"
  unfolding hash_order_def hm_iter_def hm_keys_def by (metis length_map size_mset)

lemma distinct_hm_iter: "hash_order ord \<Longrightarrow> hm_ok m \<Longrightarrow> distinct (hm_iter ord m)"
  unfolding hash_order_def hm_iter_def hm_ok_def by (metis mset_eq_imp_distinct_iff)

lemma hash_order_id [simp]: "hash_order (\<lambda>ks. ks)"
  by (simp add: hash_order_def)

section \<open>Comparison, stable sorting, maxima\<close>

text \<open>\<^verbatim>\<open>std::cmp::Ordering\<close>.\<close>

datatype ordering = Less | Equal | Greater

text \<open>
  \<^verbatim>\<open>slice::sort_by\<close> is stable, so on a comparator that is a total preorder of the
  elements its result is the one stable sort of the input, computed here by insertion.
\<close>

fun insert_by :: "('a \<Rightarrow> 'a \<Rightarrow> ordering) \<Rightarrow> 'a \<Rightarrow> 'a list \<Rightarrow> 'a list" where
  "insert_by cmp x [] = [x]"
| "insert_by cmp x (y # ys) =
     (if cmp x y = Greater then y # insert_by cmp x ys else x # y # ys)"

fun sort_by :: "('a \<Rightarrow> 'a \<Rightarrow> ordering) \<Rightarrow> 'a list \<Rightarrow> 'a list" where
  "sort_by cmp [] = []"
| "sort_by cmp (x # xs) = insert_by cmp x (sort_by cmp xs)"

lemma mset_insert_by [simp, sort_simps]: "mset (insert_by cmp x xs) = add_mset x (mset xs)"
  by (induction xs) auto

lemma mset_sort_by [simp, sort_simps]: "mset (sort_by cmp xs) = mset xs"
  by (induction xs) auto

lemma set_sort_by [simp, sort_simps]: "set (sort_by cmp xs) = set xs"
  by (metis mset_sort_by set_mset_mset)

lemma length_sort_by [simp, sort_simps]: "length (sort_by cmp xs) = length xs"
  by (metis mset_sort_by size_mset)

lemma distinct_sort_by [simp, sort_simps]: "distinct (sort_by cmp xs) = distinct xs"
  by (metis mset_sort_by mset_eq_imp_distinct_iff)

lemma distinct_map_sort_by [simp, sort_simps]:
  "distinct (map f (sort_by cmp xs)) = distinct (map f xs)"
  by (rule mset_eq_imp_distinct_iff) simp

text \<open>
  The interface the sorting clients rely on: on the set \<open>A\<close> the comparator is total and
  transitive. Inside it the sort is sorted, and a prefix of it holds the best elements.
\<close>

locale comparator_on =
  fixes cmp :: "'a \<Rightarrow> 'a \<Rightarrow> ordering" and A :: "'a set"
  assumes total: "x \<in> A \<Longrightarrow> y \<in> A \<Longrightarrow> cmp x y = Greater \<Longrightarrow> cmp y x \<noteq> Greater"
    and trans: "x \<in> A \<Longrightarrow> y \<in> A \<Longrightarrow> z \<in> A \<Longrightarrow> cmp x y \<noteq> Greater \<Longrightarrow>
      cmp y z \<noteq> Greater \<Longrightarrow> cmp x z \<noteq> Greater"
begin

lemma sorted_insert_by:
  "x \<in> A \<Longrightarrow> set xs \<subseteq> A \<Longrightarrow> sorted_wrt (\<lambda>a b. cmp a b \<noteq> Greater) xs \<Longrightarrow>
   sorted_wrt (\<lambda>a b. cmp a b \<noteq> Greater) (insert_by cmp x xs)"
proof (induction xs)
  case Nil
  then show ?case by simp
next
  case (Cons y ys)
  have ins: "set (insert_by cmp x ys) = insert x (set ys)"
    by (metis mset_insert_by set_mset_add_mset_insert set_mset_mset)
  show ?case
  proof (cases "cmp x y = Greater")
    case True
    with Cons show ?thesis by (auto simp: ins dest: total)
  next
    case False
    with Cons.prems have "\<forall>z \<in> set ys. cmp x z \<noteq> Greater"
      using trans [of x y] by (auto simp: subset_iff)
    with False Cons.prems show ?thesis by simp
  qed
qed

lemma sorted_sort_by:
  "set xs \<subseteq> A \<Longrightarrow> sorted_wrt (\<lambda>a b. cmp a b \<noteq> Greater) (sort_by cmp xs)"
  by (induction xs) (auto intro!: sorted_insert_by)

lemma take_sort_by_best:
  assumes "set xs \<subseteq> A" and "x \<in> set (take k (sort_by cmp xs))"
    and "y \<in> set (drop k (sort_by cmp xs))"
  shows "cmp x y \<noteq> Greater"
proof -
  have "sorted_wrt (\<lambda>a b. cmp a b \<noteq> Greater) (take k (sort_by cmp xs) @ drop k (sort_by cmp xs))"
    using sorted_sort_by [OF assms(1)] by simp
  then show ?thesis
    using assms(2,3) by (simp only: sorted_wrt_append) blast
qed

end

text \<open>
  \<^verbatim>\<open>Iterator::max_by\<close> returns the last of the greatest elements: a later element replaces
  the current one unless the current one is strictly greater.
\<close>

fun max_by_from :: "('a \<Rightarrow> 'a \<Rightarrow> ordering) \<Rightarrow> 'a \<Rightarrow> 'a list \<Rightarrow> 'a" where
  "max_by_from cmp m [] = m"
| "max_by_from cmp m (x # xs) = max_by_from cmp (if cmp m x = Greater then m else x) xs"

fun max_by :: "('a \<Rightarrow> 'a \<Rightarrow> ordering) \<Rightarrow> 'a list \<Rightarrow> 'a option" where
  "max_by cmp [] = None"
| "max_by cmp (x # xs) = Some (max_by_from cmp x xs)"

lemma max_by_from_in: "max_by_from cmp m xs \<in> insert m (set xs)"
proof (induction xs arbitrary: m)
  case Nil
  then show ?case by simp
next
  case (Cons x xs)
  show ?case using Cons [of "if cmp m x = Greater then m else x"] by (auto split: if_splits)
qed

lemma max_by_in: "max_by cmp xs = Some m \<Longrightarrow> m \<in> set xs"
  using max_by_from_in [of cmp] by (cases xs) auto

section \<open>Machine integers\<close>

text \<open>\<^verbatim>\<open>usize\<close> and \<^verbatim>\<open>u64\<close> are 64 bits wide; sizes are kept as naturals.\<close>

definition max_u64 :: nat where
  "max_u64 = 2 ^ 64 - 1"

definition sat_add :: "nat \<Rightarrow> nat \<Rightarrow> nat" where
  "sat_add a b = min (a + b) max_u64"

definition sat_mul :: "nat \<Rightarrow> nat \<Rightarrow> nat" where
  "sat_mul a b = min (a * b) max_u64"

lemma sat_add_le: "sat_add a b \<le> a + b"
  by (simp add: sat_add_def)

lemma sat_mul_le: "sat_mul a b \<le> a * b"
  by (simp add: sat_mul_def)

lemma length_take_le: "length (take k xs) \<le> k"
  by simp

lemma set_filter_subset: "set (filter P xs) \<subseteq> set xs"
  by auto

end
