(* ===== verification/Floats.thy ===== *)
theory Floats
  imports Prelude
begin

text \<open>
  IEEE 754 binary floating point as the code uses it (\<^verbatim>\<open>f32\<close>, \<^verbatim>\<open>f64\<close>):
  executable and correctly rounded, nearest with ties to even. A finite value is a sign and
  a magnitude counted in units of the format's smallest subnormal (\<open>2 ^ -149\<close> for
  \<^verbatim>\<open>f32\<close>), so comparing is comparing integers and rounding is integer division.
  NaN has no payload, as Rust leaves payloads unspecified.
\<close>

section \<open>Formats and values\<close>

datatype float_val = NaN | Inf bool | Fin bool nat

type_synonym f32 = float_val
type_synonym f64 = float_val

text \<open>Precision, the exponent of the unit (negated), the bits of the overflow bound.\<close>

record float_fmt =
  prec :: nat
  unit_bits :: nat
  ovf_bits :: nat

definition F32 :: float_fmt where
  "F32 = \<lparr>prec = 24, unit_bits = 149, ovf_bits = 277\<rparr>"

definition F64 :: float_fmt where
  "F64 = \<lparr>prec = 53, unit_bits = 1074, ovf_bits = 2098\<rparr>"

fun nbits :: "nat \<Rightarrow> nat" where
  "nbits n = (if n = 0 then 0 else Suc (nbits (n div 2)))"

declare nbits.simps [simp del]

text \<open>Round \<open>num / d\<close> to an integer, ties to even.\<close>

definition rne_pick :: "nat \<Rightarrow> nat \<Rightarrow> nat \<Rightarrow> nat" where
  "rne_pick m r d = (if 2 * r < d \<or> (2 * r = d \<and> even m) then m else Suc m)"

definition rne :: "nat \<Rightarrow> nat \<Rightarrow> nat" where
  "rne num d = rne_pick (num div d) (num mod d) d"

text \<open>The magnitude \<open>num / den\<close> (in units) rounded to \<open>p\<close> significant bits.\<close>

definition round_at :: "nat \<Rightarrow> nat \<Rightarrow> nat \<Rightarrow> nat" where
  "round_at num den e = rne num (den * 2 ^ e) * 2 ^ e"

definition round_mag :: "nat \<Rightarrow> nat \<Rightarrow> nat \<Rightarrow> nat" where
  "round_mag p num den = round_at num den (nbits (num div den) - p)"

definition pack :: "float_fmt \<Rightarrow> bool \<Rightarrow> nat \<Rightarrow> float_val" where
  "pack fmt s v = (if 2 ^ ovf_bits fmt \<le> v then Inf s else Fin s v)"

definition round_to :: "float_fmt \<Rightarrow> bool \<Rightarrow> nat \<Rightarrow> nat \<Rightarrow> float_val" where
  "round_to fmt s num den = pack fmt s (round_mag (prec fmt) num den)"

section \<open>Arithmetic\<close>

fun sval :: "bool \<Rightarrow> nat \<Rightarrow> int" where
  "sval s m = (if s then - int m else int m)"

definition round_int :: "float_fmt \<Rightarrow> bool \<Rightarrow> int \<Rightarrow> float_val" where
  "round_int fmt z v = (if v = 0 then Fin z 0 else round_to fmt (v < 0) (nat \<bar>v\<bar>) 1)"

fun fl_add :: "float_fmt \<Rightarrow> float_val \<Rightarrow> float_val \<Rightarrow> float_val" where
  "fl_add fmt NaN _ = NaN"
| "fl_add fmt _ NaN = NaN"
| "fl_add fmt (Inf s) (Inf t) = (if s = t then Inf s else NaN)"
| "fl_add fmt (Inf s) _ = Inf s"
| "fl_add fmt _ (Inf t) = Inf t"
| "fl_add fmt (Fin s m) (Fin t n) =
     round_int fmt (s \<and> t) (sval s m + sval t n)"

fun fl_neg :: "float_val \<Rightarrow> float_val" where
  "fl_neg NaN = NaN"
| "fl_neg (Inf s) = Inf (\<not> s)"
| "fl_neg (Fin s m) = Fin (\<not> s) m"

definition fl_sub :: "float_fmt \<Rightarrow> float_val \<Rightarrow> float_val \<Rightarrow> float_val" where
  "fl_sub fmt a b = fl_add fmt a (fl_neg b)"

fun fl_mul :: "float_fmt \<Rightarrow> float_val \<Rightarrow> float_val \<Rightarrow> float_val" where
  "fl_mul fmt NaN _ = NaN"
| "fl_mul fmt _ NaN = NaN"
| "fl_mul fmt (Inf s) (Inf t) = Inf (s \<noteq> t)"
| "fl_mul fmt (Inf s) (Fin t n) = (if n = 0 then NaN else Inf (s \<noteq> t))"
| "fl_mul fmt (Fin s m) (Inf t) = (if m = 0 then NaN else Inf (s \<noteq> t))"
| "fl_mul fmt (Fin s m) (Fin t n) = round_to fmt (s \<noteq> t) (m * n) (2 ^ unit_bits fmt)"

fun fl_div :: "float_fmt \<Rightarrow> float_val \<Rightarrow> float_val \<Rightarrow> float_val" where
  "fl_div fmt NaN _ = NaN"
| "fl_div fmt _ NaN = NaN"
| "fl_div fmt (Inf s) (Inf t) = NaN"
| "fl_div fmt (Inf s) (Fin t n) = Inf (s \<noteq> t)"
| "fl_div fmt (Fin s m) (Inf t) = Fin (s \<noteq> t) 0"
| "fl_div fmt (Fin s m) (Fin t n) =
     (if n = 0 then (if m = 0 then NaN else Inf (s \<noteq> t))
      else round_to fmt (s \<noteq> t) (m * 2 ^ unit_bits fmt) n)"

text \<open>The integer square root, two result bits per step.\<close>

definition isqrt_step :: "nat \<Rightarrow> nat \<Rightarrow> nat" where
  "isqrt_step n r = (if (r + 1) * (r + 1) \<le> n then r + 1 else r)"

fun isqrt :: "nat \<Rightarrow> nat" where
  "isqrt n = (if n = 0 then 0 else isqrt_step n (2 * isqrt (n div 4)))"

declare isqrt.simps [simp del]

text \<open>
  \<open>sqrt (m * 2 ^ -u)\<close> in units is \<open>sqrt (m * 2 ^ u)\<close>. Its integer root is taken of the
  leading \<open>2 * (p + 3)\<close> bits of the radicand, which gives three bits more than the
  precision; the low half unit of the numerator is the sticky bit, set when the root is inexact.
\<close>

definition sqrt_pack :: "float_fmt \<Rightarrow> nat \<Rightarrow> nat \<Rightarrow> nat \<Rightarrow> float_val" where
  "sqrt_pack fmt n k r =
     round_to fmt False ((2 * r + (if r * r * 4 ^ k = n then 0 else 1)) * 2 ^ k) 2"

definition sqrt_scaled :: "float_fmt \<Rightarrow> nat \<Rightarrow> nat \<Rightarrow> float_val" where
  "sqrt_scaled fmt n k = sqrt_pack fmt n k (isqrt (n div 4 ^ k))"

definition sqrt_mag :: "float_fmt \<Rightarrow> nat \<Rightarrow> float_val" where
  "sqrt_mag fmt n = sqrt_scaled fmt n ((nbits n - 2 * (prec fmt + 3)) div 2)"

fun fl_sqrt :: "float_fmt \<Rightarrow> float_val \<Rightarrow> float_val" where
  "fl_sqrt fmt NaN = NaN"
| "fl_sqrt fmt (Inf s) = (if s then NaN else Inf False)"
| "fl_sqrt fmt (Fin s m) =
     (if m = 0 then Fin s 0
      else if s then NaN
      else sqrt_mag fmt (m * 2 ^ unit_bits fmt))"

fun fl_abs :: "float_val \<Rightarrow> float_val" where
  "fl_abs NaN = NaN"
| "fl_abs (Inf s) = Inf False"
| "fl_abs (Fin s m) = Fin False m"

section \<open>Comparison\<close>

fun is_nan :: "float_val \<Rightarrow> bool" where
  "is_nan NaN = True"
| "is_nan _ = False"

fun is_infinite :: "float_val \<Rightarrow> bool" where
  "is_infinite (Inf s) = True"
| "is_infinite _ = False"

fun is_finite :: "float_val \<Rightarrow> bool" where
  "is_finite (Fin s m) = True"
| "is_finite _ = False"

text \<open>The extended integer a non-NaN value is compared by.\<close>

fun fl_key :: "float_val \<Rightarrow> int \<times> int" where
  "fl_key NaN = (0, 0)"
| "fl_key (Inf s) = (if s then (-1, 0) else (1, 0))"
| "fl_key (Fin s m) = (0, sval s m)"

fun key_less :: "int \<times> int \<Rightarrow> int \<times> int \<Rightarrow> bool" where
  "key_less (a, b) (c, d) = (a < c \<or> (a = c \<and> b < d))"

text \<open>\<^verbatim>\<open>PartialOrd::partial_cmp\<close>.\<close>

definition partial_cmp :: "float_val \<Rightarrow> float_val \<Rightarrow> ordering option" where
  "partial_cmp a b =
     (if is_nan a \<or> is_nan b then None
      else if key_less (fl_key a) (fl_key b) then Some Less
      else if key_less (fl_key b) (fl_key a) then Some Greater
      else Some Equal)"

definition fl_lt :: "float_val \<Rightarrow> float_val \<Rightarrow> bool" where
  "fl_lt a b \<longleftrightarrow> partial_cmp a b = Some Less"

definition fl_gt :: "float_val \<Rightarrow> float_val \<Rightarrow> bool" where
  "fl_gt a b \<longleftrightarrow> partial_cmp a b = Some Greater"

definition fl_le :: "float_val \<Rightarrow> float_val \<Rightarrow> bool" where
  "fl_le a b \<longleftrightarrow> partial_cmp a b = Some Less \<or> partial_cmp a b = Some Equal"

definition fl_ge :: "float_val \<Rightarrow> float_val \<Rightarrow> bool" where
  "fl_ge a b \<longleftrightarrow> partial_cmp a b = Some Greater \<or> partial_cmp a b = Some Equal"

definition fl_eq :: "float_val \<Rightarrow> float_val \<Rightarrow> bool" where
  "fl_eq a b \<longleftrightarrow> partial_cmp a b = Some Equal"

text \<open>\<^verbatim>\<open>f32::max\<close> and \<^verbatim>\<open>f32::min\<close> prefer the operand that is a number.\<close>

definition fl_max :: "float_val \<Rightarrow> float_val \<Rightarrow> float_val" where
  "fl_max a b = (if is_nan a then b else if is_nan b then a else if fl_lt a b then b else a)"

definition fl_min :: "float_val \<Rightarrow> float_val \<Rightarrow> float_val" where
  "fl_min a b = (if is_nan a then b else if is_nan b then a else if fl_lt b a then b else a)"

text \<open>\<^verbatim>\<open>f32::clamp\<close> keeps NaN.\<close>

definition fl_clamp :: "float_val \<Rightarrow> float_val \<Rightarrow> float_val \<Rightarrow> float_val" where
  "fl_clamp x lo hi = (if fl_lt x lo then lo else if fl_gt x hi then hi else x)"

section \<open>Integers\<close>

definition fl_of_nat :: "float_fmt \<Rightarrow> nat \<Rightarrow> float_val" where
  "fl_of_nat fmt n = round_to fmt False (n * 2 ^ unit_bits fmt) 1"

definition fl_of_int :: "float_fmt \<Rightarrow> int \<Rightarrow> float_val" where
  "fl_of_int fmt i = round_to fmt (i < 0) (nat \<bar>i\<bar> * 2 ^ unit_bits fmt) 1"

text \<open>A decimal literal \<open>num / den\<close>, correctly rounded.\<close>

definition fl_lit :: "float_fmt \<Rightarrow> nat \<Rightarrow> nat \<Rightarrow> float_val" where
  "fl_lit fmt num den = round_to fmt False (num * 2 ^ unit_bits fmt) den"

text \<open>\<^verbatim>\<open>round\<close> (half away from zero) and \<^verbatim>\<open>floor\<close>.\<close>

fun fl_round :: "float_fmt \<Rightarrow> float_val \<Rightarrow> float_val" where
  "fl_round fmt (Fin s m) =
     Fin s ((2 * m + 2 ^ unit_bits fmt) div 2 ^ Suc (unit_bits fmt) * 2 ^ unit_bits fmt)"
| "fl_round fmt x = x"

fun fl_floor :: "float_fmt \<Rightarrow> float_val \<Rightarrow> float_val" where
  "fl_floor fmt (Fin s m) =
     Fin s ((if s then m + 2 ^ unit_bits fmt - 1 else m) div 2 ^ unit_bits fmt
              * 2 ^ unit_bits fmt)"
| "fl_floor fmt x = x"

text \<open>\<^verbatim>\<open>as\<close> casts truncate and saturate; NaN gives 0.\<close>

fun fl_to_int :: "float_fmt \<Rightarrow> int \<Rightarrow> int \<Rightarrow> float_val \<Rightarrow> int" where
  "fl_to_int fmt lo hi NaN = 0"
| "fl_to_int fmt lo hi (Inf s) = (if s then lo else hi)"
| "fl_to_int fmt lo hi (Fin s m) = max lo (min hi (sval s (m div 2 ^ unit_bits fmt)))"

definition fl_to_usize :: "float_fmt \<Rightarrow> float_val \<Rightarrow> nat" where
  "fl_to_usize fmt x = nat (fl_to_int fmt 0 (2 ^ 64 - 1) x)"

section \<open>The single-precision operations\<close>

abbreviation fadd :: "f32 \<Rightarrow> f32 \<Rightarrow> f32" where "fadd \<equiv> fl_add F32"
abbreviation fsub :: "f32 \<Rightarrow> f32 \<Rightarrow> f32" where "fsub \<equiv> fl_sub F32"
abbreviation fmul :: "f32 \<Rightarrow> f32 \<Rightarrow> f32" where "fmul \<equiv> fl_mul F32"
abbreviation fdiv :: "f32 \<Rightarrow> f32 \<Rightarrow> f32" where "fdiv \<equiv> fl_div F32"
abbreviation fsqrt :: "f32 \<Rightarrow> f32" where "fsqrt \<equiv> fl_sqrt F32"
abbreviation f32_of_nat :: "nat \<Rightarrow> f32" where "f32_of_nat \<equiv> fl_of_nat F32"
abbreviation f32_lit :: "nat \<Rightarrow> nat \<Rightarrow> f32" where "f32_lit \<equiv> fl_lit F32"
abbreviation f32_zero :: f32 where "f32_zero \<equiv> Fin False 0"

definition f32_one :: f32 where
  "f32_one = Fin False (2 ^ 149)"

definition f32_two :: f32 where
  "f32_two = Fin False (2 ^ 150)"

text \<open>\<^verbatim>\<open>f32::EPSILON\<close> is \<open>2 ^ -23\<close>.\<close>

definition f32_epsilon :: f32 where
  "f32_epsilon = Fin False (2 ^ 126)"

section \<open>Laws\<close>

lemma fl_add_comm: "fl_add fmt a b = fl_add fmt b a"
  by (cases a; cases b) (auto simp: add.commute conj_commute)

lemma fl_mul_comm: "fl_mul fmt a b = fl_mul fmt b a"
proof -
  have flip: "(s = (\<not> t)) = (t = (\<not> s))" for s t by auto
  show ?thesis by (cases a; cases b) (simp_all add: mult.commute flip)
qed

lemma fl_neg_neg [simp]: "fl_neg (fl_neg a) = a"
  by (cases a) auto

lemma round_to_neg: "round_to fmt (\<not> s) n d = fl_neg (round_to fmt s n d)"
  by (simp add: round_to_def pack_def)

lemma fl_mul_neg_neg: "fl_mul fmt (fl_neg a) (fl_neg b) = fl_mul fmt a b"
proof -
  have [simp]: "(s = (\<not> t)) = ((\<not> s) = t)" for s t by auto
  show ?thesis by (cases a; cases b) simp_all
qed

text \<open>\<open>(a - b)\<^sup>2 = (b - a)\<^sup>2\<close>: exact in floating point, as the roundings agree up to sign.\<close>

lemma round_to_sq_flip: "fl_mul fmt (round_to fmt s n d) (round_to fmt s n d)
    = fl_mul fmt (round_to fmt t n d) (round_to fmt t n d)"
  by (simp add: round_to_def pack_def)

lemma fl_sub_sq_sym:
  "fl_mul fmt (fl_sub fmt a b) (fl_sub fmt a b) = fl_mul fmt (fl_sub fmt b a) (fl_sub fmt b a)"
proof (cases a)
  case (Fin s m)
  show ?thesis
  proof (cases b)
    case (Fin t n)
    define v where "v = sval s m + sval (\<not> t) n"
    have flip: "sval t n + sval (\<not> s) m = - v" by (simp add: v_def)
    show ?thesis
    proof (cases "v = 0")
      case True
      then show ?thesis
        unfolding fl_sub_def \<open>a = Fin s m\<close> \<open>b = Fin t n\<close> fl_neg.simps fl_add.simps flip
          v_def [symmetric] round_int_def by simp
    next
      case False
      then show ?thesis
        unfolding fl_sub_def \<open>a = Fin s m\<close> \<open>b = Fin t n\<close> fl_neg.simps fl_add.simps flip
          v_def [symmetric] round_int_def
        using round_to_sq_flip [of fmt "v < 0" "nat \<bar>v\<bar>" 1 "- v < 0"] by simp
    qed
  qed (simp_all add: Fin fl_sub_def)
next
  case (Inf s)
  then show ?thesis by (cases b) (auto simp: fl_sub_def)
qed (cases b; simp add: fl_sub_def)

subsection \<open>Rounding\<close>

lemma nbits_0 [simp]: "nbits 0 = 0"
  by (simp add: nbits.simps)

lemma nbits_pos: "0 < n \<Longrightarrow> nbits n = Suc (nbits (n div 2))"
  by (subst nbits.simps) simp

lemma nbits_upper: "n < 2 ^ nbits n"
proof (induction n rule: nbits.induct)
  case (1 n)
  show ?case
  proof (cases "n = 0")
    case False
    then have "n div 2 < 2 ^ nbits (n div 2)" using "1.IH" by simp
    then have "n < 2 * 2 ^ nbits (n div 2)" by arith
    with False show ?thesis by (simp add: nbits_pos)
  qed simp
qed

lemma nbits_lower: "0 < n \<Longrightarrow> 2 ^ (nbits n - 1) \<le> n"
proof (induction n rule: nbits.induct)
  case (1 n)
  show ?case
  proof (cases "n div 2 = 0")
    case True
    with "1.prems" have "n = 1" by arith
    then show ?thesis by (simp add: nbits_pos)
  next
    case False
    then have "2 ^ (nbits (n div 2) - 1) \<le> n div 2" using "1.IH" "1.prems" by simp
    then have "2 * 2 ^ (nbits (n div 2) - 1) \<le> n" by arith
    moreover have "nbits (n div 2) = Suc (nbits (n div 2) - 1)"
      using False nbits_pos [of "n div 2"] by simp
    ultimately show ?thesis
      using "1.prems" by (metis diff_Suc_1 nbits_pos power_Suc)
  qed
qed

lemma nbits_mono:
  assumes "m \<le> n" shows "nbits m \<le> nbits n"
proof (rule ccontr)
  assume "\<not> nbits m \<le> nbits n"
  then have lt: "nbits n \<le> nbits m - 1" and pos: "0 < m"
    by (auto intro: ccontr)
  have "n < 2 ^ nbits n" by (rule nbits_upper)
  also have "\<dots> \<le> 2 ^ (nbits m - 1)" using lt by (intro power_increasing) simp_all
  also have "\<dots> \<le> m" using pos by (rule nbits_lower)
  finally show False using assms by simp
qed

lemma rne_le: "num \<le> k * d \<Longrightarrow> 0 < d \<Longrightarrow> rne num d \<le> k"
proof -
  assume le: "num \<le> k * d" and d: "0 < d"
  have q: "num div d \<le> k"
    using le d by (metis div_le_mono nonzero_mult_div_cancel_right not_gr0)
  show ?thesis
  proof (cases "num div d = k")
    case True
    then have "num mod d = 0"
      using le by (metis add_le_same_cancel1 div_mult_mod_eq le_zero_eq)
    with True d show ?thesis by (simp add: rne_def rne_pick_def)
  next
    case False
    with q show ?thesis by (simp add: rne_def rne_pick_def)
  qed
qed

lemma rne_ge: "k * d \<le> num \<Longrightarrow> 0 < d \<Longrightarrow> k \<le> rne num d"
proof -
  assume "k * d \<le> num" and "0 < d"
  then have "k \<le> num div d" by (metis div_le_mono nonzero_mult_div_cancel_right not_gr0)
  then show ?thesis by (simp add: rne_def rne_pick_def)
qed

text \<open>A value of the format: at most \<open>p\<close> significant bits.\<close>

definition representable :: "nat \<Rightarrow> nat \<Rightarrow> bool" where
  "representable p v \<longleftrightarrow> 2 ^ (nbits v - p) dvd v"

lemma round_mag_le:
  assumes "num \<le> v * den" and "0 < den" and "representable p v"
  shows "round_mag p num den \<le> v"
proof -
  let ?e = "nbits (num div den) - p"
  have "num div den \<le> v"
    using assms(1,2) by (metis div_le_mono nonzero_mult_div_cancel_right not_gr0)
  then have "?e \<le> nbits v - p" by (simp add: diff_le_mono nbits_mono)
  then have "2 ^ ?e dvd v"
    using assms(3) unfolding representable_def by (meson dvd_trans le_imp_power_dvd)
  then obtain k where k: "v = k * 2 ^ ?e" by (metis dvd_def mult.commute)
  have "rne num (den * 2 ^ ?e) \<le> k"
    by (rule rne_le) (use assms k in \<open>simp_all add: mult_ac\<close>)
  then show ?thesis unfolding round_mag_def round_at_def k by simp
qed

lemma round_mag_ge:
  assumes "v * den \<le> num" and "0 < den" and "representable p v" and "0 < p"
  shows "v \<le> round_mag p num den"
proof -
  let ?q = "num div den"
  let ?e = "nbits ?q - p"
  have vq: "v \<le> ?q"
    using assms(1,2) by (metis div_le_mono nonzero_mult_div_cancel_right not_gr0)
  have keep: "2 ^ ?e dvd w \<Longrightarrow> w \<le> ?q \<Longrightarrow> w \<le> round_mag p num den" for w
  proof -
    assume "2 ^ ?e dvd w" and le: "w \<le> ?q"
    then obtain k where k: "w = k * 2 ^ ?e" by (metis dvd_def mult.commute)
    have "w * den \<le> num" using le by (metis div_times_less_eq_dividend le_trans mult_le_mono1)
    then have "k \<le> rne num (den * 2 ^ ?e)"
      by (intro rne_ge) (use assms(2) k in \<open>simp_all add: mult_ac\<close>)
    then show ?thesis unfolding round_mag_def round_at_def k by simp
  qed
  show ?thesis
  proof (cases "?e \<le> nbits v - p")
    case True
    then have "2 ^ ?e dvd v"
      using assms(3) unfolding representable_def by (meson dvd_trans le_imp_power_dvd)
    then show ?thesis using vq by (rule keep)
  next
    case False
    then have e: "0 < ?e" and vb: "nbits v \<le> nbits ?q - 1" and qb: "nbits ?q - 1 = p - 1 + ?e"
      using assms(4) by auto
    have qpos: "0 < ?q" using e by (cases "?q = 0") auto
    have "v \<le> 2 ^ nbits v" using nbits_upper less_imp_le by blast
    also have "\<dots> \<le> 2 ^ (nbits ?q - 1)" using vb by (intro power_increasing) simp_all
    also have "\<dots> \<le> round_mag p num den"
      by (rule keep) (use qb nbits_lower [OF qpos] in \<open>simp_all add: power_add\<close>)
    finally show ?thesis .
  qed
qed

lemma round_mag_exact:
  "representable p v \<Longrightarrow> 0 < den \<Longrightarrow> 0 < p \<Longrightarrow> round_mag p (v * den) den = v"
  by (intro antisym round_mag_le round_mag_ge) simp_all

lemma nbits_less: "v < 2 ^ k \<Longrightarrow> nbits v \<le> k"
proof (rule ccontr)
  assume lt: "v < 2 ^ k" and "\<not> nbits v \<le> k"
  then have "k \<le> nbits v - 1" and pos: "0 < v" by (auto intro: ccontr)
  then have "2 ^ k \<le> (2::nat) ^ (nbits v - 1)" by (intro power_increasing) simp_all
  also have "\<dots> \<le> v" using pos by (rule nbits_lower)
  finally show False using lt by simp
qed

lemma representable_small: "v < 2 ^ p \<Longrightarrow> representable p v"
  using nbits_less [of v p] by (simp add: representable_def)

lemma nbits_shift: "0 < v \<Longrightarrow> nbits (v * 2 ^ k) = nbits v + k"
proof (induction k)
  case (Suc k)
  have "nbits (v * 2 ^ Suc k) = Suc (nbits (v * 2 ^ Suc k div 2))"
    using Suc.prems by (intro nbits_pos) simp
  with Suc show ?case by simp
qed simp

lemma representable_shift: "v < 2 ^ p \<Longrightarrow> representable p (v * 2 ^ k)"
proof (cases "v = 0")
  case False
  assume "v < 2 ^ p"
  then have "nbits v + k - p \<le> k" using nbits_less [of v p] by simp
  then have "(2::nat) ^ (nbits v + k - p) dvd 2 ^ k" by (rule le_imp_power_dvd)
  with False show ?thesis
    by (simp add: representable_def nbits_shift dvd_mult)
qed (simp add: representable_def)

text \<open>The rules by which \<open>simp\<close> evaluates closed floating-point terms.\<close>

lemmas float_eval = F32_def F64_def nbits.simps isqrt.simps isqrt_step_def rne_def rne_pick_def
  round_at_def round_mag_def pack_def round_to_def round_int_def sqrt_pack_def sqrt_scaled_def
  sqrt_mag_def fl_sub_def
  partial_cmp_def fl_lt_def fl_gt_def fl_le_def fl_ge_def fl_eq_def fl_max_def fl_min_def
  fl_clamp_def fl_of_nat_def fl_of_int_def fl_lit_def fl_to_usize_def

subsection \<open>Order\<close>

lemma key_less_irrefl [simp]: "\<not> key_less k k"
  by (cases k) simp

lemma key_less_asym: "key_less a b \<Longrightarrow> \<not> key_less b a"
  by (cases a; cases b) auto

lemma key_less_trans_not: "\<not> key_less b a \<Longrightarrow> \<not> key_less c b \<Longrightarrow> \<not> key_less c a"
  by (cases a; cases b; cases c) auto

lemma partial_cmp_Some_iff: "(\<exists>o'. partial_cmp a b = Some o') \<longleftrightarrow> \<not> is_nan a \<and> \<not> is_nan b"
  by (auto simp: partial_cmp_def)

lemma fl_le_key: "\<not> is_nan a \<Longrightarrow> \<not> is_nan b \<Longrightarrow> fl_le a b \<longleftrightarrow> \<not> key_less (fl_key b) (fl_key a)"
  by (auto simp: fl_le_def partial_cmp_def dest: key_less_asym)

lemma fl_le_refl: "\<not> is_nan a \<Longrightarrow> fl_le a a"
  by (simp add: fl_le_key)

lemma fl_le_trans: "fl_le a b \<Longrightarrow> fl_le b c \<Longrightarrow> fl_le a c"
proof -
  assume ab: "fl_le a b" and bc: "fl_le b c"
  then have n: "\<not> is_nan a" "\<not> is_nan b" "\<not> is_nan c"
    by (auto simp: fl_le_def partial_cmp_def split: if_splits)
  with ab bc show ?thesis using key_less_trans_not by (simp add: fl_le_key)
qed

lemma fl_le_total: "\<not> is_nan a \<Longrightarrow> \<not> is_nan b \<Longrightarrow> fl_le a b \<or> fl_le b a"
  by (auto simp: fl_le_key dest: key_less_asym)

lemma fl_lt_not_le: "fl_lt a b \<Longrightarrow> \<not> fl_le b a"
  by (auto simp: fl_lt_def fl_le_def partial_cmp_def split: if_splits dest: key_less_asym)

lemma fl_le_Fin: "fl_le (Fin s m) (Fin t n) \<longleftrightarrow> sval s m \<le> sval t n"
  by (auto simp: fl_le_key simp del: sval.simps)

text \<open>\<^verbatim>\<open>partial_cmp(..).unwrap_or(Ordering::Equal)\<close>.\<close>

definition cmp_or_equal :: "float_val \<Rightarrow> float_val \<Rightarrow> ordering" where
  "cmp_or_equal a b = (case partial_cmp a b of None \<Rightarrow> Equal | Some c \<Rightarrow> c)"

lemma cmp_or_equal_le:
  "\<not> is_nan a \<Longrightarrow> \<not> is_nan b \<Longrightarrow> cmp_or_equal a b \<noteq> Greater \<longleftrightarrow> fl_le a b"
  by (auto simp: cmp_or_equal_def fl_le_key partial_cmp_def dest: key_less_asym)

text \<open>Scored items compared by descending and by ascending score, as the searches do.\<close>

definition by_score_desc :: "('a \<Rightarrow> f32) \<Rightarrow> 'a \<Rightarrow> 'a \<Rightarrow> ordering" where
  "by_score_desc score x y = cmp_or_equal (score y) (score x)"

definition by_score_asc :: "('a \<Rightarrow> f32) \<Rightarrow> 'a \<Rightarrow> 'a \<Rightarrow> ordering" where
  "by_score_asc score x y = cmp_or_equal (score x) (score y)"

interpretation desc: comparator_on "by_score_desc score" "{x. \<not> is_nan (score x)}" for score
proof unfold_locales
  fix x y z
  assume n: "x \<in> {x. \<not> is_nan (score x)}" "y \<in> {x. \<not> is_nan (score x)}"
  show "by_score_desc score x y = Greater \<Longrightarrow> by_score_desc score y x \<noteq> Greater"
    using n fl_le_total [of "score x" "score y"] cmp_or_equal_le
    by (fastforce simp: by_score_desc_def)
  assume "z \<in> {x. \<not> is_nan (score x)}"
  then show "by_score_desc score x y \<noteq> Greater \<Longrightarrow> by_score_desc score y z \<noteq> Greater \<Longrightarrow>
      by_score_desc score x z \<noteq> Greater"
    using n by (auto simp: by_score_desc_def cmp_or_equal_le intro: fl_le_trans)
qed

interpretation asc: comparator_on "by_score_asc score" "{x. \<not> is_nan (score x)}" for score
proof unfold_locales
  fix x y z
  assume n: "x \<in> {x. \<not> is_nan (score x)}" "y \<in> {x. \<not> is_nan (score x)}"
  show "by_score_asc score x y = Greater \<Longrightarrow> by_score_asc score y x \<noteq> Greater"
    using n fl_le_total [of "score x" "score y"] cmp_or_equal_le
    by (fastforce simp: by_score_asc_def)
  assume "z \<in> {x. \<not> is_nan (score x)}"
  then show "by_score_asc score x y \<noteq> Greater \<Longrightarrow> by_score_asc score y z \<noteq> Greater \<Longrightarrow>
      by_score_asc score x z \<noteq> Greater"
    using n by (auto simp: by_score_asc_def cmp_or_equal_le intro: fl_le_trans)
qed

end
