(* ===== verification/Errors.thy ===== *)
theory Errors
  imports Prelude
begin

text \<open>
  The error types of \<^verbatim>\<open>src/src/error/\<close>: the four subsystem enums, the top-level
  \<^verbatim>\<open>PiramidError\<close>, which errors may be retried, and the HTTP status each one is answered
  with. A panic is kept apart from an \<^verbatim>\<open>Err\<close>: a \<open>fault\<close> is either.
  Formatted messages are lists of the pieces given to \<^verbatim>\<open>format!\<close>.
\<close>

type_synonym uuid = "128 word"

datatype piece = Txt string | Num nat | Id uuid

type_synonym msg = "piece list"

section \<open>Subsystem errors\<close>

datatype storage_error =
    VectorNotFound msg
  | CollectionNotFound msg
  | CollectionExists msg
  | InvalidDimension nat nat
  | InvalidVectorData msg
  | CorruptedData msg
  | StorageFull msg
  | CorruptedIndex msg
  | MemoryMapError msg
  | LockFailed msg
  | WriteFailed msg
  | ReadFailed msg

fun storage_is_recoverable :: "storage_error \<Rightarrow> bool" where
  "storage_is_recoverable (VectorNotFound _) = True"
| "storage_is_recoverable (CollectionNotFound _) = True"
| "storage_is_recoverable (CollectionExists _) = True"
| "storage_is_recoverable (InvalidDimension _ _) = True"
| "storage_is_recoverable (InvalidVectorData _) = True"
| "storage_is_recoverable (StorageFull _) = False"
| "storage_is_recoverable (CorruptedData _) = False"
| "storage_is_recoverable (CorruptedIndex _) = False"
| "storage_is_recoverable (MemoryMapError _) = False"
| "storage_is_recoverable (LockFailed _) = True"
| "storage_is_recoverable (WriteFailed _) = False"
| "storage_is_recoverable (ReadFailed _) = True"

datatype index_error =
    NotInitialized
  | Corrupted msg
  | InvalidConfig msg
  | BuildFailed msg
  | SearchFailed msg
  | NodeNotFound msg
  | InvalidLayer msg
  | PersistenceFailed msg
  | LoadFailed msg

fun index_is_recoverable :: "index_error \<Rightarrow> bool" where
  "index_is_recoverable NotInitialized = True"
| "index_is_recoverable (Corrupted _) = False"
| "index_is_recoverable (InvalidConfig _) = True"
| "index_is_recoverable (BuildFailed _) = True"
| "index_is_recoverable (SearchFailed _) = True"
| "index_is_recoverable (NodeNotFound _) = True"
| "index_is_recoverable (InvalidLayer _) = True"
| "index_is_recoverable (PersistenceFailed _) = False"
| "index_is_recoverable (LoadFailed _) = False"

datatype server_error =
    InvalidRequest msg
  | ValidationFailed msg
  | NotFound msg
  | AlreadyExists msg
  | ServerAuthenticationFailed msg
  | AuthorizationFailed msg
  | ServerRateLimitExceeded
  | ServerTimeout
  | Internal msg
  | ServiceUnavailable msg

fun server_is_recoverable :: "server_error \<Rightarrow> bool" where
  "server_is_recoverable (InvalidRequest _) = True"
| "server_is_recoverable (ValidationFailed _) = True"
| "server_is_recoverable (NotFound _) = True"
| "server_is_recoverable (AlreadyExists _) = True"
| "server_is_recoverable (ServerAuthenticationFailed _) = True"
| "server_is_recoverable (AuthorizationFailed _) = True"
| "server_is_recoverable ServerRateLimitExceeded = True"
| "server_is_recoverable ServerTimeout = True"
| "server_is_recoverable (Internal _) = False"
| "server_is_recoverable (ServiceUnavailable _) = True"

text \<open>\<^verbatim>\<open>axum::http::StatusCode\<close> constants as their numeric codes.\<close>

fun server_status_code :: "server_error \<Rightarrow> nat" where
  "server_status_code (InvalidRequest _) = 400"
| "server_status_code (ValidationFailed _) = 400"
| "server_status_code (NotFound _) = 404"
| "server_status_code (AlreadyExists _) = 409"
| "server_status_code (ServerAuthenticationFailed _) = 401"
| "server_status_code (AuthorizationFailed _) = 403"
| "server_status_code ServerRateLimitExceeded = 429"
| "server_status_code ServerTimeout = 408"
| "server_status_code (Internal _) = 500"
| "server_status_code (ServiceUnavailable _) = 503"

datatype embedding_error =
    RequestFailed msg
  | ApiError msg
  | InvalidResponse msg
  | ConfigError msg
  | RateLimitExceeded
  | AuthenticationFailed msg
  | ProviderUnavailable msg
  | Timeout msg
  | InvalidModel msg

fun embedding_is_recoverable :: "embedding_error \<Rightarrow> bool" where
  "embedding_is_recoverable (RequestFailed _) = True"
| "embedding_is_recoverable (ApiError _) = True"
| "embedding_is_recoverable (InvalidResponse _) = True"
| "embedding_is_recoverable (ConfigError _) = False"
| "embedding_is_recoverable RateLimitExceeded = True"
| "embedding_is_recoverable (AuthenticationFailed _) = False"
| "embedding_is_recoverable (ProviderUnavailable _) = True"
| "embedding_is_recoverable (Timeout _) = True"
| "embedding_is_recoverable (InvalidModel _) = False"

section \<open>PiramidError\<close>

text \<open>Io, Serialization and Json wrap errors of other crates; only their text is kept.\<close>

datatype piramid_error =
    Storage storage_error
  | Index index_error
  | Server server_error
  | Embedding embedding_error
  | Io msg
  | Serialization msg
  | Json msg
  | Other msg

fun is_recoverable :: "piramid_error \<Rightarrow> bool" where
  "is_recoverable (Storage e) = storage_is_recoverable e"
| "is_recoverable (Index e) = index_is_recoverable e"
| "is_recoverable (Server e) = server_is_recoverable e"
| "is_recoverable (Embedding e) = embedding_is_recoverable e"
| "is_recoverable (Io _) = False"
| "is_recoverable (Serialization _) = False"
| "is_recoverable (Json _) = False"
| "is_recoverable (Other _) = False"

fun status_code :: "piramid_error \<Rightarrow> nat" where
  "status_code (Server e) = server_status_code e"
| "status_code (Storage _) = 500"
| "status_code (Index _) = 500"
| "status_code (Embedding _) = 502"
| "status_code (Io _) = 500"
| "status_code (Serialization _) = 500"
| "status_code (Json _) = 500"
| "status_code (Other _) = 500"

text \<open>The texts thiserror derives for the server errors that are nested in other messages.\<close>

fun display_server :: "server_error \<Rightarrow> msg" where
  "display_server (InvalidRequest m) = Txt ''Invalid request: '' # m"
| "display_server (ValidationFailed m) = Txt ''Validation failed: '' # m"
| "display_server (NotFound m) = Txt ''Resource not found: '' # m"
| "display_server (AlreadyExists m) = Txt ''Resource already exists: '' # m"
| "display_server (ServerAuthenticationFailed m) = Txt ''Authentication failed: '' # m"
| "display_server (AuthorizationFailed m) = Txt ''Authorization failed: '' # m"
| "display_server ServerRateLimitExceeded = [Txt ''Rate limit exceeded'']"
| "display_server ServerTimeout = [Txt ''Request timeout'']"
| "display_server (Internal m) = Txt ''Internal server error: '' # m"
| "display_server (ServiceUnavailable m) = Txt ''Service unavailable: '' # m"

fun display_embedding :: "embedding_error \<Rightarrow> msg" where
  "display_embedding (RequestFailed m) = Txt ''HTTP request failed: '' # m"
| "display_embedding (ApiError m) = Txt ''API error: '' # m"
| "display_embedding (InvalidResponse m) = Txt ''Invalid response: '' # m"
| "display_embedding (ConfigError m) = Txt ''Configuration error: '' # m"
| "display_embedding RateLimitExceeded = [Txt ''Rate limit exceeded'']"
| "display_embedding (AuthenticationFailed m) = Txt ''Authentication failed: '' # m"
| "display_embedding (ProviderUnavailable m) = Txt ''Provider unavailable: '' # m"
| "display_embedding (Timeout m) = Txt ''Timeout: '' # m"
| "display_embedding (InvalidModel m) = Txt ''Invalid model: '' # m"

fun display_index :: "index_error \<Rightarrow> msg" where
  "display_index NotInitialized = [Txt ''Index not initialized'']"
| "display_index (Corrupted m) = Txt ''Index corrupted: '' # m"
| "display_index (InvalidConfig m) = Txt ''Invalid index configuration: '' # m"
| "display_index (BuildFailed m) = Txt ''Index build failed: '' # m"
| "display_index (SearchFailed m) = Txt ''Search failed: '' # m"
| "display_index (NodeNotFound m) = Txt ''Node not found: '' # m"
| "display_index (InvalidLayer m) = Txt ''Invalid layer: '' # m"
| "display_index (PersistenceFailed m) = Txt ''Index persistence failed: '' # m"
| "display_index (LoadFailed m) = Txt ''Index load failed: '' # m"

fun display_storage :: "storage_error \<Rightarrow> msg" where
  "display_storage (VectorNotFound m) = Txt ''Vector not found: '' # m"
| "display_storage (CollectionNotFound m) = Txt ''Collection not found: '' # m"
| "display_storage (CollectionExists m) = Txt ''Collection already exists: '' # m"
| "display_storage (InvalidDimension e a) =
     [Txt ''Invalid vector dimension: expected '', Num e, Txt '', got '', Num a]"
| "display_storage (InvalidVectorData m) = Txt ''Invalid vector data: '' # m"
| "display_storage (CorruptedData m) = Txt ''Storage corruption detected: '' # m"
| "display_storage (StorageFull m) = Txt ''Storage full: '' # m"
| "display_storage (CorruptedIndex m) = Txt ''Index file corrupted: '' # m"
| "display_storage (MemoryMapError m) = Txt ''Memory map error: '' # m"
| "display_storage (LockFailed m) = Txt ''Lock acquisition failed: '' # m"
| "display_storage (WriteFailed m) = Txt ''Write operation failed: '' # m"
| "display_storage (ReadFailed m) = Txt ''Read operation failed: '' # m"

fun display :: "piramid_error \<Rightarrow> msg" where
  "display (Storage e) = Txt ''Storage error: '' # display_storage e"
| "display (Index e) = Txt ''Index error: '' # display_index e"
| "display (Server e) = Txt ''Server error: '' # display_server e"
| "display (Embedding e) = Txt ''Embedding error: '' # display_embedding e"
| "display (Io m) = Txt ''IO error: '' # m"
| "display (Serialization m) = Txt ''Serialization error: '' # m"
| "display (Json m) = Txt ''JSON error: '' # m"
| "display (Other m) = m"

text \<open>
  \<^verbatim>\<open>into_response\<close>: the status line and the JSON body's two fields. Server errors are
  rendered by their own implementation, so their text lacks the ''Server error'' prefix.
\<close>

record error_response =
  resp_status :: nat
  resp_error :: msg
  resp_code :: nat

fun server_into_response :: "server_error \<Rightarrow> error_response" where
  "server_into_response e =
     \<lparr>resp_status = server_status_code e, resp_error = display_server e,
      resp_code = server_status_code e\<rparr>"

fun into_response :: "piramid_error \<Rightarrow> error_response" where
  "into_response (Server e) = server_into_response e"
| "into_response e =
     \<lparr>resp_status = status_code e, resp_error = display e, resp_code = status_code e\<rparr>"

section \<open>Faults\<close>

datatype fault = Failed piramid_error | Panicked

type_synonym 'a outcome = "fault + 'a"

definition fail :: "piramid_error \<Rightarrow> 'a outcome" where
  "fail e = Inl (Failed e)"

definition panic :: "'a outcome" where
  "panic = Inl Panicked"

lemma fail_neq_Inr [simp, res_simps]: "fail e \<noteq> Inr x" "Inr x \<noteq> fail e"
  by (simp_all add: fail_def)

lemma panic_neq_Inr [simp, res_simps]: "panic \<noteq> Inr x" "Inr x \<noteq> panic"
  by (simp_all add: panic_def)

lemma and_then_fail [simp, res_simps]: "and_then (fail e) f = fail e"
  by (simp add: fail_def)

lemma and_then_panic [simp, res_simps]: "and_then panic f = panic"
  by (simp add: panic_def)

text \<open>
  \<^verbatim>\<open>ErrorContext\<close>: \<^verbatim>\<open>context\<close> on a \<^verbatim>\<open>Result\<close> prefixes the text, on an
  \<^verbatim>\<open>Option\<close> it names the error.
\<close>

definition result_context :: "msg \<Rightarrow> msg + 'a \<Rightarrow> piramid_error + 'a" where
  "result_context m r =
     (case r of Inl e \<Rightarrow> Inl (Other (m @ Txt '': '' # e)) | Inr x \<Rightarrow> Inr x)"

definition option_context :: "msg \<Rightarrow> 'a option \<Rightarrow> piramid_error + 'a" where
  "option_context m x = (case x of None \<Rightarrow> Inl (Other m) | Some v \<Rightarrow> Inr v)"

section \<open>Properties\<close>

lemma server_status_range: "400 \<le> server_status_code e \<and> server_status_code e \<le> 503"
  by (cases e) simp_all

lemma server_recoverable_iff: "server_is_recoverable e \<longleftrightarrow> server_status_code e \<noteq> 500"
  by (cases e) simp_all

text \<open>
  What a client sees agrees with what the retry logic sees: the response carries the
  error's status in its status line and in its body, the status is a client or server error
  code, and among the statuses only server errors can be retried or not: a server error is
  answered with 500 exactly when it is not recoverable.
\<close>

theorem response_consistent:
  "resp_status (into_response e) = status_code e \<and> resp_code (into_response e) = status_code e
   \<and> 400 \<le> status_code e \<and> status_code e \<le> 503
   \<and> (is_recoverable (Server s) \<longleftrightarrow> status_code (Server s) \<noteq> 500)"
  using server_status_range [where e = "case e of Server s \<Rightarrow> s | _ \<Rightarrow> s"]
  by (cases e) (simp_all add: server_recoverable_iff)

end
