(* ===== verification/Validation.thy ===== *)
theory Validation
  imports Floats Errors
begin

text \<open>
  Request validation and vector normalisation, \<^verbatim>\<open>src/src/validation.rs\<close>. Strings are
  byte strings; \<^verbatim>\<open>char::is_alphanumeric\<close> of a decoded name is Unicode data of the
  standard library and is a parameter, here over the decoded characters.
\<close>

definition invalid_request :: "msg \<Rightarrow> 'a outcome" where
  "invalid_request m = fail (Server (InvalidRequest m))"

lemma invalid_request_neq [simp, res_simps]:
  "invalid_request m \<noteq> Inr x" "Inr x \<noteq> invalid_request m"
  by (simp_all add: invalid_request_def)

section \<open>Vectors\<close>

fun validate_elements :: "nat \<Rightarrow> f32 list \<Rightarrow> unit outcome" where
  "validate_elements i [] = Inr ()"
| "validate_elements i (x # xs) =
     (if is_nan x then invalid_request [Txt ''Vector contains NaN at index '', Num i]
      else if is_infinite x then invalid_request [Txt ''Vector contains Infinity at index '', Num i]
      else validate_elements (Suc i) xs)"

definition validate_vector :: "f32 list \<Rightarrow> unit outcome" where
  "validate_vector v =
     (if v = [] then invalid_request [Txt ''Vector cannot be empty''] else validate_elements 0 v)"

definition rewrap_vector_error :: "nat \<Rightarrow> fault \<Rightarrow> fault" where
  "rewrap_vector_error i f =
     (case f of
        Failed e \<Rightarrow> Failed (Server (InvalidRequest
          ([Txt ''Vector at index '', Num i, Txt '': ''] @ display e)))
      | Panicked \<Rightarrow> Panicked)"

fun validate_vectors_from :: "nat \<Rightarrow> f32 list list \<Rightarrow> unit outcome" where
  "validate_vectors_from i [] = Inr ()"
| "validate_vectors_from i (v # vs) =
     and_then (map_sum (rewrap_vector_error i) (\<lambda>u. u) (validate_vector v))
       (\<lambda>_. validate_vectors_from (Suc i) vs)"

definition validate_vectors :: "f32 list list \<Rightarrow> unit outcome" where
  "validate_vectors vs = validate_vectors_from 0 vs"

text \<open>\<^verbatim>\<open>iter().sum()\<close> adds from the left; the sum of nothing is zero.\<close>

definition f32_sum :: "f32 list \<Rightarrow> f32" where
  "f32_sum xs = foldl fadd f32_zero xs"

definition magnitude :: "f32 list \<Rightarrow> f32" where
  "magnitude v = fsqrt (f32_sum (map (\<lambda>x. fmul x x) v))"

definition normalize_by :: "f32 \<Rightarrow> f32 list \<Rightarrow> f32 list" where
  "normalize_by m v =
     (if fl_eq m f32_zero \<or> is_nan m \<or> is_infinite m
      then replicate (length v) f32_zero
      else map (\<lambda>x. fdiv x m) v)"

definition normalize_vector :: "f32 list \<Rightarrow> f32 list" where
  "normalize_vector v = normalize_by (magnitude v) v"

definition validate_dimensions :: "f32 list \<Rightarrow> nat \<Rightarrow> unit outcome" where
  "validate_dimensions v expected =
     (if length v \<noteq> expected
      then invalid_request [Txt ''Vector dimension mismatch: expected '', Num expected,
             Txt '', got '', Num (length v)]
      else Inr ())"

section \<open>Text, names, batches\<close>

definition validate_text :: "string \<Rightarrow> unit outcome" where
  "validate_text t =
     (if t = [] then invalid_request [Txt ''Text cannot be empty'']
      else if length t > 1000000
        then invalid_request [Txt ''Text too large: '', Num (length t), Txt '' bytes (max 1MB)'']
      else Inr ())"

text \<open>The name's bytes give its length; its decoded characters are checked one by one.\<close>

definition validate_collection_name ::
  "('c \<Rightarrow> bool) \<Rightarrow> 'c \<Rightarrow> 'c \<Rightarrow> (string \<Rightarrow> 'c list) \<Rightarrow> string \<Rightarrow> unit outcome" where
  "validate_collection_name alphanumeric underscore hyphen chars name =
     (if name = [] then invalid_request [Txt ''Collection name cannot be empty'']
      else if length name > 255
        then invalid_request [Txt ''Collection name too long (max 255 chars)'']
      else if \<not> list_all (\<lambda>c. alphanumeric c \<or> c = underscore \<or> c = hyphen) (chars name)
        then invalid_request [Txt
          ''Collection name can only contain alphanumeric characters, underscores, and hyphens'']
      else Inr ())"

definition validate_batch_size :: "nat \<Rightarrow> nat \<Rightarrow> string \<Rightarrow> unit outcome" where
  "validate_batch_size n max_n operation =
     (if n = 0 then invalid_request [Txt operation, Txt '' batch cannot be empty'']
      else if n > max_n
        then invalid_request [Txt operation, Txt '' batch too large: '', Num n,
               Txt '' items (max '', Num max_n, Txt '')'']
      else Inr ())"

section \<open>Lemmas\<close>

lemma validate_elements_ok: "validate_elements i xs = Inr () \<longleftrightarrow> (\<forall>x \<in> set xs. is_finite x)"
proof (induction xs arbitrary: i)
  case (Cons x xs)
  then show ?case by (cases x) simp_all
qed simp

lemma validate_vector_ok: "validate_vector v = Inr () \<longleftrightarrow> v \<noteq> [] \<and> (\<forall>x \<in> set v. is_finite x)"
  by (simp add: validate_vector_def validate_elements_ok)

lemma validate_vectors_from_ok:
  "validate_vectors_from i vs = Inr () \<longleftrightarrow> (\<forall>v \<in> set vs. validate_vector v = Inr ())"
proof (induction vs arbitrary: i)
  case (Cons v vs)
  then show ?case by (cases "validate_vector v") (simp_all add: and_then_eq_Inr)
qed simp

lemma length_normalize_vector [simp]: "length (normalize_vector v) = length v"
  by (simp add: normalize_vector_def normalize_by_def)

lemma validate_dimensions_ok: "validate_dimensions v d = Inr () \<longleftrightarrow> length v = d"
  by (simp add: validate_dimensions_def)

section \<open>Properties\<close>

text \<open>
  Vector validation is exact: a batch is accepted precisely when each vector is
  nonempty and every component is a finite number.
\<close>

theorem validate_vectors_exact:
  "validate_vectors vs = Inr () \<longleftrightarrow> (\<forall>v \<in> set vs. v \<noteq> [] \<and> (\<forall>x \<in> set v. is_finite x))"
  by (simp add: validate_vectors_def validate_vectors_from_ok validate_vector_ok)

theorem validate_vectors_exact_witness:
  "validate_vectors [[f32_one], [f32_zero, f32_one]] = Inr ()"
  using validate_vectors_exact [of "[[f32_one], [f32_zero, f32_one]]"]
  by (simp add: f32_one_def)

text \<open>
  Normalising never leaves the finite numbers by dividing by a degenerate magnitude: it
  keeps the dimension, and when the magnitude is zero, infinite or NaN the result is
  the zero vector.
\<close>

theorem normalize_degenerate:
  "length (normalize_vector v) = length v
   \<and> (fl_eq (magnitude v) f32_zero \<or> is_nan (magnitude v) \<or> is_infinite (magnitude v)
        \<longrightarrow> normalize_vector v = replicate (length v) f32_zero)"
  by (simp add: normalize_vector_def normalize_by_def)

theorem normalize_degenerate_witness:
  "normalize_vector [Inf False, f32_one] = [f32_zero, f32_zero]"
proof -
  have "is_infinite (magnitude [Inf False, f32_one])"
    by (simp add: magnitude_def f32_sum_def f32_one_def float_eval)
  then show ?thesis
    using normalize_degenerate [of "[Inf False, f32_one]"] by (simp add: numeral_2_eq_2)
qed

end
