(* ===== verification/Metadata.thy ===== *)
theory Metadata
  imports Floats
begin

text \<open>
  Document metadata (\<^verbatim>\<open>src/src/metadata.rs\<close>) and the filters over it
  (\<^verbatim>\<open>src/src/search/query/filter.rs\<close>). Equality of values is the derived
  \<^verbatim>\<open>PartialEq\<close>: structural, except that floats compare by IEEE equality.
\<close>

section \<open>Values\<close>

datatype metadata_value =
    MString string
  | MInteger int
  | MFloat f64
  | MBoolean bool
  | MArray "metadata_value list"
  | MNull

type_synonym metadata = "(string, metadata_value) hmap"

fun as_string :: "metadata_value \<Rightarrow> string option" where
  "as_string (MString s) = Some s"
| "as_string _ = None"

fun as_integer :: "metadata_value \<Rightarrow> int option" where
  "as_integer (MInteger i) = Some i"
| "as_integer _ = None"

fun as_float :: "metadata_value \<Rightarrow> f64 option" where
  "as_float (MFloat f) = Some f"
| "as_float _ = None"

fun as_boolean :: "metadata_value \<Rightarrow> bool option" where
  "as_boolean (MBoolean b) = Some b"
| "as_boolean _ = None"

text \<open>\<^verbatim>\<open>metadata([(key, value), ...])\<close>: collecting keeps the last value of a key.\<close>

definition metadata_of :: "(string \<times> metadata_value) list \<Rightarrow> metadata" where
  "metadata_of pairs = fold (\<lambda>(k, v). hm_insert k v) pairs []"

fun mv_eq :: "metadata_value \<Rightarrow> metadata_value \<Rightarrow> bool"
  and mv_list_eq :: "metadata_value list \<Rightarrow> metadata_value list \<Rightarrow> bool" where
  "mv_eq (MString s) (MString t) = (s = t)"
| "mv_eq (MInteger i) (MInteger j) = (i = j)"
| "mv_eq (MFloat f) (MFloat g) = fl_eq f g"
| "mv_eq (MBoolean b) (MBoolean c) = (b = c)"
| "mv_eq (MArray xs) (MArray ys) = mv_list_eq xs ys"
| "mv_eq MNull MNull = True"
| "mv_eq _ _ = False"
| "mv_list_eq [] [] = True"
| "mv_list_eq (x # xs) (y # ys) = (mv_eq x y \<and> mv_list_eq xs ys)"
| "mv_list_eq _ _ = False"

section \<open>Filters\<close>

datatype filter_condition =
    FEq string metadata_value
  | FNe string metadata_value
  | FGt string metadata_value
  | FGte string metadata_value
  | FLt string metadata_value
  | FLte string metadata_value
  | FIn string "metadata_value list"

record filter_query =
  conditions :: "filter_condition list"

definition filter_new :: filter_query where
  "filter_new = \<lparr>conditions = []\<rparr>"

definition filter_push :: "filter_query \<Rightarrow> filter_condition \<Rightarrow> filter_query" where
  "filter_push f c = f\<lparr>conditions := conditions f @ [c]\<rparr>"

definition filter_eq :: "filter_query \<Rightarrow> string \<Rightarrow> metadata_value \<Rightarrow> filter_query" where
  "filter_eq f field v = filter_push f (FEq field v)"

definition filter_ne :: "filter_query \<Rightarrow> string \<Rightarrow> metadata_value \<Rightarrow> filter_query" where
  "filter_ne f field v = filter_push f (FNe field v)"

definition filter_gt :: "filter_query \<Rightarrow> string \<Rightarrow> metadata_value \<Rightarrow> filter_query" where
  "filter_gt f field v = filter_push f (FGt field v)"

definition filter_gte :: "filter_query \<Rightarrow> string \<Rightarrow> metadata_value \<Rightarrow> filter_query" where
  "filter_gte f field v = filter_push f (FGte field v)"

definition filter_lt :: "filter_query \<Rightarrow> string \<Rightarrow> metadata_value \<Rightarrow> filter_query" where
  "filter_lt f field v = filter_push f (FLt field v)"

definition filter_lte :: "filter_query \<Rightarrow> string \<Rightarrow> metadata_value \<Rightarrow> filter_query" where
  "filter_lte f field v = filter_push f (FLte field v)"

definition filter_is_in ::
  "filter_query \<Rightarrow> string \<Rightarrow> metadata_value list \<Rightarrow> filter_query" where
  "filter_is_in f field vs = filter_push f (FIn field vs)"

definition filter_is_empty :: "filter_query \<Rightarrow> bool" where
  "filter_is_empty f \<longleftrightarrow> conditions f = []"

text \<open>Numbers are compared as \<^verbatim>\<open>f64\<close>; an \<^verbatim>\<open>i64\<close> is converted first.\<close>

fun numeric :: "metadata_value \<Rightarrow> f64 option" where
  "numeric (MInteger i) = Some (fl_of_int F64 i)"
| "numeric (MFloat f) = Some f"
| "numeric _ = None"

definition compare_values ::
  "metadata_value option \<Rightarrow> metadata_value \<Rightarrow> (f64 \<Rightarrow> f64 \<Rightarrow> bool) \<Rightarrow> bool" where
  "compare_values actual expected cmp =
     (case actual of
        None \<Rightarrow> False
      | Some a \<Rightarrow>
          (case numeric a of
             None \<Rightarrow> False
           | Some x \<Rightarrow> (case numeric expected of None \<Rightarrow> False | Some y \<Rightarrow> cmp x y)))"

fun condition_matches :: "filter_condition \<Rightarrow> metadata \<Rightarrow> bool" where
  "condition_matches (FEq field e) m =
     (case hm_get m field of None \<Rightarrow> False | Some v \<Rightarrow> mv_eq v e)"
| "condition_matches (FNe field e) m =
     (case hm_get m field of None \<Rightarrow> True | Some v \<Rightarrow> \<not> mv_eq v e)"
| "condition_matches (FGt field e) m = compare_values (hm_get m field) e fl_gt"
| "condition_matches (FGte field e) m = compare_values (hm_get m field) e fl_ge"
| "condition_matches (FLt field e) m = compare_values (hm_get m field) e fl_lt"
| "condition_matches (FLte field e) m = compare_values (hm_get m field) e fl_le"
| "condition_matches (FIn field vs) m =
     (case hm_get m field of None \<Rightarrow> False | Some v \<Rightarrow> list_ex (\<lambda>w. mv_eq w v) vs)"

definition filter_matches :: "filter_query \<Rightarrow> metadata \<Rightarrow> bool" where
  "filter_matches f m \<longleftrightarrow> list_all (\<lambda>c. condition_matches c m) (conditions f)"

section \<open>Lemmas\<close>

lemma filter_matches_push:
  "filter_matches (filter_push f c) m \<longleftrightarrow> filter_matches f m \<and> condition_matches c m"
  by (simp add: filter_matches_def filter_push_def)

lemma filter_matches_new [simp]: "filter_matches filter_new m"
  by (simp add: filter_matches_def filter_new_def)

lemma representable_power: "0 < p \<Longrightarrow> representable p (2 ^ (p + k))"
  using representable_shift [of 1 p "p + k"] one_less_power [of "2::nat" p] by simp

lemma nbits_power_bound:
  assumes "n \<le> 2 ^ p" and "0 < p" shows "representable p (n * 2 ^ k)"
proof (cases "n = 2 ^ p")
  case True
  then have "n * 2 ^ k = 2 ^ (p + k)" by (simp add: power_add)
  with assms(2) show ?thesis by (simp only: representable_power)
next
  case False
  with assms(1) show ?thesis by (intro representable_shift) simp
qed

text \<open>Integers of at most \<open>prec\<close> bits convert exactly.\<close>

lemma fl_of_int_exact:
  assumes "nat \<bar>i\<bar> \<le> 2 ^ prec fmt" and "0 < prec fmt" and "prec fmt + unit_bits fmt < ovf_bits fmt"
  shows "fl_of_int fmt i = Fin (i < 0) (nat \<bar>i\<bar> * 2 ^ unit_bits fmt)"
proof -
  have "round_mag (prec fmt) (nat \<bar>i\<bar> * 2 ^ unit_bits fmt * 1) 1 = nat \<bar>i\<bar> * 2 ^ unit_bits fmt"
    using assms by (intro round_mag_exact nbits_power_bound) simp_all
  moreover have "nat \<bar>i\<bar> * 2 ^ unit_bits fmt < (2::nat) ^ ovf_bits fmt"
  proof -
    have "nat \<bar>i\<bar> * 2 ^ unit_bits fmt \<le> (2::nat) ^ prec fmt * 2 ^ unit_bits fmt"
      using assms(1) by simp
    also have "\<dots> = 2 ^ (prec fmt + unit_bits fmt)" by (simp only: power_add)
    also have "\<dots> < 2 ^ ovf_bits fmt" using assms(3) by (rule power_strict_increasing) simp
    finally show ?thesis .
  qed
  ultimately show ?thesis by (simp add: fl_of_int_def round_to_def pack_def)
qed

lemma fl_of_int_exact_f64:
  "\<bar>i\<bar> \<le> 2 ^ 53 \<Longrightarrow> fl_of_int F64 i = Fin (i < 0) (nat \<bar>i\<bar> * 2 ^ unit_bits F64)"
  by (rule fl_of_int_exact) (simp_all add: F64_def nat_le_iff)

text \<open>One more than \<open>2 ^ 53\<close> is a tie and rounds to the even \<open>2 ^ 53\<close>.\<close>

lemma round_mag_tie: "round_mag 53 ((2 ^ 53 + 1) * 2 ^ u) 1 = 2 ^ 53 * 2 ^ u"
proof -
  let ?n = "(2 ^ 53 + 1) * 2 ^ u :: nat"
  have n: "nbits ?n = 54 + u"
    by (subst nbits_shift) (simp_all add: nbits.simps)
  have d: "2 ^ (1 + u) = (2::nat) ^ u * 2" by simp
  have q: "?n div (2 ^ u * 2) = 2 ^ 52"
    unfolding div_mult2_eq nonzero_mult_div_cancel_right [OF power_not_zero [OF zero_neq_numeral [symmetric]]]
    by simp
  have r: "?n mod (2 ^ u * 2) = 2 ^ u"
    unfolding mult.commute [of "2 ^ 53 + 1"] mult_mod_right [symmetric] by simp
  have "rne ?n (1 * 2 ^ (1 + u)) = 2 ^ 52"
    unfolding rne_def rne_pick_def d mult_1 q r by simp
  then show ?thesis
    unfolding round_mag_def round_at_def div_by_1 n by simp
qed

lemma fl_gt_Fin: "fl_gt (Fin s m) (Fin t n) \<longleftrightarrow> sval t n < sval s m"
  by (auto simp: fl_gt_def partial_cmp_def simp del: sval.simps)

lemma fl_gt_of_int:
  assumes "\<bar>i\<bar> \<le> 2 ^ 53" and "\<bar>j\<bar> \<le> 2 ^ 53"
  shows "fl_gt (fl_of_int F64 i) (fl_of_int F64 j) \<longleftrightarrow> j < i"
proof -
  have v: "sval (k < 0) (nat \<bar>k\<bar> * 2 ^ u) = k * 2 ^ u" for k :: int and u by auto
  show ?thesis
    unfolding fl_of_int_exact_f64 [OF assms(1)] fl_of_int_exact_f64 [OF assms(2)] fl_gt_Fin v
    by (simp del: sval.simps)
qed

lemma fl_of_int_tie: "fl_of_int F64 (2 ^ 53 + 1) = fl_of_int F64 (2 ^ 53)"
proof -
  have m: "nat \<bar>2 ^ 53 + 1\<bar> = 2 ^ 53 + 1" "nat \<bar>2 ^ 53\<bar> = 2 ^ 53" by simp_all
  have e: "round_mag 53 (2 ^ 53 * 2 ^ unit_bits F64) 1 = 2 ^ 53 * 2 ^ unit_bits F64"
    using round_mag_exact [of 53 "2 ^ 53 * 2 ^ unit_bits F64" 1] nbits_power_bound [of "2 ^ 53" 53]
    by (simp only: mult_1_right)
  have p: "prec F64 = 53" by (simp add: F64_def)
  have neg: "(2 ^ 53 + 1 < (0::int)) = False" "(2 ^ 53 < (0::int)) = False" by simp_all
  show ?thesis
    unfolding fl_of_int_def round_to_def m p round_mag_tie e neg ..
qed

lemma fl_gt_irrefl [simp]: "\<not> fl_gt x x"
  by (simp add: fl_gt_def partial_cmp_def)

lemma conditions_simps [simp]:
  "conditions filter_new = []" "conditions (filter_push f c) = conditions f @ [c]"
  by (simp_all add: filter_new_def filter_push_def)

lemma filter_gt_integer:
  "hm_get m field = Some (MInteger i) \<Longrightarrow>
   filter_matches (filter_gt filter_new field (MInteger j)) m
     = fl_gt (fl_of_int F64 i) (fl_of_int F64 j)"
  by (simp add: filter_gt_def filter_matches_push compare_values_def)

lemma filter_matches_perm:
  "mset (conditions g) = mset (conditions f) \<Longrightarrow> filter_matches g m = filter_matches f m"
  unfolding filter_matches_def list_all_iff by (metis set_mset_mset)

section \<open>Properties\<close>

text \<open>
  The filter builder composes conditions with AND: a filter with one more condition
  matches exactly when the old filter and the new condition do, the empty filter matches
  everything, and the order of the conditions is irrelevant.
\<close>

theorem filter_and_semantics:
  "filter_matches filter_new m
   \<and> (filter_matches (filter_push f c) m \<longleftrightarrow> filter_matches f m \<and> condition_matches c m)
   \<and> (mset (conditions g) = mset (conditions f) \<longrightarrow> filter_matches g m = filter_matches f m)"
  by (intro conjI impI filter_matches_new filter_matches_push filter_matches_perm)

theorem filter_and_semantics_witness:
  "filter_matches \<lparr>conditions = [FEq ''a'' MNull, FNe ''b'' MNull]\<rparr> [(''a'', MNull)]
   = filter_matches \<lparr>conditions = [FNe ''b'' MNull, FEq ''a'' MNull]\<rparr> [(''a'', MNull)]"
  using filter_and_semantics
    [of "[(''a'', MNull)]" "\<lparr>conditions = [FNe ''b'' MNull, FEq ''a'' MNull]\<rparr>"
      "FEq ''a'' MNull" "\<lparr>conditions = [FEq ''a'' MNull, FNe ''b'' MNull]\<rparr>"]
  by simp

text \<open>
  Integer range filters are exact as long as both integers have at most 53 bits: a
  document passes \<open>gt\<close> exactly when its stored integer is greater.
\<close>

theorem filter_gt_exact:
  assumes "hm_get m field = Some (MInteger i)" and "\<bar>i\<bar> \<le> 2 ^ 53" and "\<bar>j\<bar> \<le> 2 ^ 53"
  shows "filter_matches (filter_gt filter_new field (MInteger j)) m \<longleftrightarrow> j < i"
  using assms
  by (simp add: filter_gt_def filter_matches_push compare_values_def fl_gt_of_int)

theorem filter_gt_exact_witness:
  "filter_matches (filter_gt filter_new ''year'' (MInteger 2020)) [(''year'', MInteger 2024)]"
  using filter_gt_exact [of "[(''year'', MInteger 2024)]" "''year''" 2024 2020]
  by (simp add: hm_get_def)

text \<open>
  Beyond 53 bits the conversion to \<^verbatim>\<open>f64\<close> loses the difference: a document whose
  integer is greater than the bound by one is rejected by \<open>gt\<close>.
\<close>

theorem filter_gt_imprecise:
  "\<not> filter_matches (filter_gt filter_new ''n'' (MInteger (2 ^ 53)))
     [(''n'', MInteger (2 ^ 53 + 1))]"
proof -
  have "hm_get [(''n'', MInteger (2 ^ 53 + 1))] ''n'' = Some (MInteger (2 ^ 53 + 1))"
    by (simp only: hm_get_def map_of.simps fst_conv snd_conv fun_upd_same)
  from filter_gt_integer [OF this, of "2 ^ 53"] show ?thesis
    by (simp only: fl_of_int_tie fl_gt_irrefl not_False_eq_True)
qed

end
