(* ===== verification/Platform.thy ===== *)
theory Platform
  imports Floats Errors
begin

text \<open>
  What the code takes from the machine and from other crates for its numerics, as a record
  the definitions receive: the compilation target and the detected vector unit,
  \<^verbatim>\<open>num_cpus::get\<close>, the logarithm (whose precision Rust leaves open), the lanes of
  \<^verbatim>\<open>wide::f32x8\<close>, and the way rayon's \<^verbatim>\<open>reduce\<close> and \<^verbatim>\<open>sum\<close> split
  \<open>n\<close> items: a tree of its choosing whose leaves are items or identities, and the iteration order of hash tables
  keyed by UUIDs. The record is extended in Storage with the codecs, the clock and the random
  source.
\<close>

datatype arch = X86_64 | Aarch64 | Other_arch

datatype split_tree = Identity | Item nat | Join split_tree split_tree

text \<open>\<^verbatim>\<open>reduce(identity, op)\<close> over the items, combined along a tree.\<close>

fun par_reduce :: "('a \<Rightarrow> 'a \<Rightarrow> 'a) \<Rightarrow> 'a \<Rightarrow> 'a list \<Rightarrow> split_tree \<Rightarrow> 'a" where
  "par_reduce op e xs Identity = e"
| "par_reduce op e xs (Item i) = (if i < length xs then xs ! i else e)"
| "par_reduce op e xs (Join l r) = op (par_reduce op e xs l) (par_reduce op e xs r)"

lemma par_reduce_hom:
  assumes "h e = e'" and "\<And>x y. h (op x y) = op' (h x) (h y)"
  shows "par_reduce op' e' (map h xs) t = h (par_reduce op e xs t)"
  using assms by (induction t) auto

record platform =
  arch :: arch
  simd_detected :: bool
  num_cpus :: nat
  ln_f32 :: "f32 \<Rightarrow> f32"
  v_add :: "f32 list \<Rightarrow> f32 list \<Rightarrow> f32 list"
  v_sub :: "f32 list \<Rightarrow> f32 list \<Rightarrow> f32 list"
  v_mul :: "f32 list \<Rightarrow> f32 list \<Rightarrow> f32 list"
  par_shape :: "nat \<Rightarrow> split_tree"
  uuid_order :: "uuid list \<Rightarrow> uuid list"

text \<open>The documented behaviour of \<^verbatim>\<open>wide::f32x8\<close>: each lane is an \<^verbatim>\<open>f32\<close> operation.\<close>

definition lanewise :: "'a platform_scheme \<Rightarrow> bool" where
  "lanewise P \<longleftrightarrow>
     v_add P = (\<lambda>x y. map2 fadd x y) \<and> v_sub P = (\<lambda>x y. map2 fsub x y) \<and>
     v_mul P = (\<lambda>x y. map2 fmul x y)"

text \<open>A machine with one core and lanes as documented; the witnesses run on it.\<close>

definition scalar_machine :: platform where
  "scalar_machine = \<lparr>arch = X86_64, simd_detected = True, num_cpus = 1, ln_f32 = (\<lambda>x. x),
     v_add = (\<lambda>x y. map2 fadd x y), v_sub = (\<lambda>x y. map2 fsub x y),
     v_mul = (\<lambda>x y. map2 fmul x y), par_shape = (\<lambda>n. if n = 0 then Identity else Item 0),
     uuid_order = (\<lambda>ids. ids)\<rparr>"

lemma lanewise_scalar_machine [simp]: "lanewise scalar_machine"
  by (simp add: lanewise_def scalar_machine_def)

lemma hash_order_scalar_machine [simp]: "hash_order (uuid_order scalar_machine)"
  by (simp add: scalar_machine_def)

end
