(* ===== verification/Config.thy ===== *)
theory Config
  imports Platform
begin

text \<open>
  The configuration types of \<^verbatim>\<open>src/src/config/\<close> and \<^verbatim>\<open>src/src/index/selector.rs\<close>
  with their defaults, presets and builders, the metric enum of
  \<^verbatim>\<open>src/src/metrics/mod.rs\<close>, and \<^verbatim>\<open>AppConfig::validate\<close>. Sizes are naturals;
  optional settings are options.
\<close>

section \<open>Execution mode and metric\<close>

datatype execution_mode = Auto | Simd | Scalar | Gpu | Parallel | Binary | Jit

definition resolve :: "'p platform_scheme \<Rightarrow> execution_mode \<Rightarrow> execution_mode" where
  "resolve P mode =
     (case mode of
        Auto \<Rightarrow>
          (case arch P of
             X86_64 \<Rightarrow> if simd_detected P then Simd else Scalar
           | Aarch64 \<Rightarrow> if simd_detected P then Simd else Scalar
           | Other_arch \<Rightarrow> Scalar)
      | Simd \<Rightarrow> (case arch P of Other_arch \<Rightarrow> Scalar | _ \<Rightarrow> Simd)
      | Scalar \<Rightarrow> Scalar
      | Gpu \<Rightarrow> Gpu
      | Parallel \<Rightarrow> Parallel
      | Binary \<Rightarrow> Binary
      | Jit \<Rightarrow> Jit)"

definition use_simd :: "'p platform_scheme \<Rightarrow> execution_mode \<Rightarrow> bool" where
  "use_simd P mode \<longleftrightarrow> resolve P mode = Simd \<or> resolve P mode = Parallel"

definition use_parallel :: "'p platform_scheme \<Rightarrow> execution_mode \<Rightarrow> bool" where
  "use_parallel P mode \<longleftrightarrow> resolve P mode = Parallel"

lemma resolve_not_Auto [simp]: "resolve P mode \<noteq> Auto"
  by (cases mode; cases "arch P") (simp_all add: resolve_def)

datatype metric = Cosine | Euclidean | DotProduct

section \<open>Search settings\<close>

record query_budget_config =
  latency_budget_ms :: "nat option"
  recall_target :: "f32 option"
  max_candidates :: "nat option"
  max_filtered_candidates :: "nat option"

definition default_query_budget :: query_budget_config where
  "default_query_budget = \<lparr>latency_budget_ms = None, recall_target = None,
     max_candidates = None, max_filtered_candidates = None\<rparr>"

record adaptive_tuning_config =
  adaptive_enabled :: bool
  min_ef :: nat
  max_ef :: nat
  min_nprobe :: nat
  max_nprobe :: nat
  min_filter_overfetch :: nat
  max_filter_overfetch :: nat

definition default_adaptive_tuning :: adaptive_tuning_config where
  "default_adaptive_tuning = \<lparr>adaptive_enabled = False, min_ef = 16, max_ef = 800,
     min_nprobe = 1, max_nprobe = 64, min_filter_overfetch = 1, max_filter_overfetch = 100\<rparr>"

record search_config =
  ef :: "nat option"
  nprobe :: "nat option"
  filter_overfetch :: nat
  budget :: query_budget_config
  adaptive :: adaptive_tuning_config

definition default_search_config :: search_config where
  "default_search_config = \<lparr>ef = None, nprobe = None, filter_overfetch = 10,
     budget = default_query_budget, adaptive = default_adaptive_tuning\<rparr>"

definition search_high :: search_config where
  "search_high = \<lparr>ef = Some 400, nprobe = Some 20, filter_overfetch = 10,
     budget = default_query_budget, adaptive = default_adaptive_tuning\<rparr>"

definition search_fast :: search_config where
  "search_fast = \<lparr>ef = Some 50, nprobe = Some 1, filter_overfetch = 10,
     budget = default_query_budget, adaptive = default_adaptive_tuning\<rparr>"

datatype search_mode = KNN | Range

record range_search_params =
  max_distance :: f32
  max_results :: "nat option"

definition range_search_params_new :: "f32 \<Rightarrow> range_search_params" where
  "range_search_params_new d = \<lparr>max_distance = d, max_results = None\<rparr>"

definition range_search_params_with_limit :: "f32 \<Rightarrow> nat \<Rightarrow> range_search_params" where
  "range_search_params_with_limit d n = \<lparr>max_distance = d, max_results = Some n\<rparr>"

section \<open>Storage, memory, WAL, cache, limits\<close>

record memory_config =
  max_memory_per_collection :: "nat option"
  initial_mmap_size :: nat
  use_mmap :: bool

definition default_memory_config :: memory_config where
  "default_memory_config = \<lparr>max_memory_per_collection = None,
     initial_mmap_size = 1024 * 1024, use_mmap = True\<rparr>"

definition memory_with_limit_mb :: "nat \<Rightarrow> memory_config" where
  "memory_with_limit_mb mb = \<lparr>max_memory_per_collection = Some (mb * 1024 * 1024),
     initial_mmap_size = 1024 * 1024, use_mmap = True\<rparr>"

definition memory_with_mmap_size_mb :: "nat \<Rightarrow> memory_config" where
  "memory_with_mmap_size_mb mb = \<lparr>max_memory_per_collection = None,
     initial_mmap_size = mb * 1024 * 1024, use_mmap = True\<rparr>"

definition memory_no_mmap :: memory_config where
  "memory_no_mmap = \<lparr>max_memory_per_collection = None, initial_mmap_size = 0, use_mmap = False\<rparr>"

record wal_config =
  wal_enabled :: bool
  checkpoint_frequency :: nat
  checkpoint_interval_secs :: "nat option"
  max_log_size :: nat
  sync_on_write :: bool

definition default_wal_config :: wal_config where
  "default_wal_config = \<lparr>wal_enabled = True, checkpoint_frequency = 1000,
     checkpoint_interval_secs = None, max_log_size = 100 * 1024 * 1024, sync_on_write = False\<rparr>"

definition wal_disabled :: wal_config where
  "wal_disabled = \<lparr>wal_enabled = False, checkpoint_frequency = 0,
     checkpoint_interval_secs = None, max_log_size = 0, sync_on_write = False\<rparr>"

definition wal_high_durability :: wal_config where
  "wal_high_durability = \<lparr>wal_enabled = True, checkpoint_frequency = 100,
     checkpoint_interval_secs = Some 1, max_log_size = 50 * 1024 * 1024, sync_on_write = True\<rparr>"

definition wal_fast :: wal_config where
  "wal_fast = \<lparr>wal_enabled = True, checkpoint_frequency = 10000,
     checkpoint_interval_secs = None, max_log_size = 500 * 1024 * 1024, sync_on_write = False\<rparr>"

record cache_config =
  cache_enabled :: bool
  max_size :: nat
  ttl_seconds :: "nat option"
  cache_max_bytes :: "nat option"

definition default_cache_config :: cache_config where
  "default_cache_config = \<lparr>cache_enabled = True, max_size = 10000, ttl_seconds = None,
     cache_max_bytes = None\<rparr>"

definition cache_disabled :: cache_config where
  "cache_disabled = \<lparr>cache_enabled = False, max_size = 0, ttl_seconds = None,
     cache_max_bytes = Some 0\<rparr>"

definition cache_with_size :: "nat \<Rightarrow> cache_config" where
  "cache_with_size n = \<lparr>cache_enabled = True, max_size = n, ttl_seconds = None,
     cache_max_bytes = None\<rparr>"

definition cache_with_size_and_ttl :: "nat \<Rightarrow> nat \<Rightarrow> cache_config" where
  "cache_with_size_and_ttl n t = \<lparr>cache_enabled = True, max_size = n, ttl_seconds = Some t,
     cache_max_bytes = None\<rparr>"

definition cache_with_max_bytes :: "nat \<Rightarrow> cache_config \<Rightarrow> cache_config" where
  "cache_with_max_bytes b c = c\<lparr>cache_max_bytes := Some b\<rparr>"

record limits_config =
  max_vectors :: "nat option"
  max_bytes :: "nat option"
  max_vector_bytes :: "nat option"

definition default_limits :: limits_config where
  "default_limits = \<lparr>max_vectors = None, max_bytes = None, max_vector_bytes = None\<rparr>"

section \<open>Parallelism, hardware, logging\<close>

datatype parallelism_mode = SingleThreaded | AutoThreads | Fixed nat

record parallelism_config =
  par_mode :: parallelism_mode
  parallel_search :: bool

definition default_parallelism :: parallelism_config where
  "default_parallelism = \<lparr>par_mode = AutoThreads, parallel_search = True\<rparr>"

definition par_single_threaded :: parallelism_config where
  "par_single_threaded = \<lparr>par_mode = SingleThreaded, parallel_search = False\<rparr>"

definition par_fixed :: "nat \<Rightarrow> parallelism_config" where
  "par_fixed n = \<lparr>par_mode = Fixed n, parallel_search = True\<rparr>"

definition num_threads :: "'p platform_scheme \<Rightarrow> parallelism_config \<Rightarrow> nat" where
  "num_threads P c =
     (case par_mode c of SingleThreaded \<Rightarrow> 1 | AutoThreads \<Rightarrow> num_cpus P | Fixed n \<Rightarrow> n)"

definition with_num_threads :: "nat \<Rightarrow> parallelism_config \<Rightarrow> parallelism_config" where
  "with_num_threads n c = c\<lparr>par_mode := Fixed n, parallel_search := n > 1\<rparr>"

datatype hardware_profile =
  Profile_Auto | CpuOnly | Profile_Gpu | Memory8Gb | Memory16Gb | Memory32Gb

record hardware_config =
  profile :: hardware_profile
  cpu_threads :: "nat option"
  memory_budget_bytes :: "nat option"
  gpu_enabled :: bool
  gpu_memory_budget_bytes :: "nat option"

definition default_hardware :: hardware_config where
  "default_hardware = \<lparr>profile = Profile_Auto, cpu_threads = None,
     memory_budget_bytes = None, gpu_enabled = False, gpu_memory_budget_bytes = None\<rparr>"

definition hardware_cpu_only :: hardware_config where
  "hardware_cpu_only = default_hardware\<lparr>profile := CpuOnly, gpu_enabled := False\<rparr>"

definition hardware_gpu :: hardware_config where
  "hardware_gpu = default_hardware\<lparr>profile := Profile_Gpu, gpu_enabled := True\<rparr>"

datatype log_level = Error | Warn | Info | Debug | Trace

record logging_config =
  log_enabled :: bool
  log_level :: log_level
  log_config :: bool
  log_indexing :: bool
  log_search :: bool
  log_writes :: bool
  log_inference :: bool
  slow_query_ms :: "nat option"

definition default_logging :: logging_config where
  "default_logging = \<lparr>log_enabled = True, log_level = Info, log_config = True,
     log_indexing = True, log_search = True, log_writes = True, log_inference = True,
     slow_query_ms = Some 500\<rparr>"

section \<open>Quantization settings\<close>

datatype quantization_level = QNone | Int8 | Pq nat | Int4 | Float16

datatype quantization_stage =
  Stage_Disabled | Stage_Storage | Stage_Index | QueryPreSearch | ResultPostSearch

record quantization_config =
  level :: quantization_level
  disk_only :: bool
  stage :: quantization_stage
  preserve_raw_vectors :: bool
  storage_enabled :: bool
  index_enabled :: bool
  query_enabled :: bool
  result_enabled :: bool

definition default_quantization :: quantization_config where
  "default_quantization = \<lparr>level = QNone, disk_only = False, stage = Stage_Disabled,
     preserve_raw_vectors = True, storage_enabled = False, index_enabled = False,
     query_enabled = False, result_enabled = False\<rparr>"

definition quantization_int8 :: quantization_config where
  "quantization_int8 = \<lparr>level = Int8, disk_only = False, stage = Stage_Index,
     preserve_raw_vectors = True, storage_enabled = False, index_enabled = True,
     query_enabled = False, result_enabled = False\<rparr>"

definition quantization_int8_disk_only :: quantization_config where
  "quantization_int8_disk_only = \<lparr>level = Int8, disk_only = True, stage = Stage_Storage,
     preserve_raw_vectors = False, storage_enabled = True, index_enabled = False,
     query_enabled = False, result_enabled = False\<rparr>"

definition quantization_pq :: "nat \<Rightarrow> quantization_config" where
  "quantization_pq m = \<lparr>level = Pq m, disk_only = False, stage = Stage_Index,
     preserve_raw_vectors = True, storage_enabled = False, index_enabled = True,
     query_enabled = False, result_enabled = False\<rparr>"

definition pre_search :: "quantization_config \<Rightarrow> quantization_config" where
  "pre_search c = c\<lparr>stage := QueryPreSearch, query_enabled := True\<rparr>"

definition post_search :: "quantization_config \<Rightarrow> quantization_config" where
  "post_search c = c\<lparr>stage := ResultPostSearch, result_enabled := True\<rparr>"

section \<open>Index settings\<close>

record auto_index_config =
  flat_max_vectors :: nat
  ivf_max_vectors :: nat
  ivf_num_clusters :: "nat option"
  ivf_num_probes :: "nat option"
  ivf_max_iterations :: nat
  hnsw_m :: nat
  hnsw_ef_construction :: nat
  hnsw_ef_search :: nat

definition default_auto_index :: auto_index_config where
  "default_auto_index = \<lparr>flat_max_vectors = 10000, ivf_max_vectors = 100000,
     ivf_num_clusters = None, ivf_num_probes = None, ivf_max_iterations = 10,
     hnsw_m = 16, hnsw_ef_construction = 200, hnsw_ef_search = 200\<rparr>"

datatype index_config =
    AutoIndex (ic_metric: metric) (ic_mode: execution_mode) (ic_search: search_config)
      auto_index_config
  | FlatIndex (ic_metric: metric) (ic_mode: execution_mode) (ic_search: search_config)
  | HnswIndex nat nat nat nat f32 (ic_metric: metric) (ic_mode: execution_mode)
      (ic_search: search_config)
    \<comment> \<open>m, m_max, ef_construction, ef_search, ml\<close>
  | IvfIndex nat nat nat (ic_metric: metric) (ic_mode: execution_mode)
      (ic_search: search_config)
    \<comment> \<open>num_clusters, num_probes, max_iterations\<close>

definition default_index_config :: index_config where
  "default_index_config = AutoIndex Cosine Auto default_search_config default_auto_index"

datatype index_type = Flat | Hnsw | Ivf

fun select_type :: "index_config \<Rightarrow> nat \<Rightarrow> index_type" where
  "select_type (AutoIndex _ _ _ auto) n =
     (if n < flat_max_vectors auto then Flat
      else if n < ivf_max_vectors auto then Ivf
      else Hnsw)"
| "select_type (FlatIndex _ _ _) n = Flat"
| "select_type (HnswIndex _ _ _ _ _ _ _ _) n = Hnsw"
| "select_type (IvfIndex _ _ _ _ _ _) n = Ivf"

definition get_metric_and_mode :: "index_config \<Rightarrow> metric \<times> execution_mode" where
  "get_metric_and_mode c = (ic_metric c, ic_mode c)"

definition search_config_of :: "index_config \<Rightarrow> search_config" where
  "search_config_of c = ic_search c"

fun auto_config :: "index_config \<Rightarrow> auto_index_config" where
  "auto_config (AutoIndex _ _ _ auto) = auto"
| "auto_config _ = default_auto_index"

section \<open>Collection and application configuration\<close>

record collection_config =
  cc_index :: index_config
  cc_search :: search_config
  cc_quantization :: quantization_config
  cc_memory :: memory_config
  cc_wal :: wal_config
  cc_parallelism :: parallelism_config
  cc_execution :: execution_mode
  cc_hardware :: hardware_config
  cc_limits :: limits_config
  cc_cache :: cache_config
  cc_logging :: logging_config

definition default_collection_config :: collection_config where
  "default_collection_config = \<lparr>cc_index = default_index_config,
     cc_search = default_search_config, cc_quantization = default_quantization,
     cc_memory = default_memory_config, cc_wal = default_wal_config,
     cc_parallelism = default_parallelism, cc_execution = Auto,
     cc_hardware = default_hardware, cc_limits = default_limits,
     cc_cache = default_cache_config, cc_logging = default_logging\<rparr>"

definition config_with_index :: "index_config \<Rightarrow> collection_config" where
  "config_with_index i = default_collection_config\<lparr>cc_index := i\<rparr>"

definition with_int8_quantization :: "collection_config \<Rightarrow> collection_config" where
  "with_int8_quantization c = c\<lparr>cc_quantization := quantization_int8\<rparr>"

definition with_memory_limit_mb :: "nat \<Rightarrow> collection_config \<Rightarrow> collection_config" where
  "with_memory_limit_mb mb c = c\<lparr>cc_memory := memory_with_limit_mb mb\<rparr>"

definition without_wal :: "collection_config \<Rightarrow> collection_config" where
  "without_wal c = c\<lparr>cc_wal := wal_disabled\<rparr>"

definition single_threaded :: "collection_config \<Rightarrow> collection_config" where
  "single_threaded c = c\<lparr>cc_parallelism := par_single_threaded\<rparr>"

definition with_execution_mode :: "execution_mode \<Rightarrow> collection_config \<Rightarrow> collection_config" where
  "with_execution_mode m c = c\<lparr>cc_execution := m\<rparr>"

definition with_limits :: "limits_config \<Rightarrow> collection_config \<Rightarrow> collection_config" where
  "with_limits l c = c\<lparr>cc_limits := l\<rparr>"

record app_config =
  app_index :: index_config
  app_quantization :: quantization_config
  app_memory :: memory_config
  app_wal :: wal_config
  app_parallelism :: parallelism_config
  app_execution :: execution_mode
  app_hardware :: hardware_config
  app_search :: search_config
  app_limits :: limits_config
  app_cache :: cache_config
  app_logging :: logging_config

definition default_app_config :: app_config where
  "default_app_config = \<lparr>app_index = default_index_config,
     app_quantization = default_quantization, app_memory = default_memory_config,
     app_wal = default_wal_config, app_parallelism = default_parallelism,
     app_execution = Auto, app_hardware = default_hardware,
     app_search = default_search_config, app_limits = default_limits,
     app_cache = default_cache_config, app_logging = default_logging\<rparr>"

definition to_collection_config :: "app_config \<Rightarrow> collection_config" where
  "to_collection_config a = \<lparr>cc_index = app_index a, cc_search = app_search a,
     cc_quantization = app_quantization a, cc_memory = app_memory a, cc_wal = app_wal a,
     cc_parallelism = app_parallelism a, cc_execution = app_execution a,
     cc_hardware = app_hardware a, cc_limits = app_limits a, cc_cache = app_cache a,
     cc_logging = app_logging a\<rparr>"

section \<open>Validation\<close>

definition validate_auto_index :: "auto_index_config \<Rightarrow> string + unit" where
  "validate_auto_index auto =
     (if flat_max_vectors auto = 0 then Inl ''INDEX auto flat_max_vectors must be > 0''
      else if ivf_max_vectors auto \<le> flat_max_vectors auto
        then Inl ''INDEX auto ivf_max_vectors must be greater than flat_max_vectors''
      else if ivf_num_clusters auto = Some 0
        then Inl ''INDEX auto ivf_num_clusters must be > 0 when set''
      else if ivf_num_probes auto = Some 0
        then Inl ''INDEX auto ivf_num_probes must be > 0 when set''
      else if ivf_max_iterations auto = 0 then Inl ''INDEX auto ivf_max_iterations must be > 0''
      else if hnsw_m auto = 0 then Inl ''INDEX auto hnsw_m must be > 0''
      else if hnsw_ef_construction auto = 0 \<or> hnsw_ef_search auto = 0
        then Inl ''INDEX auto HNSW ef values must be > 0''
      else Inr ())"

text \<open>The checks of \<^verbatim>\<open>validate\<close> in order: each returns the first failing message.\<close>

definition check :: "bool \<Rightarrow> string \<Rightarrow> string + unit" where
  "check bad m = (if bad then Inl m else Inr ())"

definition recall_out_of_range :: "f32 \<Rightarrow> bool" where
  "recall_out_of_range r \<longleftrightarrow> \<not> (fl_le f32_zero r \<and> fl_le r f32_one)"

definition validate :: "app_config \<Rightarrow> string + unit" where
  "validate a =
     and_then (check (app_execution a = Gpu) ''EXECUTION_MODE gpu is not implemented'') (\<lambda>_.
     and_then (check (level (app_quantization a) \<in> {Int4, Float16})
       ''Configured quantization level is not implemented'') (\<lambda>_.
     and_then (check (wal_enabled (app_wal a) \<and> checkpoint_frequency (app_wal a) = 0)
       ''WAL checkpoint_frequency must be > 0 when WAL is enabled'') (\<lambda>_.
     and_then (check (filter_overfetch (app_search a) = 0)
       ''SEARCH filter_overfetch must be >= 1'') (\<lambda>_.
     and_then (check (case recall_target (budget (app_search a)) of
           None \<Rightarrow> False | Some r \<Rightarrow> recall_out_of_range r)
       ''SEARCH budget recall_target must be between 0.0 and 1.0'') (\<lambda>_.
     and_then (check (min_ef (adaptive (app_search a)) = 0 \<or>
           max_ef (adaptive (app_search a)) < min_ef (adaptive (app_search a)))
       ''SEARCH adaptive ef range is invalid'') (\<lambda>_.
     and_then (check (min_nprobe (adaptive (app_search a)) = 0 \<or>
           max_nprobe (adaptive (app_search a)) < min_nprobe (adaptive (app_search a)))
       ''SEARCH adaptive nprobe range is invalid'') (\<lambda>_.
     and_then (check (min_filter_overfetch (adaptive (app_search a)) = 0 \<or>
           max_filter_overfetch (adaptive (app_search a))
             < min_filter_overfetch (adaptive (app_search a)))
       ''SEARCH adaptive filter_overfetch range is invalid'') (\<lambda>_.
     and_then (check (use_mmap (app_memory a) \<and> initial_mmap_size (app_memory a) = 0)
       ''MEMORY initial_mmap_size must be > 0 when mmap is enabled'') (\<lambda>_.
     and_then (case app_index a of AutoIndex _ _ _ auto \<Rightarrow> validate_auto_index auto
                 | _ \<Rightarrow> Inr ()) (\<lambda>_.
     and_then (check (level (app_quantization a) = QNone \<and>
           stage (app_quantization a) \<noteq> Stage_Disabled)
       ''QUANTIZATION stage must be disabled when level is none'') (\<lambda>_.
     and_then (check (level (app_quantization a) = QNone \<and>
           (storage_enabled (app_quantization a) \<or> index_enabled (app_quantization a) \<or>
            query_enabled (app_quantization a) \<or> result_enabled (app_quantization a)))
       ''QUANTIZATION enabled flags require a non-none level'') (\<lambda>_.
     check (gpu_enabled (app_hardware a) \<and> app_execution a = Scalar)
       ''HARDWARE gpu_enabled conflicts with scalar execution mode''))))))))))))"

definition apply_hardware_profile :: "app_config \<Rightarrow> app_config" where
  "apply_hardware_profile a =
     (let h = app_hardware a in
      case profile h of
        Profile_Auto \<Rightarrow> a
      | CpuOnly \<Rightarrow> a\<lparr>app_hardware := h\<lparr>gpu_enabled := False\<rparr>, app_execution := Auto\<rparr>
      | Profile_Gpu \<Rightarrow> a\<lparr>app_hardware := h\<lparr>gpu_enabled := True\<rparr>, app_execution := Gpu\<rparr>
      | Memory8Gb \<Rightarrow>
          a\<lparr>app_hardware := h\<lparr>memory_budget_bytes := Some (8 * 1024 * 1024 * 1024)\<rparr>,
            app_cache := (app_cache a)\<lparr>cache_max_bytes := Some (512 * 1024 * 1024)\<rparr>,
            app_memory := (app_memory a)
              \<lparr>max_memory_per_collection := Some (2 * 1024 * 1024 * 1024)\<rparr>\<rparr>
      | Memory16Gb \<Rightarrow>
          a\<lparr>app_hardware := h\<lparr>memory_budget_bytes := Some (16 * 1024 * 1024 * 1024)\<rparr>,
            app_cache := (app_cache a)\<lparr>cache_max_bytes := Some (1024 * 1024 * 1024)\<rparr>,
            app_memory := (app_memory a)
              \<lparr>max_memory_per_collection := Some (4 * 1024 * 1024 * 1024)\<rparr>\<rparr>
      | Memory32Gb \<Rightarrow>
          a\<lparr>app_hardware := h\<lparr>memory_budget_bytes := Some (32 * 1024 * 1024 * 1024)\<rparr>,
            app_cache := (app_cache a)\<lparr>cache_max_bytes := Some (2 * 1024 * 1024 * 1024)\<rparr>,
            app_memory := (app_memory a)
              \<lparr>max_memory_per_collection := Some (8 * 1024 * 1024 * 1024)\<rparr>\<rparr>)"

section \<open>What a validated configuration guarantees\<close>

text \<open>The settings the operations rely on; \<open>validate\<close> accepts exactly these.\<close>

definition auto_index_ok :: "auto_index_config \<Rightarrow> bool" where
  "auto_index_ok auto \<longleftrightarrow>
     0 < flat_max_vectors auto \<and> flat_max_vectors auto < ivf_max_vectors auto \<and>
     ivf_num_clusters auto \<noteq> Some 0 \<and> ivf_num_probes auto \<noteq> Some 0 \<and>
     0 < ivf_max_iterations auto \<and> 0 < hnsw_m auto \<and> 0 < hnsw_ef_construction auto \<and>
     0 < hnsw_ef_search auto"

definition config_ok :: "app_config \<Rightarrow> bool" where
  "config_ok a \<longleftrightarrow>
     app_execution a \<noteq> Gpu \<and> level (app_quantization a) \<notin> {Int4, Float16} \<and>
     (wal_enabled (app_wal a) \<longrightarrow> 0 < checkpoint_frequency (app_wal a)) \<and>
     0 < filter_overfetch (app_search a) \<and>
     (\<forall>r. recall_target (budget (app_search a)) = Some r \<longrightarrow> \<not> recall_out_of_range r) \<and>
     0 < min_ef (adaptive (app_search a)) \<and>
     min_ef (adaptive (app_search a)) \<le> max_ef (adaptive (app_search a)) \<and>
     0 < min_nprobe (adaptive (app_search a)) \<and>
     min_nprobe (adaptive (app_search a)) \<le> max_nprobe (adaptive (app_search a)) \<and>
     0 < min_filter_overfetch (adaptive (app_search a)) \<and>
     min_filter_overfetch (adaptive (app_search a))
       \<le> max_filter_overfetch (adaptive (app_search a)) \<and>
     (use_mmap (app_memory a) \<longrightarrow> 0 < initial_mmap_size (app_memory a)) \<and>
     (\<forall>m e s auto. app_index a = AutoIndex m e s auto \<longrightarrow> auto_index_ok auto) \<and>
     (level (app_quantization a) = QNone \<longrightarrow>
        stage (app_quantization a) = Stage_Disabled \<and> \<not> storage_enabled (app_quantization a) \<and>
        \<not> index_enabled (app_quantization a) \<and> \<not> query_enabled (app_quantization a) \<and>
        \<not> result_enabled (app_quantization a)) \<and>
     \<not> (gpu_enabled (app_hardware a) \<and> app_execution a = Scalar)"

lemma check_Inr: "check bad m = Inr u \<longleftrightarrow> \<not> bad"
  by (simp add: check_def)

lemma validate_auto_index_iff: "validate_auto_index auto = Inr () \<longleftrightarrow> auto_index_ok auto"
  by (auto simp: validate_auto_index_def auto_index_ok_def)

lemma validate_iff: "validate a = Inr () \<longleftrightarrow> config_ok a"
proof -
  have index: "(case app_index a of AutoIndex _ _ _ auto \<Rightarrow> validate_auto_index auto | _ \<Rightarrow> Inr ())
      = Inr () \<longleftrightarrow> (\<forall>m e s auto. app_index a = AutoIndex m e s auto \<longrightarrow> auto_index_ok auto)"
    by (cases "app_index a") (simp_all add: validate_auto_index_iff)
  have recall: "(case recall_target (budget (app_search a)) of None \<Rightarrow> False
      | Some r \<Rightarrow> recall_out_of_range r) \<longleftrightarrow>
      (\<exists>r. recall_target (budget (app_search a)) = Some r \<and> recall_out_of_range r)"
    by (simp split: option.split)
  have unit_ex: "(\<exists>x::unit. P x) \<longleftrightarrow> P ()" for P by auto
  show ?thesis
    unfolding validate_def config_ok_def and_then_eq_Inr unit_ex check_Inr index recall
    by (simp only: de_Morgan_conj de_Morgan_disj not_less not_le neq0_conv not_not
        imp_conv_disj not_ex disj_conj_distribL disj_conj_distribR) (simp only: conj_ac disj_ac)
qed

text \<open>
  Configuration validation is exact: \<open>validate\<close> returns Ok on precisely the
  configurations that satisfy every documented constraint, so no invalid one passes and no valid
  one is rejected.
\<close>

theorem validate_exact: "validate a = Inr () \<longleftrightarrow> config_ok a"
  by (rule validate_iff)

text \<open>
  The GPU hardware profile can never be served: applying it selects the GPU execution
  mode, which validation rejects whatever else is configured, so a server configured with it
  refuses to start.
\<close>

theorem gpu_profile_rejected:
  "profile (app_hardware a) = Profile_Gpu \<Longrightarrow>
   validate (apply_hardware_profile a) = Inl ''EXECUTION_MODE gpu is not implemented''"
  by (simp add: apply_hardware_profile_def validate_def check_def Let_def)

theorem gpu_profile_rejected_witness:
  "validate (apply_hardware_profile (default_app_config\<lparr>app_hardware := hardware_gpu\<rparr>))
     = Inl ''EXECUTION_MODE gpu is not implemented''"
  by (rule gpu_profile_rejected) (simp add: hardware_gpu_def)

text \<open>The shipped defaults are valid.\<close>

lemma default_config_ok: "config_ok default_app_config"
  by (simp add: config_ok_def default_app_config_def default_index_config_def
      default_quantization_def default_memory_config_def default_wal_config_def
      default_search_config_def default_adaptive_tuning_def default_query_budget_def
      default_auto_index_def auto_index_ok_def default_hardware_def)

end
