(* ===== verification/Kernels.thy ===== *)
theory Kernels
  imports Config
begin

text \<open>
  The similarity kernels of \<^verbatim>\<open>src/src/compute/\<close> in each execution mode and
  \<^verbatim>\<open>Metric::calculate\<close> of \<^verbatim>\<open>src/src/metrics/mod.rs\<close>. A loop over
  \<open>0..len\<close> is a fold over the indices, in its order, with every operation rounded.
  \<open>assert_eq!\<close> on the lengths is a panic, like the GPU mode. Loop counters of type
  \<^verbatim>\<open>u32\<close> wrap.
\<close>

section \<open>Loops\<close>

definition sum_loop :: "(nat \<Rightarrow> f32) \<Rightarrow> nat list \<Rightarrow> f32 \<Rightarrow> f32" where
  "sum_loop term is s = foldl (\<lambda>s i. fadd s (term i)) s is"

definition same_length :: "f32 list \<Rightarrow> f32 list \<Rightarrow> 'a \<Rightarrow> 'a outcome" where
  "same_length a b r = (if length a = length b then Inr r else panic)"

definition dot_term :: "f32 list \<Rightarrow> f32 list \<Rightarrow> nat \<Rightarrow> f32" where
  "dot_term a b i = fmul (a ! i) (b ! i)"

definition diff_term :: "f32 list \<Rightarrow> f32 list \<Rightarrow> nat \<Rightarrow> f32" where
  "diff_term a b i = fsub (a ! i) (b ! i)"

definition sq_term :: "f32 list \<Rightarrow> f32 list \<Rightarrow> nat \<Rightarrow> f32" where
  "sq_term a b i = fmul (diff_term a b i) (diff_term a b i)"

text \<open>\<^verbatim>\<open>par_chunks(n)\<close>; \<open>n\<close> is at least 1024 in every use.\<close>

function chunk_starts :: "nat \<Rightarrow> nat \<Rightarrow> nat \<Rightarrow> (nat \<times> nat) list" where
  "chunk_starts n lo hi =
     (if n = 0 \<or> hi \<le> lo then [] else (lo, min (lo + n) hi) # chunk_starts n (lo + n) hi)"
  by pat_completeness auto
termination by (relation "measure (\<lambda>(n, lo, hi). hi - lo)") auto

declare chunk_starts.simps [simp del]

definition chunk_size :: "'p platform_scheme \<Rightarrow> nat \<Rightarrow> nat" where
  "chunk_size P n = max (n div num_cpus P) 1024"

definition chunk_ranges :: "'p platform_scheme \<Rightarrow> nat \<Rightarrow> nat list list" where
  "chunk_ranges P n = map (\<lambda>(i, j). [i..<j]) (chunk_starts (chunk_size P n) 0 n)"

definition parallel_sum :: "'p platform_scheme \<Rightarrow> (nat \<Rightarrow> f32) \<Rightarrow> nat \<Rightarrow> f32" where
  "parallel_sum P term n =
     (let sums = map (\<lambda>is. sum_loop term is f32_zero) (chunk_ranges P n)
      in par_reduce fadd f32_zero sums (par_shape P (length sums)))"

text \<open>Eight lanes of a vector, and the sum of eight lanes.\<close>

definition lanes8 :: "f32 list \<Rightarrow> nat \<Rightarrow> f32 list" where
  "lanes8 a i = map (\<lambda>j. a ! (8 * i + j)) [0..<8]"

definition lane_loop ::
  "'p platform_scheme \<Rightarrow> (nat \<Rightarrow> f32 list) \<Rightarrow> nat \<Rightarrow> f32 list" where
  "lane_loop P term chunks =
     foldl (\<lambda>s i. v_add P s (term i)) (replicate 8 f32_zero) [0..<chunks]"

definition lane_sum :: "f32 list \<Rightarrow> f32" where
  "lane_sum v = foldl fadd f32_zero v"

definition tail_indices :: "nat \<Rightarrow> nat list" where
  "tail_indices n = [n - n mod 8..<n]"

definition bit_of :: "f32 \<Rightarrow> nat" where
  "bit_of x = (if fl_ge x f32_zero then 1 else 0)"

definition hamming :: "f32 list \<Rightarrow> f32 list \<Rightarrow> nat" where
  "hamming a b = length (filter (\<lambda>i. bit_of (a ! i) \<noteq> bit_of (b ! i)) [0..<length a]) mod 2 ^ 32"

section \<open>Dot product\<close>

definition dot_product_scalar :: "f32 list \<Rightarrow> f32 list \<Rightarrow> f32 outcome" where
  "dot_product_scalar a b =
     same_length a b (sum_loop (dot_term a b) [0..<length a] f32_zero)"

definition dot_product_simd :: "'p platform_scheme \<Rightarrow> f32 list \<Rightarrow> f32 list \<Rightarrow> f32 outcome" where
  "dot_product_simd P a b =
     same_length a b
       (sum_loop (dot_term a b) (tail_indices (length a))
          (lane_sum (lane_loop P (\<lambda>i. v_mul P (lanes8 a i) (lanes8 b i)) (length a div 8))))"

definition dot_product_parallel ::
  "'p platform_scheme \<Rightarrow> f32 list \<Rightarrow> f32 list \<Rightarrow> f32 outcome" where
  "dot_product_parallel P a b = same_length a b (parallel_sum P (dot_term a b) (length a))"

definition dot_product_binary :: "f32 list \<Rightarrow> f32 list \<Rightarrow> f32 outcome" where
  "dot_product_binary a b =
     same_length a b (f32_of_nat
       (length (filter (\<lambda>i. bit_of (a ! i) = 1 \<and> bit_of (b ! i) = 1) [0..<length a]) mod 2 ^ 32))"

text \<open>One statement adds the sum of eight terms, associated to the left.\<close>

definition block8_sum :: "(nat \<Rightarrow> f32) \<Rightarrow> nat \<Rightarrow> f32" where
  "block8_sum term i = foldl fadd (term i) (map term [i + 1..<i + 8])"

definition blocks :: "nat \<Rightarrow> nat list" where
  "blocks n = map (\<lambda>k. 8 * k) [0..<(n + 7) div 8]"

definition dot_product_jit_1536 :: "f32 list \<Rightarrow> f32 list \<Rightarrow> f32" where
  "dot_product_jit_1536 a b =
     foldl (\<lambda>s i. fadd s (block8_sum (dot_term a b) i)) f32_zero (blocks 1536)"

definition dot_product_jit_generic :: "f32 list \<Rightarrow> f32 list \<Rightarrow> f32" where
  "dot_product_jit_generic a b = sum_loop (dot_term a b) [0..<length a] f32_zero"

definition dot_product_jit :: "f32 list \<Rightarrow> f32 list \<Rightarrow> f32 outcome" where
  "dot_product_jit a b =
     same_length a b
       (if length a = 1536 then dot_product_jit_1536 a b else dot_product_jit_generic a b)"

definition dot_product ::
  "'p platform_scheme \<Rightarrow> f32 list \<Rightarrow> f32 list \<Rightarrow> execution_mode \<Rightarrow> f32 outcome" where
  "dot_product P a b mode =
     (case resolve P mode of
        Simd \<Rightarrow> dot_product_simd P a b
      | Scalar \<Rightarrow> dot_product_scalar a b
      | Parallel \<Rightarrow> dot_product_parallel P a b
      | Binary \<Rightarrow> dot_product_binary a b
      | Jit \<Rightarrow> dot_product_jit a b
      | Gpu \<Rightarrow> panic
      | Auto \<Rightarrow> panic)"

section \<open>Cosine similarity\<close>

type_synonym sums3 = "f32 \<times> f32 \<times> f32"

definition cosine_step :: "f32 list \<Rightarrow> f32 list \<Rightarrow> sums3 \<Rightarrow> nat \<Rightarrow> sums3" where
  "cosine_step a b s i =
     (fadd (fst s) (dot_term a b i), fadd (fst (snd s)) (dot_term a a i),
      fadd (snd (snd s)) (dot_term b b i))"

definition cosine_loop :: "f32 list \<Rightarrow> f32 list \<Rightarrow> nat list \<Rightarrow> sums3 \<Rightarrow> sums3" where
  "cosine_loop a b is s = foldl (cosine_step a b) s is"

definition zero3 :: sums3 where
  "zero3 = (f32_zero, f32_zero, f32_zero)"

definition cosine_quotient :: "f32 \<Rightarrow> f32 \<Rightarrow> f32" where
  "cosine_quotient d denominator =
     (if fl_eq denominator f32_zero then f32_zero else fdiv d denominator)"

definition cosine_finish :: "sums3 \<Rightarrow> f32" where
  "cosine_finish s = cosine_quotient (fst s) (fmul (fsqrt (fst (snd s))) (fsqrt (snd (snd s))))"

definition cosine_similarity_scalar :: "f32 list \<Rightarrow> f32 list \<Rightarrow> f32 outcome" where
  "cosine_similarity_scalar a b =
     same_length a b (cosine_finish (cosine_loop a b [0..<length a] zero3))"

definition cosine_lanes :: "'p platform_scheme \<Rightarrow> f32 list \<Rightarrow> f32 list \<Rightarrow> sums3" where
  "cosine_lanes P a b =
     (lane_sum (lane_loop P (\<lambda>i. v_mul P (lanes8 a i) (lanes8 b i)) (length a div 8)),
      lane_sum (lane_loop P (\<lambda>i. v_mul P (lanes8 a i) (lanes8 a i)) (length a div 8)),
      lane_sum (lane_loop P (\<lambda>i. v_mul P (lanes8 b i) (lanes8 b i)) (length a div 8)))"

definition cosine_similarity_simd ::
  "'p platform_scheme \<Rightarrow> f32 list \<Rightarrow> f32 list \<Rightarrow> f32 outcome" where
  "cosine_similarity_simd P a b =
     same_length a b
       (cosine_finish (cosine_loop a b (tail_indices (length a)) (cosine_lanes P a b)))"

definition add3 :: "sums3 \<Rightarrow> sums3 \<Rightarrow> sums3" where
  "add3 s t = (fadd (fst s) (fst t), fadd (fst (snd s)) (fst (snd t)),
     fadd (snd (snd s)) (snd (snd t)))"

definition cosine_similarity_parallel ::
  "'p platform_scheme \<Rightarrow> f32 list \<Rightarrow> f32 list \<Rightarrow> f32 outcome" where
  "cosine_similarity_parallel P a b =
     same_length a b
       (let parts = map (\<lambda>is. cosine_loop a b is zero3) (chunk_ranges P (length a))
        in cosine_finish (par_reduce add3 zero3 parts (par_shape P (length parts))))"

definition binary_similarity :: "nat \<Rightarrow> nat \<Rightarrow> f32" where
  "binary_similarity h n =
     fsub (fmul f32_two (fsub f32_one (fdiv (f32_of_nat h) (f32_of_nat n)))) f32_one"

definition cosine_similarity_binary :: "f32 list \<Rightarrow> f32 list \<Rightarrow> f32 outcome" where
  "cosine_similarity_binary a b =
     same_length a b (binary_similarity (hamming a b) (length a mod 2 ^ 32))"

text \<open>
  The specialisation for 1536 unrolls eight steps per iteration; the macro's take
  \<open>min(dim - i, 8)\<close> steps per iteration.
\<close>

definition cosine_similarity_jit_1536 :: "f32 list \<Rightarrow> f32 list \<Rightarrow> f32" where
  "cosine_similarity_jit_1536 a b =
     cosine_finish (foldl (\<lambda>s i. cosine_loop a b [i..<i + 8] s) zero3 (blocks 1536))"

definition cosine_similarity_jit_dim :: "nat \<Rightarrow> f32 list \<Rightarrow> f32 list \<Rightarrow> f32" where
  "cosine_similarity_jit_dim dim a b =
     cosine_finish (foldl (\<lambda>s i. cosine_loop a b [i..<i + min (dim - i) 8] s) zero3 (blocks dim))"

definition cosine_similarity_jit_generic :: "f32 list \<Rightarrow> f32 list \<Rightarrow> f32" where
  "cosine_similarity_jit_generic a b = cosine_finish (cosine_loop a b [0..<length a] zero3)"

definition cosine_similarity_jit :: "f32 list \<Rightarrow> f32 list \<Rightarrow> f32 outcome" where
  "cosine_similarity_jit a b =
     same_length a b
       (if length a = 1536 then cosine_similarity_jit_1536 a b
        else if length a \<in> {128, 256, 384, 512, 768, 1024, 3072}
          then cosine_similarity_jit_dim (length a) a b
        else cosine_similarity_jit_generic a b)"

definition cosine_similarity ::
  "'p platform_scheme \<Rightarrow> f32 list \<Rightarrow> f32 list \<Rightarrow> execution_mode \<Rightarrow> f32 outcome" where
  "cosine_similarity P a b mode =
     (case resolve P mode of
        Simd \<Rightarrow> cosine_similarity_simd P a b
      | Scalar \<Rightarrow> cosine_similarity_scalar a b
      | Parallel \<Rightarrow> cosine_similarity_parallel P a b
      | Binary \<Rightarrow> cosine_similarity_binary a b
      | Jit \<Rightarrow> cosine_similarity_jit a b
      | Gpu \<Rightarrow> panic
      | Auto \<Rightarrow> panic)"

section \<open>Euclidean distance\<close>

definition euclidean_distance_squared_scalar :: "f32 list \<Rightarrow> f32 list \<Rightarrow> f32 outcome" where
  "euclidean_distance_squared_scalar a b =
     same_length a b (sum_loop (sq_term a b) [0..<length a] f32_zero)"

definition euclidean_distance_scalar :: "f32 list \<Rightarrow> f32 list \<Rightarrow> f32 outcome" where
  "euclidean_distance_scalar a b =
     same_length a b (fsqrt (sum_loop (sq_term a b) [0..<length a] f32_zero))"

definition euclidean_lanes :: "'p platform_scheme \<Rightarrow> f32 list \<Rightarrow> f32 list \<Rightarrow> f32" where
  "euclidean_lanes P a b =
     sum_loop (sq_term a b) (tail_indices (length a))
       (lane_sum (lane_loop P
          (\<lambda>i. v_mul P (v_sub P (lanes8 a i) (lanes8 b i)) (v_sub P (lanes8 a i) (lanes8 b i)))
          (length a div 8)))"

definition euclidean_distance_simd ::
  "'p platform_scheme \<Rightarrow> f32 list \<Rightarrow> f32 list \<Rightarrow> f32 outcome" where
  "euclidean_distance_simd P a b = same_length a b (fsqrt (euclidean_lanes P a b))"

definition euclidean_distance_squared_simd ::
  "'p platform_scheme \<Rightarrow> f32 list \<Rightarrow> f32 list \<Rightarrow> f32 outcome" where
  "euclidean_distance_squared_simd P a b = same_length a b (euclidean_lanes P a b)"

definition euclidean_distance_parallel ::
  "'p platform_scheme \<Rightarrow> f32 list \<Rightarrow> f32 list \<Rightarrow> f32 outcome" where
  "euclidean_distance_parallel P a b =
     same_length a b (fsqrt (parallel_sum P (sq_term a b) (length a)))"

definition euclidean_distance_squared_parallel ::
  "'p platform_scheme \<Rightarrow> f32 list \<Rightarrow> f32 list \<Rightarrow> f32 outcome" where
  "euclidean_distance_squared_parallel P a b =
     same_length a b (parallel_sum P (sq_term a b) (length a))"

definition euclidean_distance_binary :: "f32 list \<Rightarrow> f32 list \<Rightarrow> f32 outcome" where
  "euclidean_distance_binary a b = same_length a b (fsqrt (f32_of_nat (hamming a b)))"

definition euclidean_distance_squared_binary :: "f32 list \<Rightarrow> f32 list \<Rightarrow> f32 outcome" where
  "euclidean_distance_squared_binary a b = same_length a b (f32_of_nat (hamming a b))"

definition euclidean_squared_jit_1536 :: "f32 list \<Rightarrow> f32 list \<Rightarrow> f32" where
  "euclidean_squared_jit_1536 a b =
     foldl (\<lambda>s i. fadd s (block8_sum (sq_term a b) i)) f32_zero (blocks 1536)"

definition euclidean_squared_jit_generic :: "f32 list \<Rightarrow> f32 list \<Rightarrow> f32" where
  "euclidean_squared_jit_generic a b = sum_loop (sq_term a b) [0..<length a] f32_zero"

definition euclidean_distance_squared_jit :: "f32 list \<Rightarrow> f32 list \<Rightarrow> f32 outcome" where
  "euclidean_distance_squared_jit a b =
     same_length a b
       (if length a = 1536 then euclidean_squared_jit_1536 a b
        else euclidean_squared_jit_generic a b)"

definition euclidean_distance_jit :: "f32 list \<Rightarrow> f32 list \<Rightarrow> f32 outcome" where
  "euclidean_distance_jit a b =
     and_then (euclidean_distance_squared_jit a b) (\<lambda>s. Inr (fsqrt s))"

definition euclidean_distance ::
  "'p platform_scheme \<Rightarrow> f32 list \<Rightarrow> f32 list \<Rightarrow> execution_mode \<Rightarrow> f32 outcome" where
  "euclidean_distance P a b mode =
     (case resolve P mode of
        Simd \<Rightarrow> euclidean_distance_simd P a b
      | Scalar \<Rightarrow> euclidean_distance_scalar a b
      | Parallel \<Rightarrow> euclidean_distance_parallel P a b
      | Binary \<Rightarrow> euclidean_distance_binary a b
      | Jit \<Rightarrow> euclidean_distance_jit a b
      | Gpu \<Rightarrow> panic
      | Auto \<Rightarrow> panic)"

definition euclidean_distance_squared ::
  "'p platform_scheme \<Rightarrow> f32 list \<Rightarrow> f32 list \<Rightarrow> execution_mode \<Rightarrow> f32 outcome" where
  "euclidean_distance_squared P a b mode =
     (case resolve P mode of
        Simd \<Rightarrow> euclidean_distance_squared_simd P a b
      | Scalar \<Rightarrow> euclidean_distance_squared_scalar a b
      | Parallel \<Rightarrow> euclidean_distance_squared_parallel P a b
      | Binary \<Rightarrow> euclidean_distance_squared_binary a b
      | Jit \<Rightarrow> euclidean_distance_squared_jit a b
      | Gpu \<Rightarrow> panic
      | Auto \<Rightarrow> panic)"

section \<open>Metric::calculate\<close>

definition distance_to_similarity :: "f32 \<Rightarrow> f32" where
  "distance_to_similarity d = fdiv f32_one (fadd f32_one d)"

definition calculate ::
  "'p platform_scheme \<Rightarrow> metric \<Rightarrow> f32 list \<Rightarrow> f32 list \<Rightarrow> execution_mode \<Rightarrow> f32 outcome" where
  "calculate P m a b mode =
     (case m of
        Cosine \<Rightarrow> cosine_similarity P a b mode
      | Euclidean \<Rightarrow>
          and_then (euclidean_distance P a b mode) (\<lambda>d. Inr (distance_to_similarity d))
      | DotProduct \<Rightarrow> dot_product P a b mode)"

section \<open>When a kernel panics\<close>

lemma same_length_Inr [simp]: "same_length a b r = Inr x \<longleftrightarrow> length a = length b \<and> x = r"
  by (auto simp: same_length_def)

lemma same_length_eq [simp]: "length a = length b \<Longrightarrow> same_length a b r = Inr r"
  by (simp add: same_length_def)

lemma same_length_neq: "length a \<noteq> length b \<Longrightarrow> same_length a b r = panic"
  by (simp add: same_length_def)

lemmas kernel_defs = dot_product_simd_def dot_product_scalar_def dot_product_parallel_def
  dot_product_binary_def dot_product_jit_def cosine_similarity_simd_def
  cosine_similarity_scalar_def cosine_similarity_parallel_def cosine_similarity_binary_def
  cosine_similarity_jit_def euclidean_distance_simd_def euclidean_distance_scalar_def
  euclidean_distance_parallel_def euclidean_distance_binary_def euclidean_distance_jit_def
  euclidean_distance_squared_jit_def

lemma calculate_total:
  "length a = length b \<Longrightarrow> resolve P mode \<noteq> Gpu \<Longrightarrow> \<exists>s. calculate P m a b mode = Inr s"
  by (cases m; cases "resolve P mode")
    (simp_all add: calculate_def dot_product_def cosine_similarity_def euclidean_distance_def
      kernel_defs)

lemma calculate_panics:
  "length a \<noteq> length b \<or> resolve P mode = Gpu \<Longrightarrow> calculate P m a b mode = panic"
  by (cases m; cases "resolve P mode")
    (auto simp: calculate_def dot_product_def cosine_similarity_def euclidean_distance_def
      kernel_defs same_length_neq)

lemma resolve_Gpu_iff [simp]: "resolve P mode = Gpu \<longleftrightarrow> mode = Gpu"
  by (cases mode; cases "arch P") (simp_all add: resolve_def)

lemma resolve_Gpu [simp]: "resolve P Gpu = Gpu"
  by (simp add: resolve_def)

lemma calculate_panic_iff: "calculate P m a b mode = panic \<longleftrightarrow> length a \<noteq> length b \<or> mode = Gpu"
  using calculate_total [of a b P mode m] calculate_panics [of a b P mode m] by fastforce

section \<open>Symmetry\<close>

lemma dot_term_sym: "dot_term a b i = dot_term b a i"
  by (simp add: dot_term_def fl_mul_comm)

lemma sq_term_sym: "sq_term a b i = sq_term b a i"
  unfolding sq_term_def diff_term_def by (rule fl_sub_sq_sym)

lemma dot_term_sym_fun: "dot_term a b = dot_term b a"
  by (rule ext) (rule dot_term_sym)

lemma sq_term_sym_fun: "sq_term a b = sq_term b a"
  by (rule ext) (rule sq_term_sym)

definition flip3 :: "sums3 \<Rightarrow> sums3" where
  "flip3 s = (fst s, snd (snd s), fst (snd s))"

lemma flip3_zero [simp]: "flip3 zero3 = zero3"
  by (simp add: flip3_def zero3_def)

lemma cosine_step_flip: "cosine_step b a (flip3 s) i = flip3 (cosine_step a b s i)"
  by (simp add: cosine_step_def flip3_def dot_term_sym)

lemma cosine_loop_flip: "cosine_loop b a is (flip3 s) = flip3 (cosine_loop a b is s)"
  unfolding cosine_loop_def by (induction "is" arbitrary: s) (simp_all add: cosine_step_flip)

lemma cosine_finish_flip: "cosine_finish (flip3 s) = cosine_finish s"
  by (simp add: cosine_finish_def flip3_def fl_mul_comm)

lemma cosine_blocks_flip:
  "foldl (\<lambda>s i. cosine_loop b a (f i) s) (flip3 s) js
     = flip3 (foldl (\<lambda>s i. cosine_loop a b (f i) s) s js)"
  by (induction js arbitrary: s) (simp_all add: cosine_loop_flip)

lemma add3_flip: "flip3 (add3 s t) = add3 (flip3 s) (flip3 t)"
  by (simp add: add3_def flip3_def)

lemma map2_comm: "(\<And>x y. f x y = f y x) \<Longrightarrow> map2 f xs ys = map2 f ys xs"
  by (induction xs arbitrary: ys; case_tac ys) simp_all

lemma map2_sub_sq:
  "map2 fmul (map2 fsub xs ys) (map2 fsub xs ys) = map2 fmul (map2 fsub ys xs) (map2 fsub ys xs)"
  by (induction xs arbitrary: ys; case_tac ys) (simp_all add: fl_sub_sq_sym)

lemma lane_mul_sym: "lanewise P \<Longrightarrow> v_mul P x y = v_mul P y x"
  by (simp add: lanewise_def map2_comm [OF fl_mul_comm])

lemma lane_sq_sym:
  "lanewise P \<Longrightarrow> v_mul P (v_sub P x y) (v_sub P x y) = v_mul P (v_sub P y x) (v_sub P y x)"
  by (simp add: lanewise_def map2_sub_sq)

lemma same_length_sym:
  "(length a = length b \<Longrightarrow> r = r') \<Longrightarrow> same_length a b r = same_length b a r'"
  by (auto simp: same_length_def)

lemma cosine_lanes_flip:
  "lanewise P \<Longrightarrow> length a = length b \<Longrightarrow> cosine_lanes P b a = flip3 (cosine_lanes P a b)"
  by (simp add: cosine_lanes_def flip3_def lane_mul_sym)

lemma cosine_parallel_flip:
  "map (\<lambda>is. cosine_loop b a is zero3) js = map flip3 (map (\<lambda>is. cosine_loop a b is zero3) js)"
  using cosine_loop_flip [of b a _ zero3] by simp

lemma dot_product_sym: "lanewise P \<Longrightarrow> dot_product P a b mode = dot_product P b a mode"
  unfolding dot_product_def kernel_defs dot_product_jit_1536_def dot_product_jit_generic_def
  by (cases "resolve P mode")
    (auto intro!: same_length_sym simp: dot_term_sym_fun [of a b] lane_mul_sym conj_commute)

lemma hamming_sym: "length a = length b \<Longrightarrow> hamming a b = hamming b a"
  unfolding hamming_def by (simp add: eq_commute [of "bit_of (a ! _)"])

lemma cosine_similarity_sym:
  assumes "lanewise P"
  shows "cosine_similarity P a b mode = cosine_similarity P b a mode"
proof -
  have loop: "cosine_finish (cosine_loop b a is zero3) = cosine_finish (cosine_loop a b is zero3)" for "is"
    using cosine_loop_flip [of b a "is" zero3] by (simp add: cosine_finish_flip)
  have blocks: "cosine_finish (foldl (\<lambda>s i. cosine_loop b a (f i) s) zero3 js)
      = cosine_finish (foldl (\<lambda>s i. cosine_loop a b (f i) s) zero3 js)" for f js
    using cosine_blocks_flip [of b a f zero3 js] by (simp add: cosine_finish_flip)
  have simd: "cosine_finish (cosine_loop a b (tail_indices (length a)) (cosine_lanes P a b))
      = cosine_finish (cosine_loop b a (tail_indices (length b)) (cosine_lanes P b a))"
    if "length a = length b" for a b
    unfolding cosine_lanes_flip [OF assms that] cosine_loop_flip cosine_finish_flip by (simp add: that)
  have par: "par_reduce add3 zero3 (map (\<lambda>is. cosine_loop b a is zero3) js) t
      = flip3 (par_reduce add3 zero3 (map (\<lambda>is. cosine_loop a b is zero3) js) t)" for js t
    unfolding cosine_parallel_flip [of b a] by (rule par_reduce_hom) (simp_all add: add3_flip)
  show ?thesis
    unfolding cosine_similarity_def kernel_defs cosine_similarity_jit_1536_def
      cosine_similarity_jit_dim_def cosine_similarity_jit_generic_def
    by (cases "resolve P mode")
      (auto intro!: same_length_sym simd simp: hamming_sym [of a b] loop blocks par
        cosine_finish_flip Let_def simp del: map_map)
qed

lemma euclidean_distance_sym:
  assumes "lanewise P"
  shows "euclidean_distance P a b mode = euclidean_distance P b a mode"
proof -
  have lanes: "euclidean_lanes P a b = euclidean_lanes P b a" if "length a = length b"
    unfolding euclidean_lanes_def sq_term_sym_fun [of a b]
    by (simp add: that lane_sq_sym [OF assms, of "lanes8 a _"])
  have jit: "euclidean_distance_squared_jit a b = euclidean_distance_squared_jit b a"
    unfolding euclidean_distance_squared_jit_def euclidean_squared_jit_1536_def
      euclidean_squared_jit_generic_def
    by (auto intro!: same_length_sym simp: sq_term_sym_fun [of a b])
  show ?thesis
    unfolding euclidean_distance_def euclidean_distance_simd_def euclidean_distance_scalar_def
      euclidean_distance_parallel_def euclidean_distance_binary_def euclidean_distance_jit_def jit
    by (cases "resolve P mode")
      (auto intro!: same_length_sym simp: lanes hamming_sym [of a b] sq_term_sym_fun [of a b])
qed

section \<open>Unrolled kernels\<close>

lemma foldl_blocks:
  assumes "\<And>s i. i \<in> set (map (\<lambda>k. 8 * k) [0..<m]) \<Longrightarrow> g s i = foldl f s [i..<min (i + 8) n]"
    and "8 * m \<le> n + 7"
  shows "foldl g s (map (\<lambda>k. 8 * k) [0..<m]) = foldl f s [0..<min (8 * m) n]"
  using assms
proof (induction m)
  case (Suc m)
  have n: "8 * m \<le> n" using Suc.prems(2) by simp
  have "[0..<min (8 * Suc m) n] = [0..<8 * m] @ [8 * m..<min (8 * m + 8) n]"
    using n upt_add_eq_append [of 0 "8 * m" "min (8 * m + 8) n - 8 * m"]
    by (simp add: add.commute)
  moreover have "foldl g s (map (\<lambda>k. 8 * k) [0..<m]) = foldl f s [0..<8 * m]"
    using Suc n by (simp add: min_absorb1)
  ultimately show ?case using Suc.prems(1) [of "8 * m"] by simp
qed simp

lemma blocks_all: fixes n :: nat shows "8 * ((n + 7) div 8) \<le> n + 7" "min (8 * ((n + 7) div 8)) n = n"
  by arith+

lemma cosine_jit_dim_eq:
  "cosine_similarity_jit_dim n a b = cosine_finish (cosine_loop a b [0..<n] zero3)"
proof -
  have "foldl (\<lambda>s i. cosine_loop a b [i..<i + min (n - i) 8] s) zero3 (blocks n)
      = foldl (cosine_step a b) zero3 [0..<min (8 * ((n + 7) div 8)) n]"
    unfolding blocks_def
  proof (rule foldl_blocks)
    fix s i assume "i \<in> set (map (\<lambda>k. 8 * k) [0..<(n + 7) div 8])"
    then have "i \<le> n" by auto
    then have "i + min (n - i) 8 = min (i + 8) n" by simp
    then show "cosine_loop a b [i..<i + min (n - i) 8] s = foldl (cosine_step a b) s [i..<min (i + 8) n]"
      by (simp add: cosine_loop_def)
  qed (rule blocks_all)
  then show ?thesis by (simp only: cosine_similarity_jit_dim_def cosine_loop_def blocks_all)
qed

lemma cosine_jit_1536_eq:
  "cosine_similarity_jit_1536 a b = cosine_finish (cosine_loop a b [0..<1536] zero3)"
proof -
  have "foldl (\<lambda>s i. cosine_loop a b [i..<i + 8] s) zero3 (blocks 1536)
      = foldl (\<lambda>s i. cosine_loop a b [i..<i + min (1536 - i) 8] s) zero3 (blocks 1536)"
    by (rule foldl_cong) (auto simp: blocks_def)
  then show ?thesis
    using cosine_jit_dim_eq [of 1536 a b]
    by (simp only: cosine_similarity_jit_1536_def cosine_similarity_jit_dim_def)
qed

lemma cosine_jit_eq_scalar: "cosine_similarity_jit a b = cosine_similarity_scalar a b"
  unfolding cosine_similarity_jit_def cosine_similarity_scalar_def cosine_jit_1536_eq
    cosine_jit_dim_eq cosine_similarity_jit_generic_def same_length_def by simp

lemma dot_jit_eq_scalar: "length a \<noteq> 1536 \<Longrightarrow> dot_product_jit a b = dot_product_scalar a b"
  by (simp add: dot_product_jit_def dot_product_scalar_def dot_product_jit_generic_def)

lemma euclidean_jit_eq_scalar:
  "length a \<noteq> 1536 \<Longrightarrow> euclidean_distance_jit a b = euclidean_distance_scalar a b"
  by (simp add: euclidean_distance_jit_def euclidean_distance_squared_jit_def
      euclidean_distance_scalar_def euclidean_squared_jit_generic_def same_length_def)

section \<open>The binary similarity\<close>

text \<open>Between two bounds of the format, a rounded quotient or difference stays between them.\<close>

lemma round_to_between:
  assumes "num \<le> v * den" and "0 < den" and "representable (prec fmt) v" and "v < 2 ^ ovf_bits fmt"
  shows "\<exists>m \<le> v. round_to fmt s num den = Fin s m"
  using round_mag_le [OF assms(1-3)] assms(4) by (auto simp: round_to_def pack_def)

lemma f32_representable_pow: "representable 24 (2 ^ k)"
  using representable_shift [of 1 24 k] by simp

lemma f32_of_nat_small: "n < 2 ^ 24 \<Longrightarrow> f32_of_nat n = Fin False (n * 2 ^ 149)"
proof -
  assume n: "n < 2 ^ 24"
  have "round_mag 24 (n * 2 ^ 149 * 1) 1 = n * 2 ^ 149"
    using n by (intro round_mag_exact representable_shift) simp_all
  moreover have "n * 2 ^ 149 < 2 ^ 277"
  proof -
    have "n * 2 ^ 149 < (2::nat) ^ 24 * 2 ^ 149" using n by (intro mult_strict_right_mono) simp_all
    also have "\<dots> \<le> 2 ^ 277" by simp
    finally show ?thesis .
  qed
  ultimately show ?thesis by (simp add: fl_of_nat_def round_to_def pack_def F32_def)
qed

lemma fdiv_unit: "h \<le> n \<Longrightarrow> 0 < n \<Longrightarrow>
  \<exists>m \<le> 2 ^ 149. fdiv (Fin False h) (Fin False n) = Fin False m"
  using round_to_between [of "h * 2 ^ 149" "2 ^ 149" n F32 False] f32_representable_pow [of 149]
  by (simp add: F32_def mult.commute)

lemma fsub_one_unit: "m \<le> 2 ^ 149 \<Longrightarrow> \<exists>k \<le> 2 ^ 149. fsub f32_one (Fin False m) = Fin False k"
  using round_to_between [of "2 ^ 149 - m" "2 ^ 149" 1 F32 False] f32_representable_pow [of 149]
  by (auto simp: fl_sub_def f32_one_def round_int_def F32_def nat_diff_distrib of_nat_diff)

lemma fmul_two_unit: "k \<le> 2 ^ 149 \<Longrightarrow> \<exists>j \<le> 2 ^ 150. fmul f32_two (Fin False k) = Fin False j"
  using round_to_between [of "2 ^ 150 * k" "2 ^ 150" "2 ^ 149" F32 False]
    f32_representable_pow [of 150]
  by (simp add: f32_two_def F32_def)

lemma fsub_one_signed:
  assumes "j \<le> 2 ^ 150" shows "\<exists>s i. i \<le> 2 ^ 149 \<and> fsub (Fin False j) f32_one = Fin s i"
proof -
  have "nat \<bar>int j - 2 ^ 149\<bar> \<le> 2 ^ 149 * 1" using assms by simp
  from round_to_between [OF this, of F32 "int j < 2 ^ 149"] f32_representable_pow [of 149]
  show ?thesis by (fastforce simp: fl_sub_def f32_one_def round_int_def F32_def)
qed

lemma binary_similarity_range:
  assumes "h \<le> n" and "0 < n" and "n < 2 ^ 24"
  shows "\<exists>s i. i \<le> 2 ^ 149 \<and> binary_similarity h n = Fin s i"
proof -
  obtain m where "m \<le> 2 ^ 149" "fdiv (f32_of_nat h) (f32_of_nat n) = Fin False m"
    using fdiv_unit [of "h * 2 ^ 149" "n * 2 ^ 149"] assms by (auto simp: f32_of_nat_small)
  moreover from this obtain k where "k \<le> 2 ^ 149" "fsub f32_one (Fin False m) = Fin False k"
    using fsub_one_unit by blast
  moreover from this obtain j where "j \<le> 2 ^ 150" "fmul f32_two (Fin False k) = Fin False j"
    using fmul_two_unit by blast
  ultimately show ?thesis using fsub_one_signed by (simp add: binary_similarity_def)
qed

lemma hamming_le: "length a < 2 ^ 32 \<Longrightarrow> hamming a b \<le> length a"
proof -
  assume "length a < 2 ^ 32"
  moreover have "length (filter (\<lambda>i. bit_of (a ! i) \<noteq> bit_of (b ! i)) [0..<length a]) \<le> length a"
    using length_filter_le [of _ "[0..<length a]"] by simp
  ultimately show ?thesis by (simp add: hamming_def)
qed

section \<open>Properties\<close>

text \<open>
  Scores do not depend on which vector is the query: in every execution mode and for
  every metric, swapping the two vectors gives the identical float, or the identical panic.
\<close>

theorem calculate_symmetric:
  assumes "lanewise P"
  shows "calculate P m a b mode = calculate P m b a mode"
  by (simp only: calculate_def dot_product_sym [OF assms, of a b]
      cosine_similarity_sym [OF assms, of a b] euclidean_distance_sym [OF assms, of a b])

theorem calculate_symmetric_witness:
  "calculate scalar_machine Cosine [f32_one, f32_zero] [f32_two, f32_one] Simd
     = calculate scalar_machine Cosine [f32_two, f32_one] [f32_one, f32_zero] Simd"
  using calculate_symmetric [of scalar_machine] by simp

text \<open>
  Scoring is total but for two causes: it panics exactly when the lengths differ or the
  mode is GPU, and otherwise returns a score.
\<close>

theorem calculate_panics_exactly:
  "(calculate P m a b mode = panic) = (\<not> (length a = length b \<and> mode \<noteq> Gpu))
   \<and> (length a = length b \<and> mode \<noteq> Gpu) = (\<exists>s. calculate P m a b mode = Inr s)"
  using calculate_panic_iff [of P m a b mode] calculate_total [of a b P mode m] by fastforce

text \<open>
  The specialised JIT kernels compute what the scalar ones do: cosine similarity
  bit for bit in every dimension, the dot product and the Euclidean distance in every dimension
  but 1536, where the eight products of a block are added up first.
\<close>

theorem jit_agrees_with_scalar:
  "cosine_similarity_jit a b = cosine_similarity_scalar a b
   \<and> (length a \<noteq> 1536 \<longrightarrow> dot_product_jit a b = dot_product_scalar a b
        \<and> euclidean_distance_jit a b = euclidean_distance_scalar a b)"
  by (simp add: cosine_jit_eq_scalar dot_jit_eq_scalar euclidean_jit_eq_scalar)

theorem jit_agrees_with_scalar_witness:
  "dot_product_jit [f32_one, f32_two] [f32_two, f32_one]
     = dot_product_scalar [f32_one, f32_two] [f32_two, f32_one]"
  using jit_agrees_with_scalar [of "[f32_one, f32_two]" "[f32_two, f32_one]"] by simp

text \<open>
  The binary cosine score of nonempty vectors of fewer than \<open>2 ^ 24\<close> components is
  a number between \<open>-1\<close> and \<open>1\<close>, in spite of the roundings of its five operations.
\<close>

theorem cosine_binary_in_range:
  assumes "length a = length b" and "a \<noteq> []" and "length a < 2 ^ 24"
  shows "\<exists>x. cosine_similarity_binary a b = Inr x \<and> fl_le (fl_neg f32_one) x \<and> fl_le x f32_one"
proof -
  have n: "length a mod 2 ^ 32 = length a" using assms(3) by simp
  obtain s i where "i \<le> 2 ^ 149" and "binary_similarity (hamming a b) (length a) = Fin s i"
    using binary_similarity_range [OF hamming_le [of a b] _ assms(3)] assms(2,3) by auto
  then show ?thesis
    using assms(1) unfolding cosine_similarity_binary_def n by (simp add: f32_one_def fl_le_Fin)
qed

theorem cosine_binary_in_range_witness:
  "\<exists>x. cosine_similarity_binary [f32_one, f32_zero] [f32_one, Fin True 1] = Inr x
     \<and> fl_le (fl_neg f32_one) x \<and> fl_le x f32_one"
  by (rule cosine_binary_in_range) simp_all

end
