(* ===== verification/Index_Contract.thy ===== *)
theory Index_Contract
  imports Kernels Metadata
begin

text \<open>
  The \<^verbatim>\<open>VectorReader\<close> and \<^verbatim>\<open>VectorIndex\<close> traits of
  \<^verbatim>\<open>src/src/index/traits.rs\<close>. A reader is the vector map it wraps, visited in
  hash order. The trait is a locale: what every index promises its clients, which the
  flat, IVF and HNSW indexes are shown to keep.
\<close>

section \<open>Readers\<close>

type_synonym vectors = "(uuid, f32 list) hmap"
type_synonym metadatas = "(uuid, metadata) hmap"

definition reader_get :: "vectors \<Rightarrow> uuid \<Rightarrow> f32 list option" where
  "reader_get vs uid = hm_get vs uid"

definition reader_iter :: "'p platform_scheme \<Rightarrow> vectors \<Rightarrow> (uuid \<times> f32 list) list" where
  "reader_iter P vs =
     map (\<lambda>uid. (uid, case hm_get vs uid of Some v \<Rightarrow> v | None \<Rightarrow> [])) (hm_iter (uuid_order P) vs)"

definition reader_len :: "vectors \<Rightarrow> nat" where
  "reader_len vs = length vs"

lemma map_fst_reader_iter [simp]: "map fst (reader_iter P vs) = hm_iter (uuid_order P) vs"
  by (simp add: reader_iter_def comp_def)

lemma fst_reader_iter:
  "hash_order (uuid_order P) \<Longrightarrow> fst ` set (reader_iter P vs) = set (hm_keys vs)"
  using set_hm_iter [of "uuid_order P" vs]
  by (metis list.set_map map_fst_reader_iter)

lemma reader_iter_get:
  assumes "hash_order (uuid_order P)" and "(uid, v) \<in> set (reader_iter P vs)"
  shows "reader_get vs uid = Some v"
proof -
  have "uid \<in> set (hm_keys vs)" using assms fst_reader_iter by force
  then obtain w where "hm_get vs uid = Some w" by (auto simp: hm_keys_get)
  then show ?thesis using assms(2) by (auto simp: reader_iter_def reader_get_def)
qed

section \<open>Scored candidates\<close>

text \<open>Ids with their scores, computed in order; a missing vector is an error.\<close>

definition score_of ::
  "'p platform_scheme \<Rightarrow> metric \<Rightarrow> execution_mode \<Rightarrow> string \<Rightarrow> f32 list \<Rightarrow> vectors \<Rightarrow> uuid
    \<Rightarrow> (uuid \<times> f32) outcome" where
  "score_of P m mode name query vs uid =
     (case reader_get vs uid of
        None \<Rightarrow> fail (Index (SearchFailed [Txt name, Txt '' index references missing vector '', Id uid]))
      | Some v \<Rightarrow> and_then (calculate P m query v mode) (\<lambda>s. Inr (uid, s)))"

definition best_ids :: "nat \<Rightarrow> (uuid \<times> f32) list \<Rightarrow> uuid list" where
  "best_ids k scored = map fst (take k (sort_by (by_score_desc snd) scored))"

lemma score_of_fst: "score_of P m mode n q vs uid = Inr p \<Longrightarrow> fst p = uid"
  by (auto simp: score_of_def and_then_eq_Inr split: option.splits)

lemma scores_fst:
  "collect_results (score_of P m mode n q vs) ids = Inr ps \<Longrightarrow> map fst ps = ids"
  by (induction ids arbitrary: ps) (auto simp: and_then_eq_Inr dest: score_of_fst)

lemma best_ids_sound:
  "set (best_ids k ps) \<subseteq> set (map fst ps)" "length (best_ids k ps) \<le> k"
  "distinct (map fst ps) \<Longrightarrow> distinct (best_ids k ps)"
proof -
  have "map fst (take k (sort_by (by_score_desc snd) ps)) = take k (map fst (sort_by (by_score_desc snd) ps))"
    by (simp add: take_map)
  then show "set (best_ids k ps) \<subseteq> set (map fst ps)" "length (best_ids k ps) \<le> k"
    "distinct (map fst ps) \<Longrightarrow> distinct (best_ids k ps)"
    using set_take_subset [of k "map fst (sort_by (by_score_desc snd) ps)"]
    by (simp_all add: best_ids_def)
qed

section \<open>Ranking is exact\<close>

text \<open>Ids ranked by a score that is never NaN: the best \<open>k\<close>, in descending order.\<close>

definition ranked_best :: "(uuid \<Rightarrow> f32) \<Rightarrow> nat \<Rightarrow> uuid set \<Rightarrow> uuid list \<Rightarrow> bool" where
  "ranked_best sc k A r \<longleftrightarrow>
     distinct r \<and> set r \<subseteq> A \<and> length r = min k (card A) \<and>
     sorted_wrt (\<lambda>x y. fl_le (sc y) (sc x)) r \<and>
     (\<forall>x \<in> set r. \<forall>y \<in> A - set r. fl_le (sc y) (sc x))"

lemma best_ids_sorted:
  assumes n: "\<And>z. z \<in> set xs \<Longrightarrow> \<not> is_nan (sc z)"
  shows "sorted_wrt (\<lambda>x y. fl_le (sc y) (sc x)) (best_ids k (map (\<lambda>x. (x, sc x)) xs))"
proof -
  let ?l = "map (\<lambda>x. (x, sc x)) xs"
  have l: "set ?l \<subseteq> {x. \<not> is_nan (snd x)}" using n by auto
  have "sorted_wrt (\<lambda>a b. by_score_desc snd a b \<noteq> Greater) (take k (sort_by (by_score_desc snd) ?l))"
    using desc.sorted_sort_by [OF l] by (rule sorted_wrt_take)
  then have "sorted_wrt (\<lambda>a b. fl_le (sc (fst b)) (sc (fst a))) (take k (sort_by (by_score_desc snd) ?l))"
  proof (rule sorted_wrt_mono_rel [rotated])
    fix a b
    assume "a \<in> set (take k (sort_by (by_score_desc snd) ?l))" "b \<in> set (take k (sort_by (by_score_desc snd) ?l))"
      and ab: "by_score_desc snd a b \<noteq> Greater"
    then have m: "a \<in> set ?l" "b \<in> set ?l" by (auto dest: in_set_takeD)
    then have "\<not> is_nan (snd a)" "\<not> is_nan (snd b)" using l by blast+
    then have "fl_le (snd b) (snd a)" using ab by (simp add: by_score_desc_def cmp_or_equal_le)
    then show "fl_le (sc (fst b)) (sc (fst a))" using m by auto
  qed
  then show ?thesis by (simp add: best_ids_def sorted_wrt_map)
qed

lemma best_ids_maximal:
  assumes n: "\<And>z. z \<in> set xs \<Longrightarrow> \<not> is_nan (sc z)"
    and x: "x \<in> set (best_ids k (map (\<lambda>x. (x, sc x)) xs))"
    and y: "y \<in> set xs - set (best_ids k (map (\<lambda>x. (x, sc x)) xs))"
  shows "fl_le (sc y) (sc x)"
proof -
  let ?l = "map (\<lambda>x. (x, sc x)) xs"
  let ?s = "sort_by (by_score_desc snd) ?l"
  have r: "best_ids k ?l = map fst (take k ?s)" by (simp add: best_ids_def)
  obtain p where p: "p \<in> set (take k ?s)" "fst p = x" using x r by auto
  have "(y, sc y) \<in> set ?s" using y by simp
  moreover have "(y, sc y) \<notin> set (take k ?s)"
  proof
    assume "(y, sc y) \<in> set (take k ?s)"
    then have "fst (y, sc y) \<in> set (best_ids k ?l)" unfolding r by (simp only: set_map imageI)
    with y show False by simp
  qed
  moreover have "set ?s = set (take k ?s) \<union> set (drop k ?s)"
    by (simp only: set_append [symmetric] append_take_drop_id)
  ultimately have d: "(y, sc y) \<in> set (drop k ?s)" by blast
  have px: "p = (x, sc x)" and xi: "x \<in> set xs" using in_set_takeD [OF p(1)] p(2) by auto
  have "by_score_desc snd p (y, sc y) \<noteq> Greater"
  proof (rule desc.take_sort_by_best [OF _ p(1) d])
    show "set ?l \<subseteq> {x. \<not> is_nan (snd x)}" using n by auto
  qed
  then show ?thesis
    using n [OF xi] n [of y] y by (simp add: px by_score_desc_def cmp_or_equal_le)
qed

lemma best_ids_ranked:
  assumes "distinct xs" and "\<And>z. z \<in> set xs \<Longrightarrow> \<not> is_nan (sc z)"
  shows "ranked_best sc k (set xs) (best_ids k (map (\<lambda>x. (x, sc x)) xs))"
proof -
  have "map fst (map (\<lambda>x. (x, sc x)) xs) = xs" by (simp add: comp_def)
  then show ?thesis
    unfolding ranked_best_def
    using best_ids_sound [where k = k and ps = "map (\<lambda>x. (x, sc x)) xs"] assms(1)
      best_ids_sorted [where sc = sc, OF assms(2)] best_ids_maximal [where sc = sc, OF assms(2)]
    by (auto simp: best_ids_def distinct_card min.commute)
qed

text \<open>The similarity an index with this metric and mode ranks by.\<close>

definition similarity ::
  "'p platform_scheme \<Rightarrow> metric \<Rightarrow> execution_mode \<Rightarrow> f32 list \<Rightarrow> vectors \<Rightarrow> uuid \<Rightarrow> f32" where
  "similarity P m mode q vs uid =
     (case reader_get vs uid of None \<Rightarrow> NaN | Some v \<Rightarrow>
        (case calculate P m q v mode of Inr s \<Rightarrow> s | Inl _ \<Rightarrow> NaN))"

definition readable :: "nat \<Rightarrow> vectors \<Rightarrow> uuid \<Rightarrow> bool" where
  "readable d vs uid \<longleftrightarrow> (\<exists>v. reader_get vs uid = Some v \<and> length v = d)"

lemma score_of_readable:
  assumes "readable (length q) vs x" and "mode \<noteq> Gpu"
  shows "score_of P m mode n q vs x = Inr (x, similarity P m mode q vs x)"
  using assms calculate_total [of q "the (reader_get vs x)" P mode m]
  by (auto simp: readable_def score_of_def similarity_def)

lemma scores_readable:
  assumes "\<And>x. x \<in> set xs \<Longrightarrow> readable (length q) vs x" and "mode \<noteq> Gpu"
  shows "collect_results (score_of P m mode n q vs) xs
    = Inr (map (\<lambda>x. (x, similarity P m mode q vs x)) xs)"
  using assms by (intro collect_results_total score_of_readable)

section \<open>The contract of a vector index\<close>

locale vector_index =
  fixes invar :: "'i \<Rightarrow> bool"
    and ids :: "'i \<Rightarrow> uuid set"
    and insert_op :: "f32 \<Rightarrow> uuid \<Rightarrow> f32 list \<Rightarrow> vectors \<Rightarrow> ('i, fault, unit) op"
    and remove_op :: "uuid \<Rightarrow> 'i \<Rightarrow> 'i"
    and search_op :: "f32 list \<Rightarrow> nat \<Rightarrow> vectors \<Rightarrow> search_config \<Rightarrow> filter_query option
      \<Rightarrow> metadatas \<Rightarrow> 'i \<Rightarrow> uuid list outcome"
  assumes insert_invar: "invar i \<Longrightarrow> hm_ok vs \<Longrightarrow> ids i \<subseteq> set (hm_keys vs) \<Longrightarrow>
      x \<in> set (hm_keys vs) \<Longrightarrow> insert_op u x v vs i = (Inr (), i') \<Longrightarrow> invar i'"
    and insert_ids: "invar i \<Longrightarrow> hm_ok vs \<Longrightarrow> ids i \<subseteq> set (hm_keys vs) \<Longrightarrow>
      x \<in> set (hm_keys vs) \<Longrightarrow> insert_op u x v vs i = (Inr (), i') \<Longrightarrow>
      insert x (ids i) \<subseteq> ids i' \<and> ids i' \<subseteq> set (hm_keys vs)"
    and remove_invar: "invar i \<Longrightarrow> invar (remove_op x i)"
    and remove_ids: "invar i \<Longrightarrow> ids (remove_op x i) = ids i - {x}"
    and search_sound: "invar i \<Longrightarrow> search_op q k vs c f ms i = Inr r \<Longrightarrow>
      set r \<subseteq> ids i \<and> length r \<le> k \<and> distinct r"
begin

lemma remove_then_search:
  "invar i \<Longrightarrow> search_op q k vs c f ms (remove_op x i) = Inr r \<Longrightarrow> x \<notin> set r"
  using search_sound [OF remove_invar] remove_ids by blast

text \<open>Filling an index from a reader: after it, every listed uid is indexed.\<close>

lemma fill:
  assumes "op_for (\<lambda>(u, x, v). insert_op u x v vs) xs i = (Inr (), i')"
    and "invar i" and "hm_ok vs" and "ids i \<subseteq> set (hm_keys vs)"
    and "(fst \<circ> snd) ` set xs \<subseteq> set (hm_keys vs)"
  shows "invar i' \<and> ids i \<union> (fst \<circ> snd) ` set xs \<subseteq> ids i' \<and> ids i' \<subseteq> set (hm_keys vs)"
  using assms
proof (induction xs arbitrary: i)
  case Nil
  then show ?case by simp
next
  case (Cons p xs)
  obtain u x v where p: "p = (u, x, v)" by (cases p)
  obtain j where j: "insert_op u x v vs i = (Inr (), j)"
    and rest: "op_for (\<lambda>(u, x, v). insert_op u x v vs) xs j = (Inr (), i')"
    using Cons.prems(1) by (auto simp: p op_then_eq_Inr)
  have x: "x \<in> set (hm_keys vs)" using Cons.prems(5) by (simp add: p)
  have "invar j" "insert x (ids i) \<subseteq> ids j" "ids j \<subseteq> set (hm_keys vs)"
    using insert_invar [OF Cons.prems(2-4) x j] insert_ids [OF Cons.prems(2-4) x j] by auto
  with Cons.IH [OF rest] Cons.prems(3,5) show ?case by (auto simp: p)
qed

lemma fill_all:
  assumes "op_for (\<lambda>(u, x, v). insert_op u x v vs) xs i = (Inr (), i')"
    and "invar i" and "ids i = {}" and "hm_ok vs" and "(fst \<circ> snd) ` set xs = set (hm_keys vs)"
  shows "invar i' \<and> ids i' = set (hm_keys vs)"
  using fill [OF assms(1,2,4)] assms(3,5) by auto

end

section \<open>Statistics\<close>

datatype index_details =
    FlatDetails
  | HnswDetails int "nat list" f32
  | IvfDetails nat "nat list" bool

record index_stats =
  st_type :: index_type
  st_total :: nat
  st_memory :: nat
  st_details :: index_details

end
