(* ===== verification/Flat_Index.thy ===== *)
theory Flat_Index
  imports Index_Contract
begin

text \<open>
  The brute-force index of \<^verbatim>\<open>src/src/index/flat/\<close>: the list of known ids, scored one
  by one against the query.
\<close>

record flat_config =
  fc_metric :: metric
  fc_mode :: execution_mode

definition default_flat_config :: flat_config where
  "default_flat_config = \<lparr>fc_metric = Cosine, fc_mode = Auto\<rparr>"

record flat_index =
  flat_config :: flat_config
  vector_ids :: "uuid list"

definition flat_new :: "flat_config \<Rightarrow> flat_index" where
  "flat_new c = \<lparr>flat_config = c, vector_ids = []\<rparr>"

definition flat_insert :: "uuid \<Rightarrow> f32 list \<Rightarrow> vectors \<Rightarrow> (flat_index, fault, unit) op" where
  "flat_insert uid v vs =
     op_modify (\<lambda>i. if uid \<in> set (vector_ids i) then i
       else i\<lparr>vector_ids := vector_ids i @ [uid]\<rparr>)"

definition flat_search ::
  "'p platform_scheme \<Rightarrow> f32 list \<Rightarrow> nat \<Rightarrow> vectors \<Rightarrow> search_config \<Rightarrow> filter_query option
    \<Rightarrow> metadatas \<Rightarrow> flat_index \<Rightarrow> uuid list outcome" where
  "flat_search P query k vs quality flt ms i =
     and_then
       (collect_results
          (score_of P (fc_metric (flat_config i)) (fc_mode (flat_config i)) ''Flat'' query vs)
          (vector_ids i))
       (\<lambda>scored. Inr (best_ids k scored))"

definition flat_remove :: "uuid \<Rightarrow> flat_index \<Rightarrow> flat_index" where
  "flat_remove uid i = i\<lparr>vector_ids := filter (\<lambda>v. v \<noteq> uid) (vector_ids i)\<rparr>"

definition flat_stats :: "flat_index \<Rightarrow> index_stats" where
  "flat_stats i = \<lparr>st_type = Flat, st_total = length (vector_ids i),
     st_memory = length (vector_ids i) * 16, st_details = FlatDetails\<rparr>"

section \<open>The contract\<close>

definition flat_ok :: "flat_index \<Rightarrow> bool" where
  "flat_ok i \<longleftrightarrow> distinct (vector_ids i)"

definition flat_ids :: "flat_index \<Rightarrow> uuid set" where
  "flat_ids i = set (vector_ids i)"

lemma flat_ok_new [simp]: "flat_ok (flat_new c)" "flat_ids (flat_new c) = {}"
  by (simp_all add: flat_ok_def flat_ids_def flat_new_def)

lemma flat_insert_ids:
  "flat_insert uid v vs i = (r, i') \<Longrightarrow> flat_ids i' = insert uid (flat_ids i) \<and> r = Inr ()"
  by (auto simp: flat_insert_def flat_ids_def split: if_splits)

lemma flat_insert_ok: "flat_ok i \<Longrightarrow> flat_insert uid v vs i = (r, i') \<Longrightarrow> flat_ok i'"
  by (auto simp: flat_insert_def flat_ok_def split: if_splits)

lemma flat_search_sound:
  assumes "flat_ok i" and "flat_search P q k vs c f ms i = Inr r"
  shows "set r \<subseteq> flat_ids i \<and> length r \<le> k \<and> distinct r"
proof -
  obtain ps where ps: "map fst ps = vector_ids i" and r: "r = best_ids k ps"
    using assms(2) by (auto simp: flat_search_def and_then_eq_Inr dest: scores_fst)
  then show ?thesis
    using best_ids_sound [where k = k and ps = ps] assms(1) by (simp add: flat_ids_def flat_ok_def)
qed

interpretation flat: vector_index flat_ok flat_ids "\<lambda>_. flat_insert" flat_remove "flat_search P" for P
proof (unfold_locales, goal_cases)
  case (1 i vs x u v i')
  then show ?case using flat_insert_ok by blast
next
  case (2 i vs x u v i')
  then show ?case using flat_insert_ids [of x v vs i "Inr ()" i'] by auto
next
  case (3 i x)
  then show ?case by (simp add: flat_ok_def flat_remove_def)
next
  case (4 i x)
  then show ?case by (auto simp: flat_ids_def flat_remove_def)
next
  case 5
  then show ?case by (rule flat_search_sound)
qed

section \<open>Exactness\<close>

abbreviation flat_score :: "'p platform_scheme \<Rightarrow> f32 list \<Rightarrow> vectors \<Rightarrow> flat_index \<Rightarrow> uuid \<Rightarrow> f32" where
  "flat_score P q vs i \<equiv> similarity P (fc_metric (flat_config i)) (fc_mode (flat_config i)) q vs"

lemma flat_search_ranked:
  assumes "flat_ok i" and "fc_mode (flat_config i) \<noteq> Gpu"
    and "\<And>x. x \<in> flat_ids i \<Longrightarrow> readable (length q) vs x"
    and "\<And>x. x \<in> flat_ids i \<Longrightarrow> \<not> is_nan (flat_score P q vs i x)"
  shows "\<exists>r. flat_search P q k vs c f ms i = Inr r
    \<and> ranked_best (flat_score P q vs i) k (flat_ids i) r"
proof -
  have "flat_search P q k vs c f ms i
      = Inr (best_ids k (map (\<lambda>x. (x, flat_score P q vs i x)) (vector_ids i)))"
    using assms(2,3) by (simp add: flat_search_def scores_readable flat_ids_def)
  then show ?thesis
    using best_ids_ranked [of "vector_ids i" "flat_score P q vs i" k] assms(1,4)
    by (simp add: flat_ok_def flat_ids_def)
qed

text \<open>
  Brute-force search is exact. When every indexed id has a vector of the query's
  dimension and no score is NaN, it returns without error exactly \<open>min k n\<close> distinct
  indexed ids in descending order of similarity, and no id it leaves out scores better than one
  it returns.
\<close>

theorem flat_search_exact:
  assumes "flat_ok i" and "fc_mode (flat_config i) \<noteq> Gpu"
    and "\<And>x. x \<in> flat_ids i \<Longrightarrow> readable (length q) vs x"
    and "\<And>x. x \<in> flat_ids i \<Longrightarrow> \<not> is_nan (flat_score P q vs i x)"
  shows "\<exists>r. flat_search P q k vs c f ms i = Inr r
    \<and> ranked_best (flat_score P q vs i) k (flat_ids i) r"
  using assms by (rule flat_search_ranked)

theorem flat_search_exact_witness:
  "\<exists>r. flat_search scalar_machine [f32_one] 1 [(1, [f32_one]), (2, [f32_two])]
      default_search_config None []
      \<lparr>flat_config = \<lparr>fc_metric = DotProduct, fc_mode = Scalar\<rparr>, vector_ids = [1, 2]\<rparr> = Inr r
    \<and> length r = 1"
proof -
  let ?i = "\<lparr>flat_config = \<lparr>fc_metric = DotProduct, fc_mode = Scalar\<rparr>, vector_ids = [1, 2]\<rparr>"
  let ?vs = "[(1, [f32_one]), (2, [f32_two])]"
  have "readable (length [f32_one]) ?vs x" if "x \<in> flat_ids ?i" for x
    using that by (auto simp: flat_ids_def readable_def reader_get_def hm_get_def)
  moreover have "\<not> is_nan (flat_score scalar_machine [f32_one] ?vs ?i x)" if "x \<in> flat_ids ?i" for x
    using that
    by (auto simp: flat_ids_def similarity_def reader_get_def hm_get_def calculate_def
        dot_product_def resolve_def dot_product_scalar_def sum_loop_def dot_term_def
        f32_one_def f32_two_def float_eval)
  ultimately have "\<exists>r. flat_search scalar_machine [f32_one] 1 ?vs default_search_config None [] ?i = Inr r
      \<and> ranked_best (flat_score scalar_machine [f32_one] ?vs ?i) 1 (flat_ids ?i) r"
    using flat_search_exact [of ?i "[f32_one]" ?vs scalar_machine 1 default_search_config None "[]"]
    by (simp add: flat_ok_def)
  then show ?thesis by (auto simp: flat_ids_def ranked_best_def)
qed

end
