(* ===== verification/Ivf_Index.thy ===== *)
theory Ivf_Index
  imports Index_Contract
begin

text \<open>
  The inverted-file index of \<^verbatim>\<open>src/src/index/ivf/\<close>: ids wait in
  \<open>pending_vectors\<close> until the reader holds \<open>num_clusters\<close> vectors; then
  k-means builds the clusters, and later ids go to the cluster of the nearest centroid.
  Hash sets are duplicate-free lists. An index out of range panics.
\<close>

section \<open>State\<close>

record ivf_config =
  num_clusters :: nat
  num_probes :: nat
  max_iterations :: nat
  ivf_metric :: metric
  ivf_mode :: execution_mode

definition default_ivf_config :: ivf_config where
  "default_ivf_config = \<lparr>num_clusters = 100, num_probes = 5, max_iterations = 10,
     ivf_metric = Cosine, ivf_mode = Auto\<rparr>"

text \<open>\<^verbatim>\<open>IvfConfig::auto\<close>, in floating point as written.\<close>

definition auto_clusters :: "nat \<Rightarrow> nat" where
  "auto_clusters n = fl_to_usize F32 (fl_max (fsqrt (f32_of_nat n)) (f32_of_nat 10))"

definition auto_probes :: "nat \<Rightarrow> nat" where
  "auto_probes clusters =
     fl_to_usize F32 (fl_clamp (fmul (f32_of_nat clusters) (f32_lit 1 10)) f32_one (f32_of_nat 10))"

definition ivf_config_auto :: "nat \<Rightarrow> ivf_config" where
  "ivf_config_auto n = \<lparr>num_clusters = auto_clusters n, num_probes = auto_probes (auto_clusters n),
     max_iterations = 10, ivf_metric = Cosine, ivf_mode = Auto\<rparr>"

record ivf_index =
  ivf_config :: ivf_config
  centroids :: "f32 list list"
  inverted_lists :: "uuid list list"
  vector_to_cluster :: "(uuid, nat) hmap"
  pending_vectors :: "uuid list"
  dimensions :: nat

definition ivf_new :: "ivf_config \<Rightarrow> ivf_index" where
  "ivf_new c = \<lparr>ivf_config = c, centroids = [], inverted_lists = [], vector_to_cluster = [],
     pending_vectors = [], dimensions = 0\<rparr>"

section \<open>Centroids\<close>

definition centroid_scores ::
  "'p platform_scheme \<Rightarrow> f32 list \<Rightarrow> ivf_index \<Rightarrow> (nat \<times> f32) list outcome" where
  "centroid_scores P v i =
     collect_results
       (\<lambda>(c, centroid).
          and_then (calculate P (ivf_metric (ivf_config i)) v centroid (ivf_mode (ivf_config i)))
            (\<lambda>s. Inr (c, s)))
       (List.enumerate 0 (centroids i))"

definition by_score :: "(nat \<times> f32) \<Rightarrow> (nat \<times> f32) \<Rightarrow> ordering" where
  "by_score a b = cmp_or_equal (snd a) (snd b)"

definition find_nearest_centroid ::
  "'p platform_scheme \<Rightarrow> f32 list \<Rightarrow> ivf_index \<Rightarrow> nat outcome" where
  "find_nearest_centroid P v i =
     and_then (centroid_scores P v i)
       (\<lambda>scores. Inr (case max_by by_score scores of None \<Rightarrow> 0 | Some m \<Rightarrow> fst m))"

definition add_into :: "f32 list \<Rightarrow> f32 list \<Rightarrow> f32 list outcome" where
  "add_into v acc =
     (if length v > length acc then panic
      else Inr (map (\<lambda>j. if j < length v then fadd (acc ! j) (v ! j) else acc ! j) [0..<length acc]))"

definition compute_centroid :: "nat \<Rightarrow> (uuid \<times> f32 list) list \<Rightarrow> f32 list outcome" where
  "compute_centroid dims cluster =
     (if cluster = [] then Inr (replicate dims f32_zero)
      else and_then (fold_results (\<lambda>(uid, v). add_into v) cluster (replicate dims f32_zero))
        (\<lambda>sums. Inr (map (\<lambda>x. fdiv x (f32_of_nat (length cluster))) sums)))"

section \<open>k-means\<close>

type_synonym clusters = "(uuid \<times> f32 list) list list"

fun assign_vectors ::
  "'p platform_scheme \<Rightarrow> ivf_index \<Rightarrow> (uuid \<times> f32 list) list \<Rightarrow> clusters \<Rightarrow> clusters outcome" where
  "assign_vectors P i [] cs = Inr cs"
| "assign_vectors P i ((uid, v) # vs) cs =
     and_then (find_nearest_centroid P v i)
       (\<lambda>c. if c < length cs then assign_vectors P i vs (cs[c := cs ! c @ [(uid, v)]]) else panic)"

definition set_centroid :: "nat \<Rightarrow> f32 list \<Rightarrow> ivf_index \<Rightarrow> ivf_index" where
  "set_centroid c v i = i\<lparr>centroids := (centroids i)[c := v]\<rparr>"

text \<open>
  The update of one centroid after the other; the result says whether every similarity to the
  old centroid reached 0.99.
\<close>

fun update_centroids ::
  "'p platform_scheme \<Rightarrow> (nat \<times> (uuid \<times> f32 list) list) list \<Rightarrow> bool
    \<Rightarrow> (ivf_index, fault, bool) op" where
  "update_centroids P [] converged = op_return converged"
| "update_centroids P ((c, cluster) # rest) converged =
     (if cluster = [] then update_centroids P rest converged
      else
        op_then (op_read (\<lambda>i. compute_centroid (dimensions i) cluster)) (\<lambda>new.
        op_then (op_read (\<lambda>i.
            if c < length (centroids i)
            then calculate P (ivf_metric (ivf_config i)) (centroids i ! c) new
                   (ivf_mode (ivf_config i))
            else panic)) (\<lambda>similarity.
        op_then (op_modify (set_centroid c new)) (\<lambda>_.
        update_centroids P rest (converged \<and> \<not> fl_lt similarity (f32_lit 99 100))))))"

fun kmeans ::
  "'p platform_scheme \<Rightarrow> (uuid \<times> f32 list) list \<Rightarrow> nat \<Rightarrow> nat \<Rightarrow> (ivf_index, fault, unit) op" where
  "kmeans P vs n 0 = op_return ()"
| "kmeans P vs n (Suc iterations) =
     op_then (op_read (\<lambda>i. assign_vectors P i vs (replicate n []))) (\<lambda>clusters.
     op_then (update_centroids P (List.enumerate 0 clusters) True) (\<lambda>converged.
     if converged then op_return () else kmeans P vs n iterations))"

definition push_to_cluster :: "nat \<Rightarrow> uuid \<Rightarrow> ivf_index \<Rightarrow> ivf_index" where
  "push_to_cluster c uid i =
     i\<lparr>inverted_lists := (inverted_lists i)[c := inverted_lists i ! c @ [uid]],
       vector_to_cluster := hm_insert uid c (vector_to_cluster i)\<rparr>"

definition file_vector ::
  "'p platform_scheme \<Rightarrow> uuid \<times> f32 list \<Rightarrow> (ivf_index, fault, unit) op" where
  "file_vector P p =
     op_then (op_read (find_nearest_centroid P (snd p))) (\<lambda>c.
     op_then (op_read (\<lambda>i. if c < length (inverted_lists i) then Inr () else panic)) (\<lambda>_.
     op_modify (push_to_cluster c (fst p))))"

definition start_clusters :: "(uuid \<times> f32 list) list \<Rightarrow> ivf_index \<Rightarrow> ivf_index" where
  "start_clusters vs i =
     i\<lparr>dimensions := (case vs of [] \<Rightarrow> dimensions i | p # _ \<Rightarrow> length (snd p)),
       centroids := map snd (take (min (num_clusters (ivf_config i)) (length vs)) vs)\<rparr>"

definition clear_lists :: "nat \<Rightarrow> ivf_index \<Rightarrow> ivf_index" where
  "clear_lists n i =
     i\<lparr>inverted_lists := replicate n [], vector_to_cluster := [], pending_vectors := []\<rparr>"

definition build_with ::
  "'p platform_scheme \<Rightarrow> (uuid \<times> f32 list) list \<Rightarrow> nat \<Rightarrow> nat \<Rightarrow> (ivf_index, fault, unit) op" where
  "build_with P vs n iterations =
     op_then (op_modify (start_clusters vs)) (\<lambda>_.
     op_then (kmeans P vs n iterations) (\<lambda>_.
     op_then (op_modify (clear_lists n)) (\<lambda>_.
     op_for (file_vector P) vs)))"

definition build_clusters :: "'p platform_scheme \<Rightarrow> vectors \<Rightarrow> (ivf_index, fault, unit) op" where
  "build_clusters P vs =
     (\<lambda>i. if reader_len vs = 0 then (Inr (), i)
       else build_with P (reader_iter P vs)
         (min (num_clusters (ivf_config i)) (length (reader_iter P vs)))
         (max_iterations (ivf_config i)) i)"

section \<open>The trait's operations\<close>

definition add_pending :: "uuid \<Rightarrow> ivf_index \<Rightarrow> ivf_index" where
  "add_pending uid i = i\<lparr>pending_vectors := List.insert uid (pending_vectors i)\<rparr>"

definition ivf_insert ::
  "'p platform_scheme \<Rightarrow> uuid \<Rightarrow> f32 list \<Rightarrow> vectors \<Rightarrow> (ivf_index, fault, unit) op" where
  "ivf_insert P uid v vs =
     (\<lambda>i. if hm_contains (vector_to_cluster i) uid \<or> uid \<in> set (pending_vectors i) then (Inr (), i)
       else if centroids i = [] then
         (if reader_len vs \<ge> num_clusters (ivf_config i)
          then build_clusters P vs (add_pending uid i)
          else (Inr (), add_pending uid i))
       else
         op_then (op_read (find_nearest_centroid P v)) (\<lambda>c.
           op_modify (\<lambda>i. if c \<ge> length (inverted_lists i) then i else push_to_cluster c uid i)) i)"

definition probe ::
  "'p platform_scheme \<Rightarrow> f32 list \<Rightarrow> vectors \<Rightarrow> ivf_index \<Rightarrow> nat \<Rightarrow> (uuid \<times> f32) list outcome" where
  "probe P query vs i c =
     collect_results
       (score_of P (ivf_metric (ivf_config i)) (ivf_mode (ivf_config i)) ''IVF'' query vs)
       (if c < length (inverted_lists i) then inverted_lists i ! c else [])"

definition probed :: "search_config \<Rightarrow> ivf_index \<Rightarrow> (nat \<times> f32) list \<Rightarrow> nat list" where
  "probed quality i scores =
     map fst (take (case nprobe quality of Some n \<Rightarrow> n | None \<Rightarrow> num_probes (ivf_config i))
       (sort_by (by_score_desc snd) scores))"

definition ivf_search ::
  "'p platform_scheme \<Rightarrow> f32 list \<Rightarrow> nat \<Rightarrow> vectors \<Rightarrow> search_config \<Rightarrow> filter_query option
    \<Rightarrow> metadatas \<Rightarrow> ivf_index \<Rightarrow> uuid list outcome" where
  "ivf_search P query k vs quality flt ms i =
     (if centroids i = [] then fail (Index NotInitialized)
      else
        and_then (centroid_scores P query i) (\<lambda>scores.
        and_then (collect_results (probe P query vs i) (probed quality i scores)) (\<lambda>found.
        Inr (best_ids k (concat found)))))"

definition ivf_remove :: "uuid \<Rightarrow> ivf_index \<Rightarrow> ivf_index" where
  "ivf_remove uid i =
     (case hm_get (vector_to_cluster i) uid of
        None \<Rightarrow> i\<lparr>pending_vectors := removeAll uid (pending_vectors i)\<rparr>
      | Some c \<Rightarrow>
          i\<lparr>pending_vectors := removeAll uid (pending_vectors i),
            vector_to_cluster := hm_remove uid (vector_to_cluster i),
            inverted_lists := (inverted_lists i)
              [c := filter (\<lambda>v. v \<noteq> uid) (inverted_lists i ! c)]\<rparr>)"

definition ivf_stats :: "ivf_index \<Rightarrow> index_stats" where
  "ivf_stats i = \<lparr>st_type = Ivf,
     st_total = length (vector_to_cluster i) + length (pending_vectors i),
     st_memory = length (centroids i) * dimensions i * 4 + length (vector_to_cluster i) * (16 + 8)
       + length (pending_vectors i) * 16 + sum_list (map (\<lambda>l. length l * 16) (inverted_lists i)),
     st_details = IvfDetails (length (centroids i)) (map length (inverted_lists i))
       (centroids i \<noteq> [])\<rparr>"

section \<open>The invariant: lists and map describe one partition\<close>

definition ivf_ok :: "ivf_index \<Rightarrow> bool" where
  "ivf_ok i \<longleftrightarrow>
     length (inverted_lists i) = length (centroids i) \<and> hm_ok (vector_to_cluster i) \<and>
     (\<forall>uid c. hm_get (vector_to_cluster i) uid = Some c \<longleftrightarrow>
        c < length (inverted_lists i) \<and> uid \<in> set (inverted_lists i ! c)) \<and>
     (\<forall>c < length (inverted_lists i). distinct (inverted_lists i ! c)) \<and>
     distinct (pending_vectors i) \<and> (centroids i \<noteq> [] \<longrightarrow> pending_vectors i = [])"

definition ivf_ids :: "ivf_index \<Rightarrow> uuid set" where
  "ivf_ids i = set (hm_keys (vector_to_cluster i)) \<union> set (pending_vectors i)"

lemma ivf_ok_new [simp]: "ivf_ok (ivf_new c)" "ivf_ids (ivf_new c) = {}"
  by (auto simp: ivf_ok_def ivf_ids_def ivf_new_def hm_keys_def)

lemma push_to_cluster_ok:
  assumes "ivf_ok i" and "hm_get (vector_to_cluster i) uid = None" and "c < length (inverted_lists i)"
    and "pending_vectors i = []"
  shows "ivf_ok (push_to_cluster c uid i)" "ivf_ids (push_to_cluster c uid i) = insert uid (ivf_ids i)"
proof -
  have "uid \<notin> set (inverted_lists i ! d)" if "d < length (inverted_lists i)" for d
    using assms(1,2) that by (metis ivf_ok_def option.distinct(1))
  with assms show "ivf_ok (push_to_cluster c uid i)"
    unfolding ivf_ok_def push_to_cluster_def
    by (auto simp: nth_list_update split: if_splits)
  show "ivf_ids (push_to_cluster c uid i) = insert uid (ivf_ids i)"
    by (simp add: ivf_ids_def push_to_cluster_def)
qed

lemma ivf_lists_disjoint:
  "ivf_ok i \<Longrightarrow> c < length (inverted_lists i) \<Longrightarrow> d < length (inverted_lists i) \<Longrightarrow>
   uid \<in> set (inverted_lists i ! c) \<Longrightarrow> uid \<in> set (inverted_lists i ! d) \<Longrightarrow> c = d"
  by (metis ivf_ok_def option.inject)

lemma ivf_remove_ok:
  assumes "ivf_ok i" shows "ivf_ok (ivf_remove uid i)"
proof (cases "hm_get (vector_to_cluster i) uid")
  case None
  with assms show ?thesis by (auto simp: ivf_ok_def ivf_remove_def distinct_removeAll)
next
  case (Some c)
  then have c: "c < length (inverted_lists i)" "uid \<in> set (inverted_lists i ! c)"
    using assms by (auto simp: ivf_ok_def)
  have "uid \<notin> set (inverted_lists i ! d)" if "d < length (inverted_lists i)" "d \<noteq> c" for d
    using ivf_lists_disjoint [OF assms c(1) that(1) c(2)] that(2) by blast
  moreover have "ivf_remove uid i = i\<lparr>pending_vectors := removeAll uid (pending_vectors i),
      vector_to_cluster := hm_remove uid (vector_to_cluster i),
      inverted_lists := (inverted_lists i)[c := filter (\<lambda>v. v \<noteq> uid) (inverted_lists i ! c)]\<rparr>"
    using Some by (simp add: ivf_remove_def)
  ultimately show ?thesis
    using assms c(1) unfolding ivf_ok_def
    by (auto simp: nth_list_update distinct_removeAll)
qed

lemma ivf_remove_ids: "ivf_ids (ivf_remove uid i) = ivf_ids i - {uid}"
  by (cases "hm_get (vector_to_cluster i) uid")
    (auto simp: ivf_ids_def ivf_remove_def hm_keys_get)

section \<open>Building the clusters\<close>

lemma find_nearest_centroid_lt:
  assumes "find_nearest_centroid P v i = Inr c" and "centroids i \<noteq> []"
  shows "c < length (centroids i)"
proof -
  obtain ss where ss: "centroid_scores P v i = Inr ss"
    and c: "c = (case max_by by_score ss of None \<Rightarrow> 0 | Some m \<Rightarrow> fst m)"
    using assms(1) by (auto simp: find_nearest_centroid_def and_then_eq_Inr)
  have l: "list_all2 (\<lambda>x y. fst y = fst x) (List.enumerate 0 (centroids i)) ss"
    using ss unfolding centroid_scores_def collect_results_Inr_iff
    by (rule list_all2_mono) (auto simp: and_then_eq_Inr)
  then have f: "map fst ss = [0..<length (centroids i)]"
    by (auto simp: list_all2_conv_all_nth nth_enumerate_eq intro!: nth_equalityI)
  have "length ss = length (centroids i)" using f by (metis length_map length_upt diff_zero)
  then have "ss \<noteq> []" using assms(2) by auto
  then obtain m where "max_by by_score ss = Some m" by (cases ss) auto
  moreover from this have "fst m \<in> set (map fst ss)" by (simp add: max_by_in)
  ultimately show ?thesis using c f by simp
qed

text \<open>What k-means leaves alone.\<close>

definition same_lists :: "ivf_index \<Rightarrow> ivf_index \<Rightarrow> bool" where
  "same_lists i j \<longleftrightarrow> length (centroids j) = length (centroids i) \<and> ivf_config j = ivf_config i \<and>
     dimensions j = dimensions i \<and> inverted_lists j = inverted_lists i \<and>
     vector_to_cluster j = vector_to_cluster i \<and> pending_vectors j = pending_vectors i"

lemma same_lists_refl [simp]: "same_lists i i"
  by (simp add: same_lists_def)

lemma same_lists_trans [trans]: "same_lists i j \<Longrightarrow> same_lists j l \<Longrightarrow> same_lists i l"
  by (simp add: same_lists_def)

lemma set_centroid_keeps: "same_lists i s \<Longrightarrow> same_lists i (set_centroid c v s)"
  by (simp add: same_lists_def set_centroid_def)

lemma update_centroids_same: "op_preserves (same_lists i) (update_centroids P l b)"
  by (induction P l b rule: update_centroids.induct)
    (auto intro!: op_preserves_then op_preserves_modify set_centroid_keeps)

lemma kmeans_same: "op_preserves (same_lists i) (kmeans P vs n k)"
  by (induction k) (auto intro!: op_preserves_then update_centroids_same)

lemma file_all:
  assumes "op_for (file_vector P) vs i = (Inr u, i')" and "ivf_ok i" and "pending_vectors i = []"
    and "distinct (map fst vs)" and "fst ` set vs \<inter> ivf_ids i = {}"
  shows "ivf_ok i' \<and> ivf_ids i' = ivf_ids i \<union> fst ` set vs"
  using assms
proof (induction vs arbitrary: i)
  case (Cons p vs)
  obtain c where c: "c < length (inverted_lists i)"
    and rest: "op_for (file_vector P) vs (push_to_cluster c (fst p) i) = (Inr u, i')"
    using Cons.prems(1)
    by (auto simp: op_then_eq_Inr file_vector_def [of P p] split: if_splits)
  have "hm_get (vector_to_cluster i) (fst p) = None"
    using Cons.prems(5) by (auto simp: ivf_ids_def hm_keys_get)
  note push = push_to_cluster_ok [OF Cons.prems(2) this c Cons.prems(3)]
  have "pending_vectors (push_to_cluster c (fst p) i) = []"
    using Cons.prems(3) by (simp add: push_to_cluster_def)
  moreover have "distinct (map fst vs)" using Cons.prems(4) by simp
  moreover have "fst ` set vs \<inter> ivf_ids (push_to_cluster c (fst p) i) = {}"
    using Cons.prems(4,5) by (auto simp: push(2))
  ultimately show ?case using Cons.IH [OF rest push(1)] by (simp add: push(2))
qed simp

lemma clear_lists_ok:
  "length (centroids i) = n \<Longrightarrow> ivf_ok (clear_lists n i)" "ivf_ids (clear_lists n i) = {}"
  "pending_vectors (clear_lists n i) = []"
  by (auto simp: ivf_ok_def ivf_ids_def clear_lists_def hm_keys_def)

lemma build_with_ok:
  assumes "build_with P vs n k i = (Inr u, i')" and "n = min (num_clusters (ivf_config i)) (length vs)"
    and "distinct (map fst vs)"
  shows "ivf_ok i' \<and> ivf_ids i' = fst ` set vs"
proof -
  obtain j where j: "kmeans P vs n k (start_clusters vs i) = (Inr (), j)"
    and f: "op_for (file_vector P) vs (clear_lists n j) = (Inr u, i')"
    using assms(1) by (auto simp: build_with_def op_then_eq_Inr)
  have "same_lists (start_clusters vs i) j"
    using op_preserves_Inr [OF kmeans_same same_lists_refl j] .
  then have "length (centroids j) = n"
    by (simp add: same_lists_def start_clusters_def assms(2))
  then show ?thesis
    using file_all [OF f] clear_lists_ok(1) [of j n] clear_lists_ok(2,3) [of n j] assms(3) by simp
qed

lemma build_clusters_ok:
  assumes "build_clusters P vs i = (Inr u, i')" and "hash_order (uuid_order P)" and "hm_ok vs"
    and "vs \<noteq> []"
  shows "ivf_ok i' \<and> ivf_ids i' = set (hm_keys vs)"
  using build_with_ok [of P "reader_iter P vs"] assms
  by (auto simp: build_clusters_def reader_len_def fst_reader_iter distinct_hm_iter)

section \<open>The contract\<close>

lemma add_pending_ok:
  assumes "ivf_ok i" and "centroids i = []"
  shows "ivf_ok (add_pending uid i)" "ivf_ids (add_pending uid i) = insert uid (ivf_ids i)"
  using assms by (auto simp: ivf_ok_def add_pending_def ivf_ids_def)

lemma ivf_insert_ok:
  assumes "hash_order (uuid_order P)" and "ivf_ok i" and "hm_ok vs"
    and "ivf_ids i \<subseteq> set (hm_keys vs)" and "uid \<in> set (hm_keys vs)"
    and ins: "ivf_insert P uid v vs i = (Inr (), i')"
  shows "ivf_ok i' \<and> insert uid (ivf_ids i) \<subseteq> ivf_ids i' \<and> ivf_ids i' \<subseteq> set (hm_keys vs)"
proof (cases "hm_contains (vector_to_cluster i) uid \<or> uid \<in> set (pending_vectors i)")
  case True
  then have "uid \<in> ivf_ids i" by (auto simp: ivf_ids_def hm_contains_def)
  with True assms show ?thesis by (simp add: ivf_insert_def insert_absorb)
next
  case new: False
  show ?thesis
  proof (cases "centroids i = []")
    case True
    note pend = add_pending_ok [OF assms(2) True, of uid]
    show ?thesis
    proof (cases "reader_len vs \<ge> num_clusters (ivf_config i)")
      case False
      then have "i' = add_pending uid i" using new True ins by (simp add: ivf_insert_def)
      with pend assms(4,5) show ?thesis by simp
    next
      case build: True
      then have "build_clusters P vs (add_pending uid i) = (Inr (), i')"
        using new True ins by (simp add: ivf_insert_def)
      moreover have "vs \<noteq> []" using assms(5) by (auto simp: hm_keys_def)
      ultimately show ?thesis using build_clusters_ok assms(1,3-5) by auto
    qed
  next
    case False
    obtain c where c: "find_nearest_centroid P v i = Inr c"
      and i': "i' = (if c \<ge> length (inverted_lists i) then i else push_to_cluster c uid i)"
      using new False ins by (auto simp: ivf_insert_def op_then_eq_Inr)
    have "c < length (inverted_lists i)"
      using find_nearest_centroid_lt [OF c False] assms(2) by (simp add: ivf_ok_def)
    moreover have "hm_get (vector_to_cluster i) uid = None" using new by (simp add: hm_contains_iff)
    moreover have "pending_vectors i = []" using assms(2) False by (simp add: ivf_ok_def)
    ultimately show ?thesis
      using push_to_cluster_ok [OF assms(2)] i' assms(4,5) by auto
  qed
qed

lemma probed_clusters:
  assumes "centroid_scores P q i = Inr ss"
  shows "distinct (probed quality i ss)"
proof -
  have "list_all2 (\<lambda>x y. fst y = fst x) (List.enumerate 0 (centroids i)) ss"
    using assms unfolding centroid_scores_def collect_results_Inr_iff
    by (rule list_all2_mono) (auto simp: and_then_eq_Inr)
  then have "map fst ss = [0..<length (centroids i)]"
    by (auto simp: list_all2_conv_all_nth nth_enumerate_eq intro!: nth_equalityI)
  then have "distinct (map fst (sort_by (by_score_desc snd) ss))" by simp
  then show ?thesis unfolding probed_def by (metis distinct_take take_map)
qed

lemma probe_fst:
  "probe P q vs i c = Inr ps \<Longrightarrow>
   map fst ps = (if c < length (inverted_lists i) then inverted_lists i ! c else [])"
  by (auto simp: probe_def dest: scores_fst split: if_splits)

lemma probes_concat:
  assumes "ivf_ok i" and "collect_results (probe P q vs i) cs = Inr found" and "distinct cs"
  shows "set (map fst (concat found)) = {u. \<exists>c \<in> set cs. c < length (inverted_lists i)
      \<and> u \<in> set (inverted_lists i ! c)} \<and> distinct (map fst (concat found))"
  using assms(2,3)
proof (induction cs arbitrary: found)
  case (Cons c cs)
  obtain ps rest where ps: "probe P q vs i c = Inr ps"
    and rest: "collect_results (probe P q vs i) cs = Inr rest" and found: "found = ps # rest"
    using Cons.prems(1) by (auto simp: and_then_eq_Inr)
  have IH: "set (map fst (concat rest)) = {u. \<exists>c \<in> set cs. c < length (inverted_lists i)
      \<and> u \<in> set (inverted_lists i ! c)}" "distinct (map fst (concat rest))"
    using Cons.IH [OF rest] Cons.prems(2) by auto
  have "distinct (map fst ps)" using probe_fst [OF ps] assms(1) by (simp add: ivf_ok_def)
  moreover have "set (map fst ps) \<inter> set (map fst (concat rest)) = {}"
    unfolding IH(1) probe_fst [OF ps]
    using ivf_lists_disjoint [OF assms(1), of c] Cons.prems(2) by auto
  ultimately show ?case
    using IH probe_fst [OF ps] by (auto simp: found)
qed simp

lemma ivf_list_ids:
  "ivf_ok i \<Longrightarrow> c < length (inverted_lists i) \<Longrightarrow> u \<in> set (inverted_lists i ! c) \<Longrightarrow> u \<in> ivf_ids i"
  by (auto simp: ivf_ok_def ivf_ids_def hm_keys_get)

lemma ivf_search_sound:
  assumes "ivf_ok i" and "ivf_search P q k vs quality f ms i = Inr r"
  shows "set r \<subseteq> ivf_ids i \<and> length r \<le> k \<and> distinct r"
proof -
  obtain ss found where ss: "centroid_scores P q i = Inr ss"
    and found: "collect_results (probe P q vs i) (probed quality i ss) = Inr found"
    and r: "r = best_ids k (concat found)"
    using assms(2) by (auto simp: ivf_search_def and_then_eq_Inr split: if_splits)
  note c = probes_concat [OF assms(1) found probed_clusters [OF ss]]
  have "set (map fst (concat found)) \<subseteq> ivf_ids i"
    using c ivf_list_ids [OF assms(1)] by blast
  then show ?thesis using best_ids_sound [where k = k and ps = "concat found"] c r by blast
qed

text \<open>The invariant the contract speaks of includes the law of the hash order.\<close>

definition ivf_inv :: "'p platform_scheme \<Rightarrow> ivf_index \<Rightarrow> bool" where
  "ivf_inv P i \<longleftrightarrow> hash_order (uuid_order P) \<and> ivf_ok i"

interpretation ivf: vector_index "ivf_inv P" ivf_ids "\<lambda>_. ivf_insert P" ivf_remove "ivf_search P" for P
proof (unfold_locales, goal_cases)
  case (1 i vs x u v i')
  then show ?case using ivf_insert_ok unfolding ivf_inv_def by blast
next
  case (2 i vs x u v i')
  then show ?case using ivf_insert_ok unfolding ivf_inv_def by blast
next
  case (3 i x)
  then show ?case by (simp add: ivf_inv_def ivf_remove_ok)
next
  case (4 i x)
  then show ?case by (simp add: ivf_remove_ids)
next
  case 5
  then show ?case using ivf_search_sound unfolding ivf_inv_def by blast
qed

section \<open>Full probing is exact\<close>

abbreviation ivf_score :: "'p platform_scheme \<Rightarrow> f32 list \<Rightarrow> vectors \<Rightarrow> ivf_index \<Rightarrow> uuid \<Rightarrow> f32" where
  "ivf_score P q vs i \<equiv> similarity P (ivf_metric (ivf_config i)) (ivf_mode (ivf_config i)) q vs"

lemma centroid_scores_total:
  assumes "\<And>c. c \<in> set (centroids i) \<Longrightarrow> length c = length q" and "ivf_mode (ivf_config i) \<noteq> Gpu"
  shows "\<exists>ss. centroid_scores P q i = Inr ss"
proof -
  let ?calc = "\<lambda>c. calculate P (ivf_metric (ivf_config i)) q c (ivf_mode (ivf_config i))"
  let ?get = "\<lambda>c. case ?calc c of Inr s \<Rightarrow> s | Inl _ \<Rightarrow> NaN"
  have calc: "?calc c = Inr (?get c)" if "c \<in> set (centroids i)" for c
    using calculate_total [of q c P "ivf_mode (ivf_config i)" "ivf_metric (ivf_config i)"] assms that
    by auto
  have "centroid_scores P q i = Inr (map (\<lambda>p. (fst p, ?get (snd p))) (List.enumerate 0 (centroids i)))"
    unfolding centroid_scores_def
  proof (rule collect_results_total)
    fix p assume "p \<in> set (List.enumerate 0 (centroids i))"
    then have "snd p \<in> set (centroids i)"
      by (simp add: in_set_enumerate_eq) (metis nth_mem)
    from calc [OF this]
    show "(case p of (c, centroid) \<Rightarrow> and_then (?calc centroid) (\<lambda>s. Inr (c, s)))
        = Inr (fst p, ?get (snd p))"
      by (cases p) (metis and_then_Inr case_prod_conv fst_conv snd_conv)
  qed
  then show ?thesis ..
qed

lemma probes_readable:
  assumes "\<And>x. x \<in> ivf_ids i \<Longrightarrow> readable (length q) vs x" and "ivf_mode (ivf_config i) \<noteq> Gpu"
    and "ivf_ok i" and "\<And>c. c \<in> set cs \<Longrightarrow> c < length (inverted_lists i)"
  shows "collect_results (probe P q vs i) cs
    = Inr (map (\<lambda>c. map (\<lambda>x. (x, ivf_score P q vs i x)) (inverted_lists i ! c)) cs)"
proof (rule collect_results_total)
  fix c assume "c \<in> set cs"
  then have c: "c < length (inverted_lists i)" by (rule assms(4))
  then have "\<And>x. x \<in> set (inverted_lists i ! c) \<Longrightarrow> readable (length q) vs x"
    using assms(1) ivf_list_ids [OF assms(3)] by blast
  then show "probe P q vs i c = Inr (map (\<lambda>x. (x, ivf_score P q vs i x)) (inverted_lists i ! c))"
    using c assms(2) by (simp add: probe_def scores_readable)
qed

lemma probed_all:
  assumes "centroid_scores P q i = Inr ss" and "nprobe quality = Some n" and "length (centroids i) \<le> n"
  shows "set (probed quality i ss) = {0..<length (centroids i)}"
proof -
  have l: "list_all2 (\<lambda>x y. fst y = fst x) (List.enumerate 0 (centroids i)) ss"
    using assms(1) unfolding centroid_scores_def collect_results_Inr_iff
    by (rule list_all2_mono) (auto simp: and_then_eq_Inr)
  then have "map fst ss = [0..<length (centroids i)]"
    by (auto simp: list_all2_conv_all_nth nth_enumerate_eq intro!: nth_equalityI)
  then have "fst ` set ss = {0..<length (centroids i)}" by (metis list.set_map set_upt)
  moreover have "length ss = length (centroids i)" using list_all2_lengthD [OF l] by simp
  ultimately show ?thesis using assms(2,3) by (simp add: probed_def)
qed

text \<open>
  C20. An IVF index that probes every cluster is exact: with \<open>nprobe\<close> at least the number
  of clusters it returns what brute force would, the best \<open>k\<close> of all indexed ids.
\<close>

theorem ivf_search_exact:
  assumes "ivf_ok i" and "centroids i \<noteq> []" and "ivf_mode (ivf_config i) \<noteq> Gpu"
    and "nprobe quality = Some n" and "length (centroids i) \<le> n"
    and "\<And>c. c \<in> set (centroids i) \<Longrightarrow> length c = length q"
    and "\<And>x. x \<in> ivf_ids i \<Longrightarrow> readable (length q) vs x"
    and "\<And>x. x \<in> ivf_ids i \<Longrightarrow> \<not> is_nan (ivf_score P q vs i x)"
  shows "\<exists>r. ivf_search P q k vs quality f ms i = Inr r
    \<and> ranked_best (ivf_score P q vs i) k (ivf_ids i) r"
proof -
  obtain ss where ss: "centroid_scores P q i = Inr ss"
    using centroid_scores_total [OF assms(6,3)] by blast
  let ?cs = "probed quality i ss"
  let ?xs = "concat (map (\<lambda>c. inverted_lists i ! c) ?cs)"
  have cs: "set ?cs = {0..<length (inverted_lists i)}"
    using probed_all [OF ss assms(4,5)] assms(1) by (simp add: ivf_ok_def)
  then have found: "collect_results (probe P q vs i) ?cs
      = Inr (map (\<lambda>c. map (\<lambda>x. (x, ivf_score P q vs i x)) (inverted_lists i ! c)) ?cs)"
    by (intro probes_readable assms(1,3,7)) simp_all
  have s: "ivf_search P q k vs quality f ms i
      = Inr (best_ids k (map (\<lambda>x. (x, ivf_score P q vs i x)) ?xs))"
    using assms(2) by (simp add: ivf_search_def ss found map_concat comp_def)
  have "distinct (map fst (concat (map (\<lambda>c. map (\<lambda>x. (x, ivf_score P q vs i x)) (inverted_lists i ! c)) ?cs)))"
    using probes_concat [OF assms(1) found probed_clusters [OF ss]] by blast
  then have "distinct ?xs" by (simp add: map_concat comp_def)
  moreover have "set ?xs = (\<Union>c < length (inverted_lists i). set (inverted_lists i ! c))"
    by (simp add: cs atLeast0LessThan)
  then have "set ?xs = ivf_ids i"
    using assms(1,2) by (auto simp: ivf_ids_def ivf_ok_def hm_keys_get)
  ultimately show ?thesis
    using s best_ids_ranked [of ?xs "ivf_score P q vs i" k] assms(8) by simp
qed

theorem ivf_search_exact_witness:
  "\<exists>r. ivf_search scalar_machine [f32_one] 1 [(1, [f32_one]), (2, [f32_two])]
      (default_search_config\<lparr>nprobe := Some 2\<rparr>) None []
      \<lparr>ivf_config = \<lparr>num_clusters = 2, num_probes = 1, max_iterations = 0,
          ivf_metric = DotProduct, ivf_mode = Scalar\<rparr>,
       centroids = [[f32_one], [f32_two]], inverted_lists = [[1], [2]],
       vector_to_cluster = [(1, 0), (2, 1)], pending_vectors = [], dimensions = 1\<rparr> = Inr r
    \<and> length r = 1"
proof -
  let ?i = "\<lparr>ivf_config = \<lparr>num_clusters = 2, num_probes = 1, max_iterations = 0,
          ivf_metric = DotProduct, ivf_mode = Scalar\<rparr>,
       centroids = [[f32_one], [f32_two]], inverted_lists = [[1], [2]],
       vector_to_cluster = [(1, 0), (2, 1)], pending_vectors = [], dimensions = 1\<rparr> :: ivf_index"
  let ?vs = "[(1, [f32_one]), (2, [f32_two])] :: vectors"
  have ids: "ivf_ids ?i = {1, 2}" by (auto simp: ivf_ids_def hm_keys_def)
  have ok: "ivf_ok ?i"
    by (auto simp: ivf_ok_def hm_ok_def hm_keys_def hm_get_def nth_Cons' split: if_splits)
  have read: "readable (length [f32_one]) ?vs x" if "x \<in> ivf_ids ?i" for x
    using that unfolding ids by (auto simp: readable_def reader_get_def hm_get_def)
  have num: "\<not> is_nan (ivf_score scalar_machine [f32_one] ?vs ?i x)" if "x \<in> ivf_ids ?i" for x
    using that unfolding ids
    by (auto simp: similarity_def reader_get_def hm_get_def calculate_def
        dot_product_def resolve_def dot_product_scalar_def sum_loop_def dot_term_def
        f32_one_def f32_two_def float_eval)
  have "\<exists>r. ivf_search scalar_machine [f32_one] 1 ?vs (default_search_config\<lparr>nprobe := Some 2\<rparr>) None [] ?i = Inr r
      \<and> ranked_best (ivf_score scalar_machine [f32_one] ?vs ?i) 1 (ivf_ids ?i) r"
    by (rule ivf_search_exact [where n = 2, OF ok]) (use read num in auto)
  then show ?thesis unfolding ids by (auto simp: ranked_best_def)
qed

text \<open>
  C21. Inserting into an IVF index never loses an id, through the pending phase, the k-means
  build and later insertions alike: the inverted lists and the vector-to-cluster map stay one
  partition, the new id is indexed, and no id outside the reader appears.
\<close>

theorem ivf_insert_partition:
  assumes "hash_order (uuid_order P)" and "ivf_ok i" and "hm_ok vs"
    and "ivf_ids i \<subseteq> set (hm_keys vs)" and "uid \<in> set (hm_keys vs)"
    and "ivf_insert P uid v vs i = (Inr (), i')"
  shows "ivf_ok i' \<and> insert uid (ivf_ids i) \<subseteq> ivf_ids i' \<and> ivf_ids i' \<subseteq> set (hm_keys vs)"
  using assms by (rule ivf_insert_ok)

theorem ivf_insert_partition_witness:
  "ivf_ok (snd (ivf_insert scalar_machine 1 [f32_one] [(1, [f32_one])] (ivf_new default_ivf_config)))"
proof -
  let ?i = "ivf_new default_ivf_config" and ?vs = "[(1, [f32_one])] :: vectors"
  have keys: "set (hm_keys ?vs) = {1}" "hm_ok ?vs" by (simp_all add: hm_keys_def hm_ok_def)
  have "ivf_insert scalar_machine 1 [f32_one] ?vs ?i = (Inr (), add_pending 1 ?i)"
    by (simp add: ivf_insert_def ivf_new_def default_ivf_config_def hm_contains_def hm_keys_def
        reader_len_def)
  then show ?thesis
    using ivf_insert_partition [of scalar_machine ?i ?vs 1 "[f32_one]" "add_pending 1 ?i"] keys
    by simp
qed

end
