(* ===== verification/Candidate_Heap.thy ===== *)
theory Candidate_Heap
  imports Platform
begin

text \<open>
  \<^verbatim>\<open>std::collections::BinaryHeap\<close> on the search candidates of
  \<^verbatim>\<open>src/src/index/hnsw/index.rs\<close>: an array with the parent of \<open>i\<close> at
  \<open>(i - 1) / 2\<close>, sifted as the standard library does. The candidates' \<^verbatim>\<open>Ord\<close>
  is reversed on the distance, so the greatest candidate is the closest one; the heap gives up
  its closest candidate first.
\<close>

section \<open>Candidates\<close>

type_synonym candidate = "uuid \<times> f32"

definition candidate_cmp :: "candidate \<Rightarrow> candidate \<Rightarrow> ordering" where
  "candidate_cmp a b = cmp_or_equal (snd b) (snd a)"

definition candidate_le :: "candidate \<Rightarrow> candidate \<Rightarrow> bool" where
  "candidate_le a b \<longleftrightarrow> candidate_cmp a b \<noteq> Greater"

section \<open>The heap\<close>

definition swap :: "nat \<Rightarrow> nat \<Rightarrow> 'a list \<Rightarrow> 'a list" where
  "swap i j xs = xs[i := xs ! j, j := xs ! i]"

fun sift_up :: "candidate list \<Rightarrow> nat \<Rightarrow> candidate list" where
  "sift_up h pos =
     (if pos = 0 then h
      else if candidate_le (h ! pos) (h ! ((pos - 1) div 2)) then h
      else sift_up (swap pos ((pos - 1) div 2) h) ((pos - 1) div 2))"

declare sift_up.simps [simp del]

definition heap_push :: "candidate list \<Rightarrow> candidate \<Rightarrow> candidate list" where
  "heap_push h x = sift_up (h @ [x]) (length h)"

text \<open>The hole moves to the greater child until it reaches the bottom, then up again.\<close>

definition greater_child :: "candidate list \<Rightarrow> nat \<Rightarrow> nat" where
  "greater_child h child = (if candidate_le (h ! child) (h ! (child + 1)) then child + 1 else child)"

function sift_to_bottom :: "candidate list \<Rightarrow> nat \<Rightarrow> candidate list" where
  "sift_to_bottom h pos =
     (if 2 * pos + 2 < length h
      then sift_to_bottom (swap pos (greater_child h (2 * pos + 1)) h)
             (greater_child h (2 * pos + 1))
      else if 2 * pos + 2 = length h
      then sift_up (swap pos (2 * pos + 1) h) (2 * pos + 1)
      else sift_up h pos)"
  by pat_completeness auto
termination
  by (relation "measure (\<lambda>(h, pos). length h - pos)") (auto simp: greater_child_def swap_def)

declare sift_to_bottom.simps [simp del]

definition heap_pop :: "candidate list \<Rightarrow> (candidate \<times> candidate list) option" where
  "heap_pop h =
     (if h = [] then None
      else if butlast h = [] then Some (last h, [])
      else Some (h ! 0, sift_to_bottom ((butlast h)[0 := last h]) 0))"

definition heap_peek :: "candidate list \<Rightarrow> candidate option" where
  "heap_peek h = (case h of [] \<Rightarrow> None | x # _ \<Rightarrow> Some x)"

section \<open>Lemmas\<close>

lemma length_swap [simp]: "length (swap i j xs) = length xs"
  by (simp add: swap_def)

lemma mset_swap_list: "i < length xs \<Longrightarrow> j < length xs \<Longrightarrow> mset (swap i j xs) = mset xs"
  unfolding swap_def by (rule mset_swap)

lemma mset_sift_up: "pos < length h \<Longrightarrow> mset (sift_up h pos) = mset h"
proof (induction h pos rule: sift_up.induct)
  case (1 h pos)
  have "(pos - 1) div 2 < length h" using "1.prems" by (rule order.strict_trans1 [rotated]) arith
  with 1 show ?case by (subst sift_up.simps) (simp add: mset_swap_list)
qed

lemma length_sift_up: "pos < length h \<Longrightarrow> length (sift_up h pos) = length h"
  by (metis mset_sift_up size_mset)

lemma mset_sift_to_bottom: "pos < length h \<Longrightarrow> mset (sift_to_bottom h pos) = mset h"
proof (induction h pos rule: sift_to_bottom.induct)
  case (1 h pos)
  show ?case
  proof (cases "2 * pos + 2 < length h")
    case True
    then have "greater_child h (2 * pos + 1) < length h" by (simp add: greater_child_def)
    with True 1 show ?thesis by (subst sift_to_bottom.simps) (simp add: mset_swap_list)
  next
    case False
    with "1.prems" show ?thesis
      by (subst sift_to_bottom.simps) (auto simp: mset_sift_up mset_swap_list)
  qed
qed

lemma mset_heap_push [simp]: "mset (heap_push h x) = add_mset x (mset h)"
  by (simp add: heap_push_def mset_sift_up)

lemma length_heap_push [simp]: "length (heap_push h x) = Suc (length h)"
  by (metis mset_heap_push size_add_mset size_mset)

lemma set_heap_push [simp]: "set (heap_push h x) = insert x (set h)"
  by (metis mset_heap_push set_mset_add_mset_insert set_mset_mset)

lemma heap_pop_None [simp]: "heap_pop h = None \<longleftrightarrow> h = []"
  by (simp add: heap_pop_def)

lemma heap_pop_Nil [simp]: "heap_pop [] = None"
  by simp

lemma heap_pop_top: "heap_pop h = Some (x, h') \<Longrightarrow> heap_peek h = Some x"
  by (cases h) (auto simp: heap_pop_def heap_peek_def split: if_splits)

lemma mset_heap_pop: "heap_pop h = Some (x, h') \<Longrightarrow> mset h = add_mset x (mset h')"
proof (cases h rule: rev_cases)
  case (snoc ys y)
  assume pop: "heap_pop h = Some (x, h')"
  show ?thesis
  proof (cases ys)
    case Nil
    with pop snoc show ?thesis by (simp add: heap_pop_def)
  next
    case (Cons z zs)
    with pop snoc have "x = z" "h' = sift_to_bottom (y # zs) 0" by (simp_all add: heap_pop_def)
    with Cons snoc show ?thesis by (simp add: mset_sift_to_bottom)
  qed
qed (simp add: heap_pop_def)

lemma length_heap_pop: "heap_pop h = Some (x, h') \<Longrightarrow> length h = Suc (length h')"
  using arg_cong [OF mset_heap_pop, of h x h' size] by simp

lemma set_heap_pop: "heap_pop h = Some (x, h') \<Longrightarrow> set h = insert x (set h')"
  using arg_cong [OF mset_heap_pop, of h x h' set_mset] by simp

text \<open>A candidate that is strictly closer than all others rises to the top.\<close>

definition closest :: "candidate \<Rightarrow> candidate list \<Rightarrow> bool" where
  "closest x h \<longleftrightarrow> (\<forall>y \<in> set h. \<not> candidate_le x y)"

lemma sift_up_closest:
  assumes "pos < length h" and "h ! pos = x" and "\<And>j. j < length h \<Longrightarrow> j \<noteq> pos \<Longrightarrow> \<not> candidate_le x (h ! j)"
  shows "sift_up h pos ! 0 = x"
  using assms
proof (induction h pos rule: sift_up.induct)
  case (1 h pos)
  show ?case
  proof (cases "pos = 0")
    case True
    with "1.prems" show ?thesis by (subst sift_up.simps) simp
  next
    case False
    let ?par = "(pos - 1) div 2"
    have par: "?par < pos" "?par < length h" using False "1.prems"(1) by arith+
    then have no: "\<not> candidate_le (h ! pos) (h ! ?par)" using "1.prems" by simp
    have "sift_up (swap pos ?par h) ?par ! 0 = x"
    proof (rule "1.IH" [OF False no])
      show "?par < length (swap pos ?par h)" using par by simp
      show "swap pos ?par h ! ?par = x" using par "1.prems"(1,2) by (simp add: swap_def)
      show "\<not> candidate_le x (swap pos ?par h ! j)" if "j < length (swap pos ?par h)" "j \<noteq> ?par" for j
        using that par "1.prems" by (cases "j = pos") (auto simp: swap_def)
    qed
    with False no show ?thesis by (subst sift_up.simps) simp
  qed
qed

text \<open>So popping right after pushing such a candidate undoes the push.\<close>

lemma pop_after_push_closest:
  assumes "closest x h"
  obtains h' where "heap_pop (heap_push h x) = Some (x, h')" and "mset h' = mset h"
proof -
  have top: "heap_push h x ! 0 = x"
    unfolding heap_push_def
  proof (rule sift_up_closest)
    show "\<not> candidate_le x ((h @ [x]) ! j)" if "j < length (h @ [x])" "j \<noteq> length h" for j
      using that assms by (auto simp: closest_def nth_append)
  qed simp_all
  have "heap_push h x \<noteq> []" by (metis length_heap_push length_0_conv nat.distinct(1))
  then obtain y h' where pop: "heap_pop (heap_push h x) = Some (y, h')"
    by (metis heap_pop_None option.exhaust surj_pair)
  have "y = x"
    using heap_pop_top [OF pop] top by (cases "heap_push h x") (auto simp: heap_peek_def)
  moreover from this have "mset h' = mset h" using mset_heap_pop [OF pop] by simp
  ultimately show ?thesis using that pop by blast
qed

end
