(* ===== verification/Hnsw_Index.thy ===== *)
theory Hnsw_Index
  imports Index_Contract Candidate_Heap
begin

text \<open>
  The HNSW graph of \<^verbatim>\<open>src/src/index/hnsw/\<close>. A node has a list of neighbours per
  layer; removing one only marks it, so that paths through it survive. The random number a
  layer is drawn from is an argument of the insertion. A search keeps two
  \<^verbatim>\<open>BinaryHeap\<close>s of candidates, as modelled in Candidate_Heap. Arithmetic on
  \<^verbatim>\<open>usize\<close> wraps as in a release build.
\<close>

section \<open>State\<close>

record hnsw_config =
  hc_m :: nat
  hc_m_max :: nat
  ef_construction :: nat
  ef_search :: nat
  hc_ml :: f32
  hc_metric :: metric
  hc_mode :: execution_mode

text \<open>\<open>1.0 / (m as f32).ln()\<close>.\<close>

definition layer_multiplier :: "'p platform_scheme \<Rightarrow> nat \<Rightarrow> f32" where
  "layer_multiplier P m = fdiv f32_one (ln_f32 P (f32_of_nat m))"

definition default_hnsw_config :: "'p platform_scheme \<Rightarrow> hnsw_config" where
  "default_hnsw_config P = \<lparr>hc_m = 16, hc_m_max = 32, ef_construction = 200, ef_search = 200,
     hc_ml = layer_multiplier P 16, hc_metric = Cosine, hc_mode = Auto\<rparr>"

record hnsw_node =
  connections :: "uuid list list"
  tombstone :: bool

record hnsw_index =
  hnsw_config :: hnsw_config
  nodes :: "(uuid, hnsw_node) hmap"
  max_level :: int
  start_node :: "uuid option"

definition hnsw_new :: "hnsw_config \<Rightarrow> hnsw_index" where
  "hnsw_new c = \<lparr>hnsw_config = c, nodes = [], max_level = -1, start_node = None\<rparr>"

definition is_tombstone :: "hnsw_index \<Rightarrow> uuid \<Rightarrow> bool" where
  "is_tombstone i x = (case hm_get (nodes i) x of None \<Rightarrow> False | Some n \<Rightarrow> tombstone n)"

definition mark_tombstone :: "uuid \<Rightarrow> hnsw_index \<Rightarrow> hnsw_index" where
  "mark_tombstone x i =
     (case hm_get (nodes i) x of
        None \<Rightarrow> i
      | Some n \<Rightarrow> i\<lparr>nodes := hm_insert x (n\<lparr>tombstone := True\<rparr>) (nodes i)\<rparr>)"

definition random_layer :: "'p platform_scheme \<Rightarrow> f32 \<Rightarrow> hnsw_index \<Rightarrow> nat" where
  "random_layer P r i =
     fl_to_usize F32 (fl_floor F32 (fmul (fl_neg (ln_f32 P r)) (hc_ml (hnsw_config i))))"

definition get_neighbors_at_level :: "hnsw_index \<Rightarrow> uuid \<Rightarrow> nat \<Rightarrow> uuid list" where
  "get_neighbors_at_level i x lv =
     (case hm_get (nodes i) x of
        None \<Rightarrow> []
      | Some n \<Rightarrow> if lv < length (connections n) then connections n ! lv else [])"

text \<open>A metric's score turned into a distance, as the code does it.\<close>

definition score_to_distance :: "metric \<Rightarrow> f32 \<Rightarrow> f32" where
  "score_to_distance m s =
     (case m of Cosine \<Rightarrow> fsub f32_one s | DotProduct \<Rightarrow> fsub f32_one s | Euclidean \<Rightarrow> s)"

definition distance ::
  "'p platform_scheme \<Rightarrow> hnsw_index \<Rightarrow> f32 list \<Rightarrow> f32 list \<Rightarrow> f32 outcome" where
  "distance P i a b =
     and_then (calculate P (hc_metric (hnsw_config i)) a b (hc_mode (hnsw_config i)))
       (\<lambda>s. Inr (score_to_distance (hc_metric (hnsw_config i)) s))"

section \<open>Searching a layer\<close>

record search_context =
  sc_vectors :: vectors
  sc_filter :: "filter_query option"
  sc_metadatas :: metadatas

text \<open>A vector with no cached metadata passes every filter.\<close>

definition passes_filter :: "search_context \<Rightarrow> uuid \<Rightarrow> bool" where
  "passes_filter ctx x =
     (case sc_filter ctx of
        None \<Rightarrow> True
      | Some f \<Rightarrow>
          (case hm_get (sc_metadatas ctx) x of None \<Rightarrow> True | Some md \<Rightarrow> filter_matches f md))"

record layer_search =
  visited :: "uuid set"
  candidates :: "candidate list"
  nearest :: "candidate list"
  furthest :: f32

definition peek_distance :: "candidate list \<Rightarrow> f32" where
  "peek_distance h = (case heap_peek h of None \<Rightarrow> Inf False | Some c \<Rightarrow> snd c)"

definition enter ::
  "'p platform_scheme \<Rightarrow> hnsw_index \<Rightarrow> f32 list \<Rightarrow> search_context \<Rightarrow> uuid \<Rightarrow> layer_search
    \<Rightarrow> layer_search outcome" where
  "enter P i query ctx ep st =
     (case reader_get (sc_vectors ctx) ep of
        None \<Rightarrow> Inr st
      | Some v \<Rightarrow>
          if \<not> passes_filter ctx ep then Inr st
          else and_then (distance P i query v) (\<lambda>d.
            Inr (st\<lparr>candidates := heap_push (candidates st) (ep, d),
                  nearest := (if is_tombstone i ep then nearest st
                    else heap_push (nearest st) (ep, d)),
                  visited := insert ep (visited st)\<rparr>)))"

definition init_search ::
  "'p platform_scheme \<Rightarrow> hnsw_index \<Rightarrow> f32 list \<Rightarrow> search_context \<Rightarrow> uuid list
    \<Rightarrow> layer_search outcome" where
  "init_search P i query ctx eps =
     and_then (fold_results (enter P i query ctx) eps
         \<lparr>visited = {}, candidates = [], nearest = [], furthest = Inf False\<rparr>)
       (\<lambda>st. Inr (st\<lparr>furthest := peek_distance (nearest st)\<rparr>))"

text \<open>A full heap pops after the push: it gives up its top, the closest candidate.\<close>

definition keep_nearest :: "nat \<Rightarrow> candidate \<Rightarrow> candidate list \<Rightarrow> candidate list" where
  "keep_nearest num_closest c h =
     (if length (heap_push h c) > num_closest
      then (case heap_pop (heap_push h c) of None \<Rightarrow> [] | Some (_, h') \<Rightarrow> h')
      else heap_push h c)"

definition offer :: "hnsw_index \<Rightarrow> nat \<Rightarrow> candidate \<Rightarrow> layer_search \<Rightarrow> layer_search" where
  "offer i num_closest c st =
     (if fl_lt (snd c) (furthest st) \<or> length (nearest st) < num_closest
      then
        (if is_tombstone i (fst c)
         then st\<lparr>candidates := heap_push (candidates st) c\<rparr>
         else st\<lparr>candidates := heap_push (candidates st) c,
                nearest := keep_nearest num_closest c (nearest st),
                furthest := peek_distance (keep_nearest num_closest c (nearest st))\<rparr>)
      else st)"

definition visit ::
  "'p platform_scheme \<Rightarrow> hnsw_index \<Rightarrow> f32 list \<Rightarrow> nat \<Rightarrow> search_context \<Rightarrow> uuid \<Rightarrow> layer_search
    \<Rightarrow> layer_search outcome" where
  "visit P i query num_closest ctx x st =
     (if x \<in> visited st then Inr st
      else
        (case reader_get (sc_vectors ctx) x of
           None \<Rightarrow> Inr (st\<lparr>visited := insert x (visited st)\<rparr>)
         | Some v \<Rightarrow>
             if \<not> passes_filter ctx x then Inr (st\<lparr>visited := insert x (visited st)\<rparr>)
             else and_then (distance P i query v) (\<lambda>d.
               Inr (offer i num_closest (x, d) (st\<lparr>visited := insert x (visited st)\<rparr>)))))"

text \<open>All ids that occur as neighbours at a level bound the visits.\<close>

definition level_ids :: "hnsw_index \<Rightarrow> nat \<Rightarrow> uuid set" where
  "level_ids i lv = (\<Union>x \<in> set (hm_keys (nodes i)). set (get_neighbors_at_level i x lv))"

lemma finite_level_ids [simp]: "finite (level_ids i lv)"
  by (simp add: level_ids_def)

lemma neighbors_level_ids: "set (get_neighbors_at_level i x lv) \<subseteq> level_ids i lv"
  unfolding level_ids_def
  by (cases "hm_get (nodes i) x") (auto simp: get_neighbors_at_level_def dest: hm_get_key)

definition search_weight :: "hnsw_index \<Rightarrow> nat \<Rightarrow> layer_search \<Rightarrow> nat" where
  "search_weight i lv st = card (level_ids i lv - visited st) + length (candidates st)"

lemma search_weight_visit:
  assumes "visit P i q n ctx x st = Inr st'" and "x \<in> level_ids i lv"
  shows "search_weight i lv st' \<le> search_weight i lv st"
proof (cases "x \<in> visited st")
  case True
  with assms show ?thesis by (simp add: visit_def)
next
  case False
  then have "level_ids i lv - visited st = insert x (level_ids i lv - insert x (visited st))"
    using assms(2) by auto
  then have c: "card (level_ids i lv - visited st)
      = Suc (card (level_ids i lv - insert x (visited st)))"
    by simp
  have st': "visited st' = insert x (visited st)" "length (candidates st') \<le> Suc (length (candidates st))"
    using assms(1) False
    by (auto simp: visit_def offer_def and_then_eq_Inr split: option.splits if_splits)
  show ?thesis unfolding search_weight_def st'(1) c using st'(2) by simp
qed

lemma search_weight_visits:
  "fold_results (visit P i q n ctx) xs st = Inr st' \<Longrightarrow> set xs \<subseteq> level_ids i lv \<Longrightarrow>
   search_weight i lv st' \<le> search_weight i lv st"
proof (induction xs arbitrary: st)
  case (Cons x xs)
  then obtain s where "visit P i q n ctx x st = Inr s" "fold_results (visit P i q n ctx) xs s = Inr st'"
    by (auto simp: and_then_eq_Inr)
  with Cons show ?case using search_weight_visit [of P i q n ctx x st s lv] by fastforce
qed simp

text \<open>
  The greedy loop: pop the closest candidate, stop when it is further than the top of
  \<open>nearest\<close>, visit its neighbours. Each round uses up a candidate or an unvisited id.
\<close>

function explore ::
  "'p platform_scheme \<Rightarrow> hnsw_index \<Rightarrow> f32 list \<Rightarrow> nat \<Rightarrow> nat \<Rightarrow> search_context \<Rightarrow> layer_search
    \<Rightarrow> layer_search outcome" where
  "explore P i query num_closest lv ctx st =
     (case heap_pop (candidates st) of
        None \<Rightarrow> Inr st
      | Some (c, rest) \<Rightarrow>
          if fl_gt (snd c) (furthest st) then Inr (st\<lparr>candidates := rest\<rparr>)
          else
            and_then
              (fold_results (visit P i query num_closest ctx)
                 (get_neighbors_at_level i (fst c) lv) (st\<lparr>candidates := rest\<rparr>))
              (explore P i query num_closest lv ctx))"
  by pat_completeness auto
termination
proof (relation "measure (\<lambda>(P, i, query, n, lv, ctx, st). search_weight i lv st)", goal_cases)
  case (2 P i query n lv ctx st p c rest st')
  have "search_weight i lv st' \<le> search_weight i lv (st\<lparr>candidates := rest\<rparr>)"
    using search_weight_visits [OF 2(4) neighbors_level_ids] .
  also have "\<dots> < search_weight i lv st"
    using 2(1,2) length_heap_pop [of "candidates st" c rest] by (simp add: search_weight_def)
  finally show ?case by simp
qed simp

declare explore.simps [simp del]

definition search_layer ::
  "'p platform_scheme \<Rightarrow> hnsw_index \<Rightarrow> f32 list \<Rightarrow> uuid list \<Rightarrow> nat \<Rightarrow> nat \<Rightarrow> search_context
    \<Rightarrow> uuid list outcome" where
  "search_layer P i query eps num_closest lv ctx =
     and_then (init_search P i query ctx eps) (\<lambda>st.
     and_then (explore P i query num_closest lv ctx st) (\<lambda>st'.
     Inr (map fst (sort_by (by_score_asc snd) (nearest st')))))"

section \<open>Selecting neighbours\<close>

fun neighbor_distances ::
  "'p platform_scheme \<Rightarrow> hnsw_index \<Rightarrow> vectors \<Rightarrow> f32 list \<Rightarrow> uuid list \<Rightarrow> candidate list outcome"
where
  "neighbor_distances P i vs query [] = Inr []"
| "neighbor_distances P i vs query (x # xs) =
     (if is_tombstone i x then neighbor_distances P i vs query xs
      else
        (case reader_get vs x of
           None \<Rightarrow> neighbor_distances P i vs query xs
         | Some v \<Rightarrow>
             and_then (distance P i query v) (\<lambda>d.
             and_then (neighbor_distances P i vs query xs) (\<lambda>ds. Inr ((x, d) # ds)))))"

definition select_neighbors ::
  "'p platform_scheme \<Rightarrow> hnsw_index \<Rightarrow> uuid list \<Rightarrow> nat \<Rightarrow> vectors \<Rightarrow> f32 list
    \<Rightarrow> uuid list outcome" where
  "select_neighbors P i cands m vs query =
     (if length cands \<le> m then Inr cands
      else and_then (neighbor_distances P i vs query cands)
        (\<lambda>ds. Inr (map fst (take m (sort_by (by_score_asc snd) ds)))))"

section \<open>Inserting\<close>

text \<open>\<^verbatim>\<open>as isize\<close>, \<^verbatim>\<open>as usize\<close>, and the wrapping \<open>layer + 1\<close>.\<close>

definition as_isize :: "nat \<Rightarrow> int" where
  "as_isize n = (if n < 2 ^ 63 then int n else int n - 2 ^ 64)"

definition as_usize :: "int \<Rightarrow> nat" where
  "as_usize l = nat (l mod 2 ^ 64)"

definition layer_count :: "nat \<Rightarrow> nat" where
  "layer_count layer = (layer + 1) mod 2 ^ 64"

definition max_connections :: "hnsw_config \<Rightarrow> nat \<Rightarrow> nat" where
  "max_connections c lc = (if lc = 0 then hc_m_max c else hc_m c)"

definition set_connections :: "uuid \<Rightarrow> nat \<Rightarrow> uuid list \<Rightarrow> hnsw_index \<Rightarrow> hnsw_index" where
  "set_connections x lc ys i =
     (case hm_get (nodes i) x of
        None \<Rightarrow> i
      | Some n \<Rightarrow>
          i\<lparr>nodes := hm_insert x (n\<lparr>connections := (connections n)[lc := ys]\<rparr>) (nodes i)\<rparr>)"

text \<open>Add the edge back to the new node, and prune the neighbour's list when it is too long.\<close>

definition prune ::
  "'p platform_scheme \<Rightarrow> nat \<Rightarrow> nat \<Rightarrow> vectors \<Rightarrow> uuid \<Rightarrow> uuid list
    \<Rightarrow> (hnsw_index, fault, unit) op" where
  "prune P lc m vs x pushed =
     (if length pushed > m
      then
        op_then (op_read (\<lambda>i. case reader_get vs x of
            None \<Rightarrow> panic
          | Some v \<Rightarrow> select_neighbors P i pushed m vs v)) (\<lambda>pruned.
        op_modify (set_connections x lc pruned))
      else op_return ())"

definition link ::
  "'p platform_scheme \<Rightarrow> uuid \<Rightarrow> nat \<Rightarrow> nat \<Rightarrow> vectors \<Rightarrow> uuid \<Rightarrow> (hnsw_index, fault, unit) op"
where
  "link P new lc m vs x =
     (\<lambda>i. case hm_get (nodes i) x of
        None \<Rightarrow> (Inr (), i)
      | Some n \<Rightarrow>
          if lc < length (connections n)
          then prune P lc m vs x (connections n ! lc @ [new])
                 (set_connections x lc (connections n ! lc @ [new]) i)
          else (Inr (), i))"

fun descend ::
  "'p platform_scheme \<Rightarrow> hnsw_index \<Rightarrow> f32 list \<Rightarrow> search_context \<Rightarrow> nat list \<Rightarrow> uuid list
    \<Rightarrow> uuid list outcome" where
  "descend P i v ctx [] eps = Inr eps"
| "descend P i v ctx (lc # lcs) eps =
     and_then (search_layer P i v eps 1 lc ctx) (descend P i v ctx lcs)"

fun connect ::
  "'p platform_scheme \<Rightarrow> uuid \<Rightarrow> f32 list \<Rightarrow> search_context \<Rightarrow> nat list \<Rightarrow> uuid list
    \<Rightarrow> uuid list list \<Rightarrow> (hnsw_index, fault, uuid list list) op" where
  "connect P new v ctx [] eps pending = op_return pending"
| "connect P new v ctx (lc # lcs) eps pending =
     op_then (op_read (\<lambda>i. search_layer P i v eps (ef_construction (hnsw_config i)) lc ctx))
       (\<lambda>eps'.
     op_then (op_read (\<lambda>i. Inr (max_connections (hnsw_config i) lc))) (\<lambda>m.
     op_then (op_read (\<lambda>i. select_neighbors P i eps' m (sc_vectors ctx) v)) (\<lambda>neighbors.
     op_then (op_for (link P new lc m (sc_vectors ctx)) neighbors) (\<lambda>_.
     connect P new v ctx lcs eps' (pending[lc := pending ! lc @ neighbors])))))"

definition add_node :: "uuid \<Rightarrow> uuid list list \<Rightarrow> hnsw_index \<Rightarrow> hnsw_index" where
  "add_node new conns i =
     i\<lparr>nodes := hm_insert new \<lparr>connections = conns, tombstone = False\<rparr> (nodes i)\<rparr>"

definition raise_entry :: "uuid \<Rightarrow> nat \<Rightarrow> hnsw_index \<Rightarrow> hnsw_index" where
  "raise_entry new layer i =
     (if as_isize layer > max_level i
      then i\<lparr>max_level := as_isize layer, start_node := Some new\<rparr> else i)"

definition upper_layers :: "int \<Rightarrow> int \<Rightarrow> nat list" where
  "upper_layers lo hi = map as_usize (rev [lo..hi])"

definition insert_at ::
  "'p platform_scheme \<Rightarrow> nat \<Rightarrow> uuid \<Rightarrow> f32 list \<Rightarrow> vectors \<Rightarrow> (hnsw_index, fault, unit) op" where
  "insert_at P layer new v vs =
     (\<lambda>i. case start_node i of
        None \<Rightarrow>
          (Inr (), add_node new (replicate (layer_count layer) [])
             (i\<lparr>start_node := Some new, max_level := as_isize layer\<rparr>))
      | Some ep \<Rightarrow>
          op_then (op_read (\<lambda>i. descend P i v \<lparr>sc_vectors = vs, sc_filter = None, sc_metadatas = []\<rparr>
              (upper_layers (as_isize layer + 1) (max_level i)) [ep])) (\<lambda>eps.
          op_then (connect P new v \<lparr>sc_vectors = vs, sc_filter = None, sc_metadatas = []\<rparr>
              (rev [0..<Suc layer]) eps (replicate (layer_count layer) [])) (\<lambda>pending.
          op_modify (\<lambda>i. raise_entry new layer (add_node new pending i)))) i)"

definition hnsw_insert ::
  "'p platform_scheme \<Rightarrow> f32 \<Rightarrow> uuid \<Rightarrow> f32 list \<Rightarrow> vectors \<Rightarrow> (hnsw_index, fault, unit) op" where
  "hnsw_insert P r new v vs = (\<lambda>i. insert_at P (random_layer P r i) new v vs i)"

section \<open>Searching, removing, statistics\<close>

definition hnsw_search_ef ::
  "'p platform_scheme \<Rightarrow> f32 list \<Rightarrow> nat \<Rightarrow> nat \<Rightarrow> vectors \<Rightarrow> filter_query option \<Rightarrow> metadatas
    \<Rightarrow> hnsw_index \<Rightarrow> uuid list outcome" where
  "hnsw_search_ef P query k efs vs flt ms i =
     (case start_node i of
        None \<Rightarrow> Inr []
      | Some ep \<Rightarrow>
          if reader_get vs ep = None
          then fail (Index (SearchFailed [Txt ''HNSW entry point '', Id ep,
                 Txt '' is missing from vector storage'']))
          else
            and_then (descend P i query \<lparr>sc_vectors = vs, sc_filter = flt, sc_metadatas = ms\<rparr>
                (rev [1..<Suc (as_usize (max_level i))]) [ep]) (\<lambda>eps.
            and_then (search_layer P i query eps (max efs k) 0
                \<lparr>sc_vectors = vs, sc_filter = flt, sc_metadatas = ms\<rparr>) (\<lambda>found.
            Inr (take k (filter (\<lambda>x. \<not> is_tombstone i x) found)))))"

definition hnsw_search ::
  "'p platform_scheme \<Rightarrow> f32 list \<Rightarrow> nat \<Rightarrow> vectors \<Rightarrow> search_config \<Rightarrow> filter_query option
    \<Rightarrow> metadatas \<Rightarrow> hnsw_index \<Rightarrow> uuid list outcome" where
  "hnsw_search P query k vs quality flt ms i =
     hnsw_search_ef P query k
       (max (case ef quality of Some e \<Rightarrow> e | None \<Rightarrow> ef_search (hnsw_config i)) k) vs flt ms i"

definition live_ids :: "'p platform_scheme \<Rightarrow> hnsw_index \<Rightarrow> uuid list" where
  "live_ids P i = filter (\<lambda>x. \<not> is_tombstone i x) (hm_iter (uuid_order P) (nodes i))"

definition node_levels :: "hnsw_index \<Rightarrow> uuid \<Rightarrow> int" where
  "node_levels i x =
     (case hm_get (nodes i) x of None \<Rightarrow> -1 | Some n \<Rightarrow> int (length (connections n)) - 1)"

definition new_entry :: "'p platform_scheme \<Rightarrow> hnsw_index \<Rightarrow> hnsw_index" where
  "new_entry P i =
     i\<lparr>start_node := (case live_ids P i of [] \<Rightarrow> None | x # _ \<Rightarrow> Some x),
       max_level := fold max (map (node_levels i) (live_ids P i)) (-1)\<rparr>"

definition hnsw_remove :: "'p platform_scheme \<Rightarrow> uuid \<Rightarrow> hnsw_index \<Rightarrow> hnsw_index" where
  "hnsw_remove P x i =
     (if \<not> hm_contains (nodes i) x then i
      else if start_node i = Some x then new_entry P (mark_tombstone x i)
      else mark_tombstone x i)"

definition live_connections :: "'p platform_scheme \<Rightarrow> hnsw_index \<Rightarrow> uuid list list list" where
  "live_connections P i =
     map (\<lambda>x. case hm_get (nodes i) x of None \<Rightarrow> [] | Some n \<Rightarrow> connections n) (live_ids P i)"

definition avg_connections :: "'p platform_scheme \<Rightarrow> hnsw_index \<Rightarrow> f32" where
  "avg_connections P i =
     (if live_ids P i = [] then f32_zero
      else fdiv (f32_of_nat (sum_list (map (\<lambda>cs. sum_list (map length cs)) (live_connections P i))))
        (f32_of_nat (length (live_ids P i))))"

text \<open>A node entry takes 48 bytes beside its neighbour lists: an id, a \<^verbatim>\<open>Vec\<close>, a flag.\<close>

definition hnsw_stats :: "'p platform_scheme \<Rightarrow> hnsw_index \<Rightarrow> index_stats" where
  "hnsw_stats P i = \<lparr>st_type = Hnsw, st_total = length (live_ids P i),
     st_memory = length (nodes i) * 48
       + sum_list (map (\<lambda>p. sum_list (map (\<lambda>c. length c * 16) (connections (snd p)))) (nodes i)),
     st_details = HnswDetails (max_level i)
       (map (\<lambda>l. length (filter (\<lambda>cs. l < length cs) (live_connections P i)))
         [0..<nat (max_level i + 1)])
       (avg_connections P i)\<rparr>"

section \<open>What a layer search returns\<close>

definition heap_ids :: "candidate list \<Rightarrow> uuid set" where
  "heap_ids h = fst ` set h"

definition heap_distinct :: "candidate list \<Rightarrow> bool" where
  "heap_distinct h \<longleftrightarrow> distinct (map fst h)"

lemma heap_ids_push [simp]: "heap_ids (heap_push h x) = insert (fst x) (heap_ids h)"
  by (simp add: heap_ids_def)

lemma heap_ids_Nil [simp]: "heap_ids [] = {}" "heap_distinct []"
  by (simp_all add: heap_ids_def heap_distinct_def)

lemma heap_distinct_mset: "mset h = mset h' \<Longrightarrow> heap_distinct h = heap_distinct h'"
  unfolding heap_distinct_def by (rule mset_eq_imp_distinct_iff) simp

lemma heap_distinct_push [simp]:
  "heap_distinct (heap_push h x) \<longleftrightarrow> fst x \<notin> heap_ids h \<and> heap_distinct h"
  using heap_distinct_mset [of "heap_push h x" "x # h"]
  by (simp add: heap_distinct_def heap_ids_def)

lemma heap_distinct_pop:
  "heap_pop h = Some (x, h') \<Longrightarrow> heap_distinct h \<Longrightarrow> heap_distinct h' \<and> heap_ids h' \<subseteq> heap_ids h"
  using heap_distinct_mset [of h "x # h'"] mset_heap_pop [of h x h'] set_heap_pop [of h x h']
  by (auto simp: heap_distinct_def heap_ids_def)

lemma keep_nearest_sound:
  assumes "heap_distinct h" and "fst c \<notin> heap_ids h"
  shows "heap_distinct (keep_nearest n c h) \<and> heap_ids (keep_nearest n c h) \<subseteq> insert (fst c) (heap_ids h)"
proof (cases "heap_pop (heap_push h c)")
  case None
  with assms show ?thesis by (simp add: keep_nearest_def)
next
  case (Some p)
  then show ?thesis
    using heap_distinct_pop [of "heap_push h c" "fst p" "snd p"] assms
    by (cases p) (auto simp: keep_nearest_def)
qed

definition found_ok :: "hnsw_index \<Rightarrow> uuid set \<Rightarrow> layer_search \<Rightarrow> bool" where
  "found_ok i A st \<longleftrightarrow>
     heap_distinct (nearest st) \<and> heap_ids (nearest st) \<subseteq> visited st \<inter> A \<and>
     (\<forall>x \<in> heap_ids (nearest st). \<not> is_tombstone i x)"

lemma found_ok_visited:
  "found_ok i A st \<Longrightarrow> found_ok i A (st\<lparr>visited := insert x (visited st)\<rparr>)"
  by (auto simp: found_ok_def)

lemma found_ok_candidates: "found_ok i A (st\<lparr>candidates := c\<rparr>) \<longleftrightarrow> found_ok i A st"
  by (simp add: found_ok_def)

lemma found_ok_offer:
  assumes "found_ok i A st" and "x \<notin> visited st" and "x \<in> A"
  shows "found_ok i A (offer i n (x, d) (st\<lparr>visited := insert x (visited st)\<rparr>))"
proof -
  have "x \<notin> heap_ids (nearest st)" using assms(1,2) by (auto simp: found_ok_def)
  then show ?thesis
    using assms keep_nearest_sound [of "nearest st" "(x, d)" n]
    by (auto simp: found_ok_def offer_def)
qed

lemma found_ok_visit:
  "found_ok i A st \<Longrightarrow> x \<in> A \<Longrightarrow> visit P i q n ctx x st = Inr st' \<Longrightarrow> found_ok i A st'"
  by (auto simp: visit_def and_then_eq_Inr found_ok_offer found_ok_visited
      split: if_splits option.splits)

lemma found_ok_visits:
  "fold_results (visit P i q n ctx) xs st = Inr st' \<Longrightarrow> set xs \<subseteq> A \<Longrightarrow> found_ok i A st \<Longrightarrow>
   found_ok i A st'"
  by (induction xs arbitrary: st) (auto simp: and_then_eq_Inr dest: found_ok_visit)

lemma found_ok_explore:
  assumes "explore P i q n lv ctx st = Inr st'" and "found_ok i A st" and "level_ids i lv \<subseteq> A"
  shows "found_ok i A st'"
  using assms
proof (induction P i q n lv ctx st arbitrary: st' rule: explore.induct)
  case (1 P i q n lv ctx st)
  show ?case
  proof (cases "heap_pop (candidates st)")
    case None
    with 1 show ?thesis by (simp add: explore.simps [of _ _ _ _ _ _ st])
  next
    case (Some p)
    obtain c rest where p: "p = (c, rest)" by (cases p)
    note pop = Some [unfolded p]
    show ?thesis
    proof (cases "fl_gt (snd c) (furthest st)")
      case True
      then have "st' = st\<lparr>candidates := rest\<rparr>"
        using "1.prems"(1) pop by (simp add: explore.simps [of _ _ _ _ _ _ st])
      with "1.prems"(2) show ?thesis by (simp only: found_ok_candidates)
    next
      case False
      then obtain s where s: "fold_results (visit P i q n ctx) (get_neighbors_at_level i (fst c) lv)
          (st\<lparr>candidates := rest\<rparr>) = Inr s" and e: "explore P i q n lv ctx s = Inr st'"
        using "1.prems"(1) pop by (subst (asm) explore.simps) (auto simp: and_then_eq_Inr)
      have "found_ok i A s"
        by (rule found_ok_visits [OF s subset_trans [OF neighbors_level_ids "1.prems"(3)]])
          (simp only: found_ok_candidates "1.prems"(2))
      with "1.IH" [OF pop refl False s e] "1.prems"(3) show ?thesis by blast
    qed
  qed
qed

lemma found_ok_enter:
  assumes "fold_results (enter P i q ctx) eps st = Inr st'" and "found_ok i A st"
    and "distinct eps" and "set eps \<inter> visited st = {}" and "set eps \<subseteq> A"
  shows "found_ok i A st'"
  using assms
proof (induction eps arbitrary: st)
  case (Cons ep eps)
  obtain s where s: "enter P i q ctx ep st = Inr s" and rest: "fold_results (enter P i q ctx) eps s = Inr st'"
    using Cons.prems(1) by (auto simp: and_then_eq_Inr)
  have new: "ep \<notin> heap_ids (nearest st)" using Cons.prems(2,4) by (auto simp: found_ok_def)
  have "found_ok i A s \<and> visited s \<subseteq> insert ep (visited st)"
    using s Cons.prems(2,5) new
    by (cases "is_tombstone i ep")
      (auto simp: enter_def found_ok_def and_then_eq_Inr split: option.splits if_splits)
  then show ?case using Cons.IH [OF rest] Cons.prems by auto
qed simp

lemma search_layer_sound:
  assumes "search_layer P i q eps n lv ctx = Inr r" and "distinct eps" and "set eps \<subseteq> A"
    and "level_ids i lv \<subseteq> A"
  shows "distinct r \<and> set r \<subseteq> A \<and> (\<forall>x \<in> set r. \<not> is_tombstone i x)"
proof -
  obtain s st' where s: "fold_results (enter P i q ctx) eps
      \<lparr>visited = {}, candidates = [], nearest = [], furthest = Inf False\<rparr> = Inr s"
    and e: "explore P i q n lv ctx (s\<lparr>furthest := peek_distance (nearest s)\<rparr>) = Inr st'"
    and r: "r = map fst (sort_by (by_score_asc snd) (nearest st'))"
    using assms(1) by (auto simp: search_layer_def init_search_def and_then_eq_Inr)
  have "found_ok i A s"
    using found_ok_enter [OF s _ assms(2) _ assms(3)] by (simp add: found_ok_def)
  then have "found_ok i A (s\<lparr>furthest := peek_distance (nearest s)\<rparr>)" by (simp add: found_ok_def)
  from found_ok_explore [OF e this assms(4)] show ?thesis
    by (auto simp: found_ok_def r heap_distinct_def heap_ids_def)
qed

section \<open>The graph invariant\<close>

text \<open>Edges lead into \<open>A\<close>, no list is longer than its layer allows.\<close>

definition node_ok :: "hnsw_config \<Rightarrow> uuid set \<Rightarrow> hnsw_node \<Rightarrow> bool" where
  "node_ok c A n \<longleftrightarrow>
     (\<forall>lc < length (connections n). set (connections n ! lc) \<subseteq> A \<and>
        length (connections n ! lc) \<le> max_connections c lc)"

definition graph_ok :: "uuid set \<Rightarrow> hnsw_index \<Rightarrow> bool" where
  "graph_ok A i \<longleftrightarrow>
     hm_ok (nodes i) \<and> (\<forall>x n. hm_get (nodes i) x = Some n \<longrightarrow> node_ok (hnsw_config i) A n)"

definition entry_ok :: "hnsw_index \<Rightarrow> bool" where
  "entry_ok i \<longleftrightarrow>
     (case start_node i of
        None \<Rightarrow> (\<forall>x \<in> set (hm_keys (nodes i)). is_tombstone i x)
      | Some s \<Rightarrow> s \<in> set (hm_keys (nodes i)) \<and> \<not> is_tombstone i s)"

definition hnsw_ok :: "hnsw_index \<Rightarrow> bool" where
  "hnsw_ok i \<longleftrightarrow> graph_ok (set (hm_keys (nodes i))) i \<and> entry_ok i"

definition hnsw_ids :: "hnsw_index \<Rightarrow> uuid set" where
  "hnsw_ids i = {x \<in> set (hm_keys (nodes i)). \<not> is_tombstone i x}"

lemma hnsw_ok_new [simp]: "hnsw_ok (hnsw_new c)" "hnsw_ids (hnsw_new c) = {}"
  by (simp_all add: hnsw_ok_def graph_ok_def entry_ok_def hnsw_ids_def hnsw_new_def hm_keys_def)

lemma node_ok_mono: "node_ok c A n \<Longrightarrow> A \<subseteq> B \<Longrightarrow> node_ok c B n"
  unfolding node_ok_def by blast

lemma graph_ok_mono: "graph_ok A i \<Longrightarrow> A \<subseteq> B \<Longrightarrow> graph_ok B i"
  unfolding graph_ok_def by (metis node_ok_mono)

lemma graph_ok_level_ids: "graph_ok A i \<Longrightarrow> level_ids i lv \<subseteq> A"
  unfolding graph_ok_def level_ids_def node_ok_def get_neighbors_at_level_def
  by (auto simp: hm_keys_get split: if_splits) blast

lemma select_neighbors_sound:
  assumes "select_neighbors P i cs m vs q = Inr r"
  shows "set r \<subseteq> set cs \<and> length r \<le> m"
proof -
  have "fst ` set ds \<subseteq> set cs" if "neighbor_distances P i vs q cs = Inr ds" for ds cs
    using that
    by (induction cs arbitrary: ds) (fastforce simp: and_then_eq_Inr split: if_splits option.splits)+
  then show ?thesis
    using assms by (fastforce simp: select_neighbors_def and_then_eq_Inr dest: in_set_takeD split: if_splits)
qed

text \<open>What an insertion may do to the index before its node is added.\<close>

definition linked :: "uuid \<Rightarrow> hnsw_index \<Rightarrow> hnsw_index \<Rightarrow> bool" where
  "linked new i j \<longleftrightarrow>
     graph_ok (insert new (set (hm_keys (nodes i)))) j \<and>
     set (hm_keys (nodes j)) = set (hm_keys (nodes i)) \<and> is_tombstone j = is_tombstone i \<and>
     hnsw_config j = hnsw_config i \<and> start_node j = start_node i \<and> max_level j = max_level i"

lemma set_connections_frame:
  "set (hm_keys (nodes (set_connections x lc ys i))) = set (hm_keys (nodes i))"
  "is_tombstone (set_connections x lc ys i) = is_tombstone i"
  "hnsw_config (set_connections x lc ys i) = hnsw_config i"
  "start_node (set_connections x lc ys i) = start_node i"
  "max_level (set_connections x lc ys i) = max_level i"
  by (auto simp: set_connections_def is_tombstone_def fun_eq_iff dest: hm_get_key split: option.splits)

lemma set_connections_graph_ok:
  assumes "graph_ok A i" and "set ys \<subseteq> A" and "length ys \<le> max_connections (hnsw_config i) lc"
  shows "graph_ok A (set_connections x lc ys i)"
proof (cases "hm_get (nodes i) x")
  case None
  with assms(1) show ?thesis by (simp add: set_connections_def)
next
  case (Some n)
  have n: "node_ok (hnsw_config i) A n" using assms(1) Some by (simp add: graph_ok_def)
  have "node_ok (hnsw_config i) A (n\<lparr>connections := (connections n)[lc := ys]\<rparr>)"
    unfolding node_ok_def
  proof (intro allI impI)
    fix l assume "l < length (connections (n\<lparr>connections := (connections n)[lc := ys]\<rparr>))"
    with n assms(2,3)
    show "set (connections (n\<lparr>connections := (connections n)[lc := ys]\<rparr>) ! l) \<subseteq> A \<and>
        length (connections (n\<lparr>connections := (connections n)[lc := ys]\<rparr>) ! l)
          \<le> max_connections (hnsw_config i) l"
      by (cases "l = lc") (simp_all add: node_ok_def)
  qed
  with assms(1) Some show ?thesis by (simp add: set_connections_def graph_ok_def)
qed

lemma set_connections_twice:
  "set_connections x lc zs (set_connections x lc ys i) = set_connections x lc zs i"
  by (cases "hm_get (nodes i) x") (simp_all add: set_connections_def)

lemma link_linked:
  assumes "linked new i j" and "link P new lc (max_connections (hnsw_config i) lc) vs x j = (Inr u, k)"
  shows "linked new i k"
proof (cases "hm_get (nodes j) x")
  case None
  with assms show ?thesis by (simp add: link_def)
next
  case (Some n)
  let ?m = "max_connections (hnsw_config i) lc"
  let ?A = "insert new (set (hm_keys (nodes i)))"
  show ?thesis
  proof (cases "lc < length (connections n)")
    case False
    with Some assms show ?thesis by (simp add: link_def)
  next
    case True
    let ?ys = "connections n ! lc @ [new]"
    have ys: "set ?ys \<subseteq> ?A" and g: "graph_ok ?A j" and c: "hnsw_config j = hnsw_config i"
      using assms(1) Some True by (auto simp: linked_def graph_ok_def node_ok_def)
    have "prune P lc ?m vs x ?ys (set_connections x lc ?ys j) = (Inr u, k)"
      using assms(2) Some True by (simp add: link_def)
    moreover have "\<exists>zs. set zs \<subseteq> set ys \<and> length zs \<le> m \<and> k = set_connections x lc zs j"
      if "prune P lc m vs x ys (set_connections x lc ys j) = (Inr u, k)" for ys m
    proof (cases "length ys > m")
      case False
      with that show ?thesis by (auto simp: prune_def)
    next
      case True
      with that obtain v zs where "select_neighbors P (set_connections x lc ys j) ys m vs v = Inr zs"
        and "k = set_connections x lc zs (set_connections x lc ys j)"
        by (auto simp: prune_def op_then_eq_Inr split: option.splits)
      then show ?thesis using select_neighbors_sound set_connections_twice by metis
    qed
    ultimately obtain zs where "set zs \<subseteq> ?A" "length zs \<le> ?m" "k = set_connections x lc zs j"
      using ys by (meson subset_trans)
    with set_connections_graph_ok [OF g] assms(1) c show ?thesis
      by (simp add: linked_def set_connections_frame)
  qed
qed

section \<open>Insertion keeps the invariant\<close>

definition pending_ok :: "hnsw_config \<Rightarrow> uuid set \<Rightarrow> uuid list list \<Rightarrow> bool" where
  "pending_ok c A pending \<longleftrightarrow> node_ok c A \<lparr>connections = pending, tombstone = False\<rparr>"

lemma pending_ok_empty: "pending_ok c A (replicate n [])"
  by (simp add: pending_ok_def node_ok_def)

lemma pending_ok_update:
  assumes "pending_ok c A p" and "set ns \<subseteq> A" and "length ns \<le> max_connections c lc"
    and "lc < length p \<Longrightarrow> p ! lc = []"
  shows "pending_ok c A (p[lc := p ! lc @ ns])"
  using assms by (cases "lc < length p") (auto simp: pending_ok_def node_ok_def nth_list_update)

lemma linked_refl: "hnsw_ok i \<Longrightarrow> linked new i i"
  using graph_ok_mono [of "set (hm_keys (nodes i))" i "insert new (set (hm_keys (nodes i)))"]
  by (auto simp: linked_def hnsw_ok_def)

lemma links_linked:
  "op_for (link P new lc (max_connections (hnsw_config i) lc) vs) xs j = (Inr u, k) \<Longrightarrow>
   linked new i j \<Longrightarrow> linked new i k"
  by (erule op_for_Inr_invariant) (auto intro: link_linked)

lemma connect_ok:
  assumes "connect P new v ctx lcs eps pending j = (Inr p', k)" and "linked new i j"
    and "distinct lcs" and "distinct eps" and "set eps \<subseteq> insert new (set (hm_keys (nodes i)))"
    and "pending_ok (hnsw_config i) (insert new (set (hm_keys (nodes i)))) pending"
    and "\<And>l. l \<in> set lcs \<Longrightarrow> l < length pending \<Longrightarrow> pending ! l = []"
  shows "linked new i k \<and> pending_ok (hnsw_config i) (insert new (set (hm_keys (nodes i)))) p'"
  using assms
proof (induction lcs arbitrary: eps pending j)
  case (Cons lc lcs)
  let ?A = "insert new (set (hm_keys (nodes i)))"
  have c: "hnsw_config j = hnsw_config i" and g: "graph_ok ?A j"
    using Cons.prems(2) by (simp_all add: linked_def)
  obtain eps' ns l where s: "search_layer P j v eps (ef_construction (hnsw_config i)) lc ctx = Inr eps'"
    and ns: "select_neighbors P j eps' (max_connections (hnsw_config i) lc) (sc_vectors ctx) v = Inr ns"
    and l: "op_for (link P new lc (max_connections (hnsw_config i) lc) (sc_vectors ctx)) ns j = (Inr (), l)"
    and rest: "connect P new v ctx lcs eps' (pending[lc := pending ! lc @ ns]) l = (Inr p', k)"
    using Cons.prems(1) by (auto simp: op_then_eq_Inr c)
  have eps': "distinct eps'" "set eps' \<subseteq> ?A"
    using search_layer_sound [OF s Cons.prems(4,5) graph_ok_level_ids [OF g]] by auto
  have sel: "set ns \<subseteq> ?A" "length ns \<le> max_connections (hnsw_config i) lc"
    using select_neighbors_sound [OF ns] eps' by auto
  have "pending_ok (hnsw_config i) ?A (pending[lc := pending ! lc @ ns])"
    using Cons.prems(6,7) sel by (intro pending_ok_update) simp_all
  moreover have "pending[lc := pending ! lc @ ns] ! l = []"
    if "l \<in> set lcs" "l < length (pending[lc := pending ! lc @ ns])" for l
  proof -
    have "l \<noteq> lc" using that Cons.prems(3) by auto
    then show ?thesis using that Cons.prems(7) [of l] by simp
  qed
  ultimately show ?case
    using Cons.IH [OF rest links_linked [OF l Cons.prems(2)] _ eps'] Cons.prems(3) by simp
qed simp

lemma add_node_simps [simp]:
  "set (hm_keys (nodes (add_node new cs i))) = insert new (set (hm_keys (nodes i)))"
  "is_tombstone (add_node new cs i) x \<longleftrightarrow> x \<noteq> new \<and> is_tombstone i x"
  "hnsw_config (add_node new cs i) = hnsw_config i"
  "start_node (add_node new cs i) = start_node i"
  "max_level (add_node new cs i) = max_level i"
  by (auto simp: add_node_def is_tombstone_def)

lemma add_node_graph_ok:
  "graph_ok A i \<Longrightarrow> pending_ok (hnsw_config i) A cs \<Longrightarrow> graph_ok A (add_node new cs i)"
  by (simp add: graph_ok_def add_node_def pending_ok_def)

lemma raise_entry_simps [simp]:
  "nodes (raise_entry new l i) = nodes i" "hnsw_config (raise_entry new l i) = hnsw_config i"
  "is_tombstone (raise_entry new l i) = is_tombstone i"
  by (simp_all add: raise_entry_def is_tombstone_def fun_eq_iff)

lemma graph_ok_raise [simp]: "graph_ok A (raise_entry new l i) = graph_ok A i"
  by (simp add: graph_ok_def)

lemma entry_ok_raise:
  "entry_ok i \<Longrightarrow> new \<in> set (hm_keys (nodes i)) \<Longrightarrow> \<not> is_tombstone i new \<Longrightarrow>
   entry_ok (raise_entry new l i)"
  by (simp add: entry_ok_def raise_entry_def is_tombstone_def split: option.splits)

lemma descend_sound:
  assumes "descend P i q ctx lcs eps = Inr r" and "distinct eps" and "set eps \<subseteq> A" and "graph_ok A i"
  shows "distinct r \<and> set r \<subseteq> A"
  using assms
proof (induction lcs arbitrary: eps)
  case (Cons lc lcs)
  then obtain eps' where s: "search_layer P i q eps 1 lc ctx = Inr eps'" and d: "descend P i q ctx lcs eps' = Inr r"
    by (auto simp: and_then_eq_Inr)
  from search_layer_sound [OF s Cons.prems(2,3) graph_ok_level_ids [OF Cons.prems(4)]] Cons.IH [OF d] Cons.prems(4)
  show ?case by blast
qed simp

lemma hnsw_insert_ok:
  assumes "hnsw_ok i" and "hnsw_insert P r new v vs i = (Inr u, i')"
  shows "hnsw_ok i' \<and> hnsw_ids i' = insert new (hnsw_ids i)"
proof (cases "start_node i")
  case None
  let ?cs = "replicate (layer_count (random_layer P r i)) []"
  let ?j = "i\<lparr>start_node := Some new, max_level := as_isize (random_layer P r i)\<rparr>"
  have i': "i' = add_node new ?cs ?j"
    using assms(2) None by (simp add: hnsw_insert_def insert_at_def)
  have n: "nodes ?j = nodes i" "is_tombstone ?j = is_tombstone i"
    by (simp_all add: is_tombstone_def fun_eq_iff)
  have "graph_ok (insert new (set (hm_keys (nodes i)))) ?j"
    using assms(1) graph_ok_mono [of "set (hm_keys (nodes i))" i "insert new (set (hm_keys (nodes i)))"]
    by (auto simp: hnsw_ok_def graph_ok_def)
  then have "graph_ok (insert new (set (hm_keys (nodes i)))) i'"
    unfolding i' by (rule add_node_graph_ok) (rule pending_ok_empty)
  then show ?thesis
    by (auto simp: hnsw_ok_def i' entry_ok_def hnsw_ids_def n)
next
  case (Some ep)
  let ?A = "insert new (set (hm_keys (nodes i)))"
  let ?layer = "random_layer P r i"
  let ?ctx = "\<lparr>sc_vectors = vs, sc_filter = None, sc_metadatas = []\<rparr>"
  obtain eps pending j where
    d: "descend P i v ?ctx (upper_layers (as_isize ?layer + 1) (max_level i)) [ep] = Inr eps"
    and c: "connect P new v ?ctx (rev [0..<Suc ?layer]) eps (replicate (layer_count ?layer) []) i
      = (Inr pending, j)"
    and i': "i' = raise_entry new ?layer (add_node new pending j)"
    using assms(2) Some by (auto simp: hnsw_insert_def insert_at_def op_then_eq_Inr simp del: upt_Suc)
  have ep: "ep \<in> set (hm_keys (nodes i))" "\<not> is_tombstone i ep"
    using assms(1) Some by (simp_all add: hnsw_ok_def entry_ok_def)
  have eps: "distinct eps" "set eps \<subseteq> set (hm_keys (nodes i))"
    using descend_sound [OF d, of "set (hm_keys (nodes i))"] ep assms(1) by (auto simp: hnsw_ok_def)
  have l: "linked new i j" and p: "pending_ok (hnsw_config i) ?A pending"
    using connect_ok [OF c linked_refl [OF assms(1)] _ eps(1) _ pending_ok_empty] eps(2) by auto
  have e: "entry_ok (add_node new pending j)"
    using l Some ep by (simp add: entry_ok_def linked_def)
  have "graph_ok ?A i'" "hnsw_ids i' = insert new (hnsw_ids i)"
    using l p by (auto simp: i' linked_def add_node_graph_ok hnsw_ids_def)
  moreover have "entry_ok i'"
    unfolding i' using e l by (intro entry_ok_raise) simp_all
  ultimately show ?thesis using l by (simp add: hnsw_ok_def i' linked_def)
qed

section \<open>Removal and search\<close>

lemma mark_tombstone_simps:
  "set (hm_keys (nodes (mark_tombstone x i))) = set (hm_keys (nodes i))"
  "is_tombstone (mark_tombstone x i) y \<longleftrightarrow> is_tombstone i y \<or> (y = x \<and> hm_contains (nodes i) x)"
  "start_node (mark_tombstone x i) = start_node i"
  "graph_ok A i \<Longrightarrow> graph_ok A (mark_tombstone x i)"
  by (auto simp: mark_tombstone_def is_tombstone_def graph_ok_def node_ok_def hm_contains_iff
      dest: hm_get_key split: option.splits)

lemma new_entry_simps:
  "nodes (new_entry P i) = nodes i" "is_tombstone (new_entry P i) = is_tombstone i"
  "graph_ok A (new_entry P i) = graph_ok A i"
  by (simp_all add: new_entry_def is_tombstone_def graph_ok_def fun_eq_iff)

lemma set_live_ids: "hash_order (uuid_order P) \<Longrightarrow> set (live_ids P i) = hnsw_ids i"
  by (simp add: live_ids_def hnsw_ids_def set_hm_iter)

lemma entry_ok_new_entry:
  assumes "hash_order (uuid_order P)" shows "entry_ok (new_entry P i)"
proof (cases "live_ids P i")
  case Nil
  then have "hnsw_ids i = {}" using set_live_ids [OF assms, of i] by simp
  with Nil show ?thesis
    unfolding entry_ok_def new_entry_simps by (auto simp: hnsw_ids_def new_entry_def)
next
  case (Cons x xs)
  then have "x \<in> hnsw_ids i" using set_live_ids [OF assms, of i] by auto
  with Cons show ?thesis
    unfolding entry_ok_def new_entry_simps by (auto simp: hnsw_ids_def new_entry_def)
qed

lemma hnsw_remove_ok:
  assumes "hash_order (uuid_order P)" and "hnsw_ok i"
  shows "hnsw_ok (hnsw_remove P x i)" "hnsw_ids (hnsw_remove P x i) = hnsw_ids i - {x}"
proof -
  have "hm_contains (nodes i) x \<longleftrightarrow> x \<in> set (hm_keys (nodes i))" by (simp add: hm_contains_def)
  then show "hnsw_ids (hnsw_remove P x i) = hnsw_ids i - {x}"
    by (auto simp: hnsw_remove_def hnsw_ids_def new_entry_simps mark_tombstone_simps)
  have "entry_ok (mark_tombstone x i)" if "start_node i \<noteq> Some x"
    using that assms(2) by (auto simp: hnsw_ok_def entry_ok_def mark_tombstone_simps split: option.splits)
  then show "hnsw_ok (hnsw_remove P x i)"
    using assms entry_ok_new_entry [OF assms(1), of "mark_tombstone x i"]
    by (auto simp: hnsw_ok_def hnsw_remove_def new_entry_simps mark_tombstone_simps)
qed

lemma hnsw_search_sound:
  assumes "hnsw_ok i" and "hnsw_search P q k vs quality f ms i = Inr r"
  shows "set r \<subseteq> hnsw_ids i \<and> length r \<le> k \<and> distinct r"
proof (cases "start_node i")
  case None
  with assms(2) show ?thesis by (simp add: hnsw_search_def hnsw_search_ef_def)
next
  case (Some ep)
  let ?ctx = "\<lparr>sc_vectors = vs, sc_filter = f, sc_metadatas = ms\<rparr>"
  let ?K = "set (hm_keys (nodes i))"
  obtain lcs eps n found where d: "descend P i q ?ctx lcs [ep] = Inr eps"
    and s: "search_layer P i q eps n 0 ?ctx = Inr found"
    and r: "r = take k (filter (\<lambda>x. \<not> is_tombstone i x) found)"
    using assms(2) Some
    by (auto simp: hnsw_search_def hnsw_search_ef_def and_then_eq_Inr split: if_splits simp del: upt_Suc)
  have g: "graph_ok ?K i" and ep: "set [ep] \<subseteq> ?K"
    using assms(1) Some by (simp_all add: hnsw_ok_def entry_ok_def)
  have "distinct eps" "set eps \<subseteq> ?K" using descend_sound [OF d _ ep g] by auto
  from search_layer_sound [OF s this graph_ok_level_ids [OF g]] show ?thesis
    by (auto simp: r hnsw_ids_def dest!: in_set_takeD)
qed

definition hnsw_inv :: "'p platform_scheme \<Rightarrow> hnsw_index \<Rightarrow> bool" where
  "hnsw_inv P i \<longleftrightarrow> hash_order (uuid_order P) \<and> hnsw_ok i"

interpretation hnsw: vector_index "hnsw_inv P" hnsw_ids "hnsw_insert P" "hnsw_remove P" "hnsw_search P"
  for P
proof (unfold_locales, goal_cases)
  case (1 i vs x r v i')
  then show ?case using hnsw_insert_ok [of i P r x v vs "()" i'] by (simp add: hnsw_inv_def)
next
  case (2 i vs x r v i')
  then show ?case using hnsw_insert_ok [of i P r x v vs "()" i'] by (simp add: hnsw_inv_def)
next
  case (3 i x)
  then show ?case by (simp add: hnsw_inv_def hnsw_remove_ok)
next
  case (4 i x)
  then show ?case by (simp add: hnsw_inv_def hnsw_remove_ok)
next
  case (5 i q k vs c f ms s)
  then have "hnsw_ok i" by (simp add: hnsw_inv_def)
  then show ?case using 5(2) by (rule hnsw_search_sound)
qed

section \<open>The result heap gives up its best\<close>

lemma candidate_le_closer: "fl_lt d d' \<Longrightarrow> \<not> candidate_le (x, d) (y, d')"
  by (auto simp: fl_lt_def candidate_le_def candidate_cmp_def cmp_or_equal_def partial_cmp_def
      split: if_splits dest: key_less_asym)

text \<open>A full result heap refuses a neighbour closer than everything it holds.\<close>

lemma keep_nearest_evicts:
  assumes "closest c h" and "length h = n"
  shows "mset (keep_nearest n c h) = mset h"
proof -
  obtain h' where "heap_pop (heap_push h c) = Some (c, h')" "mset h' = mset h"
    using pop_after_push_closest [OF assms(1)] by blast
  with assms(2) show ?thesis by (simp add: keep_nearest_def)
qed

lemma keep_nearest_single:
  assumes "fl_lt d d0" shows "keep_nearest (Suc 0) (x, d) [(ep, d0)] = [(ep, d0)]"
proof -
  have "closest (x, d) [(ep, d0)]" using assms by (simp add: closest_def candidate_le_closer)
  then have "mset (keep_nearest (Suc 0) (x, d) [(ep, d0)]) = mset [(ep, d0)]"
    by (rule keep_nearest_evicts) simp
  then show ?thesis by (metis mset_single_iff_right mset_zero_iff_right mset.simps)
qed

definition stuck :: "candidate \<Rightarrow> layer_search \<Rightarrow> bool" where
  "stuck c st \<longleftrightarrow> nearest st = [c] \<and> furthest st = snd c"

lemma offer_stuck: "stuck c st \<Longrightarrow> stuck c (offer i (Suc 0) (x, d) st)"
  by (cases c) (auto simp: stuck_def offer_def keep_nearest_single peek_distance_def heap_peek_def)

lemma visit_stuck: "stuck c st \<Longrightarrow> visit P i q 1 ctx x st = Inr st' \<Longrightarrow> stuck c st'"
proof -
  assume "stuck c st"
  then have "stuck c (st\<lparr>visited := insert x (visited st)\<rparr>)" by (simp add: stuck_def)
  moreover assume "visit P i q 1 ctx x st = Inr st'"
  ultimately show ?thesis
    using \<open>stuck c st\<close>
    by (auto simp: visit_def and_then_eq_Inr offer_stuck split: if_splits option.splits)
qed

lemma visits_stuck:
  "fold_results (visit P i q 1 ctx) xs st = Inr st' \<Longrightarrow> stuck c st \<Longrightarrow> stuck c st'"
  by (induction xs arbitrary: st) (auto simp: and_then_eq_Inr dest: visit_stuck)

lemma explore_stuck:
  "explore P i q n lv ctx st = Inr st' \<Longrightarrow> n = 1 \<Longrightarrow> stuck c st \<Longrightarrow> nearest st' = [c]"
proof (induction P i q n lv ctx st arbitrary: st' rule: explore.induct)
  case (1 P i q n lv ctx st)
  show ?case
  proof (cases "heap_pop (candidates st)")
    case None
    with 1 show ?thesis by (simp add: explore.simps [of _ _ _ _ _ _ st] stuck_def)
  next
    case (Some p)
    obtain x rest where p: "p = (x, rest)" by (cases p)
    note pop = Some [unfolded p]
    show ?thesis
    proof (cases "fl_gt (snd x) (furthest st)")
      case True
      then have "st' = st\<lparr>candidates := rest\<rparr>"
        using "1.prems"(1) pop by (simp add: explore.simps [of _ _ _ _ _ _ st])
      with "1.prems"(3) show ?thesis by (simp add: stuck_def)
    next
      case False
      then obtain s where s: "fold_results (visit P i q n ctx) (get_neighbors_at_level i (fst x) lv)
          (st\<lparr>candidates := rest\<rparr>) = Inr s" and e: "explore P i q n lv ctx s = Inr st'"
        using "1.prems"(1) pop by (subst (asm) explore.simps) (auto simp: and_then_eq_Inr)
      have "stuck c (st\<lparr>candidates := rest\<rparr>)" using "1.prems"(3) by (simp add: stuck_def)
      then have "stuck c s" using s "1.prems"(2) by (auto intro: visits_stuck)
      with "1.IH" [OF pop refl False s e] "1.prems"(2) show ?thesis by blast
    qed
  qed
qed

lemma search_layer_stuck:
  assumes "search_layer P i q [ep] 1 lv ctx = Inr r" and "reader_get (sc_vectors ctx) ep = Some v"
    and "passes_filter ctx ep" and "\<not> is_tombstone i ep"
  shows "r = [ep]"
proof -
  obtain d st' where e: "explore P i q 1 lv ctx \<lparr>visited = {ep}, candidates = heap_push [] (ep, d),
      nearest = heap_push [] (ep, d), furthest = peek_distance (heap_push [] (ep, d))\<rparr> = Inr st'"
    and r: "r = map fst (sort_by (by_score_asc snd) (nearest st'))"
    using assms by (auto simp: search_layer_def init_search_def enter_def and_then_eq_Inr)
  have "heap_push [] (ep, d) = [(ep, d)]" by (simp add: heap_push_def sift_up.simps)
  then have "nearest st' = [(ep, d)]"
    by (intro explore_stuck [OF e]) (simp_all add: stuck_def peek_distance_def heap_peek_def)
  then show ?thesis by (simp add: r)
qed

lemma descend_stuck:
  assumes "descend P i q ctx lcs [ep] = Inr r" and "reader_get (sc_vectors ctx) ep = Some v"
    and "passes_filter ctx ep" and "\<not> is_tombstone i ep"
  shows "r = [ep]"
  using assms(1)
proof (induction lcs)
  case (Cons lc lcs)
  then obtain eps where "search_layer P i q [ep] 1 lc ctx = Inr eps" "descend P i q ctx lcs eps = Inr r"
    by (auto simp: and_then_eq_Inr)
  with Cons.IH search_layer_stuck [OF _ assms(2-4)] show ?case by blast
qed simp

section \<open>Searches return\<close>

definition reader_dims :: "nat \<Rightarrow> vectors \<Rightarrow> bool" where
  "reader_dims d vs \<longleftrightarrow> (\<forall>x \<in> set (hm_keys vs). case hm_get vs x of None \<Rightarrow> True | Some v \<Rightarrow> length v = d)"

lemma reader_dimsD: "reader_dims d vs \<Longrightarrow> reader_get vs x = Some v \<Longrightarrow> length v = d"
  by (auto simp: reader_dims_def reader_get_def dest: hm_get_key split: option.splits)

definition searchable :: "hnsw_index \<Rightarrow> f32 list \<Rightarrow> search_context \<Rightarrow> bool" where
  "searchable i q ctx \<longleftrightarrow> reader_dims (length q) (sc_vectors ctx) \<and> hc_mode (hnsw_config i) \<noteq> Gpu"

lemma distance_total:
  "searchable i q ctx \<Longrightarrow> reader_get (sc_vectors ctx) x = Some v \<Longrightarrow> \<exists>d. distance P i q v = Inr d"
  using calculate_total [of q v P "hc_mode (hnsw_config i)" "hc_metric (hnsw_config i)"]
    reader_dimsD [of "length q" "sc_vectors ctx" x v]
  by (auto simp: searchable_def distance_def)

lemma fold_results_total:
  "(\<And>x s. x \<in> set xs \<Longrightarrow> \<exists>s'. f x s = Inr s') \<Longrightarrow> \<exists>s'. fold_results f xs s = Inr s'"
proof (induction xs arbitrary: s)
  case (Cons x xs)
  then obtain s' where "f x s = Inr s'" by (metis list.set_intros(1))
  with Cons show ?case by simp
qed simp

lemma visit_total:
  assumes "searchable i q ctx" shows "\<exists>st'. visit P i q n ctx x st = Inr st'"
proof (cases "reader_get (sc_vectors ctx) x")
  case (Some v)
  obtain d where "distance P i q v = Inr d" using distance_total [OF assms Some] by blast
  with Some show ?thesis by (simp add: visit_def)
qed (simp add: visit_def)

lemma enter_total:
  assumes "searchable i q ctx" shows "\<exists>st'. enter P i q ctx x st = Inr st'"
proof (cases "reader_get (sc_vectors ctx) x")
  case (Some v)
  obtain d where "distance P i q v = Inr d" using distance_total [OF assms Some] by blast
  with Some show ?thesis by (simp add: enter_def)
qed (simp add: enter_def)

lemma explore_total: "searchable i q ctx \<Longrightarrow> \<exists>st'. explore P i q n lv ctx st = Inr st'"
proof (induction P i q n lv ctx st rule: explore.induct)
  case (1 P i q n lv ctx st)
  show ?case
  proof (cases "heap_pop (candidates st)")
    case None
    then show ?thesis by (simp add: explore.simps [of _ _ _ _ _ _ st])
  next
    case (Some p)
    obtain c rest where p: "p = (c, rest)" by (cases p)
    note pop = Some [unfolded p]
    obtain s where s: "fold_results (visit P i q n ctx) (get_neighbors_at_level i (fst c) lv)
        (st\<lparr>candidates := rest\<rparr>) = Inr s"
      using fold_results_total [of _ "visit P i q n ctx"] visit_total [OF "1.prems"] by blast
    show ?thesis
      using pop s "1.IH" [OF pop refl _ s "1.prems"]
      by (subst explore.simps) (auto simp del: ex_simps)
  qed
qed

lemma search_layer_total:
  assumes "searchable i q ctx" shows "\<exists>r. search_layer P i q eps n lv ctx = Inr r"
proof -
  obtain s where "fold_results (enter P i q ctx) eps
      \<lparr>visited = {}, candidates = [], nearest = [], furthest = Inf False\<rparr> = Inr s"
    using fold_results_total [of _ "enter P i q ctx"] enter_total [OF assms] by blast
  moreover obtain t where "explore P i q n lv ctx (s\<lparr>furthest := peek_distance (nearest s)\<rparr>) = Inr t"
    using explore_total [OF assms] by blast
  ultimately show ?thesis by (simp add: search_layer_def init_search_def)
qed

lemma descend_total: "searchable i q ctx \<Longrightarrow> \<exists>r. descend P i q ctx lcs eps = Inr r"
proof (induction lcs arbitrary: eps)
  case (Cons lc lcs)
  obtain eps' where "search_layer P i q eps 1 lc ctx = Inr eps'"
    using search_layer_total [OF Cons.prems] by blast
  with Cons show ?case by simp
qed simp

lemma hnsw_search_total:
  assumes "searchable i q \<lparr>sc_vectors = vs, sc_filter = f, sc_metadatas = ms\<rparr>"
    and "\<And>ep. start_node i = Some ep \<Longrightarrow> reader_get vs ep \<noteq> None"
  shows "\<exists>r. hnsw_search P q k vs quality f ms i = Inr r"
proof (cases "start_node i")
  case None
  then show ?thesis by (simp add: hnsw_search_def hnsw_search_ef_def)
next
  case (Some ep)
  obtain eps where "descend P i q \<lparr>sc_vectors = vs, sc_filter = f, sc_metadatas = ms\<rparr>
      (rev [1..<Suc (as_usize (max_level i))]) [ep] = Inr eps"
    using descend_total [OF assms(1)] by blast
  moreover obtain found where "search_layer P i q eps
      (max (max (case ef quality of Some e \<Rightarrow> e | None \<Rightarrow> ef_search (hnsw_config i)) k) k) 0
      \<lparr>sc_vectors = vs, sc_filter = f, sc_metadatas = ms\<rparr> = Inr found"
    using search_layer_total [OF assms(1)] by blast
  ultimately show ?thesis
    using Some assms(2) [OF Some] by (simp add: hnsw_search_def hnsw_search_ef_def del: upt_Suc)
qed

section \<open>Properties\<close>

text \<open>
  C19. The HNSW graph stays well formed. Inserting a vector (with any random draw, new or known
  id) keeps every edge inside the graph, every neighbour list within its layer's bound
  and the entry point a live node, and the live ids afterwards are the old ones and the new one.
\<close>

theorem hnsw_insert_invariant:
  assumes "hnsw_ok i" and "hnsw_insert P r new v vs i = (Inr (), i')"
  shows "hnsw_ok i' \<and> hnsw_ids i' = insert new (hnsw_ids i)"
  using assms by (rule hnsw_insert_ok)

theorem hnsw_insert_invariant_witness:
  "hnsw_ok (snd (hnsw_insert scalar_machine f32_one 7 [f32_one] [(7, [f32_one])]
     (hnsw_new (default_hnsw_config scalar_machine))))"
proof -
  let ?i = "hnsw_new (default_hnsw_config scalar_machine)"
  have "fst (hnsw_insert scalar_machine f32_one 7 [f32_one] [(7, [f32_one])] ?i) = Inr ()"
    by (simp add: hnsw_insert_def insert_at_def hnsw_new_def)
  then show ?thesis
    using hnsw_insert_invariant [of ?i scalar_machine f32_one 7 "[f32_one]" "[(7, [f32_one])]"
        "snd (hnsw_insert scalar_machine f32_one 7 [f32_one] [(7, [f32_one])] ?i)"]
    by (metis hnsw_ok_new(1) prod.collapse)
qed

text \<open>
  C22. Removal tombstones a node and keeps the graph well formed: the removed id is never
  returned again by a search, the other live ids stay, and when the entry point goes another live
  node replaces it (or none is left).
\<close>

theorem hnsw_remove_then_search:
  assumes "hash_order (uuid_order P)" and "hnsw_ok i"
    and "hnsw_search P q k vs quality f ms (hnsw_remove P x i) = Inr r"
  shows "hnsw_ok (hnsw_remove P x i) \<and> hnsw_ids (hnsw_remove P x i) = hnsw_ids i - {x}
    \<and> x \<notin> set r \<and> set r \<subseteq> hnsw_ids i \<and> length r \<le> k \<and> distinct r"
  using hnsw.remove_then_search [where P = P and i = i and x = x] assms
    hnsw_search_sound [OF hnsw_remove_ok(1) [OF assms(1,2)] assms(3)] hnsw_remove_ok [OF assms(1,2)]
  by (auto simp: hnsw_inv_def)

theorem hnsw_remove_then_search_witness:
  "hnsw_search scalar_machine [f32_one] 3 [(7, [f32_one])] default_search_config None []
     (hnsw_remove scalar_machine 7
        (add_node 7 [[]] (hnsw_new (default_hnsw_config scalar_machine)\<lparr>start_node := Some 7, max_level := 0\<rparr>)))
   = Inr []"
proof -
  let ?i = "add_node 7 [[]]
    (hnsw_new (default_hnsw_config scalar_machine)\<lparr>start_node := Some 7, max_level := 0\<rparr>)"
  have "hnsw_ok ?i"
    by (auto simp: hnsw_ok_def graph_ok_def entry_ok_def node_ok_def add_node_def hnsw_new_def
        hm_keys_def hm_ok_def hm_get_def hm_insert_def is_tombstone_def split: if_splits)
  moreover have e: "hnsw_search scalar_machine [f32_one] 3 [(7, [f32_one])] default_search_config None []
      (hnsw_remove scalar_machine 7 ?i) = Inr []"
    by (simp add: hnsw_search_def hnsw_search_ef_def hnsw_remove_def add_node_def hnsw_new_def
        hm_contains_def hm_keys_def hm_insert_def new_entry_def mark_tombstone_def hm_get_def
        live_ids_def hm_iter_def is_tombstone_def scalar_machine_def)
  ultimately show ?thesis
    using hnsw_remove_then_search [OF hash_order_scalar_machine _ e] by (metis e)
qed


text \<open>Two linked nodes whose second is the closer one to the query \<open>[1]\<close>.\<close>

definition two_nodes :: hnsw_index where
  "two_nodes = \<lparr>hnsw_config = \<lparr>hc_m = 2, hc_m_max = 4, ef_construction = 8, ef_search = 8,
       hc_ml = f32_one, hc_metric = DotProduct, hc_mode = Scalar\<rparr>,
     nodes = [(1, \<lparr>connections = [[2], [2]], tombstone = False\<rparr>),
              (2, \<lparr>connections = [[1], [1]], tombstone = False\<rparr>)],
     max_level = 1, start_node = Some 1\<rparr>"

lemma two_nodes_ok: "hnsw_ok two_nodes"
  by (auto simp: two_nodes_def hnsw_ok_def graph_ok_def entry_ok_def node_ok_def hm_keys_def
      hm_ok_def hm_get_def is_tombstone_def max_connections_def nth_Cons' split: if_splits)

lemma two_nodes_searchable:
  "searchable two_nodes [f32_one] \<lparr>sc_vectors = [(1, [f32_zero]), (2, [f32_one])],
     sc_filter = None, sc_metadatas = []\<rparr>"
  by (simp add: searchable_def reader_dims_def hm_keys_def hm_get_def two_nodes_def)


text \<open>
  The greedy descent through the upper layers does nothing. Searching any number of layers
  for the one closest node from a live entry point that has a vector and passes the filter
  returns that entry point: \<open>nearest\<close> is a heap whose top is the closest candidate, so
  with room for one the closer neighbour just pushed is the one popped.
\<close>

theorem descent_never_moves:
  assumes "descend P i q ctx layers [ep] = Inr r" and "reader_get (sc_vectors ctx) ep = Some v"
    and "passes_filter ctx ep" and "\<not> is_tombstone i ep"
  shows "r = [ep]"
  using assms by (rule descend_stuck)

theorem descent_never_moves_witness:
  "descend scalar_machine two_nodes [f32_one] \<lparr>sc_vectors = [(1, [f32_zero]), (2, [f32_one])],
     sc_filter = None, sc_metadatas = []\<rparr> [1] [1] = Inr [1]"
proof -
  let ?ctx = "\<lparr>sc_vectors = [(1, [f32_zero]), (2, [f32_one])], sc_filter = None, sc_metadatas = []\<rparr>"
  obtain r where r: "descend scalar_machine two_nodes [f32_one] ?ctx [1] [1] = Inr r"
    using descend_total [OF two_nodes_searchable] by blast
  have "r = [1]"
    by (rule descent_never_moves [OF r, where v = "[f32_zero]"])
      (simp_all add: reader_get_def hm_get_def passes_filter_def is_tombstone_def two_nodes_def)
  then show ?thesis using r by simp
qed

text \<open>
  So an HNSW query for one neighbour with \<open>ef = 1\<close> answers with the entry point,
  whatever the query, the graph and the distances are.
\<close>

theorem hnsw_top1_is_entry:
  assumes "start_node i = Some ep" and "\<not> is_tombstone i ep" and "reader_get vs ep \<noteq> None"
    and "reader_dims (length q) vs" and "hc_mode (hnsw_config i) \<noteq> Gpu" and "ef quality = Some 1"
  shows "hnsw_search P q 1 vs quality None ms i = Inr [ep]"
proof -
  let ?ctx = "\<lparr>sc_vectors = vs, sc_filter = None, sc_metadatas = ms\<rparr>"
  obtain v where v: "reader_get (sc_vectors ?ctx) ep = Some v" using assms(3) by auto
  have p: "passes_filter ?ctx ep" by (simp add: passes_filter_def)
  have s: "searchable i q ?ctx" using assms(4,5) by (simp add: searchable_def)
  obtain eps where d: "descend P i q ?ctx (rev [1..<Suc (as_usize (max_level i))]) [ep] = Inr eps"
    using descend_total [OF s] by blast
  have eps: "eps = [ep]" using descend_stuck [OF d v p assms(2)] .
  obtain r where l: "search_layer P i q [ep] 1 0 ?ctx = Inr r" using search_layer_total [OF s] by blast
  have "r = [ep]" using search_layer_stuck [OF l v p assms(2)] .
  then show ?thesis
    using d l assms(1-3,6) by (simp add: hnsw_search_def hnsw_search_ef_def eps del: upt_Suc)
qed

theorem hnsw_top1_is_entry_witness:
  "hnsw_search scalar_machine [f32_one] 1 [(1, [f32_zero]), (2, [f32_one])]
     (default_search_config\<lparr>ef := Some 1\<rparr>) None [] two_nodes = Inr [1]"
  by (rule hnsw_top1_is_entry)
    (simp_all add: two_nodes_def is_tombstone_def hm_get_def reader_get_def reader_dims_def hm_keys_def)

text \<open>
  The same on layer 0: once the result heap holds \<open>ef\<close> candidates, a neighbour that is
  closer to the query than all of them is visited and thrown away, and the results stay what
  they were.
\<close>

theorem full_results_refuse_closer:
  assumes "length (nearest st) = num_closest" and "\<And>c. c \<in> set (nearest st) \<Longrightarrow> fl_lt d (snd c)"
  shows "mset (nearest (offer i num_closest (x, d) st)) = mset (nearest st)"
proof -
  have "closest (x, d) (nearest st)"
    using assms(2) by (auto simp: closest_def candidate_le_closer)
  then show ?thesis
    using keep_nearest_evicts [OF _ assms(1)] by (simp add: offer_def)
qed

theorem full_results_refuse_closer_witness:
  "nearest (offer (hnsw_new (default_hnsw_config scalar_machine)) 1 (2, f32_zero)
      \<lparr>visited = {1}, candidates = [], nearest = [(1, f32_one)], furthest = f32_one\<rparr>) = [(1, f32_one)]"
proof -
  have "mset (nearest (offer (hnsw_new (default_hnsw_config scalar_machine)) 1 (2, f32_zero)
      \<lparr>visited = {1}, candidates = [], nearest = [(1, f32_one)], furthest = f32_one\<rparr>))
    = mset (nearest \<lparr>visited = {1}, candidates = [], nearest = [(1, f32_one)], furthest = f32_one\<rparr>)"
    by (rule full_results_refuse_closer)
      (simp_all add: fl_lt_def partial_cmp_def f32_one_def)
  then show ?thesis by simp
qed

end
