(* ===== verification/Vector_Index.thy ===== *)
theory Vector_Index
  imports Flat_Index Ivf_Index Hnsw_Index
begin

text \<open>
  \<^verbatim>\<open>Box<dyn VectorIndex>\<close> as the sum of the three implementations (the persisted
  \<^verbatim>\<open>SerializableIndex\<close> is the same sum), \<^verbatim>\<open>IndexConfig::create_index\<close> of
  \<^verbatim>\<open>src/src/index/selector.rs\<close>, and the contract for the sum, inherited from its parts.
\<close>

datatype any_index = FlatIdx flat_index | HnswIdx hnsw_index | IvfIdx ivf_index

section \<open>Creation\<close>

definition create_hnsw_config :: "'p platform_scheme \<Rightarrow> index_config \<Rightarrow> hnsw_config" where
  "create_hnsw_config P c =
     (case c of
        HnswIndex m m_max efc efs ml metric mode _ \<Rightarrow>
          \<lparr>hc_m = m, hc_m_max = m_max, ef_construction = efc,
           ef_search = (if efs = 0 then efc else efs), hc_ml = ml, hc_metric = metric, hc_mode = mode\<rparr>
      | _ \<Rightarrow>
          \<lparr>hc_m = hnsw_m (auto_config c), hc_m_max = hnsw_m (auto_config c) * 2,
           ef_construction = hnsw_ef_construction (auto_config c),
           ef_search = hnsw_ef_search (auto_config c),
           hc_ml = layer_multiplier P (hnsw_m (auto_config c)),
           hc_metric = ic_metric c, hc_mode = ic_mode c\<rparr>)"

definition create_ivf_config :: "index_config \<Rightarrow> nat \<Rightarrow> ivf_config" where
  "create_ivf_config c n =
     (case c of
        IvfIndex clusters probes iterations metric mode _ \<Rightarrow>
          \<lparr>num_clusters = clusters, num_probes = probes, max_iterations = iterations,
           ivf_metric = metric, ivf_mode = mode\<rparr>
      | _ \<Rightarrow>
          \<lparr>num_clusters = (case ivf_num_clusters (auto_config c) of
             None \<Rightarrow> num_clusters (ivf_config_auto n) | Some k \<Rightarrow> k),
           num_probes = (case ivf_num_probes (auto_config c) of
             None \<Rightarrow> num_probes (ivf_config_auto n) | Some k \<Rightarrow> k),
           max_iterations = ivf_max_iterations (auto_config c),
           ivf_metric = ic_metric c, ivf_mode = ic_mode c\<rparr>)"

definition create_index :: "'p platform_scheme \<Rightarrow> index_config \<Rightarrow> nat \<Rightarrow> any_index" where
  "create_index P c n =
     (case select_type c n of
        Flat \<Rightarrow> FlatIdx (flat_new \<lparr>fc_metric = ic_metric c, fc_mode = ic_mode c\<rparr>)
      | Hnsw \<Rightarrow> HnswIdx (hnsw_new (create_hnsw_config P c))
      | Ivf \<Rightarrow> IvfIdx (ivf_new (create_ivf_config c n)))"

section \<open>Dispatch\<close>

text \<open>Running an operation of one alternative on the sum.\<close>

definition on_part :: "('s \<Rightarrow> 't) \<Rightarrow> 's \<Rightarrow> ('s, 'e, 'a) op \<Rightarrow> ('e + 'a) \<times> 't" where
  "on_part wrap s m = map_prod (\<lambda>r. r) wrap (m s)"

fun index_insert ::
  "'p platform_scheme \<Rightarrow> f32 \<Rightarrow> uuid \<Rightarrow> f32 list \<Rightarrow> vectors \<Rightarrow> (any_index, fault, unit) op" where
  "index_insert P r x v vs (FlatIdx i) = on_part FlatIdx i (flat_insert x v vs)"
| "index_insert P r x v vs (HnswIdx i) = on_part HnswIdx i (hnsw_insert P r x v vs)"
| "index_insert P r x v vs (IvfIdx i) = on_part IvfIdx i (ivf_insert P x v vs)"

fun index_search ::
  "'p platform_scheme \<Rightarrow> f32 list \<Rightarrow> nat \<Rightarrow> vectors \<Rightarrow> search_config \<Rightarrow> filter_query option
    \<Rightarrow> metadatas \<Rightarrow> any_index \<Rightarrow> uuid list outcome" where
  "index_search P q k vs quality f ms (FlatIdx i) = flat_search P q k vs quality f ms i"
| "index_search P q k vs quality f ms (HnswIdx i) = hnsw_search P q k vs quality f ms i"
| "index_search P q k vs quality f ms (IvfIdx i) = ivf_search P q k vs quality f ms i"

fun index_remove :: "'p platform_scheme \<Rightarrow> uuid \<Rightarrow> any_index \<Rightarrow> any_index" where
  "index_remove P x (FlatIdx i) = FlatIdx (flat_remove x i)"
| "index_remove P x (HnswIdx i) = HnswIdx (hnsw_remove P x i)"
| "index_remove P x (IvfIdx i) = IvfIdx (ivf_remove x i)"

fun index_type_of :: "any_index \<Rightarrow> index_type" where
  "index_type_of (FlatIdx i) = Flat"
| "index_type_of (HnswIdx i) = Hnsw"
| "index_type_of (IvfIdx i) = Ivf"

fun index_stats_of :: "'p platform_scheme \<Rightarrow> any_index \<Rightarrow> index_stats" where
  "index_stats_of P (FlatIdx i) = flat_stats i"
| "index_stats_of P (HnswIdx i) = hnsw_stats P i"
| "index_stats_of P (IvfIdx i) = ivf_stats i"

section \<open>The contract of the sum\<close>

fun index_ok :: "any_index \<Rightarrow> bool" where
  "index_ok (FlatIdx i) = flat_ok i"
| "index_ok (HnswIdx i) = hnsw_ok i"
| "index_ok (IvfIdx i) = ivf_ok i"

fun index_ids :: "any_index \<Rightarrow> uuid set" where
  "index_ids (FlatIdx i) = flat_ids i"
| "index_ids (HnswIdx i) = hnsw_ids i"
| "index_ids (IvfIdx i) = ivf_ids i"

definition index_inv :: "'p platform_scheme \<Rightarrow> any_index \<Rightarrow> bool" where
  "index_inv P i \<longleftrightarrow> hash_order (uuid_order P) \<and> index_ok i"

lemma on_part_Inr: "on_part wrap s m = (Inr x, t) \<longleftrightarrow> (\<exists>s'. m s = (Inr x, s') \<and> t = wrap s')"
  by (cases "m s") (auto simp: on_part_def)

lemma index_insert_contract:
  assumes "index_inv P i" and "hm_ok vs" and "index_ids i \<subseteq> set (hm_keys vs)"
    and "x \<in> set (hm_keys vs)" and "index_insert P r x v vs i = (Inr (), i')"
  shows "index_inv P i' \<and> insert x (index_ids i) \<subseteq> index_ids i' \<and> index_ids i' \<subseteq> set (hm_keys vs)"
proof (cases i)
  case (FlatIdx j)
  with assms flat.insert_invar [of j vs x v] flat.insert_ids [of j vs x v] show ?thesis
    by (auto simp: index_inv_def on_part_Inr)
next
  case (HnswIdx j)
  with assms hnsw.insert_invar [of P j vs x r v] hnsw.insert_ids [of P j vs x r v] show ?thesis
    by (auto simp: index_inv_def hnsw_inv_def on_part_Inr)
next
  case (IvfIdx j)
  with assms ivf.insert_invar [of P j vs x v] ivf.insert_ids [of P j vs x v] show ?thesis
    by (auto simp: index_inv_def ivf_inv_def on_part_Inr)
qed

interpretation any: vector_index "index_inv P" index_ids "index_insert P" "index_remove P" "index_search P"
  for P
proof (unfold_locales, goal_cases)
  case (1 i vs x r v i')
  then show ?case using index_insert_contract [OF 1(1-5)] by blast
next
  case (2 i vs x r v i')
  then show ?case using index_insert_contract [OF 2(1-5)] by blast
next
  case (3 i x)
  then show ?case
    by (cases i) (auto simp: index_inv_def flat.remove_invar ivf_remove_ok hnsw_remove_ok)
next
  case (4 i x)
  then show ?case
    by (cases i) (auto simp: index_inv_def flat.remove_ids ivf_remove_ids hnsw_remove_ok)
next
  case (5 i q k vs c f ms r)
  then show ?case
    by (cases i) (auto simp: index_inv_def
        dest: flat_search_sound ivf_search_sound hnsw_search_sound)
qed

lemma create_index_empty [simp]:
  "index_ok (create_index P c n)" "index_ids (create_index P c n) = {}"
  by (simp_all add: create_index_def split: index_type.split)

lemma create_index_type [simp]: "index_type_of (create_index P c n) = select_type c n"
  by (simp add: create_index_def split: index_type.split)

lemma index_type_insert [simp]:
  "index_insert P r x v vs i = (res, i') \<Longrightarrow> index_type_of i' = index_type_of i"
  by (cases i) (auto simp: on_part_def map_prod_def split: prod.splits)

lemma index_type_remove [simp]: "index_type_of (index_remove P x i) = index_type_of i"
  by (cases i) simp_all

section \<open>Properties\<close>

text \<open>
  Every index, whichever the configuration selects, answers soundly: filled from a reader
  (as a rebuild does) without a failure it holds exactly the reader's ids, and a search in it
  then returns at most \<open>k\<close> distinct ids of the reader, never one that was removed.
\<close>

theorem filled_index_search:
  assumes "hash_order (uuid_order P)" and "hm_ok vs" and "map snd fills = reader_iter P vs"
    and "op_for (\<lambda>(r, x, v). index_insert P r x v vs) fills (create_index P c n) = (Inr (), i)"
    and "index_search P q k vs quality f ms (index_remove P dead i) = Inr found"
  shows "index_ids i = set (hm_keys vs) \<and> set found \<subseteq> set (hm_keys vs) - {dead}
    \<and> length found \<le> k \<and> distinct found"
proof -
  have inv: "index_inv P (create_index P c n)" using assms(1) by (simp add: index_inv_def)
  have "(fst \<circ> snd) ` set fills = set (map fst (reader_iter P vs))"
    by (simp flip: assms(3) add: image_comp)
  then have "(fst \<circ> snd) ` set fills = set (hm_keys vs)"
    using set_hm_iter [OF assms(1), of vs] by simp
  then have "index_inv P i \<and> index_ids i = set (hm_keys vs)"
    by (intro any.fill_all [OF assms(4) inv _ assms(2)]) simp_all
  then show ?thesis
    using any.search_sound [OF any.remove_invar assms(5)] any.remove_ids [of P i dead] by blast
qed

theorem filled_index_search_witness:
  "index_search scalar_machine [f32_one] 2 [(1, [f32_one])] default_search_config None []
     (index_remove scalar_machine 1 (snd (op_for (\<lambda>(r, x, v). index_insert scalar_machine r x v [(1, [f32_one])])
        [(f32_one, 1, [f32_one])] (create_index scalar_machine default_index_config 1))))
   = Inr []"
proof -
  let ?vs = "[(1, [f32_one])] :: vectors"
  let ?i = "FlatIdx \<lparr>flat_config = \<lparr>fc_metric = Cosine, fc_mode = Auto\<rparr>, vector_ids = [1]\<rparr>"
  have fill: "op_for (\<lambda>(r, x, v). index_insert scalar_machine r x v ?vs) [(f32_one, 1, [f32_one])]
      (create_index scalar_machine default_index_config 1) = (Inr (), ?i)"
    by (simp add: create_index_def default_index_config_def default_auto_index_def op_then_apply
        on_part_def flat_insert_def flat_new_def)
  have s: "index_search scalar_machine [f32_one] 2 ?vs default_search_config None []
      (index_remove scalar_machine 1 ?i) = Inr []"
    by (simp add: flat_search_def flat_remove_def best_ids_def)
  have "set [] \<subseteq> set (hm_keys ?vs) - {1}"
    using filled_index_search [OF hash_order_scalar_machine _ _ fill s]
    by (simp add: hm_ok_def hm_keys_def reader_iter_def hm_iter_def hm_get_def scalar_machine_def)
  then show ?thesis using s fill by simp
qed

end
