(* ===== verification/Cache.thy ===== *)
theory Cache
  imports Index_Contract
begin

text \<open>
  \<^verbatim>\<open>CacheManager\<close> of \<^verbatim>\<open>src/src/cache/mod.rs\<close>: every vector of the
  collection, and the metadata of at most \<open>max_size\<close> documents, evicted in the order they
  were last put. The byte counts depend on allocation capacities, taken from a memory layout.
\<close>

record cache_manager =
  cm_config :: cache_config
  cm_vectors :: vectors
  cm_metadata :: metadatas
  metadata_order :: "uuid list"

definition cache_new :: "cache_config \<Rightarrow> cache_manager" where
  "cache_new c = \<lparr>cm_config = c, cm_vectors = [], cm_metadata = [], metadata_order = []\<rparr>"

definition put_vector :: "uuid \<Rightarrow> f32 list \<Rightarrow> cache_manager \<Rightarrow> cache_manager" where
  "put_vector x v c = c\<lparr>cm_vectors := hm_insert x v (cm_vectors c)\<rparr>"

text \<open>\<^verbatim>\<open>while metadata.len() > max_size\<close>: each round takes one id off the order.\<close>

fun evict :: "nat \<Rightarrow> metadatas \<Rightarrow> uuid list \<Rightarrow> metadatas \<times> uuid list" where
  "evict limit m [] = (m, [])"
| "evict limit m (x # order) =
     (if length m > limit then evict limit (hm_remove x m) order else (m, x # order))"

definition enforce_item_limit :: "cache_manager \<Rightarrow> cache_manager" where
  "enforce_item_limit c =
     (if max_size (cm_config c) = 0 then c\<lparr>cm_metadata := [], metadata_order := []\<rparr>
      else c\<lparr>cm_metadata := fst (evict (max_size (cm_config c)) (cm_metadata c) (metadata_order c)),
             metadata_order := snd (evict (max_size (cm_config c)) (cm_metadata c) (metadata_order c))\<rparr>)"

definition put_metadata :: "uuid \<Rightarrow> metadata \<Rightarrow> cache_manager \<Rightarrow> cache_manager" where
  "put_metadata x m c =
     (if \<not> cache_enabled (cm_config c) then c
      else enforce_item_limit
        (c\<lparr>cm_metadata := hm_insert x m (cm_metadata c),
           metadata_order := removeAll x (metadata_order c) @ [x]\<rparr>))"

definition cache_remove :: "uuid \<Rightarrow> bool \<Rightarrow> cache_manager \<Rightarrow> cache_manager" where
  "cache_remove x remove_vector c =
     c\<lparr>cm_vectors := (if remove_vector then hm_remove x (cm_vectors c) else cm_vectors c),
       cm_metadata := hm_remove x (cm_metadata c),
       metadata_order := removeAll x (metadata_order c)\<rparr>"

definition clear_all :: "cache_manager \<Rightarrow> cache_manager" where
  "clear_all c = c\<lparr>cm_vectors := [], cm_metadata := [], metadata_order := []\<rparr>"

definition clear_metadata :: "cache_manager \<Rightarrow> cache_manager" where
  "clear_metadata c = c\<lparr>cm_metadata := [], metadata_order := []\<rparr>"

definition vector_len :: "cache_manager \<Rightarrow> nat" where
  "vector_len c = length (cm_vectors c)"

definition vector_contains :: "uuid \<Rightarrow> cache_manager \<Rightarrow> bool" where
  "vector_contains x c = hm_contains (cm_vectors c) x"

section \<open>Memory use\<close>

text \<open>
  The capacity an allocation has for a value, at least its length, and the size of a metadata
  value; identifiers take 16 bytes and vector components four.
\<close>

record memory_layout =
  text_capacity :: "string \<Rightarrow> nat"
  array_capacity :: "metadata_value list \<Rightarrow> nat"
  value_size :: nat

fun metadata_value_usage_bytes :: "memory_layout \<Rightarrow> metadata_value \<Rightarrow> nat" where
  "metadata_value_usage_bytes L (MString s) = text_capacity L s"
| "metadata_value_usage_bytes L (MArray vs) =
     array_capacity L vs * value_size L + sum_list (map (metadata_value_usage_bytes L) vs)"
| "metadata_value_usage_bytes L _ = value_size L"

definition metadata_usage_bytes :: "memory_layout \<Rightarrow> cache_manager \<Rightarrow> nat" where
  "metadata_usage_bytes L c =
     sum_list (map (\<lambda>(x, m). 16 + sum_list (map (\<lambda>(k, v). text_capacity L k + metadata_value_usage_bytes L v) m))
       (cm_metadata c))"

definition vector_usage_bytes :: "cache_manager \<Rightarrow> nat" where
  "vector_usage_bytes c = sum_list (map (\<lambda>(x, v). 16 + length v * 4) (cm_vectors c))"

definition cache_memory_usage_bytes :: "memory_layout \<Rightarrow> cache_manager \<Rightarrow> nat" where
  "cache_memory_usage_bytes L c = vector_usage_bytes c + metadata_usage_bytes L c"

section \<open>The invariant\<close>

text \<open>The order lists each cached metadata once, and there are no more than allowed.\<close>

definition cache_ok :: "cache_manager \<Rightarrow> bool" where
  "cache_ok c \<longleftrightarrow>
     hm_ok (cm_vectors c) \<and> hm_ok (cm_metadata c) \<and> distinct (metadata_order c) \<and>
     set (metadata_order c) = set (hm_keys (cm_metadata c)) \<and>
     length (cm_metadata c) \<le> max_size (cm_config c)"

lemma length_metadata_order: "cache_ok c \<Longrightarrow> length (cm_metadata c) = length (metadata_order c)"
  unfolding cache_ok_def hm_ok_def
  by (metis distinct_card length_map hm_keys_def)

lemma cache_ok_new [simp]: "cache_ok (cache_new c)"
  by (simp add: cache_ok_def cache_new_def hm_keys_def)

lemma cache_ok_put_vector [simp]: "cache_ok c \<Longrightarrow> cache_ok (put_vector x v c)"
  by (simp add: cache_ok_def put_vector_def)

text \<open>Eviction drops the oldest entries: a suffix of the order survives, and its metadata.\<close>

lemma evict_ok:
  assumes "hm_ok m" and "distinct order" and "set order = set (hm_keys m)"
  shows "hm_ok (fst (evict n m order)) \<and> distinct (snd (evict n m order)) \<and>
    set (snd (evict n m order)) = set (hm_keys (fst (evict n m order))) \<and>
    length (fst (evict n m order)) \<le> n"
  using assms
proof (induction n m order rule: evict.induct)
  case (1 limit m)
  then show ?case by (simp add: hm_keys_def)
next
  case (2 limit m x order)
  have "set order = set (hm_keys (hm_remove x m))" using 2(3,4) by auto
  with 2 show ?case by simp
qed

lemma evict_drop:
  assumes "hm_ok m" and "distinct order" and "set order = set (hm_keys m)"
  shows "snd (evict n m order) = drop (length order - n) order"
    and "hm_get (fst (evict n m order)) x
      = (if x \<in> set (drop (length order - n) order) then hm_get m x else None)"
proof -
  have len: "length m = length order"
    using assms unfolding hm_ok_def by (metis distinct_card length_map hm_keys_def)
  have "snd (evict n m order) = drop (length order - n) order \<and>
    hm_get (fst (evict n m order)) x
      = (if x \<in> set (drop (length order - n) order) then hm_get m x else None)"
    using assms len
  proof (induction n m order rule: evict.induct)
    case (1 limit m)
    then show ?case by (simp add: hm_keys_def)
  next
    case (2 limit m y order)
    have keys: "set order = set (hm_keys (hm_remove y m))" using 2(3,4) by auto
    have c: "hm_contains m y" using 2(4) by (auto simp: hm_contains_def)
    have l: "length (hm_remove y m) = length order" using 2(2,5) c by (simp add: length_hm_remove)
    show ?case
    proof (cases "length m > limit")
      case True
      then have d: "drop (length (y # order) - limit) (y # order) = drop (length order - limit) order"
        using 2(5) by (simp add: drop_Cons')
      have ynot: "y \<notin> set (drop (length order - limit) order)"
        using 2(3) by (auto dest: in_set_dropD)
      show ?thesis
        using 2(1) [OF True _ _ keys l] 2(2,3) True ynot unfolding d by auto
    next
      case False
      have "x \<notin> set (hm_keys m) \<Longrightarrow> hm_get m x = None"
        by (metis hm_contains_def hm_contains_iff)
      with False show ?thesis using 2(4,5) by auto
    qed
  qed
  then show "snd (evict n m order) = drop (length order - n) order"
    and "hm_get (fst (evict n m order)) x
      = (if x \<in> set (drop (length order - n) order) then hm_get m x else None)"
    by blast+
qed

lemma cache_ok_enforce:
  "hm_ok (cm_vectors c) \<Longrightarrow> hm_ok (cm_metadata c) \<Longrightarrow> distinct (metadata_order c) \<Longrightarrow>
   set (metadata_order c) = set (hm_keys (cm_metadata c)) \<Longrightarrow> cache_ok (enforce_item_limit c)"
  using evict_ok [of "cm_metadata c" "metadata_order c" "max_size (cm_config c)"]
  by (auto simp: enforce_item_limit_def cache_ok_def hm_keys_def)

lemma cache_ok_put_metadata [simp]: "cache_ok c \<Longrightarrow> cache_ok (put_metadata x m c)"
proof -
  assume ok: "cache_ok c"
  then have "cache_ok (enforce_item_limit (c\<lparr>cm_metadata := hm_insert x m (cm_metadata c),
      metadata_order := removeAll x (metadata_order c) @ [x]\<rparr>))"
    by (intro cache_ok_enforce) (auto simp: cache_ok_def distinct_removeAll)
  with ok show ?thesis by (simp add: put_metadata_def)
qed

text \<open>What a put leaves readable was put now or was readable before.\<close>

lemma put_metadata_get:
  assumes "cache_ok c" and "cache_enabled (cm_config c)"
    and "hm_get (cm_metadata (put_metadata x m c)) y = Some m'"
  shows "if y = x then m' = m else hm_get (cm_metadata c) y = Some m'"
proof -
  have "hm_ok (hm_insert x m (cm_metadata c))" "distinct (removeAll x (metadata_order c) @ [x])"
    "set (removeAll x (metadata_order c) @ [x]) = set (hm_keys (hm_insert x m (cm_metadata c)))"
    using assms(1) by (auto simp: cache_ok_def distinct_removeAll)
  from evict_drop(2) [OF this, of "max_size (cm_config c)" y] show ?thesis
    using assms(2,3) by (auto simp: put_metadata_def enforce_item_limit_def split: if_splits)
qed

lemma put_metadata_disabled: "\<not> cache_enabled (cm_config c) \<Longrightarrow> put_metadata x m c = c"
  by (simp add: put_metadata_def)

lemma cache_ok_remove [simp]: "cache_ok c \<Longrightarrow> cache_ok (cache_remove x b c)"
  using length_hm_remove [of "cm_metadata c" x]
  by (auto simp: cache_ok_def cache_remove_def distinct_removeAll)

lemma cache_ok_clear [simp]: "cache_ok (clear_all c)" "cache_ok c \<Longrightarrow> cache_ok (clear_metadata c)"
  by (simp_all add: cache_ok_def clear_all_def clear_metadata_def hm_keys_def)

lemma put_metadata_vectors [simp]: "cm_vectors (put_metadata x m c) = cm_vectors c"
  by (simp add: put_metadata_def enforce_item_limit_def)

lemma put_metadata_config [simp]:
  "cm_config (put_metadata x m c) = cm_config c" "cm_config (put_vector x v c) = cm_config c"
  "cm_config (cache_remove x b c) = cm_config c"
  by (simp_all add: put_metadata_def enforce_item_limit_def put_vector_def cache_remove_def)

lemma cache_vectors_simps [simp]:
  "cm_vectors (put_vector x v c) = hm_insert x v (cm_vectors c)"
  "cm_vectors (cache_remove x b c) = (if b then hm_remove x (cm_vectors c) else cm_vectors c)"
  "cm_vectors (cache_new k) = []"
  by (simp_all add: put_vector_def cache_remove_def cache_new_def)

section \<open>Properties\<close>

text \<open>
  The metadata cache is a bounded first-in-first-out cache: putting an entry in an enabled
  cache with room for at least one keeps the invariant, makes that entry readable, and evicts
  only the oldest others: the order afterwards is the last \<open>max_size\<close> of the old order
  with the entry moved to its end.
\<close>

theorem put_metadata_evicts_oldest:
  assumes "cache_ok c" and "cache_enabled (cm_config c)" and "0 < max_size (cm_config c)"
  shows "cache_ok (put_metadata x m c)
    \<and> hm_get (cm_metadata (put_metadata x m c)) x = Some m
    \<and> (let order = removeAll x (metadata_order c) @ [x]
       in metadata_order (put_metadata x m c) = drop (length order - max_size (cm_config c)) order)
    \<and> (y \<noteq> x \<and> y \<in> set (metadata_order (put_metadata x m c)) \<longrightarrow>
         hm_get (cm_metadata (put_metadata x m c)) y = hm_get (cm_metadata c) y)"
proof -
  let ?order = "removeAll x (metadata_order c) @ [x]"
  let ?m = "hm_insert x m (cm_metadata c)"
  let ?n = "max_size (cm_config c)"
  have pre: "hm_ok ?m" "distinct ?order" "set ?order = set (hm_keys ?m)"
    using assms(1) by (auto simp: cache_ok_def distinct_removeAll)
  note ev = evict_drop [OF pre, of ?n]
  have last: "x \<in> set (drop (length ?order - ?n) ?order)"
    using assms(3) by (simp add: drop_append)
  have p: "metadata_order (put_metadata x m c) = drop (length ?order - ?n) ?order"
    "cm_metadata (put_metadata x m c) = fst (evict ?n ?m ?order)"
    using assms(2,3) by (simp_all add: put_metadata_def enforce_item_limit_def ev(1))
  show ?thesis
    using assms(1) last by (simp only: Let_def p ev(2) cache_ok_put_metadata) (simp add: hm_get_insert)
qed

theorem put_metadata_evicts_oldest_witness:
  "metadata_order (put_metadata 3 [] \<lparr>cm_config = cache_with_size 2, cm_vectors = [],
     cm_metadata = [(1, []), (2, [])], metadata_order = [1, 2]\<rparr>) = [2, 3]"
proof -
  let ?c = "\<lparr>cm_config = cache_with_size 2, cm_vectors = [],
     cm_metadata = [(1, []), (2, [])], metadata_order = [1, 2]\<rparr> :: cache_manager"
  have "cache_ok ?c"
    by (auto simp: cache_ok_def hm_ok_def hm_keys_def cache_with_size_def)
  then show ?thesis
    using put_metadata_evicts_oldest [of ?c 3 "[]"]
    by (simp add: cache_with_size_def Let_def)
qed

end
