(* ===== verification/Storage.thy ===== *)
theory Storage
  imports Vector_Index
begin

text \<open>
  Documents and their storage: \<^verbatim>\<open>src/src/storage/document.rs\<close>,
  \<^verbatim>\<open>metadata.rs\<close>, \<^verbatim>\<open>record_store.rs\<close> and
  \<^verbatim>\<open>persistence/\<close>. A file is the list of its bytes. A memory map shares the file's
  pages, so the map is its length and writes through it are writes to the file; a crash
  of the process loses the map and the cursor and keeps the file. I/O errors other than
  a missing file or a short one are not modelled.
\<close>

section \<open>Documents and collection metadata\<close>

record document =
  doc_id :: uuid
  doc_vector :: "f32 list"
  doc_text :: string
  doc_metadata :: metadata

definition get_vector :: "document \<Rightarrow> f32 list" where
  "get_vector d = doc_vector d"

definition try_get_vector :: "document \<Rightarrow> f32 list outcome" where
  "try_get_vector d = Inr (get_vector d)"

record collection_metadata =
  schema_version :: nat
  cm_name :: string
  created_at :: nat
  updated_at :: nat
  cm_dimensions :: "nat option"
  vector_count :: nat

definition collection_metadata_new :: "string \<Rightarrow> nat \<Rightarrow> collection_metadata" where
  "collection_metadata_new name now = \<lparr>schema_version = 1, cm_name = name, created_at = now,
     updated_at = now, cm_dimensions = None, vector_count = 0\<rparr>"

definition collection_metadata_with_dimensions ::
  "string \<Rightarrow> nat \<Rightarrow> nat \<Rightarrow> collection_metadata" where
  "collection_metadata_with_dimensions name d now =
     (collection_metadata_new name now)\<lparr>cm_dimensions := Some d\<rparr>"

definition set_dimensions :: "nat \<Rightarrow> collection_metadata \<Rightarrow> collection_metadata" where
  "set_dimensions d m = (if cm_dimensions m = None then m\<lparr>cm_dimensions := Some d\<rparr> else m)"

definition update_vector_count :: "nat \<Rightarrow> nat \<Rightarrow> collection_metadata \<Rightarrow> collection_metadata" where
  "update_vector_count n now m = m\<lparr>vector_count := n, updated_at := now\<rparr>"

record entry_pointer =
  ptr_offset :: nat
  ptr_length :: nat

type_synonym doc_index = "(uuid, entry_pointer) hmap"

datatype wal_entry =
    WalInsert (wal_doc: document) (wal_seq: nat)
  | WalUpdate (wal_doc: document) (wal_seq: nat)
  | WalDelete uuid (wal_seq: nat)
  | WalCheckpoint nat (wal_seq: nat)

section \<open>The environment\<close>

text \<open>
  The platform with the serialisation of bincode and serde\_json, the clock and the random
  source, the last two as streams indexed by the number of uses so far.
\<close>

record 'b env = platform +
  zero_byte :: 'b
  enc_doc :: "document \<Rightarrow> 'b list"
  dec_doc :: "'b list \<Rightarrow> document option"
  enc_index :: "doc_index \<Rightarrow> 'b list"
  dec_index :: "'b list \<Rightarrow> doc_index option"
  enc_vector_index :: "any_index \<Rightarrow> 'b list"
  dec_vector_index :: "'b list \<Rightarrow> any_index option"
  enc_metadata :: "collection_metadata \<Rightarrow> 'b list"
  dec_metadata :: "'b list \<Rightarrow> collection_metadata option"
  json_wal_meta :: "nat \<Rightarrow> 'b list"
  parse_wal_meta :: "'b list \<Rightarrow> nat option"
  json_entry :: "wal_entry \<Rightarrow> 'b list"
  parse_entry :: "'b list \<Rightarrow> wal_entry option"
  json_header :: "nat \<Rightarrow> 'b list"
  parse_header :: "'b list \<Rightarrow> nat option"
  now_secs :: "nat \<Rightarrow> nat"
  rand_f32 :: "nat \<Rightarrow> f32"

text \<open>
  What bincode and serde\_json document: decoding gives back what was encoded. JSON has no NaN
  and no infinity, so for log entries with a vector the law is assumed of the entries at hand only. A log
  entry is no header and an encoded line is never empty.
\<close>

definition codecs_ok :: "'b env \<Rightarrow> bool" where
  "codecs_ok E \<longleftrightarrow>
     (\<forall>d. dec_doc E (enc_doc E d) = Some d) \<and> (\<forall>i. dec_index E (enc_index E i) = Some i) \<and>
     (\<forall>v. dec_vector_index E (enc_vector_index E v) = Some v) \<and>
     (\<forall>m. dec_metadata E (enc_metadata E m) = Some m) \<and>
     (\<forall>n. parse_wal_meta E (json_wal_meta E n) = Some n) \<and>
     (\<forall>n. parse_header E (json_header E n) = Some n \<and> json_header E n \<noteq> []) \<and>
     (\<forall>e. parse_header E (json_entry E e) = None \<and> json_entry E e \<noteq> []) \<and>
     (\<forall>x n. parse_entry E (json_entry E (WalDelete x n)) = Some (WalDelete x n)) \<and>
     (\<forall>t n. parse_entry E (json_entry E (WalCheckpoint t n)) = Some (WalCheckpoint t n))"

definition entry_round_trips :: "'b env \<Rightarrow> wal_entry \<Rightarrow> bool" where
  "entry_round_trips E e \<longleftrightarrow> parse_entry E (json_entry E e) = Some e"

section \<open>A concrete environment\<close>

text \<open>
  An environment whose bytes are whole encoded values, with a clock that stands still and a
  random source that always draws one; the witnesses run in it.
\<close>

datatype blob =
    ZeroBlob
  | DocBlob document
  | IndexBlob doc_index
  | VectorIndexBlob any_index
  | MetadataBlob collection_metadata
  | WalMetaBlob nat
  | EntryBlob wal_entry
  | HeaderBlob nat

definition blob_env :: "blob env" where
  "blob_env = platform.extend scalar_machine
     (env.fields ZeroBlob
       (\<lambda>d. [DocBlob d]) (\<lambda>bs. case bs of [DocBlob d] \<Rightarrow> Some d | _ \<Rightarrow> None)
       (\<lambda>i. [IndexBlob i]) (\<lambda>bs. case bs of [IndexBlob i] \<Rightarrow> Some i | _ \<Rightarrow> None)
       (\<lambda>i. [VectorIndexBlob i]) (\<lambda>bs. case bs of [VectorIndexBlob i] \<Rightarrow> Some i | _ \<Rightarrow> None)
       (\<lambda>m. [MetadataBlob m]) (\<lambda>bs. case bs of [MetadataBlob m] \<Rightarrow> Some m | _ \<Rightarrow> None)
       (\<lambda>n. [WalMetaBlob n]) (\<lambda>bs. case bs of [WalMetaBlob n] \<Rightarrow> Some n | _ \<Rightarrow> None)
       (\<lambda>e. [EntryBlob e]) (\<lambda>bs. case bs of [EntryBlob e] \<Rightarrow> Some e | _ \<Rightarrow> None)
       (\<lambda>n. [HeaderBlob n]) (\<lambda>bs. case bs of [HeaderBlob n] \<Rightarrow> Some n | _ \<Rightarrow> None)
       (\<lambda>_. 0) (\<lambda>_. f32_one))"

lemma blob_env_simps [simp]:
  "enc_doc blob_env d = [DocBlob d]" "enc_index blob_env i = [IndexBlob i]"
  "enc_vector_index blob_env v = [VectorIndexBlob v]" "enc_metadata blob_env m = [MetadataBlob m]"
  "json_wal_meta blob_env n = [WalMetaBlob n]" "json_entry blob_env e = [EntryBlob e]"
  "json_header blob_env n = [HeaderBlob n]" "zero_byte blob_env = ZeroBlob"
  "dec_doc blob_env [DocBlob d] = Some d" "dec_index blob_env [IndexBlob i] = Some i"
  "dec_vector_index blob_env [VectorIndexBlob v] = Some v"
  "dec_metadata blob_env [MetadataBlob m] = Some m" "parse_wal_meta blob_env [WalMetaBlob n] = Some n"
  "parse_entry blob_env [EntryBlob e] = Some e" "parse_header blob_env [HeaderBlob n] = Some n"
  "parse_header blob_env [EntryBlob e] = None" "now_secs blob_env k = 0" "rand_f32 blob_env k = f32_one"
  "uuid_order blob_env = (\<lambda>ids. ids)"
  by (simp_all add: blob_env_def env.defs platform.defs scalar_machine_def)

lemma codecs_ok_blob_env [simp]: "codecs_ok blob_env" "entry_round_trips blob_env e"
  by (simp_all add: codecs_ok_def entry_round_trips_def)

section \<open>Files\<close>

definition set_len :: "'b \<Rightarrow> nat \<Rightarrow> 'b list \<Rightarrow> 'b list" where
  "set_len z n f = take n f @ replicate (n - length f) z"

definition write_bytes :: "'b \<Rightarrow> nat \<Rightarrow> 'b list \<Rightarrow> 'b list \<Rightarrow> 'b list" where
  "write_bytes z off bs f =
     take off f @ replicate (off - length f) z @ bs @ drop (off + length bs) f"

definition read_range :: "nat \<Rightarrow> nat \<Rightarrow> 'b list \<Rightarrow> 'b list" where
  "read_range off n f = take n (drop off f)"

definition ensure_file_size :: "'b \<Rightarrow> nat \<Rightarrow> 'b list \<Rightarrow> 'b list" where
  "ensure_file_size z n f = (if length f < n then set_len z n f else f)"

lemma length_set_len [simp]: "length (set_len z n f) = n"
  by (simp add: set_len_def)

lemma read_set_len: "off + n \<le> length f \<Longrightarrow> off + n \<le> m \<Longrightarrow> read_range off n (set_len z m f) = read_range off n f"
  by (rule nth_equalityI) (auto simp: read_range_def set_len_def nth_append)

lemma length_write_bytes: "off \<le> length f \<Longrightarrow>
  length (write_bytes z off bs f) = max (length f) (off + length bs)"
  by (simp add: write_bytes_def)

lemma read_write_same: "off \<le> length f \<Longrightarrow> read_range off (length bs) (write_bytes z off bs f) = bs"
  by (simp add: read_range_def write_bytes_def)

lemma read_write_before:
  "off + n \<le> at \<Longrightarrow> at \<le> length f \<Longrightarrow> read_range off n (write_bytes z at bs f) = read_range off n f"
  by (rule nth_equalityI) (auto simp: read_range_def write_bytes_def nth_append)

section \<open>The record store\<close>

record 'b record_store =
  rs_file :: "'b list"
  rs_mmap :: "nat option"
  append_cursor :: nat

definition next_append_offset :: "doc_index \<Rightarrow> nat" where
  "next_append_offset i = Max (insert 0 ((\<lambda>p. ptr_offset (snd p) + ptr_length (snd p)) ` set i))"

definition initial_size :: "collection_config \<Rightarrow> nat" where
  "initial_size c = (if use_mmap (cc_memory c) then initial_mmap_size (cc_memory c) else 1024 * 1024)"

definition store_open :: "'b env \<Rightarrow> 'b list \<Rightarrow> collection_config \<Rightarrow> doc_index \<Rightarrow> 'b record_store" where
  "store_open E file c i =
     \<lparr>rs_file = ensure_file_size (zero_byte E) (initial_size c) file,
      rs_mmap = (if use_mmap (cc_memory c)
        then Some (length (ensure_file_size (zero_byte E) (initial_size c) file)) else None),
      append_cursor = next_append_offset i\<rparr>"

definition grow_if_needed :: "'b env \<Rightarrow> nat \<Rightarrow> 'b record_store \<Rightarrow> 'b record_store" where
  "grow_if_needed E required s =
     (if required > (case rs_mmap s of Some n \<Rightarrow> n | None \<Rightarrow> length (rs_file s))
      then s\<lparr>rs_file := set_len (zero_byte E) (sat_mul required 2) (rs_file s),
             rs_mmap := map_option (\<lambda>_. sat_mul required 2) (rs_mmap s)\<rparr>
      else s)"

text \<open>A write through the map beyond its end would panic.\<close>

definition write_at :: "'b env \<Rightarrow> nat \<Rightarrow> 'b list \<Rightarrow> ('b record_store, fault, unit) op" where
  "write_at E off bs = (\<lambda>s.
     case rs_mmap s of
       Some n \<Rightarrow>
         if off + length bs \<le> n
         then (Inr (), s\<lparr>rs_file := write_bytes (zero_byte E) off bs (rs_file s)\<rparr>)
         else (panic, s)
     | None \<Rightarrow> (Inr (), s\<lparr>rs_file := write_bytes (zero_byte E) off bs (rs_file s)\<rparr>))"

definition pointer_new :: "nat \<Rightarrow> nat \<Rightarrow> entry_pointer" where
  "pointer_new off n = \<lparr>ptr_offset = off, ptr_length = n mod 2 ^ 32\<rparr>"

definition append :: "'b env \<Rightarrow> 'b list \<Rightarrow> ('b record_store, fault, entry_pointer) op" where
  "append E bs = (\<lambda>s.
     op_then (op_modify (grow_if_needed E (append_cursor s + length bs))) (\<lambda>_.
     op_then (write_at E (append_cursor s) bs) (\<lambda>_.
     op_then (op_modify (\<lambda>t. t\<lparr>append_cursor := append_cursor s + length bs\<rparr>)) (\<lambda>_.
     op_return (pointer_new (append_cursor s) (length bs))))) s)"

text \<open>The batch grows the file once, then writes one record after the other.\<close>

fun append_records :: "'b env \<Rightarrow> 'b list list \<Rightarrow> ('b record_store, fault, entry_pointer list) op" where
  "append_records E [] = op_return []"
| "append_records E (bs # rest) = (\<lambda>s.
     op_then (write_at E (append_cursor s) bs) (\<lambda>_.
     op_then (op_modify (\<lambda>t. t\<lparr>append_cursor := append_cursor s + length bs\<rparr>)) (\<lambda>_.
     op_then (append_records E rest) (\<lambda>ps.
     op_return (pointer_new (append_cursor s) (length bs) # ps)))) s)"

definition append_batch :: "'b env \<Rightarrow> 'b list list \<Rightarrow> ('b record_store, fault, entry_pointer list) op" where
  "append_batch E entries = (\<lambda>s.
     op_then (op_modify (grow_if_needed E (append_cursor s + sum_list (map length entries))))
       (\<lambda>_. append_records E entries) s)"

definition read_bytes :: "entry_pointer \<Rightarrow> 'b record_store \<Rightarrow> 'b list option" where
  "read_bytes p s =
     (if (case rs_mmap s of Some n \<Rightarrow> ptr_offset p + ptr_length p \<le> n | None \<Rightarrow> False)
         \<or> ptr_offset p + ptr_length p \<le> length (rs_file s)
      then Some (read_range (ptr_offset p) (ptr_length p) (rs_file s))
      else None)"

definition read_failed :: "entry_pointer \<Rightarrow> piramid_error" where
  "read_failed p = Storage (ReadFailed [Txt ''failed to read document at offset '',
     Num (ptr_offset p), Txt '' length '', Num (ptr_length p)])"

definition decode_failed :: "entry_pointer \<Rightarrow> piramid_error" where
  "decode_failed p = Storage (CorruptedData [Txt ''failed to decode document at offset '',
     Num (ptr_offset p), Txt '' length '', Num (ptr_length p)])"

definition read_document :: "'b env \<Rightarrow> entry_pointer \<Rightarrow> 'b record_store \<Rightarrow> document outcome" where
  "read_document E p s =
     (case read_bytes p s of
        None \<Rightarrow> fail (read_failed p)
      | Some bs \<Rightarrow> (case dec_doc E bs of None \<Rightarrow> fail (decode_failed p) | Some d \<Rightarrow> Inr d))"

definition used_bytes :: "'b record_store \<Rightarrow> nat" where
  "used_bytes s = append_cursor s"

definition mapped_len :: "'b record_store \<Rightarrow> nat" where
  "mapped_len s = (case rs_mmap s of Some n \<Rightarrow> n | None \<Rightarrow> length (rs_file s))"

section \<open>Appending and reading back\<close>

text \<open>The map covers the file, and the records written so far lie inside it.\<close>

definition store_ok :: "'b record_store \<Rightarrow> bool" where
  "store_ok s \<longleftrightarrow>
     (case rs_mmap s of Some n \<Rightarrow> n = length (rs_file s) | None \<Rightarrow> True) \<and>
     append_cursor s \<le> length (rs_file s)"

text \<open>A pointer to a record that appending does not touch.\<close>

definition in_store :: "'b record_store \<Rightarrow> entry_pointer \<Rightarrow> bool" where
  "in_store s p \<longleftrightarrow> ptr_offset p + ptr_length p \<le> append_cursor s"

text \<open>The interface of an append-only store of values of type \<open>'v\<close>.\<close>

locale record_log =
  fixes inv :: "'s \<Rightarrow> bool" and written :: "'s \<Rightarrow> 'p \<Rightarrow> bool"
    and add :: "'v \<Rightarrow> ('s, fault, 'p) op" and fits :: "'s \<Rightarrow> 'v \<Rightarrow> bool"
    and get :: "'p \<Rightarrow> 's \<Rightarrow> 'v option"
  assumes add_total: "inv s \<Longrightarrow> fits s v \<Longrightarrow> \<exists>p t. add v s = (Inr p, t)"
    and add_inv: "inv s \<Longrightarrow> fits s v \<Longrightarrow> add v s = (Inr p, t) \<Longrightarrow> inv t"
    and add_written: "inv s \<Longrightarrow> fits s v \<Longrightarrow> add v s = (Inr p, t) \<Longrightarrow>
      written t p \<and> (\<forall>q. written s q \<longrightarrow> written t q)"
    and get_new: "inv s \<Longrightarrow> fits s v \<Longrightarrow> add v s = (Inr p, t) \<Longrightarrow> get p t = Some v"
    and get_old: "inv s \<Longrightarrow> fits s v \<Longrightarrow> add v s = (Inr p, t) \<Longrightarrow> written s q \<Longrightarrow> get q t = get q s"
begin

lemma add_cases:
  assumes "inv s" and "fits s v"
  obtains p t where "add v s = (Inr p, t)" "inv t" "written t p" "get p t = Some v"
    "\<And>q. written s q \<Longrightarrow> written t q \<and> get q t = get q s"
  using add_total [OF assms] add_inv [OF assms] add_written [OF assms] get_new [OF assms]
    get_old [OF assms] by metis

end

definition record_fits :: "'b record_store \<Rightarrow> 'b list \<Rightarrow> bool" where
  "record_fits s bs \<longleftrightarrow> length bs < 2 ^ 32 \<and> append_cursor s + length bs \<le> max_u64"

lemma grow_if_needed_ok:
  assumes "store_ok s" and "append_cursor s \<le> required" and "required \<le> max_u64"
  shows "store_ok (grow_if_needed E required s)"
    and "required \<le> length (rs_file (grow_if_needed E required s))"
    and "append_cursor (grow_if_needed E required s) = append_cursor s"
    and "in_store s p \<Longrightarrow> read_range (ptr_offset p) (ptr_length p) (rs_file (grow_if_needed E required s))
      = read_range (ptr_offset p) (ptr_length p) (rs_file s)"
proof -
  have "required \<le> sat_mul required 2" using assms(3) by (simp add: sat_mul_def)
  then show "store_ok (grow_if_needed E required s)"
    and "required \<le> length (rs_file (grow_if_needed E required s))"
    and "append_cursor (grow_if_needed E required s) = append_cursor s"
    and "in_store s p \<Longrightarrow> read_range (ptr_offset p) (ptr_length p) (rs_file (grow_if_needed E required s))
      = read_range (ptr_offset p) (ptr_length p) (rs_file s)"
    using assms
    by (auto simp: store_ok_def grow_if_needed_def in_store_def read_set_len split: option.splits)
qed

lemma write_at_ok:
  assumes "store_ok s" and "off + length bs \<le> length (rs_file s)"
  shows "write_at E off bs s = (Inr (), s\<lparr>rs_file := write_bytes (zero_byte E) off bs (rs_file s)\<rparr>)"
  using assms by (auto simp: write_at_def store_ok_def split: option.splits)

lemma append_eq:
  assumes "store_ok s" and "record_fits s bs"
  shows "append E bs s = (Inr \<lparr>ptr_offset = append_cursor s, ptr_length = length bs\<rparr>,
    (grow_if_needed E (append_cursor s + length bs) s)
      \<lparr>rs_file := write_bytes (zero_byte E) (append_cursor s) bs
         (rs_file (grow_if_needed E (append_cursor s + length bs) s)),
       append_cursor := append_cursor s + length bs\<rparr>)"
proof -
  have u: "append_cursor s + length bs \<le> max_u64" using assms(2) by (simp add: record_fits_def)
  note g = grow_if_needed_ok [where E = E, OF assms(1) le_add1 u]
  have "length bs mod 2 ^ 32 = length bs" using assms(2) by (simp add: record_fits_def)
  then show ?thesis
    by (simp add: append_def op_then_apply write_at_ok [OF g(1,2)] pointer_new_def)
qed

lemma append_store:
  assumes "store_ok s" and "record_fits s bs" and "append E bs s = (Inr p, t)"
  shows "store_ok t" and "in_store t p" and "in_store s q \<Longrightarrow> in_store t q"
    and "append_cursor t = append_cursor s + length bs"
    and "read_bytes p t = Some bs" and "in_store s q \<Longrightarrow> read_bytes q t = read_bytes q s"
proof -
  have u: "append_cursor s + length bs \<le> max_u64" using assms(2) by (simp add: record_fits_def)
  note g = grow_if_needed_ok [where E = E, OF assms(1) le_add1 u]
  let ?g = "grow_if_needed E (append_cursor s + length bs) s"
  have p: "p = \<lparr>ptr_offset = append_cursor s, ptr_length = length bs\<rparr>"
    and t: "t = ?g\<lparr>rs_file := write_bytes (zero_byte E) (append_cursor s) bs (rs_file ?g),
       append_cursor := append_cursor s + length bs\<rparr>"
    using assms(3) append_eq [OF assms(1,2), of E] by simp_all
  have at: "append_cursor s \<le> length (rs_file ?g)" using g(2) by simp
  then have len: "length (write_bytes (zero_byte E) (append_cursor s) bs (rs_file ?g)) = length (rs_file ?g)"
    using g(2) by (simp add: length_write_bytes)
  show "store_ok t" using g(1,2) by (auto simp: t store_ok_def len split: option.splits)
  show "in_store t p" "in_store s q \<Longrightarrow> in_store t q" by (simp_all add: t p in_store_def)
  show "append_cursor t = append_cursor s + length bs" by (simp add: t)
  show "read_bytes p t = Some bs"
    using g(2) by (simp add: t p read_bytes_def len read_write_same [OF at])
  show "read_bytes q t = read_bytes q s" if q: "in_store s q"
  proof -
    have "ptr_offset q + ptr_length q \<le> length (rs_file s)" "ptr_offset q + ptr_length q \<le> length (rs_file ?g)"
      using q assms(1) at by (auto simp: in_store_def store_ok_def)
    moreover have "read_range (ptr_offset q) (ptr_length q)
        (write_bytes (zero_byte E) (append_cursor s) bs (rs_file ?g))
      = read_range (ptr_offset q) (ptr_length q) (rs_file s)"
      using read_write_before [OF _ at] g(4) [OF q] q by (simp add: in_store_def)
    ultimately show ?thesis by (simp add: t read_bytes_def len)
  qed
qed

interpretation bytes: record_log store_ok in_store "append E" record_fits read_bytes for E
proof (unfold_locales, goal_cases)
  case (1 s v)
  then show ?case using append_eq by blast
next
  case (2 s v p t)
  then show ?case using append_store(1) by blast
next
  case (3 s v p t)
  then show ?case using append_store(2,3) by blast
next
  case (4 s v p t)
  then show ?case using append_store(5) by blast
next
  case (5 s v p t q)
  then show ?case using append_store(6) by blast
qed

lemma read_document_bytes:
  "read_bytes p s = read_bytes p t \<Longrightarrow> read_document E p s = read_document E p t"
  by (simp add: read_document_def)

section \<open>Batches\<close>

lemma append_records_store:
  assumes "append_records E bss s = (Inr ps, t)" and "store_ok s"
    and "append_cursor s + sum_list (map length bss) \<le> length (rs_file s)"
    and "\<And>bs. bs \<in> set bss \<Longrightarrow> length bs < 2 ^ 32"
  shows "store_ok t \<and> append_cursor t = append_cursor s + sum_list (map length bss)
    \<and> list_all2 (\<lambda>bs p. in_store t p \<and> read_bytes p t = Some bs) bss ps
    \<and> (\<forall>q. in_store s q \<longrightarrow> in_store t q \<and> read_bytes q t = read_bytes q s)"
  using assms
proof (induction bss arbitrary: s ps)
  case (Cons bs bss)
  let ?u = "s\<lparr>rs_file := write_bytes (zero_byte E) (append_cursor s) bs (rs_file s),
    append_cursor := append_cursor s + length bs\<rparr>"
  let ?p = "\<lparr>ptr_offset = append_cursor s, ptr_length = length bs\<rparr>"
  have fit: "append_cursor s + length bs \<le> length (rs_file s)" using Cons.prems(3) by simp
  have at: "append_cursor s \<le> length (rs_file s)" using fit by simp
  have len: "length (write_bytes (zero_byte E) (append_cursor s) bs (rs_file s)) = length (rs_file s)"
    using fit by (simp add: length_write_bytes [OF at])
  have ptr: "pointer_new (append_cursor s) (length bs) = ?p"
    using Cons.prems(4) [of bs] by (simp add: pointer_new_def)
  obtain qs where rest: "append_records E bss ?u = (Inr qs, t)" and ps: "ps = ?p # qs"
    using Cons.prems(1) by (auto simp: op_then_eq_Inr write_at_ok [OF Cons.prems(2) fit] ptr)
  have ok: "store_ok ?u"
    using Cons.prems(2) fit by (auto simp: store_ok_def len split: option.splits)
  have room: "append_cursor ?u + sum_list (map length bss) \<le> length (rs_file ?u)"
    using Cons.prems(3) by (simp add: len)
  have IH: "store_ok t \<and> append_cursor t = append_cursor ?u + sum_list (map length bss)
    \<and> list_all2 (\<lambda>bs p. in_store t p \<and> read_bytes p t = Some bs) bss qs
    \<and> (\<forall>q. in_store ?u q \<longrightarrow> in_store t q \<and> read_bytes q t = read_bytes q ?u)"
    by (rule Cons.IH [OF rest ok room]) (use Cons.prems(4) in auto)
  have new: "in_store ?u ?p" "read_bytes ?p ?u = Some bs"
    using fit by (simp_all add: in_store_def read_bytes_def len read_write_same [OF at])
  have old: "in_store ?u q \<and> read_bytes q ?u = read_bytes q s" if "in_store s q" for q
    using that at read_write_before [OF _ at, of "ptr_offset q" "ptr_length q"]
    by (simp add: in_store_def read_bytes_def len)
  show ?case using IH new old by (simp add: ps)
qed simp

lemma append_batch_store:
  assumes "append_batch E bss s = (Inr ps, t)" and "store_ok s"
    and "append_cursor s + sum_list (map length bss) \<le> max_u64"
    and "\<And>bs. bs \<in> set bss \<Longrightarrow> length bs < 2 ^ 32"
  shows "store_ok t \<and> append_cursor t = append_cursor s + sum_list (map length bss)
    \<and> list_all2 (\<lambda>bs p. in_store t p \<and> read_bytes p t = Some bs) bss ps
    \<and> (\<forall>q. in_store s q \<longrightarrow> in_store t q \<and> read_bytes q t = read_bytes q s)"
proof -
  let ?g = "grow_if_needed E (append_cursor s + sum_list (map length bss)) s"
  note g = grow_if_needed_ok [where E = E, OF assms(2) le_add1 assms(3)]
  have r: "append_records E bss ?g = (Inr ps, t)"
    using assms(1) by (simp add: append_batch_def op_then_apply)
  have room: "append_cursor ?g + sum_list (map length bss) \<le> length (rs_file ?g)" using g(2,3) by simp
  have old: "in_store ?g q \<and> read_bytes q ?g = read_bytes q s" if "in_store s q" for q
  proof -
    have "ptr_offset q + ptr_length q \<le> length (rs_file s)" "ptr_offset q + ptr_length q \<le> length (rs_file ?g)"
      using that assms(2) g(2) by (auto simp: in_store_def store_ok_def)
    then show ?thesis using that g(3) g(4) [OF that] by (simp add: in_store_def read_bytes_def)
  qed
  have "store_ok t \<and> append_cursor t = append_cursor ?g + sum_list (map length bss)
    \<and> list_all2 (\<lambda>bs p. in_store t p \<and> read_bytes p t = Some bs) bss ps
    \<and> (\<forall>q. in_store ?g q \<longrightarrow> in_store t q \<and> read_bytes q t = read_bytes q ?g)"
    by (rule append_records_store [OF r g(1) room]) (rule assms(4))
  then show ?thesis using old g(3) by simp
qed

section \<open>Properties\<close>

text \<open>
  C26. What is appended is read back, and nothing else changes: appending an encoded document
  never fails or panics, whether the file has to grow or not and whether it is mapped or not; its
  pointer then decodes to that document, and every record written before still decodes to what it
  did.
\<close>

theorem append_then_read:
  assumes "codecs_ok E" and "store_ok s" and "record_fits s (enc_doc E d)"
  shows "\<exists>p t. append E (enc_doc E d) s = (Inr p, t) \<and> store_ok t \<and> in_store t p
    \<and> read_document E p t = Inr d
    \<and> (\<forall>q. in_store s q \<longrightarrow> in_store t q \<and> read_document E q t = read_document E q s)"
proof -
  obtain p t where a: "append E (enc_doc E d) s = (Inr p, t)" "store_ok t" "in_store t p"
    "read_bytes p t = Some (enc_doc E d)"
    and old: "\<And>q. in_store s q \<Longrightarrow> in_store t q \<and> read_bytes q t = read_bytes q s"
    using bytes.add_cases [OF assms(2,3), of E] by metis
  have "read_document E p t = Inr d"
    using a(4) assms(1) by (simp add: read_document_def codecs_ok_def)
  with a old show ?thesis using read_document_bytes by metis
qed

theorem append_then_read_witness:
  "let d = \<lparr>doc_id = 7, doc_vector = [f32_one], doc_text = ''a'', doc_metadata = []\<rparr>;
       s = \<lparr>rs_file = [], rs_mmap = Some 0, append_cursor = 0\<rparr>
   in append blob_env (enc_doc blob_env d) s
        = (Inr \<lparr>ptr_offset = 0, ptr_length = 1\<rparr>,
           \<lparr>rs_file = [DocBlob d, ZeroBlob], rs_mmap = Some 2, append_cursor = 1\<rparr>)
      \<and> read_document blob_env \<lparr>ptr_offset = 0, ptr_length = 1\<rparr> (snd (append blob_env (enc_doc blob_env d) s))
        = Inr d"
proof -
  let ?d = "\<lparr>doc_id = 7, doc_vector = [f32_one], doc_text = ''a'', doc_metadata = []\<rparr> :: document"
  let ?s = "\<lparr>rs_file = [], rs_mmap = Some 0, append_cursor = 0\<rparr> :: blob record_store"
  have two: "replicate 2 z = [z, z]" for z :: blob by (simp add: numeral_2_eq_2)
  have a: "append blob_env (enc_doc blob_env ?d) ?s = (Inr \<lparr>ptr_offset = 0, ptr_length = 1\<rparr>,
      \<lparr>rs_file = [DocBlob ?d, ZeroBlob], rs_mmap = Some 2, append_cursor = 1\<rparr>)"
    by (simp add: append_def op_then_apply grow_if_needed_def sat_mul_def max_u64_def set_len_def
        write_at_def write_bytes_def pointer_new_def two)
  have "store_ok ?s" "record_fits ?s (enc_doc blob_env ?d)"
    by (simp_all add: store_ok_def record_fits_def max_u64_def)
  then show ?thesis
    using append_then_read [of blob_env ?s ?d] a by (auto simp: Let_def)
qed

end
