(* ===== verification/Wal.thy ===== *)
theory Wal
  imports Storage
begin

text \<open>
  The write-ahead log of \<^verbatim>\<open>src/src/storage/wal/\<close>: a file of lines, a header and then
  one JSON entry per line, each flushed as it is written. The file's lines belong to the state
  whether the log is enabled or not: a disabled log leaves them alone. Sequence numbers are
  kept as naturals: they grow by one per logged operation and do not reach \<open>2 ^ 64\<close>.
\<close>

section \<open>The log\<close>

record 'b wal =
  wal_on :: bool
  wal_lines :: "'b list list"
  next_seq :: nat

definition wal_version :: nat where
  "wal_version = 1"

definition ensure_header :: "'b env \<Rightarrow> 'b wal \<Rightarrow> 'b wal" where
  "ensure_header E w =
     (if wal_on w \<and> wal_lines w = [] then w\<lparr>wal_lines := [json_header E wal_version]\<rparr> else w)"

definition wal_new :: "'b env \<Rightarrow> 'b list list \<Rightarrow> nat \<Rightarrow> 'b wal" where
  "wal_new E file n = ensure_header E \<lparr>wal_on = True, wal_lines = file, next_seq = n\<rparr>"

definition wal_off :: "'b list list \<Rightarrow> nat \<Rightarrow> 'b wal" where
  "wal_off file n = \<lparr>wal_on = False, wal_lines = file, next_seq = n\<rparr>"

fun set_seq :: "nat \<Rightarrow> wal_entry \<Rightarrow> wal_entry" where
  "set_seq n (WalInsert d _) = WalInsert d n"
| "set_seq n (WalUpdate d _) = WalUpdate d n"
| "set_seq n (WalDelete x _) = WalDelete x n"
| "set_seq n (WalCheckpoint t _) = WalCheckpoint t n"

definition log_entry :: "'b env \<Rightarrow> wal_entry \<Rightarrow> 'b wal \<Rightarrow> 'b wal" where
  "log_entry E e w =
     w\<lparr>wal_lines := (if wal_on w then wal_lines w @ [json_entry E (set_seq (next_seq w) e)]
         else wal_lines w),
       next_seq := next_seq w + 1\<rparr>"

definition wal_checkpoint :: "'b env \<Rightarrow> nat \<Rightarrow> 'b wal \<Rightarrow> 'b wal" where
  "wal_checkpoint E timestamp w = log_entry E (WalCheckpoint timestamp 0) w"

definition rotate :: "'b env \<Rightarrow> 'b wal \<Rightarrow> 'b wal" where
  "rotate E w = (if wal_on w then ensure_header E (w\<lparr>wal_lines := []\<rparr>) else w)"

text \<open>Every write is flushed by \<^verbatim>\<open>log\<close>, so flushing again changes nothing.\<close>

definition wal_flush :: "'b wal \<Rightarrow> 'b wal" where
  "wal_flush w = w"

section \<open>Replay\<close>

definition unsupported_version :: "nat \<Rightarrow> piramid_error" where
  "unsupported_version v = Other [Txt ''Unsupported WAL version '', Num v, Txt '', expected '', Num wal_version]"

definition json_error :: piramid_error where
  "json_error = Json [Txt ''serde_json'']"

fun replay_lines :: "'b env \<Rightarrow> nat \<Rightarrow> 'b list list \<Rightarrow> wal_entry list outcome" where
  "replay_lines E min_seq [] = Inr []"
| "replay_lines E min_seq (l # ls) =
     (if l = [] then replay_lines E min_seq ls
      else
        (case parse_header E l of
           Some v \<Rightarrow>
             if v \<noteq> wal_version then fail (unsupported_version v) else replay_lines E min_seq ls
         | None \<Rightarrow>
             (case parse_entry E l of
                None \<Rightarrow> fail json_error
              | Some e \<Rightarrow>
                  if wal_seq e \<le> min_seq then replay_lines E min_seq ls
                  else and_then (replay_lines E min_seq ls) (\<lambda>es. Inr (e # es)))))"

definition replay :: "'b env \<Rightarrow> nat \<Rightarrow> 'b wal \<Rightarrow> wal_entry list outcome" where
  "replay E min_seq w = (if wal_on w then replay_lines E min_seq (wal_lines w) else Inr [])"

section \<open>Lemmas\<close>

lemma wal_seq_set_seq [simp]: "wal_seq (set_seq n e) = n"
  by (cases e) simp_all

lemma replay_lines_append:
  "replay_lines E m (ls @ ks)
     = and_then (replay_lines E m ls) (\<lambda>es. and_then (replay_lines E m ks) (\<lambda>fs. Inr (es @ fs)))"
proof (induction ls)
  case Nil
  then show ?case by (cases "replay_lines E m ks") simp_all
next
  case (Cons l ls)
  then show ?case
    by (cases "replay_lines E m ks")
      (auto simp: and_then_assoc and_then_def split: option.splits sum.splits)
qed

lemma replay_lines_header [simp]:
  "codecs_ok E \<Longrightarrow> replay_lines E m [json_header E wal_version] = Inr []"
  by (simp add: codecs_ok_def)

lemma replay_lines_entry:
  "codecs_ok E \<Longrightarrow> entry_round_trips E e \<Longrightarrow>
   replay_lines E m [json_entry E e] = Inr (if wal_seq e \<le> m then [] else [e])"
  by (simp add: codecs_ok_def entry_round_trips_def)

declare replay_lines.simps(2) [simp del]

lemma log_entry_simps [simp]:
  "wal_on (log_entry E e w) = wal_on w" "next_seq (log_entry E e w) = next_seq w + 1"
  by (simp_all add: log_entry_def)

lemma replay_log_entry:
  assumes "codecs_ok E" and "entry_round_trips E (set_seq (next_seq w) e)" and "wal_on w"
    and "replay E m w = Inr es"
  shows "replay E m (log_entry E e w)
    = Inr (if next_seq w \<le> m then es else es @ [set_seq (next_seq w) e])"
  using assms by (simp add: replay_def log_entry_def replay_lines_append replay_lines_entry)

lemma rotate_simps [simp]:
  "wal_on (rotate E w) = wal_on w" "next_seq (rotate E w) = next_seq w"
  "\<not> wal_on w \<Longrightarrow> rotate E w = w"
  by (simp_all add: rotate_def ensure_header_def)

lemma replay_rotate: "codecs_ok E \<Longrightarrow> replay E m (rotate E w) = Inr []"
  by (simp add: replay_def rotate_def ensure_header_def)

lemma replay_wal_new:
  "codecs_ok E \<Longrightarrow> replay_lines E m file = Inr es \<Longrightarrow> replay E m (wal_new E file n) = Inr es"
  by (auto simp: replay_def wal_new_def ensure_header_def)

lemma wal_new_simps [simp]: "wal_on (wal_new E file n)" "next_seq (wal_new E file n) = n"
  by (simp_all add: wal_new_def ensure_header_def)

text \<open>The lines of a log written by this code end in a header or an entry that reads back.\<close>

definition log_all :: "'b env \<Rightarrow> wal_entry list \<Rightarrow> 'b wal \<Rightarrow> 'b wal" where
  "log_all E es w = fold (log_entry E) es w"

fun number_from :: "nat \<Rightarrow> wal_entry list \<Rightarrow> wal_entry list" where
  "number_from n [] = []"
| "number_from n (e # es) = set_seq n e # number_from (n + 1) es"

lemma replay_log_all:
  assumes "codecs_ok E" and "wal_on w" and "replay E m w = Inr old" and "m < next_seq w"
    and "\<And>e. e \<in> set (number_from (next_seq w) es) \<Longrightarrow> entry_round_trips E e"
  shows "replay E m (log_all E es w) = Inr (old @ number_from (next_seq w) es)"
  using assms(2-)
proof (induction es arbitrary: w old)
  case Nil
  then show ?case by (simp add: log_all_def)
next
  case (Cons e es)
  have "replay E m (log_entry E e w) = Inr (old @ [set_seq (next_seq w) e])"
    using replay_log_entry [OF assms(1) _ Cons.prems(1,2), of e] Cons.prems(3,4) by simp
  from Cons.IH [OF _ this] Cons.prems show ?case by (simp add: log_all_def)
qed

section \<open>Properties\<close>

text \<open>
  C27. What is logged is replayed: after a rotation, which empties the log for every reader, the
  entries logged since come back from replay in their order, with consecutive sequence numbers,
  provided each of them survives its JSON encoding.
\<close>

theorem logged_is_replayed:
  assumes "codecs_ok E" and "wal_on w" and "m < next_seq w"
    and "\<And>e. e \<in> set (number_from (next_seq w) es) \<Longrightarrow> entry_round_trips E e"
  shows "replay E m (rotate E w) = Inr []
    \<and> replay E m (fold (log_entry E) es (rotate E w)) = Inr (number_from (next_seq w) es)"
  using replay_log_all [OF assms(1), of "rotate E w" m "[]" es] assms replay_rotate [OF assms(1)]
  by (simp add: log_all_def)

theorem logged_is_replayed_witness:
  "replay blob_env 0 (fold (log_entry blob_env) [WalDelete 3 0, WalCheckpoint 9 0]
     (rotate blob_env (wal_new blob_env [[EntryBlob (WalDelete 1 1)]] 5)))
   = Inr [WalDelete 3 5, WalCheckpoint 9 6]"
proof -
  have "number_from 5 [WalDelete 3 0, WalCheckpoint 9 0] = [WalDelete 3 5, WalCheckpoint 9 6]"
    by simp
  then show ?thesis
    using logged_is_replayed [of blob_env "wal_new blob_env [[EntryBlob (WalDelete 1 1)]] 5" 0
        "[WalDelete 3 0, WalCheckpoint 9 0]"]
    by simp
qed

end
