(* ===== verification/Collection.thy ===== *)
theory Collection
  imports Wal Cache Validation
begin

text \<open>
  A collection, \<^verbatim>\<open>src/src/collections/collection.rs\<close>, its checkpoints
  (\<^verbatim>\<open>checkpoint.rs\<close>), its limits and reads (\<^verbatim>\<open>operations/limits.rs\<close>,
  \<^verbatim>\<open>operations/read.rs\<close>) and the maintenance of its cache
  (\<^verbatim>\<open>cache_maintenance.rs\<close>). The files beside the data file and the log are
  \<open>saved\<close>: what each holds, or nothing where it does not exist. The clock and the random
  source are read through counters.
\<close>

section \<open>State\<close>

record 'b saved =
  saved_index :: "'b list option"
  saved_vector_index :: "'b list option"
  saved_metadata :: "'b list option"
  saved_wal_meta :: "'b list option"

record 'b checkpoint_manager =
  wal :: "'b wal"
  operation_count :: nat
  last_checkpoint_ts :: "nat option"

record 'b collection =
  c_store :: "'b record_store"
  c_index :: doc_index
  c_vindex :: any_index
  c_cache :: cache_manager
  c_config :: collection_config
  c_meta :: collection_metadata
  c_checkpoint :: "'b checkpoint_manager"
  c_saved :: "'b saved"
  c_ticks :: nat
  c_draws :: nat

type_synonym ('b, 'a) collection_op = "('b collection, fault, 'a) op"

definition checkpoint_manager_new :: "'b wal \<Rightarrow> 'b checkpoint_manager" where
  "checkpoint_manager_new w = \<lparr>wal = w, operation_count = 0, last_checkpoint_ts = None\<rparr>"

definition collection_count :: "'b collection \<Rightarrow> nat" where
  "collection_count c = length (c_index c)"

definition read_clock :: "'b env \<Rightarrow> ('b, nat) collection_op" where
  "read_clock E = (\<lambda>c. (Inr (now_secs E (c_ticks c)), c\<lparr>c_ticks := c_ticks c + 1\<rparr>))"

definition set_wal :: "('b wal \<Rightarrow> 'b wal) \<Rightarrow> 'b collection \<Rightarrow> 'b collection" where
  "set_wal f c = c\<lparr>c_checkpoint := (c_checkpoint c)\<lparr>wal := f (wal (c_checkpoint c))\<rparr>\<rparr>"

definition wal_log :: "'b env \<Rightarrow> wal_entry \<Rightarrow> ('b, unit) collection_op" where
  "wal_log E e = op_modify (set_wal (log_entry E e))"

text \<open>\<^verbatim>\<open>metadata.update_vector_count(index.len())\<close>, which also touches the time.\<close>

definition refresh_count :: "'b env \<Rightarrow> ('b, unit) collection_op" where
  "refresh_count E =
     op_then (read_clock E) (\<lambda>now.
     op_modify (\<lambda>c. c\<lparr>c_meta := update_vector_count (collection_count c) now (c_meta c)\<rparr>))"

section \<open>Reading\<close>

definition get :: "'b env \<Rightarrow> uuid \<Rightarrow> 'b collection \<Rightarrow> document option outcome" where
  "get E x c =
     (case hm_get (c_index c) x of
        None \<Rightarrow> Inr None
      | Some p \<Rightarrow> and_then (read_document E p (c_store c)) (\<lambda>d. Inr (Some d)))"

text \<open>The documents of the collection, in the order the index is visited.\<close>

definition collect_documents :: "'b env \<Rightarrow> 'b collection \<Rightarrow> (uuid \<times> document) list outcome" where
  "collect_documents E c =
     collect_results
       (\<lambda>x. and_then (get E x c) (\<lambda>r. case r of None \<Rightarrow> panic | Some d \<Rightarrow> Inr (x, d)))
       (hm_iter (uuid_order E) (c_index c))"

definition get_all :: "'b env \<Rightarrow> 'b collection \<Rightarrow> document list outcome" where
  "get_all E c = and_then (collect_documents E c) (\<lambda>ds. Inr (map snd ds))"

section \<open>Limits\<close>

definition limit_error :: "string \<Rightarrow> 'a outcome" where
  "limit_error t = fail (Server (InvalidRequest [Txt t]))"

definition enforce_single :: "nat \<Rightarrow> 'b collection \<Rightarrow> unit outcome" where
  "enforce_single entry_bytes c =
     (let limits = cc_limits (c_config c) in
      if (case max_vectors limits of None \<Rightarrow> False | Some n \<Rightarrow> collection_count c \<ge> n)
        then limit_error ''Collection max vectors reached''
      else if (case max_bytes limits of None \<Rightarrow> False
          | Some n \<Rightarrow> sat_add (used_bytes (c_store c)) entry_bytes > n)
        then limit_error ''Collection max size reached''
      else if (case max_vector_bytes limits of None \<Rightarrow> False | Some n \<Rightarrow> entry_bytes > n)
        then limit_error ''Vector exceeds max allowed size''
      else Inr ())"

definition enforce_batch :: "nat \<Rightarrow> nat \<Rightarrow> nat option \<Rightarrow> 'b collection \<Rightarrow> unit outcome" where
  "enforce_batch total_entries total_bytes max_entry_bytes c =
     (let limits = cc_limits (c_config c) in
      if (case max_vectors limits of None \<Rightarrow> False | Some n \<Rightarrow> sat_add (collection_count c) total_entries > n)
        then limit_error ''Collection max vectors reached''
      else if (case max_bytes limits of None \<Rightarrow> False
          | Some n \<Rightarrow> sat_add (used_bytes (c_store c)) total_bytes > n)
        then limit_error ''Collection max size reached''
      else if (case (max_entry_bytes, max_vector_bytes limits) of
          (Some m, Some n) \<Rightarrow> m > 0 \<and> m > n | _ \<Rightarrow> False)
        then limit_error ''Vector exceeds max allowed size''
      else Inr ())"

section \<open>Loading what was saved\<close>

definition load_index :: "'b env \<Rightarrow> 'b saved \<Rightarrow> doc_index outcome" where
  "load_index E sv =
     (case saved_index sv of
        None \<Rightarrow> Inr []
      | Some bs \<Rightarrow>
          (case dec_index E bs of
             None \<Rightarrow> fail (Storage (CorruptedIndex [Txt ''failed to decode index'']))
           | Some i \<Rightarrow> Inr i))"

definition load_vector_index :: "'b env \<Rightarrow> 'b saved \<Rightarrow> any_index option outcome" where
  "load_vector_index E sv =
     (case saved_vector_index sv of
        None \<Rightarrow> Inr None
      | Some bs \<Rightarrow>
          (case dec_vector_index E bs of
             None \<Rightarrow> fail (Serialization [Txt ''bincode''])
           | Some i \<Rightarrow> Inr (Some i)))"

definition load_metadata :: "'b env \<Rightarrow> 'b saved \<Rightarrow> collection_metadata option outcome" where
  "load_metadata E sv =
     (case saved_metadata sv of
        None \<Rightarrow> Inr None
      | Some bs \<Rightarrow>
          (case dec_metadata E bs of
             None \<Rightarrow> fail (Storage (CorruptedData [Txt ''Failed to read metadata'']))
           | Some m \<Rightarrow>
               if schema_version m \<noteq> 1
               then fail (Storage (CorruptedData [Txt ''Schema version mismatch: expected '', Num 1,
                 Txt '', found '', Num (schema_version m)]))
               else Inr (Some m)))"

definition load_wal_meta :: "'b env \<Rightarrow> 'b saved \<Rightarrow> nat outcome" where
  "load_wal_meta E sv =
     (case saved_wal_meta sv of
        None \<Rightarrow> Inr 0
      | Some bs \<Rightarrow>
          (case parse_wal_meta E bs of None \<Rightarrow> fail json_error | Some n \<Rightarrow> Inr n))"

section \<open>Checkpoints\<close>

definition save_index :: "'b env \<Rightarrow> 'b collection \<Rightarrow> 'b collection" where
  "save_index E c = c\<lparr>c_saved := (c_saved c)\<lparr>saved_index := Some (enc_index E (c_index c))\<rparr>\<rparr>"

definition save_vector_index :: "'b env \<Rightarrow> 'b collection \<Rightarrow> 'b collection" where
  "save_vector_index E c =
     c\<lparr>c_saved := (c_saved c)\<lparr>saved_vector_index := Some (enc_vector_index E (c_vindex c))\<rparr>\<rparr>"

definition save_metadata :: "'b env \<Rightarrow> 'b collection \<Rightarrow> 'b collection" where
  "save_metadata E c =
     c\<lparr>c_saved := (c_saved c)\<lparr>saved_metadata := Some (enc_metadata E (c_meta c))\<rparr>\<rparr>"

definition save_wal_meta :: "'b env \<Rightarrow> nat \<Rightarrow> 'b collection \<Rightarrow> 'b collection" where
  "save_wal_meta E n c =
     c\<lparr>c_saved := (c_saved c)\<lparr>saved_wal_meta := Some (json_wal_meta E n)\<rparr>\<rparr>"

definition record_checkpoint :: "nat \<Rightarrow> 'b collection \<Rightarrow> 'b collection" where
  "record_checkpoint ts c =
     c\<lparr>c_checkpoint := (c_checkpoint c)\<lparr>last_checkpoint_ts := Some ts\<rparr>\<rparr>"

definition reset_counter :: "'b collection \<Rightarrow> 'b collection" where
  "reset_counter c = c\<lparr>c_checkpoint := (c_checkpoint c)\<lparr>operation_count := 0\<rparr>\<rparr>"

text \<open>The log's part of a checkpoint: a last entry, its number in the meta file, an empty log.\<close>

definition checkpoint_wal :: "'b env \<Rightarrow> nat \<Rightarrow> 'b collection \<Rightarrow> 'b collection" where
  "checkpoint_wal E ts c =
     (let c1 = record_checkpoint ts (set_wal (wal_checkpoint E ts) c);
          c2 = save_wal_meta E (next_seq (wal (c_checkpoint c1)) - 1) c1
      in set_wal (rotate E) c2)"

definition checkpoint :: "'b env \<Rightarrow> ('b, unit) collection_op" where
  "checkpoint E =
     op_then (read_clock E) (\<lambda>ts.
     op_then (op_modify (save_index E)) (\<lambda>_.
     op_then (op_modify (save_vector_index E)) (\<lambda>_.
     op_then (op_modify (save_metadata E)) (\<lambda>_.
     op_modify (\<lambda>c. if wal_enabled (cc_wal (c_config c)) then checkpoint_wal E ts c else c)))))"

definition flush :: "('b, unit) collection_op" where
  "flush = op_modify (set_wal wal_flush)"

definition should_checkpoint :: "('b, bool) collection_op" where
  "should_checkpoint = (\<lambda>c.
     if \<not> wal_enabled (cc_wal (c_config c)) then (Inr False, c)
     else (Inr (operation_count (c_checkpoint c) + 1 \<ge> checkpoint_frequency (cc_wal (c_config c))),
       c\<lparr>c_checkpoint := (c_checkpoint c)\<lparr>operation_count := operation_count (c_checkpoint c) + 1\<rparr>\<rparr>))"

definition interval_due :: "'b env \<Rightarrow> ('b, bool) collection_op" where
  "interval_due E = (\<lambda>c.
     case (last_checkpoint_ts (c_checkpoint c), checkpoint_interval_secs (cc_wal (c_config c))) of
       (Some prev, Some interval) \<Rightarrow>
         op_then (read_clock E) (\<lambda>now. op_return (now - prev \<ge> interval)) c
     | _ \<Rightarrow> (Inr False, c))"

definition track_operation :: "'b env \<Rightarrow> ('b, unit) collection_op" where
  "track_operation E =
     op_then (interval_due E) (\<lambda>due.
     op_then should_checkpoint (\<lambda>s.
     if s \<or> due then op_then (checkpoint E) (\<lambda>_. op_modify reset_counter) else op_return ()))"

section \<open>The cache\<close>

definition fill_cache :: "(uuid \<times> document) list \<Rightarrow> cache_manager \<Rightarrow> cache_manager" where
  "fill_cache ds k =
     fold (\<lambda>(x, d) k. put_metadata x (doc_metadata d) (put_vector x (get_vector d) k)) ds k"

text \<open>The new cache replaces the old one only when every document could be read.\<close>

definition rebuild_vector_cache :: "'b env \<Rightarrow> ('b, unit) collection_op" where
  "rebuild_vector_cache E =
     op_then (op_read (collect_documents E)) (\<lambda>ds.
     op_modify (\<lambda>c. c\<lparr>c_cache := fill_cache ds (cache_new (cc_cache (c_config c)))\<rparr>))"

definition ensure_cache_consistency :: "'b env \<Rightarrow> ('b, unit) collection_op" where
  "ensure_cache_consistency E = (\<lambda>c.
     if vector_len (c_cache c) \<noteq> collection_count c \<or>
        (\<exists>x \<in> set (hm_iter (uuid_order E) (c_index c)). \<not> vector_contains x (c_cache c))
     then rebuild_vector_cache E c else (Inr (), c))"

end
