(* ===== verification/Collection_Ops.thy ===== *)
theory Collection_Ops
  imports Collection
begin

text \<open>
  The writing operations of a collection, \<^verbatim>\<open>src/src/collections/operations/write.rs\<close>
  and \<^verbatim>\<open>metadata.rs\<close>, statement by statement: what an early return leaves behind is
  the state at that point.
\<close>

section \<open>Pieces the operations share\<close>

definition store_bytes :: "'b env \<Rightarrow> 'b list \<Rightarrow> ('b, entry_pointer) collection_op" where
  "store_bytes E bs = (\<lambda>c.
     case append E bs (c_store c) of (r, s) \<Rightarrow> (r, c\<lparr>c_store := s\<rparr>))"

definition point_to :: "uuid \<Rightarrow> entry_pointer \<Rightarrow> ('b, unit) collection_op" where
  "point_to x p = op_modify (\<lambda>c. c\<lparr>c_index := hm_insert x p (c_index c)\<rparr>)"

text \<open>\<^verbatim>\<open>record_store.append(&bytes)?\<close> and \<^verbatim>\<open>index.insert(id, pointer)\<close>.\<close>

definition store_document :: "'b env \<Rightarrow> document \<Rightarrow> ('b, unit) collection_op" where
  "store_document E d =
     op_then (store_bytes E (enc_doc E d)) (\<lambda>p. point_to (doc_id d) p)"

definition fix_dimensions :: "nat \<Rightarrow> ('b, unit) collection_op" where
  "fix_dimensions n = op_modify (\<lambda>c. c\<lparr>c_meta := set_dimensions n (c_meta c)\<rparr>)"

definition check_dimensions :: "f32 list \<Rightarrow> ('b, unit) collection_op" where
  "check_dimensions v = op_read (\<lambda>c.
     case cm_dimensions (c_meta c) of None \<Rightarrow> Inr () | Some n \<Rightarrow> validate_dimensions v n)"

definition on_cache :: "(cache_manager \<Rightarrow> cache_manager) \<Rightarrow> ('b, unit) collection_op" where
  "on_cache f = op_modify (\<lambda>c. c\<lparr>c_cache := f (c_cache c)\<rparr>)"

text \<open>The index sees the cache as its reader; one draw is set aside for the layer.\<close>

definition index_vector :: "'b env \<Rightarrow> uuid \<Rightarrow> f32 list \<Rightarrow> ('b, unit) collection_op" where
  "index_vector E x v = (\<lambda>c.
     case index_insert E (rand_f32 E (c_draws c)) x v (cm_vectors (c_cache c)) (c_vindex c) of
       (r, i) \<Rightarrow> (r, c\<lparr>c_vindex := i, c_draws := c_draws c + 1\<rparr>))"

definition unindex_vector :: "'b env \<Rightarrow> uuid \<Rightarrow> ('b, unit) collection_op" where
  "unindex_vector E x = op_modify (\<lambda>c. c\<lparr>c_vindex := index_remove E x (c_vindex c)\<rparr>)"

section \<open>Insertion and deletion\<close>

definition insert_internal :: "'b env \<Rightarrow> document \<Rightarrow> ('b, uuid) collection_op" where
  "insert_internal E d =
     op_then (op_read (enforce_single (length (enc_doc E d)))) (\<lambda>_.
     op_then (store_document E d) (\<lambda>_.
     op_then (fix_dimensions (length (get_vector d))) (\<lambda>_.
     op_then (check_dimensions (get_vector d)) (\<lambda>_.
     op_then (on_cache (put_vector (doc_id d) (get_vector d))) (\<lambda>_.
     op_then (on_cache (put_metadata (doc_id d) (doc_metadata d))) (\<lambda>_.
     op_then (index_vector E (doc_id d) (get_vector d)) (\<lambda>_.
     op_then (refresh_count E) (\<lambda>_.
     op_return (doc_id d)))))))))"

definition delete_internal :: "'b env \<Rightarrow> uuid \<Rightarrow> ('b, unit) collection_op" where
  "delete_internal E x =
     op_then (op_modify (\<lambda>c. c\<lparr>c_index := hm_remove x (c_index c)\<rparr>)) (\<lambda>_.
     op_then (unindex_vector E x) (\<lambda>_.
     op_then (op_modify (\<lambda>c.
       c\<lparr>c_cache := cache_remove x (index_type_of (c_vindex c) \<noteq> Hnsw) (c_cache c)\<rparr>)) (\<lambda>_.
     refresh_count E)))"

definition insert_document :: "'b env \<Rightarrow> document \<Rightarrow> ('b, uuid) collection_op" where
  "insert_document E d =
     op_then (wal_log E (WalInsert d 0)) (\<lambda>_.
     op_then (insert_internal E d) (\<lambda>x.
     op_then (track_operation E) (\<lambda>_.
     op_return x)))"

definition upsert :: "'b env \<Rightarrow> document \<Rightarrow> ('b, uuid) collection_op" where
  "upsert E d = (\<lambda>c.
     if hm_contains (c_index c) (doc_id d)
     then
       op_then (op_read (enforce_single (length (enc_doc E d)))) (\<lambda>_.
       op_then (wal_log E (WalUpdate d 0)) (\<lambda>_.
       op_then (delete_internal E (doc_id d)) (\<lambda>_.
       op_then (insert_internal E d) (\<lambda>_.
       op_then (track_operation E) (\<lambda>_.
       op_return (doc_id d)))))) c
     else
       op_then (op_read (enforce_single (length (enc_doc E d)))) (\<lambda>_. insert_document E d) c)"

definition delete_document :: "'b env \<Rightarrow> uuid \<Rightarrow> ('b, bool) collection_op" where
  "delete_document E x = (\<lambda>c.
     if hm_contains (c_index c) x
     then
       op_then (wal_log E (WalDelete x 0)) (\<lambda>_.
       op_then (delete_internal E x) (\<lambda>_.
       op_then (track_operation E) (\<lambda>_.
       op_return True))) c
     else (Inr False, c))"

section \<open>Batches\<close>

definition batch_maximum :: "nat list \<Rightarrow> nat option" where
  "batch_maximum ns = (if ns = [] then None else Some (Max (set ns)))"

definition store_batch :: "'b env \<Rightarrow> 'b list list \<Rightarrow> ('b, entry_pointer list) collection_op" where
  "store_batch E bss = (\<lambda>c.
     case append_batch E bss (c_store c) of (r, s) \<Rightarrow> (r, c\<lparr>c_store := s\<rparr>))"

text \<open>The second loop of the batch: dimensions, cache and index, one document at a time.\<close>

definition admit_document :: "'b env \<Rightarrow> document \<Rightarrow> ('b, unit) collection_op" where
  "admit_document E d =
     op_then (fix_dimensions (length (get_vector d))) (\<lambda>_.
     op_then (check_dimensions (get_vector d)) (\<lambda>_.
     op_then (on_cache (put_metadata (doc_id d) (doc_metadata d))) (\<lambda>_.
     op_then (on_cache (put_vector (doc_id d) (get_vector d))) (\<lambda>_.
     index_vector E (doc_id d) (get_vector d)))))"

definition insert_batch :: "'b env \<Rightarrow> document list \<Rightarrow> ('b, uuid list) collection_op" where
  "insert_batch E ds =
     op_then (op_for (\<lambda>d. wal_log E (WalInsert d 0)) ds) (\<lambda>_.
     op_then (op_read (enforce_batch (length ds)
         (sum_list (map (\<lambda>d. length (enc_doc E d)) ds))
         (batch_maximum (map (\<lambda>d. length (enc_doc E d)) ds)))) (\<lambda>_.
     op_then (store_batch E (map (enc_doc E) ds)) (\<lambda>ps.
     op_then (op_for (\<lambda>(d, p). point_to (doc_id d) p) (zip ds ps)) (\<lambda>_.
     op_then (track_operation E) (\<lambda>_.
     op_then (op_for (admit_document E) ds) (\<lambda>_.
     op_then (refresh_count E) (\<lambda>_.
     op_return (map doc_id ds))))))))"

definition log_delete :: "'b env \<Rightarrow> uuid \<Rightarrow> ('b, unit) collection_op" where
  "log_delete E x = (\<lambda>c.
     if hm_contains (c_index c) x then wal_log E (WalDelete x 0) c else (Inr (), c))"

fun delete_present :: "'b env \<Rightarrow> uuid list \<Rightarrow> ('b, nat) collection_op" where
  "delete_present E [] = op_return 0"
| "delete_present E (x # xs) = (\<lambda>c.
     if hm_contains (c_index c) x
     then op_then (delete_internal E x) (\<lambda>_.
          op_then (delete_present E xs) (\<lambda>n. op_return (n + 1))) c
     else delete_present E xs c)"

definition delete_batch :: "'b env \<Rightarrow> uuid list \<Rightarrow> ('b, nat) collection_op" where
  "delete_batch E xs =
     op_then (op_for (log_delete E) xs) (\<lambda>_.
     op_then (delete_present E xs) (\<lambda>n.
     op_then (if n > 0 then track_operation E else op_return ()) (\<lambda>_.
     op_return n)))"

section \<open>Updates\<close>

definition update_metadata :: "'b env \<Rightarrow> uuid \<Rightarrow> metadata \<Rightarrow> ('b, bool) collection_op" where
  "update_metadata E x m =
     op_then (op_read (get E x)) (\<lambda>r.
     case r of
       None \<Rightarrow> op_return False
     | Some d \<Rightarrow>
         op_then (wal_log E (WalUpdate (d\<lparr>doc_id := x, doc_metadata := m\<rparr>) 0)) (\<lambda>_.
         op_then (op_read (enforce_single (length (enc_doc E (d\<lparr>doc_metadata := m\<rparr>))))) (\<lambda>_.
         op_then (store_bytes E (enc_doc E (d\<lparr>doc_metadata := m\<rparr>))) (\<lambda>p.
         op_then (point_to x p) (\<lambda>_.
         op_then (on_cache (put_metadata x m)) (\<lambda>_.
         op_then (refresh_count E) (\<lambda>_.
         op_then (track_operation E) (\<lambda>_.
         op_return True))))))))"

text \<open>The dimension is checked when one is known, else this vector fixes it.\<close>

definition settle_dimensions :: "f32 list \<Rightarrow> ('b, unit) collection_op" where
  "settle_dimensions v = (\<lambda>c.
     case cm_dimensions (c_meta c) of
       Some n \<Rightarrow> (validate_dimensions v n, c)
     | None \<Rightarrow> fix_dimensions (length v) c)"

definition update_vector :: "'b env \<Rightarrow> uuid \<Rightarrow> f32 list \<Rightarrow> ('b, bool) collection_op" where
  "update_vector E x v =
     op_then (op_read (get E x)) (\<lambda>r.
     case r of
       None \<Rightarrow> op_return False
     | Some d \<Rightarrow>
         op_then (wal_log E (WalUpdate (d\<lparr>doc_id := x, doc_vector := v\<rparr>) 0)) (\<lambda>_.
         op_then (settle_dimensions v) (\<lambda>_.
         op_then (op_read (enforce_single (length (enc_doc E (d\<lparr>doc_vector := v\<rparr>))))) (\<lambda>_.
         op_then (store_bytes E (enc_doc E (d\<lparr>doc_vector := v\<rparr>))) (\<lambda>p.
         op_then (point_to x p) (\<lambda>_.
         op_then (on_cache (put_vector x v)) (\<lambda>_.
         op_then (on_cache (put_metadata x (doc_metadata d))) (\<lambda>_.
         op_then (unindex_vector E x) (\<lambda>_.
         op_then (index_vector E x v) (\<lambda>_.
         op_then (refresh_count E) (\<lambda>_.
         op_then (track_operation E) (\<lambda>_.
         op_return True))))))))))))"

section \<open>The operations as one family\<close>

datatype command =
    Insert document
  | InsertBatch "document list"
  | Upsert document
  | Delete uuid
  | DeleteBatch "uuid list"
  | UpdateMetadata uuid metadata
  | UpdateVector uuid "f32 list"
  | Checkpoint
  | Flush

definition ignore_result :: "('b, 'a) collection_op \<Rightarrow> ('b, unit) collection_op" where
  "ignore_result m = op_then m (\<lambda>_. op_return ())"

fun run :: "'b env \<Rightarrow> command \<Rightarrow> ('b, unit) collection_op" where
  "run E (Insert d) = ignore_result (insert_document E d)"
| "run E (InsertBatch ds) = ignore_result (insert_batch E ds)"
| "run E (Upsert d) = ignore_result (upsert E d)"
| "run E (Delete x) = ignore_result (delete_document E x)"
| "run E (DeleteBatch xs) = ignore_result (delete_batch E xs)"
| "run E (UpdateMetadata x m) = ignore_result (update_metadata E x m)"
| "run E (UpdateVector x v) = ignore_result (update_vector E x v)"
| "run E Checkpoint = checkpoint E"
| "run E Flush = flush"

end
