(* ===== verification/Collection_Spec.thy ===== *)
theory Collection_Spec
  imports Collection_Ops
begin

text \<open>
  What a collection promises. Abstractly it is a finite map from ids to documents. The
  concrete state represents that map three times: through the document index and the data
  file (\<open>docs\<close>), through the cache and the vector index (\<open>indexed\<close>), and through what is
  on disk, the saved index and the log (\<open>logged\<close>). Each operation that returns keeps the
  three in agreement.
\<close>

type_synonym doc_map = "uuid \<Rightarrow> document option"

section \<open>The documents of a store\<close>

definition docs_in :: "'b env \<Rightarrow> 'b record_store \<Rightarrow> doc_index \<Rightarrow> doc_map" where
  "docs_in E s i x =
     (case hm_get i x of
        None \<Rightarrow> None
      | Some p \<Rightarrow> (case read_document E p s of Inl _ \<Rightarrow> None | Inr d \<Rightarrow> Some d))"

definition pointers_ok :: "'b env \<Rightarrow> 'b record_store \<Rightarrow> doc_index \<Rightarrow> bool" where
  "pointers_ok E s i \<longleftrightarrow> hm_ok i \<and>
     (\<forall>x p. hm_get i x = Some p \<longrightarrow>
        in_store s p \<and> (\<exists>d. read_document E p s = Inr d \<and> doc_id d = x))"

definition docs :: "'b env \<Rightarrow> 'b collection \<Rightarrow> doc_map" where
  "docs E c = docs_in E (c_store c) (c_index c)"

definition stored :: "'b env \<Rightarrow> 'b collection \<Rightarrow> bool" where
  "stored E c \<longleftrightarrow> store_ok (c_store c) \<and> pointers_ok E (c_store c) (c_index c)"

lemma pointers_okD:
  "pointers_ok E s i \<Longrightarrow> hm_get i x = Some p \<Longrightarrow> \<exists>d. read_document E p s = Inr d \<and> doc_id d = x"
  by (auto simp: pointers_ok_def)

lemma docs_in_id: "pointers_ok E s i \<Longrightarrow> docs_in E s i x = Some d \<Longrightarrow> doc_id d = x"
  by (auto simp: docs_in_def dest: pointers_okD split: option.splits sum.splits)

lemma docs_in_None: "pointers_ok E s i \<Longrightarrow> docs_in E s i x = None \<longleftrightarrow> hm_get i x = None"
  by (auto simp: docs_in_def dest: pointers_okD split: option.splits sum.splits)

lemma dom_docs_in: "pointers_ok E s i \<Longrightarrow> dom (docs_in E s i) = set (hm_keys i)"
  by (auto simp: docs_in_None dom_def hm_keys_get)

lemma get_docs: "stored E c \<Longrightarrow> get E x c = Inr (docs E c x)"
  by (auto simp: get_def docs_def docs_in_def stored_def dest!: pointers_okD split: option.splits)

lemma docs_id: "stored E c \<Longrightarrow> docs E c x = Some d \<Longrightarrow> doc_id d = x"
  by (auto simp: stored_def docs_def dest: docs_in_id)

lemma contains_docs: "stored E c \<Longrightarrow> hm_contains (c_index c) x \<longleftrightarrow> x \<in> dom (docs E c)"
  by (simp add: stored_def docs_def dom_docs_in hm_contains_def)

lemma docs_in_remove: "docs_in E s (hm_remove x i) = (docs_in E s i)(x := None)"
  by (rule ext) (simp add: docs_in_def)

lemma pointers_ok_remove: "pointers_ok E s i \<Longrightarrow> pointers_ok E s (hm_remove x i)"
  by (auto simp: pointers_ok_def split: if_splits)

lemma docs_in_insert:
  "read_document E p s = Inr d \<Longrightarrow> docs_in E s (hm_insert x p i) = (docs_in E s i)(x \<mapsto> d)"
  by (rule ext) (simp add: docs_in_def)

lemma pointers_ok_insert:
  "pointers_ok E s i \<Longrightarrow> in_store s p \<Longrightarrow> read_document E p s = Inr d \<Longrightarrow>
   pointers_ok E s (hm_insert (doc_id d) p i)"
  by (auto simp: pointers_ok_def split: if_splits)

text \<open>A store that keeps the records of another.\<close>

definition extends :: "'b env \<Rightarrow> 'b record_store \<Rightarrow> 'b record_store \<Rightarrow> bool" where
  "extends E s t \<longleftrightarrow> store_ok t \<and>
     (\<forall>q. in_store s q \<longrightarrow> in_store t q \<and> read_document E q t = read_document E q s)"

lemma extends_refl: "store_ok s \<Longrightarrow> extends E s s"
  by (simp add: extends_def)

lemma extends_trans: "extends E s t \<Longrightarrow> extends E t u \<Longrightarrow> extends E s u"
  by (auto simp: extends_def)

lemma extends_pointers:
  assumes "extends E s t" and "pointers_ok E s i"
  shows "pointers_ok E t i" and "docs_in E t i = docs_in E s i"
proof -
  show "pointers_ok E t i" using assms by (auto simp: extends_def pointers_ok_def)
  show "docs_in E t i = docs_in E s i"
    using assms by (intro ext) (auto simp: extends_def pointers_ok_def docs_in_def split: option.splits)
qed

section \<open>The abstract map\<close>

definition put_doc :: "document \<Rightarrow> doc_map \<Rightarrow> doc_map" where
  "put_doc d D = D(doc_id d \<mapsto> d)"

definition drop_doc :: "uuid \<Rightarrow> doc_map \<Rightarrow> doc_map" where
  "drop_doc x D = D(x := None)"

fun apply_entry :: "wal_entry \<Rightarrow> doc_map \<Rightarrow> doc_map" where
  "apply_entry (WalInsert d _) D = put_doc d D"
| "apply_entry (WalUpdate d _) D = put_doc d D"
| "apply_entry (WalDelete x _) D = drop_doc x D"
| "apply_entry (WalCheckpoint _ _) D = D"

lemma apply_entry_set_seq [simp]: "apply_entry (set_seq n e) = apply_entry e"
  by (cases e) auto

text \<open>What each command means.\<close>

fun meaning :: "command \<Rightarrow> doc_map \<Rightarrow> doc_map" where
  "meaning (Insert d) D = put_doc d D"
| "meaning (InsertBatch ds) D = fold put_doc ds D"
| "meaning (Upsert d) D = put_doc d D"
| "meaning (Delete x) D = drop_doc x D"
| "meaning (DeleteBatch xs) D = fold drop_doc xs D"
| "meaning (UpdateMetadata x m) D =
     (case D x of None \<Rightarrow> D | Some d \<Rightarrow> put_doc (d\<lparr>doc_metadata := m\<rparr>) D)"
| "meaning (UpdateVector x v) D =
     (case D x of None \<Rightarrow> D | Some d \<Rightarrow> put_doc (d\<lparr>doc_vector := v\<rparr>) D)"
| "meaning Checkpoint D = D"
| "meaning Flush D = D"

text \<open>The documents a command appends to the data file, and the entries it logs.\<close>

fun written :: "command \<Rightarrow> doc_map \<Rightarrow> document list" where
  "written (Insert d) D = [d]"
| "written (InsertBatch ds) D = ds"
| "written (Upsert d) D = [d]"
| "written (UpdateMetadata x m) D = (case D x of None \<Rightarrow> [] | Some d \<Rightarrow> [d\<lparr>doc_metadata := m\<rparr>])"
| "written (UpdateVector x v) D = (case D x of None \<Rightarrow> [] | Some d \<Rightarrow> [d\<lparr>doc_vector := v\<rparr>])"
| "written _ D = []"

definition collection_bytes :: "'b env \<Rightarrow> document list \<Rightarrow> nat" where
  "collection_bytes E ds = sum_list (map (\<lambda>d. length (enc_doc E d)) ds)"

definition short_records :: "'b env \<Rightarrow> document list \<Rightarrow> bool" where
  "short_records E ds \<longleftrightarrow> (\<forall>d \<in> set ds. length (enc_doc E d) < 2 ^ 32)"

text \<open>There is room for them: record lengths are 32 bits wide, offsets 64.\<close>

definition fits :: "'b env \<Rightarrow> 'b collection \<Rightarrow> document list \<Rightarrow> bool" where
  "fits E c ds \<longleftrightarrow>
     append_cursor (c_store c) + collection_bytes E ds \<le> max_u64 \<and> short_records E ds"

text \<open>A document whose log entries survive JSON: its vector and metadata have no NaN or infinity.\<close>

definition loggable :: "'b env \<Rightarrow> document \<Rightarrow> bool" where
  "loggable E d \<longleftrightarrow>
     (\<forall>n. entry_round_trips E (WalInsert d n) \<and> entry_round_trips E (WalUpdate d n))"

section \<open>The cache and the vector index\<close>

definition cache_agrees :: "doc_map \<Rightarrow> cache_manager \<Rightarrow> bool" where
  "cache_agrees D k \<longleftrightarrow> cache_ok k \<and> (\<not> cache_enabled (cm_config k) \<longrightarrow> cm_metadata k = []) \<and>
     (\<forall>x d. D x = Some d \<longrightarrow> hm_get (cm_vectors k) x = Some (doc_vector d)) \<and>
     (\<forall>x m. hm_get (cm_metadata k) x = Some m \<longrightarrow> (\<exists>d. D x = Some d \<and> doc_metadata d = m))"

text \<open>
  The index holds exactly the documents. Only HNSW keeps the vectors of deleted ids, which its
  tombstones still need. All cached vectors have the collection's dimension.
\<close>

definition index_agrees :: "'b env \<Rightarrow> doc_map \<Rightarrow> vectors \<Rightarrow> any_index \<Rightarrow> bool" where
  "index_agrees E D vs i \<longleftrightarrow> index_inv E i \<and> index_ids i = dom D \<and> dom D \<subseteq> set (hm_keys vs) \<and>
     (index_type_of i \<noteq> Hnsw \<longrightarrow> set (hm_keys vs) = dom D)"

definition dims_agree :: "vectors \<Rightarrow> collection_metadata \<Rightarrow> bool" where
  "dims_agree vs m \<longleftrightarrow> (\<forall>x v. hm_get vs x = Some v \<longrightarrow> cm_dimensions m = Some (length v))"

definition indexed_as :: "'b env \<Rightarrow> doc_map \<Rightarrow> 'b collection \<Rightarrow> bool" where
  "indexed_as E D c \<longleftrightarrow> cache_agrees D (c_cache c) \<and>
     index_agrees E D (cm_vectors (c_cache c)) (c_vindex c) \<and>
     dims_agree (cm_vectors (c_cache c)) (c_meta c)"

definition indexed :: "'b env \<Rightarrow> 'b collection \<Rightarrow> bool" where
  "indexed E c \<longleftrightarrow> indexed_as E (docs E c) c"

section \<open>The disk\<close>

fun entry_documents :: "wal_entry \<Rightarrow> document list" where
  "entry_documents (WalInsert d _) = [d]"
| "entry_documents (WalUpdate d _) = [d]"
| "entry_documents (WalDelete _ _) = []"
| "entry_documents (WalCheckpoint _ _) = []"

definition log_documents :: "wal_entry list \<Rightarrow> document list" where
  "log_documents es = concat (map entry_documents es)"

text \<open>
  What a reopening finds is the map \<open>D\<close>: the saved index points into the data file, and the
  entries logged since, applied to its documents, give \<open>D\<close>. Replaying them takes no more room
  than the file has and the \<open>k\<close> bytes of logged documents that are not appended yet.
\<close>

definition logged :: "'b env \<Rightarrow> 'b collection \<Rightarrow> nat \<Rightarrow> doc_map \<Rightarrow> bool" where
  "logged E c k D \<longleftrightarrow>
     (\<exists>i m es. load_index E (c_saved c) = Inr i \<and> pointers_ok E (c_store c) i \<and>
        load_wal_meta E (c_saved c) = Inr m \<and> m < next_seq (wal (c_checkpoint c)) \<and>
        replay_lines E m (wal_lines (wal (c_checkpoint c))) = Inr es \<and>
        fold apply_entry es (docs_in E (c_store c) i) = D \<and> short_records E (log_documents es) \<and>
        next_append_offset i + collection_bytes E (log_documents es) \<le> append_cursor (c_store c) + k)"

definition durable :: "'b env \<Rightarrow> 'b collection \<Rightarrow> bool" where
  "durable E c \<longleftrightarrow>
     wal_on (wal (c_checkpoint c)) \<and> wal_enabled (cc_wal (c_config c)) \<and> logged E c 0 (docs E c)"

section \<open>One step\<close>

text \<open>
  A step from \<open>c\<close> to \<open>c'\<close> that appends the documents \<open>ds\<close> and makes the map \<open>D\<close>.
\<close>

definition advances :: "'b env \<Rightarrow> 'b collection \<Rightarrow> document list \<Rightarrow> doc_map \<Rightarrow> 'b collection \<Rightarrow> bool" where
  "advances E c ds D c' \<longleftrightarrow> stored E c' \<and> docs E c' = D \<and> c_config c' = c_config c \<and>
     append_cursor (c_store c') = append_cursor (c_store c) + collection_bytes E ds \<and>
     index_type_of (c_vindex c') = index_type_of (c_vindex c) \<and>
     (indexed E c \<longrightarrow> indexed E c') \<and>
     (durable E c \<and> (\<forall>d \<in> set ds. loggable E d) \<longrightarrow> durable E c')"

lemma collection_bytes_simps [simp]:
  "collection_bytes E [] = 0"
  "collection_bytes E (d # ds) = length (enc_doc E d) + collection_bytes E ds"
  "collection_bytes E (ds @ es) = collection_bytes E ds + collection_bytes E es"
  by (simp_all add: collection_bytes_def)

lemma short_records_simps [simp]:
  "short_records E []" "short_records E (d # ds) \<longleftrightarrow> length (enc_doc E d) < 2 ^ 32 \<and> short_records E ds"
  "short_records E (ds @ es) \<longleftrightarrow> short_records E ds \<and> short_records E es"
  by (auto simp: short_records_def)

lemma log_documents_simps [simp]:
  "log_documents [] = []" "log_documents (e # es) = entry_documents e @ log_documents es"
  "log_documents (es @ fs) = log_documents es @ log_documents fs"
  by (simp_all add: log_documents_def)

lemma entry_documents_set_seq [simp]: "entry_documents (set_seq n e) = entry_documents e"
  by (cases e) simp_all

lemma next_append_offset_le:
  "(\<And>x p. (x, p) \<in> set i \<Longrightarrow> ptr_offset p + ptr_length p \<le> n) \<Longrightarrow> next_append_offset i \<le> n"
  by (auto simp: next_append_offset_def)

lemma hm_ok_get: "hm_ok i \<Longrightarrow> (x, p) \<in> set i \<Longrightarrow> hm_get i x = Some p"
  by (simp add: hm_ok_def hm_keys_def hm_get_def)

lemma next_append_offset_stored: "pointers_ok E s i \<Longrightarrow> next_append_offset i \<le> append_cursor s"
  by (rule next_append_offset_le) (auto simp: pointers_ok_def in_store_def dest: hm_ok_get)

end
