(* ===== verification/Collection_Refinement.thy ===== *)
theory Collection_Refinement
  imports Collection_Spec
begin

text \<open>
  Every command that returns implements its meaning on the document map and keeps the store, the
  search structures and the disk in agreement with it.
\<close>

section \<open>What the pieces change\<close>

lemma read_clock_apply [simp, res_simps]:
  "read_clock E c = (Inr (now_secs E (c_ticks c)), c\<lparr>c_ticks := c_ticks c + 1\<rparr>)"
  by (simp add: read_clock_def)

lemma set_wal_simps [simp]:
  "c_store (set_wal f c) = c_store c"
  "c_index (set_wal f c) = c_index c"
  "c_cache (set_wal f c) = c_cache c"
  "c_vindex (set_wal f c) = c_vindex c"
  "c_meta (set_wal f c) = c_meta c"
  "c_config (set_wal f c) = c_config c"
  "c_ticks (set_wal f c) = c_ticks c"
  "c_draws (set_wal f c) = c_draws c"
  "c_saved (set_wal f c) = c_saved c"
  "wal (c_checkpoint (set_wal f c)) = f (wal (c_checkpoint c))"
  by (simp_all add: set_wal_def)

lemma save_index_simps [simp]:
  "c_store (save_index E c) = c_store c"
  "c_index (save_index E c) = c_index c"
  "c_cache (save_index E c) = c_cache c"
  "c_vindex (save_index E c) = c_vindex c"
  "c_meta (save_index E c) = c_meta c"
  "c_config (save_index E c) = c_config c"
  "c_ticks (save_index E c) = c_ticks c"
  "c_draws (save_index E c) = c_draws c"
  "c_checkpoint (save_index E c) = c_checkpoint c"
  "c_saved (save_index E c) = (c_saved c)\<lparr>saved_index := Some (enc_index E (c_index c))\<rparr>"
  by (simp_all add: save_index_def)

lemma save_vector_index_simps [simp]:
  "c_store (save_vector_index E c) = c_store c"
  "c_index (save_vector_index E c) = c_index c"
  "c_cache (save_vector_index E c) = c_cache c"
  "c_vindex (save_vector_index E c) = c_vindex c"
  "c_meta (save_vector_index E c) = c_meta c"
  "c_config (save_vector_index E c) = c_config c"
  "c_ticks (save_vector_index E c) = c_ticks c"
  "c_draws (save_vector_index E c) = c_draws c"
  "c_checkpoint (save_vector_index E c) = c_checkpoint c"
  "c_saved (save_vector_index E c)
      = (c_saved c)\<lparr>saved_vector_index := Some (enc_vector_index E (c_vindex c))\<rparr>"
  by (simp_all add: save_vector_index_def)

lemma save_metadata_simps [simp]:
  "c_store (save_metadata E c) = c_store c"
  "c_index (save_metadata E c) = c_index c"
  "c_cache (save_metadata E c) = c_cache c"
  "c_vindex (save_metadata E c) = c_vindex c"
  "c_meta (save_metadata E c) = c_meta c"
  "c_config (save_metadata E c) = c_config c"
  "c_ticks (save_metadata E c) = c_ticks c"
  "c_draws (save_metadata E c) = c_draws c"
  "c_checkpoint (save_metadata E c) = c_checkpoint c"
  "c_saved (save_metadata E c) = (c_saved c)\<lparr>saved_metadata := Some (enc_metadata E (c_meta c))\<rparr>"
  by (simp_all add: save_metadata_def)

lemma save_wal_meta_simps [simp]:
  "c_store (save_wal_meta E n c) = c_store c"
  "c_index (save_wal_meta E n c) = c_index c"
  "c_cache (save_wal_meta E n c) = c_cache c"
  "c_vindex (save_wal_meta E n c) = c_vindex c"
  "c_meta (save_wal_meta E n c) = c_meta c"
  "c_config (save_wal_meta E n c) = c_config c"
  "c_ticks (save_wal_meta E n c) = c_ticks c"
  "c_draws (save_wal_meta E n c) = c_draws c"
  "c_checkpoint (save_wal_meta E n c) = c_checkpoint c"
  "c_saved (save_wal_meta E n c) = (c_saved c)\<lparr>saved_wal_meta := Some (json_wal_meta E n)\<rparr>"
  by (simp_all add: save_wal_meta_def)

lemma record_checkpoint_simps [simp]:
  "c_store (record_checkpoint ts c) = c_store c"
  "c_index (record_checkpoint ts c) = c_index c"
  "c_cache (record_checkpoint ts c) = c_cache c"
  "c_vindex (record_checkpoint ts c) = c_vindex c"
  "c_meta (record_checkpoint ts c) = c_meta c"
  "c_config (record_checkpoint ts c) = c_config c"
  "c_ticks (record_checkpoint ts c) = c_ticks c"
  "c_draws (record_checkpoint ts c) = c_draws c"
  "c_saved (record_checkpoint ts c) = c_saved c"
  "wal (c_checkpoint (record_checkpoint ts c)) = wal (c_checkpoint c)"
  by (simp_all add: record_checkpoint_def)

lemma reset_counter_simps [simp]:
  "c_store (reset_counter c) = c_store c"
  "c_index (reset_counter c) = c_index c"
  "c_cache (reset_counter c) = c_cache c"
  "c_vindex (reset_counter c) = c_vindex c"
  "c_meta (reset_counter c) = c_meta c"
  "c_config (reset_counter c) = c_config c"
  "c_ticks (reset_counter c) = c_ticks c"
  "c_draws (reset_counter c) = c_draws c"
  "c_saved (reset_counter c) = c_saved c"
  "wal (c_checkpoint (reset_counter c)) = wal (c_checkpoint c)"
  by (simp_all add: reset_counter_def)

lemma checkpoint_wal_simps [simp]:
  "c_store (checkpoint_wal E ts c) = c_store c"
  "c_index (checkpoint_wal E ts c) = c_index c"
  "c_cache (checkpoint_wal E ts c) = c_cache c"
  "c_vindex (checkpoint_wal E ts c) = c_vindex c"
  "c_meta (checkpoint_wal E ts c) = c_meta c"
  "c_config (checkpoint_wal E ts c) = c_config c"
  "c_ticks (checkpoint_wal E ts c) = c_ticks c"
  "c_draws (checkpoint_wal E ts c) = c_draws c"
  "c_saved (checkpoint_wal E ts c) = (c_saved c)\<lparr>saved_wal_meta :=
      Some (json_wal_meta E (next_seq (wal (c_checkpoint c))))\<rparr>"
  "wal (c_checkpoint (checkpoint_wal E ts c)) = rotate E (wal_checkpoint E ts (wal (c_checkpoint c)))"
  by (simp_all add: checkpoint_wal_def Let_def wal_checkpoint_def)

lemma stored_eq:
  "c_store c' = c_store c \<Longrightarrow> c_index c' = c_index c \<Longrightarrow>
   docs E c' = docs E c \<and> stored E c' = stored E c"
  by (simp add: docs_def stored_def)

lemma logged_eq:
  "c_store c' = c_store c \<Longrightarrow> c_saved c' = c_saved c \<Longrightarrow>
   wal (c_checkpoint c') = wal (c_checkpoint c) \<Longrightarrow> logged E c' = logged E c"
  by (intro ext) (simp add: logged_def)

lemma indexed_eq:
  "docs E c' = docs E c \<Longrightarrow> c_cache c' = c_cache c \<Longrightarrow> c_vindex c' = c_vindex c \<Longrightarrow>
   cm_dimensions (c_meta c') = cm_dimensions (c_meta c) \<Longrightarrow> indexed E c' = indexed E c"
  by (simp add: indexed_def indexed_as_def dims_agree_def)

lemma logged_extends:
  assumes "logged E c k D" and "extends E (c_store c) (c_store c')"
    and "c_saved c' = c_saved c" and "wal (c_checkpoint c') = wal (c_checkpoint c)"
    and "append_cursor (c_store c) + k \<le> append_cursor (c_store c') + k'"
  shows "logged E c' k' D"
proof -
  obtain i m es where "load_index E (c_saved c) = Inr i" "pointers_ok E (c_store c) i"
    "load_wal_meta E (c_saved c) = Inr m" "m < next_seq (wal (c_checkpoint c))"
    "replay_lines E m (wal_lines (wal (c_checkpoint c))) = Inr es"
    "fold apply_entry es (docs_in E (c_store c) i) = D" "short_records E (log_documents es)"
    "next_append_offset i + collection_bytes E (log_documents es) \<le> append_cursor (c_store c) + k"
    using assms(1) by (auto simp: logged_def)
  then show ?thesis
    using assms(3-5) extends_pointers [OF assms(2)] by (auto simp: logged_def)
qed

text \<open>What no operation touches, and what the log and the checkpoint leave alone.\<close>

definition same_data :: "'b collection \<Rightarrow> 'b collection \<Rightarrow> bool" where
  "same_data c c' \<longleftrightarrow> c_store c' = c_store c \<and> c_index c' = c_index c \<and> c_cache c' = c_cache c \<and>
     c_vindex c' = c_vindex c \<and> c_meta c' = c_meta c \<and> c_config c' = c_config c \<and>
     wal_on (wal (c_checkpoint c')) = wal_on (wal (c_checkpoint c))"

lemma same_data_refl [simp]: "same_data c c"
  by (simp add: same_data_def)

lemma same_data_trans: "same_data c d \<Longrightarrow> same_data d e \<Longrightarrow> same_data c e"
  by (simp add: same_data_def)

lemma same_data_docs: "same_data c c' \<Longrightarrow> docs E c' = docs E c \<and> stored E c' = stored E c"
  by (rule stored_eq) (simp_all add: same_data_def)

lemma same_data_indexed: "same_data c c' \<Longrightarrow> indexed E c' = indexed E c"
  using same_data_docs [of c c' E] indexed_eq [of E c' c] by (simp add: same_data_def)

section \<open>Logging\<close>

lemma wal_log_same: "wal_log E e c = (r, c') \<Longrightarrow> same_data c c' \<and> c_saved c' = c_saved c \<and> r = Inr ()"
  by (auto simp: wal_log_def set_wal_def same_data_def)

lemma wal_log_logged:
  assumes "codecs_ok E" and "wal_on (wal (c_checkpoint c))" and "logged E c k D"
    and "entry_round_trips E (set_seq (next_seq (wal (c_checkpoint c))) e)"
    and "wal_log E e c = (r, c')" and "short_records E (entry_documents e)"
  shows "logged E c' (k + collection_bytes E (entry_documents e)) (apply_entry e D)"
proof -
  let ?w = "wal (c_checkpoint c)"
  obtain i m es where l: "load_index E (c_saved c) = Inr i" "pointers_ok E (c_store c) i"
    "load_wal_meta E (c_saved c) = Inr m" "m < next_seq ?w"
    "replay_lines E m (wal_lines ?w) = Inr es" "fold apply_entry es (docs_in E (c_store c) i) = D"
    "short_records E (log_documents es)"
    "next_append_offset i + collection_bytes E (log_documents es) \<le> append_cursor (c_store c) + k"
    using assms(3) by (auto simp: logged_def)
  have w: "wal (c_checkpoint c') = log_entry E e ?w"
    and c': "c_store c' = c_store c" "c_saved c' = c_saved c"
    using assms(5) by (auto simp: wal_log_def set_wal_def)
  have "replay E m (log_entry E e ?w) = Inr (es @ [set_seq (next_seq ?w) e])"
    using replay_log_entry [OF assms(1,4,2), of m es] l(4,5) assms(2) by (simp add: replay_def)
  then have "replay_lines E m (wal_lines (wal (c_checkpoint c'))) = Inr (es @ [set_seq (next_seq ?w) e])"
    using assms(2) by (simp add: w replay_def)
  then show ?thesis
    using l assms(6) by (auto simp: logged_def c' w)
qed

section \<open>Checkpoints\<close>

lemma checkpoint_same: "checkpoint E c = (r, c') \<Longrightarrow> same_data c c' \<and> r = Inr ()"
  by (auto simp: checkpoint_def op_then_apply same_data_def wal_checkpoint_def split: if_splits)

text \<open>A checkpoint puts the documents on disk whatever was there before.\<close>

lemma checkpoint_logged:
  assumes "codecs_ok E" and "stored E c" and "wal_enabled (cc_wal (c_config c))"
    and "wal_on (wal (c_checkpoint c))" and "0 < next_seq (wal (c_checkpoint c))"
    and "checkpoint E c = (r, c')"
  shows "logged E c' 0 (docs E c)"
proof -
  have li: "load_index E (c_saved c') = Inr (c_index c)"
    and lw: "load_wal_meta E (c_saved c') = Inr (next_seq (wal (c_checkpoint c)))"
    and st: "c_store c' = c_store c" and n: "next_seq (wal (c_checkpoint c')) = next_seq (wal (c_checkpoint c)) + 1"
    and on: "wal_on (wal (c_checkpoint c'))"
    and w: "\<exists>w. wal (c_checkpoint c') = rotate E w"
    using assms(1,3,4,6)
    by (auto simp: checkpoint_def op_then_apply wal_checkpoint_def load_index_def load_wal_meta_def
        codecs_ok_def)
  have "replay_lines E m (wal_lines (wal (c_checkpoint c'))) = Inr []" for m
  proof -
    obtain w where w: "wal (c_checkpoint c') = rotate E w" using w by blast
    show ?thesis using replay_rotate [OF assms(1), of m w] on by (simp add: replay_def w)
  qed
  then show ?thesis
    using li lw assms(2) next_append_offset_stored [of E "c_store c" "c_index c"]
    by (auto simp: logged_def st n stored_def docs_def)
qed

lemma track_operation_cases:
  assumes "track_operation E c = (r, c')"
  shows "r = Inr () \<and> same_data c c' \<and>
    ((c_saved c' = c_saved c \<and> wal (c_checkpoint c') = wal (c_checkpoint c)) \<or>
     (\<exists>c1 c2. same_data c c1 \<and> wal (c_checkpoint c1) = wal (c_checkpoint c) \<and>
        checkpoint E c1 = (Inr (), c2) \<and> c' = reset_counter c2))"
proof -
  obtain due c0 where d: "interval_due E c = (Inr due, c0)" and s0: "same_data c c0"
    "c_saved c0 = c_saved c" "wal (c_checkpoint c0) = wal (c_checkpoint c)"
    by (cases "interval_due E c")
      (auto simp: interval_due_def op_then_apply same_data_def split: option.splits)
  obtain s c1 where s: "should_checkpoint c0 = (Inr s, c1)" and s1: "same_data c0 c1"
    "c_saved c1 = c_saved c0" "wal (c_checkpoint c1) = wal (c_checkpoint c0)"
    by (cases "should_checkpoint c0") (auto simp: should_checkpoint_def same_data_def split: if_splits)
  obtain c2 where c2: "checkpoint E c1 = (Inr (), c2)" "same_data c1 c2"
    using checkpoint_same [of E c1] by (cases "checkpoint E c1") auto
  have r: "same_data c2 (reset_counter c2)" by (simp add: same_data_def reset_counter_def)
  show ?thesis
  proof (cases "s \<or> due")
    case True
    then have "r = Inr ()" "c' = reset_counter c2"
      using assms by (auto simp: track_operation_def op_then_apply d s c2(1))
    then show ?thesis
      using same_data_trans [OF s0(1) s1(1)] same_data_trans [OF c2(2) r] s0 s1 c2(1)
        same_data_trans by metis
  next
    case False
    then have "r = Inr ()" "c' = c1"
      using assms by (auto simp: track_operation_def op_then_apply d s)
    then show ?thesis using same_data_trans [OF s0(1) s1(1)] s0 s1 by simp
  qed
qed

lemma track_operation_same: "track_operation E c = (r, c') \<Longrightarrow> same_data c c' \<and> r = Inr ()"
  using track_operation_cases by blast

lemma track_operation_durable:
  assumes "codecs_ok E" and "stored E c" and "durable E c" and "track_operation E c = (r, c')"
  shows "durable E c'"
proof -
  have s: "same_data c c'" using track_operation_same [OF assms(4)] by simp
  have on: "wal_on (wal (c_checkpoint c))" "wal_enabled (cc_wal (c_config c))"
    and lg: "logged E c 0 (docs E c)" using assms(3) by (simp_all add: durable_def)
  have pos: "0 < next_seq (wal (c_checkpoint c))" using lg by (auto simp: logged_def)
  have "logged E c' 0 (docs E c)"
    using conjunct2 [OF conjunct2 [OF track_operation_cases [OF assms(4)]]]
  proof
    assume "c_saved c' = c_saved c \<and> wal (c_checkpoint c') = wal (c_checkpoint c)"
    then show ?thesis
      using lg s logged_eq [of c' c E] by (simp add: same_data_def)
  next
    assume "\<exists>c1 c2. same_data c c1 \<and> wal (c_checkpoint c1) = wal (c_checkpoint c) \<and>
        checkpoint E c1 = (Inr (), c2) \<and> c' = reset_counter c2"
    then obtain c1 c2 where c1: "same_data c c1" "wal (c_checkpoint c1) = wal (c_checkpoint c)"
      and c2: "checkpoint E c1 = (Inr (), c2)" and c': "c' = reset_counter c2" by blast
    have "logged E c2 0 (docs E c1)"
      using checkpoint_logged [OF assms(1) _ _ _ _ c2] same_data_docs [OF c1(1), of E] assms(2) on pos c1
      by (simp add: same_data_def)
    moreover have "logged E c' = logged E c2" by (rule logged_eq) (simp_all add: c' reset_counter_def)
    ultimately show ?thesis using same_data_docs [OF c1(1), of E] by simp
  qed
  then show ?thesis
    using s on same_data_docs [OF s, of E] by (simp add: durable_def same_data_def)
qed

section \<open>Storing a document\<close>

lemma append_extends:
  assumes "codecs_ok E" and "store_ok s" and "record_fits s (enc_doc E d)"
    and "append E (enc_doc E d) s = (r, t)"
  shows "\<exists>p. r = Inr p \<and> extends E s t \<and> in_store t p \<and> read_document E p t = Inr d \<and>
    append_cursor t = append_cursor s + length (enc_doc E d)"
proof -
  obtain p where r: "r = Inr p"
    using append_eq [OF assms(2,3), of E] assms(4) by auto
  have a: "append E (enc_doc E d) s = (Inr p, t)" using assms(4) r by simp
  note st = append_store [OF assms(2,3) a]
  have "read_document E p t = Inr d"
    using st(5) assms(1) by (simp add: read_document_def codecs_ok_def)
  moreover have "extends E s t"
    unfolding extends_def using st(1,3,6) read_document_bytes by metis
  ultimately show ?thesis using r st(2,4) by simp
qed

text \<open>Appending the encoded document and pointing the index at it.\<close>

lemma store_bytes_effect:
  assumes "codecs_ok E" and "stored E c" and "fits E c [d]"
    and "op_then (store_bytes E (enc_doc E d)) (\<lambda>p. point_to (doc_id d) p) c = (r, c')"
  shows "\<exists>s p. r = Inr () \<and> c' = c\<lparr>c_store := s, c_index := hm_insert (doc_id d) p (c_index c)\<rparr> \<and>
    extends E (c_store c) s \<and> stored E c' \<and> docs E c' = put_doc d (docs E c) \<and>
    append_cursor s = append_cursor (c_store c) + length (enc_doc E d)"
proof -
  have ok: "store_ok (c_store c)" "pointers_ok E (c_store c) (c_index c)"
    using assms(2) by (simp_all add: stored_def)
  have f: "record_fits (c_store c) (enc_doc E d)"
    using assms(3) by (simp add: fits_def record_fits_def collection_bytes_def)
  obtain r0 s where a: "append E (enc_doc E d) (c_store c) = (r0, s)" by fastforce
  obtain p where p: "r0 = Inr p" "extends E (c_store c) s" "in_store s p" "read_document E p s = Inr d"
    "append_cursor s = append_cursor (c_store c) + length (enc_doc E d)"
    using append_extends [OF assms(1) ok(1) f a] by blast
  have c': "r = Inr ()" "c' = c\<lparr>c_store := s, c_index := hm_insert (doc_id d) p (c_index c)\<rparr>"
    using assms(4) a p(1) by (auto simp: op_then_apply store_bytes_def point_to_def)
  note e = extends_pointers [OF p(2) ok(2)]
  have "stored E c'"
    using pointers_ok_insert [OF e(1) p(3,4)] p(2) by (simp add: stored_def c' extends_def)
  moreover have "docs E c' = put_doc d (docs E c)"
    using docs_in_insert [OF p(4)] e(2) by (simp add: docs_def c' put_doc_def)
  ultimately show ?thesis using c' p by blast
qed

lemma fits_ConsD: "fits E c (d # ds) \<Longrightarrow> fits E c [d]"
  by (simp add: fits_def collection_bytes_def)

section \<open>The search structures\<close>

lemma put_vector_metadata [simp]: "cm_metadata (put_vector x v k) = cm_metadata k"
  by (simp add: put_vector_def)

lemma cache_agrees_put:
  assumes "cache_agrees D k"
    and "hm_get (cm_vectors k') = (hm_get (cm_vectors k))(doc_id d \<mapsto> doc_vector d)"
    and "cache_ok k'" and "cm_config k' = cm_config k"
    and "cm_metadata k' = cm_metadata (put_metadata (doc_id d) (doc_metadata d) k)"
  shows "cache_agrees (put_doc d D) k'"
proof -
  have k: "cache_ok k" using assms(1) by (simp add: cache_agrees_def)
  have "\<exists>e. put_doc d D x = Some e \<and> doc_metadata e = m" if "hm_get (cm_metadata k') x = Some m" for x m
  proof (cases "cache_enabled (cm_config k)")
    case True
    then have "if x = doc_id d then m = doc_metadata d else hm_get (cm_metadata k) x = Some m"
      using put_metadata_get [OF k True] that assms(5) by metis
    then show ?thesis
      using assms(1) by (auto simp: cache_agrees_def put_doc_def split: if_splits)
  next
    case False
    then show ?thesis
      using that assms(1,5) by (simp add: put_metadata_disabled cache_agrees_def)
  qed
  then show ?thesis
    using assms by (auto simp: cache_agrees_def put_doc_def get_vector_def put_metadata_disabled split: if_splits)
qed

lemma put_metadata_vector_commute:
  "cm_metadata (put_metadata x m (put_vector y v k)) = cm_metadata (put_metadata x m k)"
  by (simp add: put_metadata_def enforce_item_limit_def put_vector_def)

lemma cache_agrees_vector_metadata:
  "cache_agrees D k \<Longrightarrow> cache_agrees (put_doc d D)
     (put_metadata (doc_id d) (doc_metadata d) (put_vector (doc_id d) (doc_vector d) k))"
  by (rule cache_agrees_put) (auto simp: cache_agrees_def put_metadata_vector_commute)

lemma cache_agrees_metadata_vector:
  "cache_agrees D k \<Longrightarrow> cache_agrees (put_doc d D)
     (put_vector (doc_id d) (doc_vector d) (put_metadata (doc_id d) (doc_metadata d) k))"
  by (rule cache_agrees_put) (auto simp: cache_agrees_def)

lemma cache_agrees_metadata:
  assumes "cache_agrees D k" and "D (doc_id d) = Some e" and "doc_vector e = doc_vector d"
  shows "cache_agrees (put_doc d D) (put_metadata (doc_id d) (doc_metadata d) k)"
proof (rule cache_agrees_put [OF assms(1)])
  have "hm_get (cm_vectors k) (doc_id d) = Some (doc_vector d)"
    using assms by (simp add: cache_agrees_def)
  then show "hm_get (cm_vectors (put_metadata (doc_id d) (doc_metadata d) k))
    = (hm_get (cm_vectors k))(doc_id d \<mapsto> doc_vector d)"
    by (simp add: fun_upd_idem)
qed (use assms(1) in \<open>simp_all add: cache_agrees_def\<close>)

lemma cache_agrees_remove:
  assumes "cache_agrees D k"
  shows "cache_agrees (drop_doc x D) (cache_remove x b k)"
proof -
  have m: "cm_metadata (cache_remove x b k) = hm_remove x (cm_metadata k)"
    by (simp add: cache_remove_def)
  have n: "hm_remove x [] = []" by (simp add: hm_remove_def)
  show ?thesis
    using assms by (auto simp: cache_agrees_def drop_doc_def m n split: if_splits)
qed

text \<open>Inserting into the index adds exactly the new id, if the reader holds no more than it should.\<close>

lemma index_insert_ids:
  assumes "index_inv E i" and "hm_ok vs" and "index_ids i \<subseteq> set (hm_keys vs)"
    and "x \<in> set (hm_keys vs)" and "index_insert E u x v vs i = (Inr (), i')"
    and "index_type_of i \<noteq> Hnsw \<Longrightarrow> set (hm_keys vs) = insert x (index_ids i)"
  shows "index_inv E i' \<and> index_ids i' = insert x (index_ids i)"
proof -
  have c: "index_inv E i'" "insert x (index_ids i) \<subseteq> index_ids i'" "index_ids i' \<subseteq> set (hm_keys vs)"
    using index_insert_contract [OF assms(1-5)] by auto
  have "index_ids i' = insert x (index_ids i)"
  proof (cases i)
    case (HnswIdx j)
    then show ?thesis
      using assms(1,5) hnsw_insert_ok [of j E u x v vs] by (auto simp: on_part_Inr index_inv_def)
  qed (use c assms(6) in auto)
  then show ?thesis using c(1) by simp
qed

lemma index_agrees_insert:
  assumes "index_agrees E D vs i" and "hm_ok vs"
    and "index_insert E u x v (hm_insert x w vs) i = (Inr (), i')"
  shows "index_agrees E (D(x \<mapsto> d)) (hm_insert x w vs) i'"
proof -
  have a: "index_inv E i" "index_ids i = dom D" "dom D \<subseteq> set (hm_keys vs)"
    "index_type_of i \<noteq> Hnsw \<Longrightarrow> set (hm_keys vs) = dom D"
    using assms(1) by (auto simp: index_agrees_def)
  have t: "index_type_of i' = index_type_of i" using index_type_insert [OF assms(3)] .
  have "index_inv E i' \<and> index_ids i' = insert x (index_ids i)"
    by (rule index_insert_ids [OF a(1) _ _ _ assms(3)]) (use a assms(2) in auto)
  then show ?thesis using a by (auto simp: index_agrees_def t)
qed

lemma index_agrees_remove:
  assumes "index_agrees E D vs i" and "hm_ok vs"
  shows "index_agrees E (D(x := None)) (if index_type_of i \<noteq> Hnsw then hm_remove x vs else vs)
    (index_remove E x i)"
  using assms any.remove_invar [of E i x] any.remove_ids [of E i x]
  by (auto simp: index_agrees_def)

section \<open>Inserting and deleting\<close>

lemma refresh_count_effect:
  "refresh_count E c = (Inr (), c\<lparr>c_ticks := c_ticks c + 1,
     c_meta := update_vector_count (collection_count c) (now_secs E (c_ticks c)) (c_meta c)\<rparr>)"
  by (simp add: refresh_count_def op_then_apply collection_count_def)

lemma update_vector_count_dims [simp]: "cm_dimensions (update_vector_count n t m) = cm_dimensions m"
  by (simp add: update_vector_count_def)

text \<open>The part both ways of inserting share: dimensions, cache and index.\<close>

lemma indexed_insert:
  assumes "indexed_as E D c"
    and "cache_agrees (put_doc d D) (c_cache c')"
    and "cm_vectors (c_cache c') = hm_insert (doc_id d) (doc_vector d) (cm_vectors (c_cache c))"
    and "index_insert E u (doc_id d) v (cm_vectors (c_cache c')) (c_vindex c) = (Inr (), c_vindex c')"
    and "cm_dimensions (c_meta c') = Some (length (doc_vector d))"
    and "cm_dimensions (c_meta c) = None \<or> cm_dimensions (c_meta c) = cm_dimensions (c_meta c')"
  shows "indexed_as E (put_doc d D) c'"
proof -
  have i: "cache_agrees D (c_cache c)" "index_agrees E D (cm_vectors (c_cache c)) (c_vindex c)"
    "dims_agree (cm_vectors (c_cache c)) (c_meta c)"
    using assms(1) by (simp_all add: indexed_as_def)
  have ok: "hm_ok (cm_vectors (c_cache c))" using i(1) by (simp add: cache_agrees_def cache_ok_def)
  have "index_agrees E (put_doc d D) (cm_vectors (c_cache c')) (c_vindex c')"
    using index_agrees_insert [OF i(2) ok, of u "doc_id d" v] assms(4) by (simp add: assms(3) put_doc_def)
  moreover have "dims_agree (cm_vectors (c_cache c')) (c_meta c')"
    using i(3) assms(5,6) by (auto simp: dims_agree_def assms(3))
  ultimately show ?thesis using assms(2) by (simp add: indexed_as_def)
qed

lemma index_vector_Inr:
  "index_vector E x v c = (Inr u, c') \<longleftrightarrow>
     (\<exists>i. index_insert E (rand_f32 E (c_draws c)) x v (cm_vectors (c_cache c)) (c_vindex c) = (Inr (), i)
       \<and> c' = c\<lparr>c_vindex := i, c_draws := c_draws c + 1\<rparr>)"
  by (auto simp: index_vector_def split: prod.splits)

lemma set_dimensions_dims:
  "cm_dimensions (set_dimensions n m) = (case cm_dimensions m of None \<Rightarrow> Some n | Some k \<Rightarrow> Some k)"
  by (simp add: set_dimensions_def split: option.splits)

lemma insert_internal_effect:
  assumes "codecs_ok E" and "stored E c" and "fits E c [d]"
    and "insert_internal E d c = (Inr x, c')"
  shows "x = doc_id d \<and> stored E c' \<and> docs E c' = put_doc d (docs E c) \<and>
    extends E (c_store c) (c_store c') \<and>
    append_cursor (c_store c') = append_cursor (c_store c) + length (enc_doc E d) \<and>
    c_saved c' = c_saved c \<and> c_checkpoint c' = c_checkpoint c \<and> c_config c' = c_config c \<and>
    index_type_of (c_vindex c') = index_type_of (c_vindex c) \<and> (indexed E c \<longrightarrow> indexed E c')"
proof -
  obtain c1 where c1: "store_document E d c = (Inr (), c1)"
    and rest: "op_then (fix_dimensions (length (get_vector d))) (\<lambda>_.
     op_then (check_dimensions (get_vector d)) (\<lambda>_.
     op_then (on_cache (put_vector (doc_id d) (get_vector d))) (\<lambda>_.
     op_then (on_cache (put_metadata (doc_id d) (doc_metadata d))) (\<lambda>_.
     op_then (index_vector E (doc_id d) (get_vector d)) (\<lambda>_.
     op_then (refresh_count E) (\<lambda>_.
     op_return (doc_id d))))))) c1 = (Inr x, c')"
    using assms(4) by (auto simp: insert_internal_def op_then_eq_Inr)
  obtain s p where s: "c1 = c\<lparr>c_store := s, c_index := hm_insert (doc_id d) p (c_index c)\<rparr>"
    "extends E (c_store c) s" "stored E c1" "docs E c1 = put_doc d (docs E c)"
    "append_cursor s = append_cursor (c_store c) + length (enc_doc E d)"
    using store_bytes_effect [OF assms(1-3) c1 [unfolded store_document_def]] by auto
  let ?k = "put_metadata (doc_id d) (doc_metadata d) (put_vector (doc_id d) (doc_vector d) (c_cache c))"
  obtain i where i: "index_insert E (rand_f32 E (c_draws c)) (doc_id d) (doc_vector d) (cm_vectors ?k) (c_vindex c)
      = (Inr (), i)"
    and dims: "cm_dimensions (set_dimensions (length (doc_vector d)) (c_meta c)) = Some (length (doc_vector d))"
    and x: "x = doc_id d"
    and c': "c_store c' = s" "c_index c' = c_index c1" "c_saved c' = c_saved c"
      "c_checkpoint c' = c_checkpoint c" "c_config c' = c_config c" "c_cache c' = ?k" "c_vindex c' = i"
      "cm_dimensions (c_meta c') = cm_dimensions (set_dimensions (length (doc_vector d)) (c_meta c))"
    using rest
    by (auto simp: op_then_eq_Inr fix_dimensions_def check_dimensions_def on_cache_def index_vector_def
        refresh_count_effect get_vector_def s(1) set_dimensions_dims validate_dimensions_ok
        split: prod.splits option.splits)
  have e: "docs E c' = docs E c1 \<and> stored E c' = stored E c1"
    by (rule stored_eq) (simp_all add: c' s(1))
  have "indexed E c'" if "indexed E c"
  proof -
    have at: "indexed_as E (docs E c) c" using that by (simp add: indexed_def)
    have "indexed_as E (put_doc d (docs E c)) c'"
    proof (rule indexed_insert [OF at])
      show "cache_agrees (put_doc d (docs E c)) (c_cache c')"
        using at cache_agrees_vector_metadata by (simp add: c' indexed_as_def)
      show "cm_vectors (c_cache c') = hm_insert (doc_id d) (doc_vector d) (cm_vectors (c_cache c))"
        by (simp add: c')
      show "index_insert E (rand_f32 E (c_draws c)) (doc_id d) (doc_vector d) (cm_vectors (c_cache c'))
          (c_vindex c) = (Inr (), c_vindex c')"
        using i by (simp add: c')
      show "cm_dimensions (c_meta c') = Some (length (doc_vector d))" using dims by (simp add: c')
      show "cm_dimensions (c_meta c) = None \<or> cm_dimensions (c_meta c) = cm_dimensions (c_meta c')"
        by (auto simp: c' set_dimensions_dims split: option.splits)
    qed
    then show ?thesis using e s(4) by (simp add: indexed_def)
  qed
  then show ?thesis using e s x c' index_type_insert [OF i] by simp
qed

lemma delete_internal_effect:
  assumes "stored E c" and "delete_internal E x c = (r, c')"
  shows "r = Inr () \<and> stored E c' \<and> docs E c' = drop_doc x (docs E c) \<and> c_store c' = c_store c \<and>
    c_saved c' = c_saved c \<and> c_checkpoint c' = c_checkpoint c \<and> c_config c' = c_config c \<and>
    index_type_of (c_vindex c') = index_type_of (c_vindex c) \<and> (indexed E c \<longrightarrow> indexed E c')"
proof -
  have c': "r = Inr ()" "c_store c' = c_store c" "c_index c' = hm_remove x (c_index c)"
    "c_saved c' = c_saved c" "c_checkpoint c' = c_checkpoint c" "c_config c' = c_config c"
    "c_vindex c' = index_remove E x (c_vindex c)"
    "c_cache c' = cache_remove x (index_type_of (c_vindex c) \<noteq> Hnsw) (c_cache c)"
    "cm_dimensions (c_meta c') = cm_dimensions (c_meta c)"
    using assms(2)
    by (auto simp: delete_internal_def op_then_apply unindex_vector_def refresh_count_effect)
  have d: "docs E c' = drop_doc x (docs E c)" "stored E c'"
    using assms(1) by (simp_all add: docs_def docs_in_remove drop_doc_def stored_def pointers_ok_remove c')
  have "indexed E c'" if "indexed E c"
  proof -
    have i: "cache_agrees (docs E c) (c_cache c)" "index_agrees E (docs E c) (cm_vectors (c_cache c)) (c_vindex c)"
      "dims_agree (cm_vectors (c_cache c)) (c_meta c)"
      using that by (simp_all add: indexed_def indexed_as_def)
    have ok: "hm_ok (cm_vectors (c_cache c))" using i(1) by (simp add: cache_agrees_def cache_ok_def)
    have "index_agrees E (docs E c') (cm_vectors (c_cache c')) (c_vindex c')"
      using index_agrees_remove [OF i(2) ok, of x] by (simp add: c' d(1) drop_doc_def)
    moreover have "dims_agree (cm_vectors (c_cache c')) (c_meta c')"
      using i(3) by (auto simp: dims_agree_def c' split: if_splits)
    ultimately show ?thesis using cache_agrees_remove [OF i(1)] by (simp add: indexed_def indexed_as_def d(1) c')
  qed
  then show ?thesis using c' d by simp
qed

section \<open>One logged operation\<close>

text \<open>Logging an entry, doing what it says, and tracking the operation.\<close>

lemma durable_operation:
  assumes "codecs_ok E" and "durable E c" and "\<And>n. entry_round_trips E (set_seq n e)"
    and "wal_log E e c = (r, c1)" and "extends E (c_store c1) (c_store c2)"
    and "c_saved c2 = c_saved c1" and "c_checkpoint c2 = c_checkpoint c1" and "c_config c2 = c_config c1"
    and "docs E c2 = apply_entry e (docs E c)" and "short_records E (entry_documents e)"
    and "append_cursor (c_store c2) = append_cursor (c_store c1) + collection_bytes E (entry_documents e)"
  shows "durable E c2"
proof -
  have on: "wal_on (wal (c_checkpoint c))" "wal_enabled (cc_wal (c_config c))" "logged E c 0 (docs E c)"
    using assms(2) by (simp_all add: durable_def)
  have "logged E c1 (0 + collection_bytes E (entry_documents e)) (apply_entry e (docs E c))"
    by (rule wal_log_logged [OF assms(1) on(1,3) assms(3,4,10)])
  then have "logged E c2 0 (docs E c2)"
    unfolding assms(9) by (rule logged_extends [OF _ assms(5,6)]) (simp_all add: assms(7,11))
  then show ?thesis
    using on(1,2) wal_log_same [OF assms(4)] assms(7,8) by (simp add: durable_def same_data_def)
qed

lemma advances_tracked:
  assumes "codecs_ok E" and "advances E c ds D c1" and "track_operation E c1 = (r, c2)"
  shows "r = Inr () \<and> advances E c ds D c2"
proof -
  have s: "same_data c1 c2" "r = Inr ()" using track_operation_same [OF assms(3)] by auto
  have "durable E c2" if "durable E c1"
    using track_operation_durable [OF assms(1) _ that assms(3)] assms(2) by (simp add: advances_def)
  then show ?thesis
    using assms(2) s same_data_docs [OF s(1), of E] same_data_indexed [OF s(1), of E]
    by (simp add: advances_def same_data_def)
qed

lemma same_data_stored:
  "same_data c c1 \<Longrightarrow> stored E c \<Longrightarrow> stored E c1"
  using same_data_docs by blast

lemma extends_self: "stored E c \<Longrightarrow> extends E (c_store c) (c_store c)"
  by (simp add: stored_def extends_refl)

lemma enforce_single_same:
  assumes "same_data c c1"
  shows "enforce_single n c1 = enforce_single n c"
proof -
  have e: "c_store c1 = c_store c" "collection_count c1 = collection_count c" "c_config c1 = c_config c"
    using assms by (simp_all add: same_data_def collection_count_def)
  show ?thesis unfolding enforce_single_def e ..
qed

lemma fits_same: "same_data c c1 \<Longrightarrow> fits E c1 ds = fits E c ds"
  by (simp add: fits_def same_data_def)

lemma advances_insert:
  assumes "codecs_ok E" and "stored E c" and "fits E c [d]" and "insert_document E d c = (Inr x, c')"
  shows "x = doc_id d \<and> advances E c [d] (put_doc d (docs E c)) c'"
proof -
  obtain c1 where c1: "wal_log E (WalInsert d 0) c = (Inr (), c1)"
    using wal_log_same by (metis prod.exhaust)
  then obtain y c2 where c2: "insert_internal E d c1 = (Inr y, c2)"
    and c3: "track_operation E c2 = (Inr (), c')" and x: "x = y"
    using assms(4) by (auto simp: insert_document_def op_then_eq_Inr)
  have s: "same_data c c1" "c_saved c1 = c_saved c" using wal_log_same [OF c1] by auto
  have st: "stored E c1" "docs E c1 = docs E c"
    using same_data_docs [OF s(1), of E] assms(2) by auto
  have f: "fits E c1 [d]" using assms(3) by (simp add: fits_same [OF s(1)])
  note i = insert_internal_effect [OF assms(1) st(1) f c2]
  have "durable E c2" if "durable E c" "loggable E d"
    by (rule durable_operation [OF assms(1) that(1) _ c1])
      (use i st(2) that(2) assms(3) in \<open>auto simp: loggable_def fits_def\<close>)
  then have "advances E c [d] (put_doc d (docs E c)) c2"
    using i st(2) s same_data_indexed [OF s(1), of E]
    by (simp add: advances_def collection_bytes_def same_data_def)
  then show ?thesis using advances_tracked [OF assms(1) _ c3] i x by blast
qed

lemma put_drop_doc: "put_doc d (drop_doc (doc_id d) D) = put_doc d D"
  by (simp add: put_doc_def drop_doc_def)

lemma advances_upsert:
  assumes "codecs_ok E" and "stored E c" and "fits E c [d]" and "upsert E d c = (Inr x, c')"
  shows "x = doc_id d \<and> advances E c [d] (put_doc d (docs E c)) c'"
proof (cases "hm_contains (c_index c) (doc_id d)")
  case False
  then have "insert_document E d c = (Inr x, c')"
    using assms(4) by (auto simp: upsert_def op_then_eq_Inr)
  then show ?thesis by (rule advances_insert [OF assms(1-3)])
next
  case True
  obtain c1 where c1: "wal_log E (WalUpdate d 0) c = (Inr (), c1)"
    using wal_log_same by (metis prod.exhaust)
  obtain c2 y c3 where c2: "delete_internal E (doc_id d) c1 = (Inr (), c2)"
    and c3: "insert_internal E d c2 = (Inr y, c3)" and c4: "track_operation E c3 = (Inr (), c')"
    and x: "x = doc_id d"
    using assms(4) True c1 by (auto simp: upsert_def op_then_eq_Inr)
  have s: "same_data c c1" "c_saved c1 = c_saved c" using wal_log_same [OF c1] by auto
  have st: "stored E c1" "docs E c1 = docs E c"
    using same_data_docs [OF s(1), of E] assms(2) by auto
  note e = delete_internal_effect [OF st(1) c2]
  have f: "fits E c2 [d]" using assms(3) e s(1) by (simp add: fits_def same_data_def)
  have st2: "stored E c2" using e by blast
  note i = insert_internal_effect [OF assms(1) st2 f c3]
  have D: "docs E c3 = put_doc d (docs E c)" using i e st(2) by (simp add: put_drop_doc)
  have "durable E c3" if "durable E c" "loggable E d"
    by (rule durable_operation [OF assms(1) that(1) _ c1])
      (use i e D that(2) assms(3) in \<open>auto simp: loggable_def fits_def\<close>)
  then have "advances E c [d] (put_doc d (docs E c)) c3"
    using i e D s same_data_indexed [OF s(1), of E]
    by (simp add: advances_def collection_bytes_def same_data_def)
  then show ?thesis using advances_tracked [OF assms(1) _ c4] x by blast
qed

lemma advances_refl: "stored E c \<Longrightarrow> advances E c [] (docs E c) c"
  by (simp add: advances_def collection_bytes_def)

lemma drop_doc_absent: "D x = None \<Longrightarrow> drop_doc x D = D"
  by (auto simp: drop_doc_def)

lemma round_trip_delete: "codecs_ok E \<Longrightarrow> entry_round_trips E (set_seq n (WalDelete x k))"
  by (simp add: codecs_ok_def entry_round_trips_def)

lemma advances_delete:
  assumes "codecs_ok E" and "stored E c" and "delete_document E x c = (r, c')"
  shows "r = Inr (x \<in> dom (docs E c)) \<and> advances E c [] (drop_doc x (docs E c)) c'"
proof (cases "hm_contains (c_index c) x")
  case False
  then have "x \<notin> dom (docs E c)" using contains_docs [OF assms(2)] by simp
  then show ?thesis
    using assms(3) False advances_refl [OF assms(2)]
    by (auto simp: delete_document_def drop_doc_absent domIff)
next
  case True
  obtain c1 where c1: "wal_log E (WalDelete x 0) c = (Inr (), c1)"
    using wal_log_same by (metis prod.exhaust)
  have s: "same_data c c1" "c_saved c1 = c_saved c" using wal_log_same [OF c1] by auto
  have st: "stored E c1" "docs E c1 = docs E c"
    using same_data_docs [OF s(1), of E] assms(2) by auto
  obtain r0 c2 where c2: "delete_internal E x c1 = (r0, c2)" by fastforce
  note e = delete_internal_effect [OF st(1) c2]
  obtain r1 c3 where c3: "track_operation E c2 = (r1, c3)" by fastforce
  have r: "r1 = Inr ()" using track_operation_same [OF c3] by simp
  have "r = Inr True" "c' = c3"
    using assms(3) True c1 c2 c3 e r by (auto simp: delete_document_def op_then_apply)
  moreover have "durable E c2" if "durable E c"
    by (rule durable_operation [OF assms(1) that round_trip_delete [OF assms(1)] c1])
      (use e st extends_self in auto)
  then have "advances E c [] (drop_doc x (docs E c)) c2"
    using e st(2) s same_data_indexed [OF s(1), of E]
    by (simp add: advances_def collection_bytes_def same_data_def)
  ultimately show ?thesis
    using advances_tracked [OF assms(1) _ c3] contains_docs [OF assms(2)] True by blast
qed

section \<open>Updates\<close>

lemma dom_put_doc [simp]: "dom (put_doc d D) = insert (doc_id d) (dom D)"
  by (simp add: put_doc_def)

lemma advances_update_metadata:
  assumes "codecs_ok E" and "stored E c" and "fits E c (written (UpdateMetadata x m) (docs E c))"
    and "update_metadata E x m c = (Inr b, c')"
  shows "b = (x \<in> dom (docs E c)) \<and>
    advances E c (written (UpdateMetadata x m) (docs E c)) (meaning (UpdateMetadata x m) (docs E c)) c'"
proof (cases "docs E c x")
  case None
  then show ?thesis
    using assms(4) advances_refl [OF assms(2)]
    by (auto simp: update_metadata_def op_then_eq_Inr get_docs [OF assms(2)])
next
  case (Some d)
  let ?d = "d\<lparr>doc_metadata := m\<rparr>"
  have id: "doc_id d = x" using docs_id [OF assms(2) Some] .
  then have dx: "d\<lparr>doc_id := x, doc_metadata := m\<rparr> = ?d" by (cases d) simp
  obtain c1 where c1: "wal_log E (WalUpdate ?d 0) c = (Inr (), c1)"
    using wal_log_same by (metis prod.exhaust)
  obtain c2 c3 where c2: "op_then (store_bytes E (enc_doc E ?d)) (\<lambda>p. point_to (doc_id ?d) p) c1 = (Inr (), c2)"
    and c3: "c3 = c2\<lparr>c_cache := put_metadata x m (c_cache c2), c_ticks := c_ticks c2 + 1,
        c_meta := update_vector_count (collection_count c2) (now_secs E (c_ticks c2)) (c_meta c2)\<rparr>"
    and c4: "track_operation E c3 = (Inr (), c')" and b
    using assms(4) c1
    by (auto simp: update_metadata_def op_then_eq_Inr get_docs [OF assms(2)] Some dx on_cache_def
        refresh_count_effect id collection_count_def)
  have s: "same_data c c1" "c_saved c1 = c_saved c" using wal_log_same [OF c1] by auto
  have st: "stored E c1" "docs E c1 = docs E c"
    using same_data_docs [OF s(1), of E] assms(2) by auto
  have f: "fits E c1 [?d]" using assms(3) by (simp add: fits_same [OF s(1)] Some)
  obtain t p where t: "c2 = c1\<lparr>c_store := t, c_index := hm_insert (doc_id ?d) p (c_index c1)\<rparr>"
    "extends E (c_store c1) t" "stored E c2" "docs E c2 = put_doc ?d (docs E c)"
    "append_cursor t = append_cursor (c_store c1) + length (enc_doc E ?d)"
    using store_bytes_effect [OF assms(1) st(1) f c2] st(2) by auto
  have D: "docs E c3 = put_doc ?d (docs E c)" "stored E c3"
    using stored_eq [of c3 c2 E] t(3,4) by (simp_all add: c3)
  have "durable E c3" if "durable E c" "loggable E ?d"
    by (rule durable_operation [OF assms(1) that(1) _ c1])
      (use t D that(2) f in \<open>auto simp: loggable_def c3 fits_def\<close>)
  moreover have "indexed E c3" if "indexed E c"
  proof -
    have i: "cache_agrees (docs E c) (c_cache c)" "index_agrees E (docs E c) (cm_vectors (c_cache c)) (c_vindex c)"
      "dims_agree (cm_vectors (c_cache c)) (c_meta c)"
      using that by (simp_all add: indexed_def indexed_as_def)
    have c: "c_cache c3 = put_metadata x m (c_cache c)" "c_vindex c3 = c_vindex c"
      "cm_dimensions (c_meta c3) = cm_dimensions (c_meta c)"
      using s(1) by (simp_all add: c3 t(1) same_data_def)
    have "cache_agrees (put_doc ?d (docs E c)) (c_cache c3)"
      using cache_agrees_metadata [OF i(1), of ?d d] Some by (simp add: c id)
    moreover have "index_agrees E (put_doc ?d (docs E c)) (cm_vectors (c_cache c3)) (c_vindex c3)"
      using i(2) Some by (simp add: index_agrees_def c id insert_absorb domI)
    moreover have "dims_agree (cm_vectors (c_cache c3)) (c_meta c3)"
      using i(3) by (simp add: dims_agree_def c)
    ultimately show ?thesis by (simp add: indexed_def indexed_as_def D(1))
  qed
  ultimately have "advances E c [?d] (put_doc ?d (docs E c)) c3"
    using D t(1,5) s(1) by (simp add: advances_def collection_bytes_def same_data_def c3)
  then show ?thesis using advances_tracked [OF assms(1) _ c4] Some \<open>b\<close> by auto
qed

lemma settle_dimensions_effect:
  "settle_dimensions v c = (Inr u, c') \<Longrightarrow> \<exists>m. c' = c\<lparr>c_meta := m\<rparr> \<and> cm_dimensions m = Some (length v) \<and>
     (cm_dimensions (c_meta c) = None \<or> cm_dimensions (c_meta c) = cm_dimensions m)"
  by (cases "cm_dimensions (c_meta c)")
    (auto simp: settle_dimensions_def fix_dimensions_def set_dimensions_dims validate_dimensions_ok
      intro: exI [of _ "c_meta c"])

text \<open>Moving a document in the index: out under its old vector, in under the new one.\<close>

lemma index_agrees_move:
  assumes "index_agrees E D vs i" and "hm_ok vs" and "D x = Some d"
    and "index_insert E u x v (hm_insert x w vs) (index_remove E x i) = (Inr (), i')"
  shows "index_agrees E (D(x \<mapsto> e)) (hm_insert x w vs) i'"
proof -
  have a: "index_inv E i" "index_ids i = dom D" "dom D \<subseteq> set (hm_keys vs)"
    "index_type_of i \<noteq> Hnsw \<Longrightarrow> set (hm_keys vs) = dom D"
    using assms(1) by (auto simp: index_agrees_def)
  have r: "index_inv E (index_remove E x i)" "index_ids (index_remove E x i) = dom D - {x}"
    using any.remove_invar [OF a(1)] any.remove_ids [OF a(1)] a(2) by auto
  have x: "x \<in> dom D" using assms(3) by auto
  have t: "index_type_of i' = index_type_of i" using index_type_insert [OF assms(4)] by simp
  have "index_inv E i' \<and> index_ids i' = insert x (index_ids (index_remove E x i))"
    by (rule index_insert_ids [OF r(1) _ _ _ assms(4)]) (use a r(2) x assms(2) in auto)
  then show ?thesis using a r(2) x by (auto simp: index_agrees_def t)
qed

lemma advances_update_vector:
  assumes "codecs_ok E" and "stored E c" and "fits E c (written (UpdateVector x v) (docs E c))"
    and "update_vector E x v c = (Inr b, c')"
  shows "b = (x \<in> dom (docs E c)) \<and>
    advances E c (written (UpdateVector x v) (docs E c)) (meaning (UpdateVector x v) (docs E c)) c'"
proof (cases "docs E c x")
  case None
  then show ?thesis
    using assms(4) advances_refl [OF assms(2)]
    by (auto simp: update_vector_def op_then_eq_Inr get_docs [OF assms(2)])
next
  case (Some d)
  let ?d = "d\<lparr>doc_vector := v\<rparr>"
  have id: "doc_id d = x" using docs_id [OF assms(2) Some] .
  then have dx: "d\<lparr>doc_id := x, doc_vector := v\<rparr> = ?d" by (cases d) simp
  obtain c1 where c1: "wal_log E (WalUpdate ?d 0) c = (Inr (), c1)"
    using wal_log_same by (metis prod.exhaust)
  obtain u1 c2 where sd: "settle_dimensions v c1 = (Inr u1, c2)"
    and rest: "op_then (op_read (enforce_single (length (enc_doc E ?d)))) (\<lambda>_.
         op_then (store_bytes E (enc_doc E ?d)) (\<lambda>p.
         op_then (point_to x p) (\<lambda>_.
         op_then (on_cache (put_vector x v)) (\<lambda>_.
         op_then (on_cache (put_metadata x (doc_metadata d))) (\<lambda>_.
         op_then (unindex_vector E x) (\<lambda>_.
         op_then (index_vector E x v) (\<lambda>_.
         op_then (refresh_count E) (\<lambda>_.
         op_then (track_operation E) (\<lambda>_.
         op_return True))))))))) c2 = (Inr b, c')"
    using assms(4) c1
    by (auto simp: update_vector_def op_then_eq_Inr get_docs [OF assms(2)] Some dx)
  obtain m where m: "c2 = c1\<lparr>c_meta := m\<rparr>" "cm_dimensions m = Some (length v)"
    "cm_dimensions (c_meta c1) = None \<or> cm_dimensions (c_meta c1) = cm_dimensions m"
    using settle_dimensions_effect [OF sd] by blast
  let ?k = "\<lambda>k. put_metadata x (doc_metadata d) (put_vector x v k)"
  obtain c3 i c4 where c3: "op_then (store_bytes E (enc_doc E ?d)) (\<lambda>p. point_to (doc_id ?d) p) c2 = (Inr (), c3)"
    and i: "index_insert E (rand_f32 E (c_draws c3)) x v (cm_vectors (?k (c_cache c3)))
        (index_remove E x (c_vindex c3)) = (Inr (), i)"
    and c4: "c4 = c3\<lparr>c_cache := ?k (c_cache c3), c_vindex := i, c_draws := c_draws c3 + 1,
        c_ticks := c_ticks c3 + 1,
        c_meta := update_vector_count (collection_count c3) (now_secs E (c_ticks c3)) (c_meta c3)\<rparr>"
    and c5: "track_operation E c4 = (Inr (), c')" and b
    using rest
    by (auto simp: op_then_eq_Inr on_cache_def unindex_vector_def index_vector_Inr refresh_count_effect
        id collection_count_def)
  have s: "same_data c c1" "c_saved c1 = c_saved c" using wal_log_same [OF c1] by auto
  have st: "stored E c2" "docs E c2 = docs E c"
    using same_data_docs [OF s(1), of E] stored_eq [of c2 c1 E] assms(2) by (auto simp: m(1))
  have f: "fits E c2 [?d]" using assms(3) s(1) by (simp add: Some m(1) fits_def same_data_def)
  obtain t p where t: "c3 = c2\<lparr>c_store := t, c_index := hm_insert (doc_id ?d) p (c_index c2)\<rparr>"
    "extends E (c_store c2) t" "stored E c3" "docs E c3 = put_doc ?d (docs E c)"
    "append_cursor t = append_cursor (c_store c2) + length (enc_doc E ?d)"
    using store_bytes_effect [OF assms(1) st(1) f c3] st(2) by auto
  have D: "docs E c4 = put_doc ?d (docs E c)" "stored E c4"
    using stored_eq [of c4 c3 E] t(3,4) by (simp_all add: c4)
  have "durable E c4" if "durable E c" "loggable E ?d"
    by (rule durable_operation [OF assms(1) that(1) _ c1])
      (use t D that(2) f in \<open>auto simp: loggable_def c4 m(1) fits_def\<close>)
  moreover have "indexed E c4" if "indexed E c"
  proof -
    have a: "cache_agrees (docs E c) (c_cache c)" "index_agrees E (docs E c) (cm_vectors (c_cache c)) (c_vindex c)"
      "dims_agree (cm_vectors (c_cache c)) (c_meta c)"
      using that by (simp_all add: indexed_def indexed_as_def)
    have ok: "hm_ok (cm_vectors (c_cache c))" using a(1) by (simp add: cache_agrees_def cache_ok_def)
    have e: "c_cache c3 = c_cache c" "c_vindex c3 = c_vindex c" "c_meta c3 = m" "c_meta c1 = c_meta c"
      using s(1) by (simp_all add: t(1) m(1) same_data_def)
    have "cache_agrees (put_doc ?d (docs E c)) (c_cache c4)"
      using cache_agrees_vector_metadata [OF a(1), of ?d] by (simp add: c4 e id)
    moreover have "index_agrees E (put_doc ?d (docs E c)) (cm_vectors (c_cache c4)) (c_vindex c4)"
      using index_agrees_move [OF a(2) ok Some] i by (simp add: c4 e put_doc_def id)
    moreover have "dims_agree (cm_vectors (c_cache c4)) (c_meta c4)"
      using a(3) m(2,3) by (auto simp: dims_agree_def c4 e)
    ultimately show ?thesis by (simp add: indexed_def indexed_as_def D(1))
  qed
  ultimately have "advances E c [?d] (put_doc ?d (docs E c)) c4"
    using D t(1,5) s(1) index_type_insert [OF i] by (simp add: advances_def collection_bytes_def same_data_def c4 m(1))
  then show ?thesis using advances_tracked [OF assms(1) _ c5] Some \<open>b\<close> by auto
qed

section \<open>Batches\<close>

text \<open>Logging a list of entries one after the other.\<close>

lemma wal_log_all:
  assumes "codecs_ok E" and "wal_on (wal (c_checkpoint c))" and "logged E c k D"
    and "short_records E ds" and "\<And>d n. d \<in> set ds \<Longrightarrow> entry_round_trips E (WalInsert d n)"
    and "op_for (\<lambda>d. wal_log E (WalInsert d 0)) ds c = (r, c')"
  shows "logged E c' (k + collection_bytes E ds) (fold put_doc ds D)"
  using assms(2-)
proof (induction ds arbitrary: c k D)
  case (Cons d ds)
  obtain c1 where c1: "wal_log E (WalInsert d 0) c = (Inr (), c1)"
    using wal_log_same by (metis prod.exhaust)
  have "logged E c1 (k + collection_bytes E (entry_documents (WalInsert d 0))) (apply_entry (WalInsert d 0) D)"
    by (rule wal_log_logged [OF assms(1) Cons.prems(1,2) _ c1]) (use Cons.prems(3,4) in simp_all)
  then show ?case
    using Cons.IH [of c1 "k + length (enc_doc E d)" "put_doc d D"] Cons.prems c1 wal_log_same [OF c1]
    by (simp add: op_then_apply c1 same_data_def add.assoc)
qed simp

lemma wal_log_all_same:
  "op_for (\<lambda>d. wal_log E (e d)) ds c = (r, c') \<Longrightarrow> same_data c c' \<and> c_saved c' = c_saved c \<and> r = Inr ()"
proof (induction ds arbitrary: c)
  case (Cons d ds)
  obtain c1 where c1: "wal_log E (e d) c = (Inr (), c1)" using wal_log_same by (metis prod.exhaust)
  show ?case
    using Cons.IH [of c1] Cons.prems wal_log_same [OF c1] same_data_trans
    by (auto simp: op_then_apply c1)
qed simp

text \<open>Pointing the index at the records of a batch.\<close>

lemma point_to_apply: "point_to x p c = (Inr (), c\<lparr>c_index := hm_insert x p (c_index c)\<rparr>)"
  by (simp add: point_to_def)

lemma point_to_all:
  assumes "op_for (\<lambda>(d, p). point_to (doc_id d) p) (zip ds ps) c = (r, c')"
    and "list_all2 (\<lambda>d p. in_store s p \<and> read_document E p s = Inr d) ds ps"
    and "pointers_ok E (c_store c) (c_index c)" and "c_store c = s"
  shows "r = Inr () \<and> (\<exists>i. c' = c\<lparr>c_index := i\<rparr>) \<and> pointers_ok E (c_store c') (c_index c') \<and>
    docs E c' = fold put_doc ds (docs E c)"
  using assms(2,1,3,4)
proof (induction ds ps arbitrary: c rule: list_all2_induct)
  case Nil
  then show ?case by (auto intro: exI [of _ "c_index c"])
next
  case (Cons d ds p ps)
  let ?c = "c\<lparr>c_index := hm_insert (doc_id d) p (c_index c)\<rparr>"
  have p: "in_store (c_store c) p" "read_document E p (c_store c) = Inr d"
    using Cons.hyps Cons.prems(3) by auto
  have "pointers_ok E (c_store ?c) (c_index ?c)" using pointers_ok_insert [OF Cons.prems(2) p] by simp
  moreover have "docs E ?c = put_doc d (docs E c)"
    using docs_in_insert [OF p(2)] by (simp add: docs_def put_doc_def)
  moreover have "op_for (\<lambda>(d, p). point_to (doc_id d) p) (zip ds ps) ?c = (r, c')"
    using Cons.prems(1) by (simp add: op_then_Inr [OF point_to_apply])
  ultimately show ?case using Cons.IH [of ?c] Cons.prems(3) by auto
qed

lemma store_batch_effect:
  assumes "codecs_ok E" and "stored E c" and "fits E c ds"
    and "store_batch E (map (enc_doc E) ds) c = (Inr ps, c1)"
    and "op_for (\<lambda>(d, p). point_to (doc_id d) p) (zip ds ps) c1 = (r, c')"
  shows "r = Inr () \<and> (\<exists>s i. c' = c\<lparr>c_store := s, c_index := i\<rparr>) \<and> stored E c' \<and>
    docs E c' = fold put_doc ds (docs E c) \<and> extends E (c_store c) (c_store c') \<and>
    append_cursor (c_store c') = append_cursor (c_store c) + collection_bytes E ds"
proof -
  have ok: "store_ok (c_store c)" "pointers_ok E (c_store c) (c_index c)"
    using assms(2) by (simp_all add: stored_def)
  obtain s where s: "append_batch E (map (enc_doc E) ds) (c_store c) = (Inr ps, s)"
    and c1: "c1 = c\<lparr>c_store := s\<rparr>"
    using assms(4) by (auto simp: store_batch_def split: prod.splits)
  have b: "store_ok s \<and> append_cursor s = append_cursor (c_store c) + collection_bytes E ds
    \<and> list_all2 (\<lambda>bs p. in_store s p \<and> read_bytes p s = Some bs) (map (enc_doc E) ds) ps
    \<and> (\<forall>q. in_store (c_store c) q \<longrightarrow> in_store s q \<and> read_bytes q s = read_bytes q (c_store c))"
    using append_batch_store [OF s ok(1)] assms(3)
    by (auto simp: fits_def collection_bytes_def comp_def short_records_def)
  have x: "extends E (c_store c) s"
    unfolding extends_def using b read_document_bytes by metis
  note e = extends_pointers [OF x ok(2)]
  have "list_all2 (\<lambda>d p. in_store s p \<and> read_document E p s = Inr d) ds ps"
    using b assms(1)
    by (auto simp: list_all2_map1 read_document_def codecs_ok_def elim!: list_all2_mono)
  then have p: "r = Inr () \<and> (\<exists>i. c' = c1\<lparr>c_index := i\<rparr>) \<and> pointers_ok E (c_store c') (c_index c') \<and>
    docs E c' = fold put_doc ds (docs E c1)"
    by (intro point_to_all [OF assms(5)]) (use e in \<open>simp_all add: c1\<close>)
  then obtain i where i: "c' = c\<lparr>c_store := s, c_index := i\<rparr>" by (auto simp: c1)
  have "docs E c1 = docs E c" using e(2) by (simp add: docs_def c1)
  then show ?thesis using p b x i by (auto simp: stored_def)
qed

lemma admit_documents:
  assumes "op_for (admit_document E) ds c = (Inr u, c')" and "indexed_as E D c"
  shows "indexed_as E (fold put_doc ds D) c'"
  using assms
proof (induction ds arbitrary: c D)
  case (Cons d ds)
  obtain c1 where c1: "admit_document E d c = (Inr (), c1)" and rest: "op_for (admit_document E) ds c1 = (Inr u, c')"
    using Cons.prems(1) by (auto simp: op_then_eq_Inr)
  let ?k = "put_vector (doc_id d) (doc_vector d) (put_metadata (doc_id d) (doc_metadata d) (c_cache c))"
  obtain i where i: "index_insert E (rand_f32 E (c_draws c)) (doc_id d) (doc_vector d) (cm_vectors ?k) (c_vindex c)
      = (Inr (), i)"
    and dims: "cm_dimensions (set_dimensions (length (doc_vector d)) (c_meta c)) = Some (length (doc_vector d))"
    and e: "c_cache c1 = ?k" "c_vindex c1 = i" "c_meta c1 = set_dimensions (length (doc_vector d)) (c_meta c)"
    using c1
    by (auto simp: admit_document_def op_then_eq_Inr fix_dimensions_def check_dimensions_def on_cache_def
        index_vector_Inr get_vector_def set_dimensions_dims validate_dimensions_ok split: option.splits)
  have "indexed_as E (put_doc d D) c1"
  proof (rule indexed_insert [OF Cons.prems(2)])
    show "cache_agrees (put_doc d D) (c_cache c1)"
      using Cons.prems(2) cache_agrees_metadata_vector by (simp add: e indexed_as_def)
    show "index_insert E (rand_f32 E (c_draws c)) (doc_id d) (doc_vector d) (cm_vectors (c_cache c1))
        (c_vindex c) = (Inr (), c_vindex c1)" using i by (simp add: e)
  qed (use dims in \<open>auto simp: e set_dimensions_dims split: option.splits\<close>)
  then show ?case using Cons.IH [OF rest] by simp
qed simp

lemma admit_documents_same:
  assumes "op_for (admit_document E) ds c = (r, c')"
  shows "c_store c' = c_store c \<and> c_index c' = c_index c \<and> c_saved c' = c_saved c \<and>
    c_checkpoint c' = c_checkpoint c \<and> c_config c' = c_config c \<and>
    index_type_of (c_vindex c') = index_type_of (c_vindex c)"
  using assms
proof (induction ds arbitrary: c)
  case (Cons d ds)
  obtain r1 c1 where c1: "admit_document E d c = (r1, c1)" by fastforce
  then have "c_store c1 = c_store c \<and> c_index c1 = c_index c \<and> c_saved c1 = c_saved c \<and>
    c_checkpoint c1 = c_checkpoint c \<and> c_config c1 = c_config c \<and>
    index_type_of (c_vindex c1) = index_type_of (c_vindex c)"
    by (auto simp: admit_document_def op_then_apply fix_dimensions_def check_dimensions_def on_cache_def
        index_vector_def split: sum.splits option.splits prod.splits)
  then show ?case using Cons.IH [of c1] Cons.prems c1 by (auto simp: op_then_apply split: sum.splits)
qed simp

lemma indexed_as_eq:
  "c_cache c' = c_cache c \<Longrightarrow> c_vindex c' = c_vindex c \<Longrightarrow>
   cm_dimensions (c_meta c') = cm_dimensions (c_meta c) \<Longrightarrow> indexed_as E D c' = indexed_as E D c"
  by (simp add: indexed_as_def dims_agree_def)

lemma advances_insert_batch:
  assumes "codecs_ok E" and "stored E c" and "fits E c ds" and "insert_batch E ds c = (Inr xs, c')"
  shows "xs = map doc_id ds \<and> advances E c ds (fold put_doc ds (docs E c)) c'"
proof -
  let ?D = "fold put_doc ds (docs E c)"
  obtain c1 ps c2 c3 c4 c5 where c1: "op_for (\<lambda>d. wal_log E (WalInsert d 0)) ds c = (Inr (), c1)"
    and c2: "store_batch E (map (enc_doc E) ds) c1 = (Inr ps, c2)"
    and c3: "op_for (\<lambda>(d, p). point_to (doc_id d) p) (zip ds ps) c2 = (Inr (), c3)"
    and c4: "track_operation E c3 = (Inr (), c4)" and c5: "op_for (admit_document E) ds c4 = (Inr (), c5)"
    and c': "c' = c5\<lparr>c_ticks := c_ticks c5 + 1,
       c_meta := update_vector_count (collection_count c5) (now_secs E (c_ticks c5)) (c_meta c5)\<rparr>"
    and xs: "xs = map doc_id ds"
    using assms(4) by (auto simp: insert_batch_def op_then_eq_Inr refresh_count_effect)
  have s: "same_data c c1" "c_saved c1 = c_saved c" using wal_log_all_same [OF c1] by auto
  have st: "stored E c1" "docs E c1 = docs E c"
    using same_data_docs [OF s(1), of E] assms(2) by auto
  have f: "fits E c1 ds" using assms(3) by (simp add: fits_same [OF s(1)])
  note b = store_batch_effect [OF assms(1) st(1) f c2 c3]
  have t: "same_data c3 c4" using track_operation_same [OF c4] by simp
  note a = admit_documents_same [OF c5]
  have D: "docs E c' = ?D" "stored E c'" "docs E c3 = ?D"
    using b st(2) t a stored_eq [of c' c4 E] same_data_docs [OF t, of E] by (auto simp: c')
  have "indexed E c'" if "indexed E c"
  proof -
    have "indexed_as E (docs E c) c4"
      using that b s(1) t indexed_as_eq [of c4 c E] by (auto simp: indexed_def same_data_def)
    then have "indexed_as E ?D c5" by (rule admit_documents [OF c5])
    then show ?thesis
      using indexed_as_eq [of c' c5 E] by (simp add: indexed_def D(1)) (simp add: c')
  qed
  moreover have "durable E c'" if "durable E c" "\<forall>d \<in> set ds. loggable E d"
  proof -
    have on: "wal_on (wal (c_checkpoint c))" "wal_enabled (cc_wal (c_config c))" "logged E c 0 (docs E c)"
      using that(1) by (simp_all add: durable_def)
    have "logged E c1 (0 + collection_bytes E ds) ?D"
      by (rule wal_log_all [OF assms(1) on(1,3) _ _ c1])
        (use that(2) assms(3) in \<open>simp_all add: loggable_def fits_def\<close>)
    then have "logged E c3 0 ?D" by (rule logged_extends) (use b in auto)
    then have "durable E c3" using on b s(1) by (auto simp: durable_def D(3) same_data_def)
    then have "durable E c4" using track_operation_durable [OF assms(1) _ _ c4] b by blast
    then show ?thesis
      using a same_data_docs [OF t, of E] logged_eq [of c' c4 E] D
      by (simp add: durable_def) (simp add: c')
  qed
  ultimately show ?thesis
    using D b s(1) t a xs by (auto simp: advances_def same_data_def c')
qed

text \<open>The first pass of a batch deletion logs what the second pass deletes.\<close>

lemma log_delete_effect:
  assumes "op_for (log_delete E) xs c = (r, c')"
  shows "same_data c c' \<and> c_saved c' = c_saved c \<and> r = Inr ()"
  using assms
proof (induction xs arbitrary: c)
  case (Cons x xs)
  obtain r1 c1 where c1: "log_delete E x c = (r1, c1)" by fastforce
  then have "same_data c c1 \<and> c_saved c1 = c_saved c \<and> r1 = Inr ()"
    using wal_log_same [of E "WalDelete x 0" c] by (auto simp: log_delete_def split: if_splits)
  then show ?case using Cons.IH [of c1] Cons.prems c1 same_data_trans by (auto simp: op_then_apply)
qed simp

lemma log_delete_logged:
  assumes "codecs_ok E" and "wal_on (wal (c_checkpoint c))" and "stored E c" and "logged E c k D"
    and "dom D \<subseteq> dom (docs E c)" and "op_for (log_delete E) xs c = (r, c')"
  shows "logged E c' k (fold drop_doc xs D)"
  using assms(2-)
proof (induction xs arbitrary: c D)
  case (Cons x xs)
  obtain r1 c1 where c1: "log_delete E x c = (r1, c1)" by fastforce
  have s: "same_data c c1" "r1 = Inr ()"
    using log_delete_effect [of E "[x]" c "Inr ()" c1] c1 by (auto simp: op_then_apply log_delete_def
      dest: wal_log_same split: if_splits)
  have rest: "op_for (log_delete E) xs c1 = (r, c')" using Cons.prems(5) c1 s(2) by (simp add: op_then_apply)
  have l: "logged E c1 k (drop_doc x D)"
  proof (cases "hm_contains (c_index c) x")
    case True
    then have "wal_log E (WalDelete x 0) c = (r1, c1)" using c1 by (simp add: log_delete_def)
    then show ?thesis
      using wal_log_logged [OF assms(1) Cons.prems(1,3) round_trip_delete [OF assms(1)]] by fastforce
  next
    case False
    then have "x \<notin> dom D" using contains_docs [OF Cons.prems(2)] Cons.prems(4) by auto
    then show ?thesis using False c1 Cons.prems(3) by (simp add: log_delete_def drop_doc_absent domIff)
  qed
  have d: "docs E c1 = docs E c" "stored E c1" using same_data_docs [OF s(1), of E] Cons.prems(2) by auto
  have "dom (drop_doc x D) \<subseteq> dom (docs E c1)" using Cons.prems(4) by (auto simp: d(1) drop_doc_def)
  then show ?case
    using Cons.IH [OF _ d(2) l _ rest] Cons.prems(1) s(1) by (simp add: same_data_def)
qed simp

lemma delete_present_effect:
  assumes "stored E c" and "delete_present E xs c = (r, c')"
  shows "(\<exists>n. r = Inr n \<and> (n = 0 \<longrightarrow> c' = c)) \<and> stored E c' \<and> docs E c' = fold drop_doc xs (docs E c)
    \<and> c_store c' = c_store c \<and> c_saved c' = c_saved c \<and> c_checkpoint c' = c_checkpoint c
    \<and> c_config c' = c_config c \<and> index_type_of (c_vindex c') = index_type_of (c_vindex c)
    \<and> (indexed E c \<longrightarrow> indexed E c')"
  using assms
proof (induction xs arbitrary: c r c')
  case Nil
  then show ?case by auto
next
  case (Cons x xs)
  show ?case
  proof (cases "hm_contains (c_index c) x")
    case False
    then have "drop_doc x (docs E c) = docs E c"
      using contains_docs [OF Cons.prems(1)] by (simp add: drop_doc_absent domIff)
    moreover have d: "delete_present E xs c = (r, c')" using Cons.prems(2) False by simp
    ultimately show ?thesis using Cons.IH [OF Cons.prems(1) d] by simp
  next
    case True
    obtain r1 c1 where c1: "delete_internal E x c = (r1, c1)" by fastforce
    note e = delete_internal_effect [OF Cons.prems(1) c1]
    obtain r2 c2 where c2: "delete_present E xs c1 = (r2, c2)" by fastforce
    have "stored E c1" using e by simp
    from Cons.IH [OF this c2] e show ?thesis
      using Cons.prems(2) True c1 c2 by (auto simp: op_then_apply)
  qed
qed

lemma advances_delete_batch:
  assumes "codecs_ok E" and "stored E c" and "delete_batch E xs c = (r, c')"
  shows "(\<exists>n. r = Inr n) \<and> advances E c [] (fold drop_doc xs (docs E c)) c'"
proof -
  let ?D = "fold drop_doc xs (docs E c)"
  obtain r1 c1 where c1: "op_for (log_delete E) xs c = (r1, c1)" by fastforce
  obtain r2 c2 where c2: "delete_present E xs c1 = (r2, c2)" by fastforce
  have s: "same_data c c1" "c_saved c1 = c_saved c" "r1 = Inr ()" using log_delete_effect [OF c1] by auto
  have st: "stored E c1" "docs E c1 = docs E c"
    using same_data_docs [OF s(1), of E] assms(2) by auto
  note e = delete_present_effect [OF st(1) c2]
  have "durable E c2" if "durable E c"
  proof -
    have on: "wal_on (wal (c_checkpoint c))" "wal_enabled (cc_wal (c_config c))" "logged E c 0 (docs E c)"
      using that by (simp_all add: durable_def)
    have "logged E c1 0 ?D" by (rule log_delete_logged [OF assms(1) on(1) assms(2) on(3) _ c1]) simp
    then have "logged E c2 0 ?D" using logged_eq [of c2 c1 E] e by simp
    then show ?thesis using on e st(2) s(1) by (simp add: durable_def same_data_def)
  qed
  then have a: "advances E c [] ?D c2"
    using e st(2) s(1) same_data_indexed [OF s(1), of E]
    by (simp add: advances_def collection_bytes_def same_data_def)
  obtain n where n: "r2 = Inr n" using e by blast
  show ?thesis
  proof (cases "n > 0")
    case True
    obtain r3 c3 where c3: "track_operation E c2 = (r3, c3)" by fastforce
    then have "r = Inr n" "c' = c3"
      using assms(3) c1 c2 s(3) n True track_operation_same [OF c3]
      by (auto simp: delete_batch_def op_then_apply)
    then show ?thesis using advances_tracked [OF assms(1) a c3] by simp
  next
    case False
    then show ?thesis using a assms(3) c1 c2 s(3) n by (auto simp: delete_batch_def op_then_apply)
  qed
qed

section \<open>Every command\<close>

lemma advances_checkpoint:
  assumes "codecs_ok E" and "stored E c" and "checkpoint E c = (r, c')"
  shows "r = Inr () \<and> advances E c [] (docs E c) c'"
proof -
  have s: "same_data c c'" "r = Inr ()" using checkpoint_same [OF assms(3)] by auto
  have "durable E c'" if "durable E c"
  proof -
    have on: "wal_on (wal (c_checkpoint c))" "wal_enabled (cc_wal (c_config c))" "logged E c 0 (docs E c)"
      using that by (simp_all add: durable_def)
    have "0 < next_seq (wal (c_checkpoint c))" using on(3) by (auto simp: logged_def)
    then have "logged E c' 0 (docs E c)" by (rule checkpoint_logged [OF assms(1,2) on(2,1) _ assms(3)])
    then show ?thesis
      using on s same_data_docs [OF s(1), of E] by (simp add: durable_def same_data_def)
  qed
  then show ?thesis
    using s assms(2) same_data_docs [OF s(1), of E] same_data_indexed [OF s(1), of E]
    by (simp add: advances_def collection_bytes_def same_data_def)
qed

lemma advances_run:
  assumes "codecs_ok E" and "stored E c" and "fits E c (written cmd (docs E c))"
    and "run E cmd c = (Inr (), c')"
  shows "advances E c (written cmd (docs E c)) (meaning cmd (docs E c)) c'"
proof (cases cmd)
  case (Insert d)
  then show ?thesis
    using assms advances_insert [OF assms(1,2)] by (auto simp: ignore_result_def op_then_eq_Inr)
next
  case (InsertBatch ds)
  then show ?thesis
    using assms advances_insert_batch [OF assms(1,2)] by (auto simp: ignore_result_def op_then_eq_Inr)
next
  case (Upsert d)
  then show ?thesis
    using assms advances_upsert [OF assms(1,2)] by (auto simp: ignore_result_def op_then_eq_Inr)
next
  case (Delete x)
  then show ?thesis
    using assms advances_delete [OF assms(1,2)] by (auto simp: ignore_result_def op_then_eq_Inr)
next
  case (DeleteBatch xs)
  then show ?thesis
    using assms advances_delete_batch [OF assms(1,2)] by (auto simp: ignore_result_def op_then_eq_Inr)
next
  case (UpdateMetadata x m)
  then obtain b where "update_metadata E x m c = (Inr b, c')"
    using assms(4) by (auto simp: ignore_result_def op_then_eq_Inr)
  then show ?thesis
    using advances_update_metadata [OF assms(1,2) assms(3) [unfolded UpdateMetadata]] UpdateMetadata by simp
next
  case (UpdateVector x v)
  then obtain b where "update_vector E x v c = (Inr b, c')"
    using assms(4) by (auto simp: ignore_result_def op_then_eq_Inr)
  then show ?thesis
    using advances_update_vector [OF assms(1,2) assms(3) [unfolded UpdateVector]] UpdateVector by simp
next
  case Checkpoint
  then show ?thesis using assms advances_checkpoint [OF assms(1,2)] by simp
next
  case Flush
  then have "c' = set_wal wal_flush c" using assms(4) by (simp add: flush_def)
  then have "c' = c" by (simp add: set_wal_def wal_flush_def)
  then show ?thesis using Flush advances_refl [OF assms(2)] by simp
qed

section \<open>A concrete collection\<close>

text \<open>An empty collection with a flat index; the witnesses run on it.\<close>

definition empty_collection :: "nat option \<Rightarrow> blob collection" where
  "empty_collection dims = \<lparr>c_store = \<lparr>rs_file = [], rs_mmap = None, append_cursor = 0\<rparr>, c_index = [],
     c_vindex = FlatIdx (flat_new \<lparr>fc_metric = Cosine, fc_mode = Auto\<rparr>),
     c_cache = cache_new default_cache_config, c_config = default_collection_config,
     c_meta = (collection_metadata_new ''c'' 0)\<lparr>cm_dimensions := dims\<rparr>,
     c_checkpoint = checkpoint_manager_new (wal_new blob_env [] 1),
     c_saved = \<lparr>saved_index = None, saved_vector_index = None, saved_metadata = None, saved_wal_meta = None\<rparr>,
     c_ticks = 0, c_draws = 0\<rparr>"

definition unit_document :: "uuid \<Rightarrow> document" where
  "unit_document x = \<lparr>doc_id = x, doc_vector = [f32_one], doc_text = ''t'', doc_metadata = []\<rparr>"

lemma unit_document_simps [simp]:
  "doc_id (unit_document x) = x" "doc_vector (unit_document x) = [f32_one]" "doc_metadata (unit_document x) = []"
  by (simp_all add: unit_document_def)

lemma empty_collection_docs [simp]: "docs E (empty_collection n) = Map.empty"
  by (rule ext) (simp add: docs_def docs_in_def empty_collection_def)

lemma empty_collection_stored [simp]: "stored E (empty_collection n)"
  by (simp add: stored_def store_ok_def pointers_ok_def empty_collection_def)

lemma empty_collection_indexed [simp]: "indexed blob_env (empty_collection n)"
  unfolding indexed_def empty_collection_docs
  by (simp add: indexed_as_def cache_agrees_def index_agrees_def dims_agree_def empty_collection_def
      index_inv_def default_cache_config_def hm_keys_def) (simp add: cache_new_def)

lemma empty_collection_fits: "fits blob_env (empty_collection n) [d]"
  by (simp add: fits_def empty_collection_def max_u64_def)

lemma store_in_empty:
  assumes "rs_file (c_store c) = []" and "append_cursor (c_store c) = 0"
    and "rs_mmap (c_store c) = None \<or> rs_mmap (c_store c) = Some 0"
  shows "\<exists>s. store_document blob_env d c
   = (Inr (), c\<lparr>c_store := s, c_index := hm_insert (doc_id d) \<lparr>ptr_offset = 0, ptr_length = 1\<rparr> (c_index c)\<rparr>)"
  using assms
  by (auto simp: store_document_def op_then_apply store_bytes_def point_to_def append_def
      grow_if_needed_def sat_mul_def max_u64_def write_at_def pointer_new_def)

text \<open>Inserting the first document into an empty flat collection without limits.\<close>

lemma insert_first:
  assumes "rs_file (c_store c) = []" and "append_cursor (c_store c) = 0"
    and "rs_mmap (c_store c) = None \<or> rs_mmap (c_store c) = Some 0"
    and "cc_limits (c_config c) = default_limits" and "c_vindex c = FlatIdx i"
    and "cm_dimensions (c_meta c) = None \<or> cm_dimensions (c_meta c) = Some 1"
  shows "\<exists>c'. insert_document blob_env (unit_document x) c = (Inr x, c')"
proof -
  obtain c1 where c1: "wal_log blob_env (WalInsert (unit_document x) 0) c = (Inr (), c1)"
    using wal_log_same by (metis prod.exhaust)
  have s: "c_store c1 = c_store c" "cc_limits (c_config c1) = default_limits" "c_vindex c1 = FlatIdx i"
    "cm_dimensions (c_meta c1) = cm_dimensions (c_meta c)"
    using wal_log_same [OF c1] assms by (simp_all add: same_data_def)
  obtain t where t: "store_document blob_env (unit_document x) c1 = (Inr (), c1\<lparr>c_store := t,
      c_index := hm_insert (doc_id (unit_document x)) \<lparr>ptr_offset = 0, ptr_length = 1\<rparr> (c_index c1)\<rparr>)"
    using store_in_empty [of c1 "unit_document x"] assms(1-3) s(1) by auto
  have "\<exists>c2. insert_internal blob_env (unit_document x) c1 = (Inr x, c2)"
    using assms(6)
    by (auto simp: insert_internal_def op_then_apply enforce_single_def s default_limits_def t
        fix_dimensions_def check_dimensions_def on_cache_def set_dimensions_dims validate_dimensions_def
        index_vector_def flat_insert_def on_part_def refresh_count_effect get_vector_def)
  then obtain c2 where c2: "insert_internal blob_env (unit_document x) c1 = (Inr x, c2)" ..
  obtain c3 where c3: "track_operation blob_env c2 = (Inr (), c3)"
    using track_operation_same by (metis prod.exhaust)
  show ?thesis by (simp add: insert_document_def op_then_apply c1 c2 c3)
qed

lemma insert_in_empty: "\<exists>c'. insert_document blob_env (unit_document x) (empty_collection None) = (Inr x, c')"
  by (rule insert_first) (simp_all add: empty_collection_def default_collection_config_def)

section \<open>A collection with one document\<close>

definition one_collection :: "uuid \<Rightarrow> blob collection" where
  "one_collection x = (empty_collection (Some 1))\<lparr>
     c_store := \<lparr>rs_file = [DocBlob (unit_document x)], rs_mmap = None, append_cursor = 1\<rparr>,
     c_index := [(x, \<lparr>ptr_offset = 0, ptr_length = 1\<rparr>)],
     c_vindex := FlatIdx \<lparr>flat_config = \<lparr>fc_metric = DotProduct, fc_mode = Scalar\<rparr>, vector_ids = [x]\<rparr>,
     c_cache := put_vector x [f32_one] (cache_new default_cache_config)\<rparr>"

lemma one_collection_simps [simp]:
  "c_store (one_collection x) = \<lparr>rs_file = [DocBlob (unit_document x)], rs_mmap = None, append_cursor = 1\<rparr>"
  "c_index (one_collection x) = [(x, \<lparr>ptr_offset = 0, ptr_length = 1\<rparr>)]"
  "c_vindex (one_collection x) =
     FlatIdx \<lparr>flat_config = \<lparr>fc_metric = DotProduct, fc_mode = Scalar\<rparr>, vector_ids = [x]\<rparr>"
  "cm_dimensions (c_meta (one_collection x)) = Some 1"
  "c_cache (one_collection x) = \<lparr>cm_config = default_cache_config, cm_vectors = [(x, [f32_one])],
     cm_metadata = [], metadata_order = []\<rparr>"
  by (simp_all add: one_collection_def empty_collection_def put_vector_def cache_new_def hm_insert_def)

lemma read_one_collection [simp]:
  "read_document blob_env \<lparr>ptr_offset = 0, ptr_length = Suc 0\<rparr>
     \<lparr>rs_file = [DocBlob (unit_document x)], rs_mmap = None, append_cursor = n\<rparr> = Inr (unit_document x)"
  by (simp add: read_document_def read_bytes_def read_range_def)

lemma one_collection_docs [simp]: "docs blob_env (one_collection x) = [x \<mapsto> unit_document x]"
  by (rule ext) (simp add: docs_def docs_in_def hm_get_def)

lemma one_collection_stored [simp]: "stored blob_env (one_collection x)"
  by (auto simp: stored_def store_ok_def pointers_ok_def hm_get_def hm_ok_def hm_keys_def in_store_def
      split: if_splits)

lemma one_collection_indexed [simp]: "indexed blob_env (one_collection x)"
  unfolding indexed_def one_collection_docs indexed_as_def cache_agrees_def
  by (simp add: index_agrees_def dims_agree_def index_inv_def hm_keys_def hm_get_def cache_ok_def hm_ok_def
      flat_ok_def flat_ids_def default_cache_config_def)

section \<open>Properties\<close>

text \<open>
  C4. Every writing operation implements its meaning on the map from ids to documents: whichever
  command returns, on whatever index, the collection afterwards holds exactly the documents
  the command means, each readable by its id, and the cache and vector index again agree with them.
\<close>

theorem commands_refine:
  assumes "codecs_ok E" and "stored E c" and "indexed E c" and "fits E c (written cmd (docs E c))"
    and "run E cmd c = (Inr (), c')"
  shows "stored E c' \<and> indexed E c' \<and> (\<forall>x. get E x c' = Inr (meaning cmd (docs E c) x))"
  using advances_run [OF assms(1,2,4,5)] assms(3) get_docs [of E c'] by (simp add: advances_def)

theorem commands_refine_witness:
  "\<exists>c'. run blob_env (Insert (unit_document 5)) (empty_collection None) = (Inr (), c')
     \<and> get blob_env 5 c' = Inr (Some (unit_document 5)) \<and> get blob_env 6 c' = Inr None"
proof -
  obtain c' where "insert_document blob_env (unit_document 5) (empty_collection None) = (Inr 5, c')"
    using insert_in_empty by blast
  then have r: "run blob_env (Insert (unit_document 5)) (empty_collection None) = (Inr (), c')"
    by (simp add: ignore_result_def op_then_Inr)
  have "\<forall>x. get blob_env x c' = Inr (meaning (Insert (unit_document 5)) Map.empty x)"
    using commands_refine [OF _ _ _ _ r] empty_collection_fits by simp
  then show ?thesis using r by (simp add: put_doc_def)
qed

text \<open>
  A deleted document is gone from every view: after a deletion that returned, reading the id
  finds nothing, and no vector search in the collection, of any index type and with any filter,
  answers with it or with anything else that is not stored.
\<close>

theorem deleted_is_gone:
  assumes "codecs_ok E" and "stored E c" and "indexed E c" and "delete_document E x c = (r, c')"
    and "index_search E q k (cm_vectors (c_cache c')) quality f (cm_metadata (c_cache c')) (c_vindex c') = Inr found"
  shows "r = Inr (docs E c x \<noteq> None) \<and> get E x c' = Inr None
    \<and> set found \<subseteq> dom (docs E c) - {x} \<and> length found \<le> k \<and> distinct found"
proof -
  have a: "r = Inr (x \<in> dom (docs E c))" "advances E c [] (drop_doc x (docs E c)) c'"
    using advances_delete [OF assms(1,2,4)] by auto
  have i: "index_inv E (c_vindex c')" "index_ids (c_vindex c') = dom (docs E c')"
    using a(2) assms(3) by (auto simp: advances_def indexed_def indexed_as_def index_agrees_def)
  have "get E x c' = Inr None" using a(2) get_docs [of E c'] by (simp add: advances_def drop_doc_def)
  then show ?thesis
    using any.search_sound [OF i(1) assms(5)] a i(2) by (auto simp: advances_def drop_doc_def domIff)
qed

theorem deleted_is_gone_witness:
  "\<exists>c' c''. insert_document blob_env (unit_document 5) (empty_collection None) = (Inr 5, c')
     \<and> delete_document blob_env 5 c' = (Inr True, c'') \<and> get blob_env 5 c'' = Inr None"
proof -
  obtain c' where i: "insert_document blob_env (unit_document 5) (empty_collection None) = (Inr 5, c')"
    using insert_in_empty by blast
  have a: "advances blob_env (empty_collection None) [unit_document 5] [5 \<mapsto> unit_document 5] c'"
    using advances_insert [OF _ _ empty_collection_fits i] by (simp add: put_doc_def unit_document_def)
  obtain r c'' where d: "delete_document blob_env 5 c' = (r, c'')" by fastforce
  have ok: "stored blob_env c'" "indexed blob_env c'" "docs blob_env c' = [5 \<mapsto> unit_document 5]"
    using a by (simp_all add: advances_def)
  have b: "advances blob_env c' [] Map.empty c''"
    using advances_delete [OF _ ok(1) d] ok(3) by (simp add: drop_doc_def)
  have "index_type_of (c_vindex c'') = index_type_of (c_vindex (empty_collection None))"
    using a b by (simp add: advances_def)
  also have "\<dots> = Flat" by (simp add: empty_collection_def)
  finally have t: "index_type_of (c_vindex c'') = Flat" .
  have "indexed blob_env c''" "docs blob_env c'' = Map.empty" using b ok(2) by (simp_all add: advances_def)
  then have "index_ids (c_vindex c'') = {}" by (simp add: indexed_def indexed_as_def index_agrees_def)
  with t have s: "index_search blob_env [f32_one] 3 (cm_vectors (c_cache c'')) default_search_config None
      (cm_metadata (c_cache c'')) (c_vindex c'') = Inr []"
    by (cases "c_vindex c''") (simp_all add: flat_ids_def flat_search_def best_ids_def)
  show ?thesis
    using deleted_is_gone [OF _ ok(1,2) d s] i d ok(3) by simp
qed

text \<open>
  An insertion that fails is not undone. A document whose vector has not the collection's
  dimension is rejected with an error, but only after it was logged, appended and indexed by id:
  reading the id afterwards returns the rejected document.
\<close>

theorem rejected_insert_visible:
  assumes "codecs_ok E" and "stored E c" and "fits E c [d]"
    and "enforce_single (length (enc_doc E d)) c = Inr ()"
    and "cm_dimensions (c_meta c) = Some n" and "length (doc_vector d) \<noteq> n"
  shows "\<exists>e c'. insert_document E d c = (Inl (Failed e), c') \<and> status_code e = 400
    \<and> get E (doc_id d) c' = Inr (Some d) \<and> c_vindex c' = c_vindex c"
proof -
  obtain c1 where c1: "wal_log E (WalInsert d 0) c = (Inr (), c1)"
    using wal_log_same by (metis prod.exhaust)
  have s: "same_data c c1" using wal_log_same [OF c1] by simp
  have st: "stored E c1" using same_data_stored [OF s assms(2)] .
  have f: "fits E c1 [d]" using assms(3) by (simp add: fits_same [OF s])
  obtain r2 c2 where c2: "store_document E d c1 = (r2, c2)" by fastforce
  obtain t p where t: "r2 = Inr ()" "c2 = c1\<lparr>c_store := t, c_index := hm_insert (doc_id d) p (c_index c1)\<rparr>"
    "stored E c2" "docs E c2 = put_doc d (docs E c1)"
    using store_bytes_effect [OF assms(1) st f c2 [unfolded store_document_def]] by blast
  have en: "enforce_single (length (enc_doc E d)) c1 = Inr ()"
    using assms(4) enforce_single_same [OF s] by simp
  have m: "set_dimensions k (c_meta c1) = c_meta c1" "cm_dimensions (c_meta c1) = Some n" for k
    using assms(5) s by (simp_all add: set_dimensions_def same_data_def)
  obtain e where e: "validate_dimensions (doc_vector d) n = Inl (Failed e)" "status_code e = 400"
    using assms(6) by (auto simp: validate_dimensions_def invalid_request_def fail_def)
  have "insert_document E d c = (Inl (Failed e), c2)"
    using c1 c2 t(1,2) en m e(1)
    by (simp add: insert_document_def insert_internal_def op_then_apply fix_dimensions_def
        check_dimensions_def get_vector_def)
  moreover have "get E (doc_id d) c2 = Inr (Some d)"
    using get_docs [OF t(3)] t(4) by (simp add: put_doc_def)
  ultimately show ?thesis using e(2) t(2) s by (simp add: same_data_def)
qed

theorem rejected_insert_visible_witness:
  "\<exists>e c'. insert_document blob_env (unit_document 5) (empty_collection (Some 2)) = (Inl (Failed e), c')
     \<and> get blob_env 5 c' = Inr (Some (unit_document 5))"
proof -
  have "enforce_single (length (enc_doc blob_env (unit_document 5))) (empty_collection (Some 2)) = Inr ()"
    by (simp add: enforce_single_def empty_collection_def default_collection_config_def default_limits_def)
  moreover have "cm_dimensions (c_meta (empty_collection (Some 2))) = Some 2" by (simp add: empty_collection_def)
  ultimately have "\<exists>e c'. insert_document blob_env (unit_document 5) (empty_collection (Some 2)) = (Inl (Failed e), c')
      \<and> status_code e = 400 \<and> get blob_env (doc_id (unit_document 5)) c' = Inr (Some (unit_document 5))
      \<and> c_vindex c' = c_vindex (empty_collection (Some 2))"
    using rejected_insert_visible [of blob_env "empty_collection (Some 2)" "unit_document 5" 2]
      empty_collection_fits by (simp add: unit_document_def)
  then show ?thesis by simp blast
qed

end
