(* ===== verification/Recovery.thy ===== *)
theory Recovery
  imports Collection_Refinement
begin

text \<open>
  Opening a collection, \<^verbatim>\<open>src/src/collections/builder.rs\<close>: loading what was saved,
  replaying the log, rebuilding the vector index and the cache. A crash loses the collection and
  keeps its files, the \<open>disk\<close>; opening starts from it, and leaves a disk behind when it fails.
\<close>

section \<open>Disks\<close>

record 'b disk =
  d_data :: "'b list"
  d_wal :: "'b list list"
  d_saved :: "'b saved"

definition disk_of :: "'b collection \<Rightarrow> 'b disk" where
  "disk_of c = \<lparr>d_data = rs_file (c_store c), d_wal = wal_lines (wal (c_checkpoint c)),
     d_saved = c_saved c\<rparr>"

definition no_files :: "'b disk" where
  "no_files = \<lparr>d_data = [], d_wal = [], d_saved = \<lparr>saved_index = None, saved_vector_index = None,
     saved_metadata = None, saved_wal_meta = None\<rparr>\<rparr>"

section \<open>Replaying the log\<close>

fun replay_entry :: "'b env \<Rightarrow> wal_entry \<Rightarrow> ('b, unit) collection_op" where
  "replay_entry E (WalInsert d _) = ignore_result (insert_internal E d)"
| "replay_entry E (WalUpdate d _) =
     op_then (delete_internal E (doc_id d)) (\<lambda>_. ignore_result (insert_internal E d))"
| "replay_entry E (WalDelete x _) = delete_internal E x"
| "replay_entry E (WalCheckpoint _ _) = op_return ()"

definition replay_wal :: "'b env \<Rightarrow> wal_entry list \<Rightarrow> ('b, unit) collection_op" where
  "replay_wal E es = op_for (replay_entry E) es"

definition recover :: "'b env \<Rightarrow> wal_entry list \<Rightarrow> ('b, unit) collection_op" where
  "recover E es =
     op_then (replay_wal E es) (\<lambda>_.
     op_then (rebuild_vector_cache E) (\<lambda>_.
     checkpoint E))"

section \<open>Rebuilding the vector index\<close>

definition vectors_of :: "(uuid \<times> document) list \<Rightarrow> vectors" where
  "vectors_of ds = fold (\<lambda>(x, d). hm_insert x (get_vector d)) ds []"

text \<open>Inserting every vector of a map, in hash order, with a draw for each.\<close>

definition fill_index :: "'b env \<Rightarrow> vectors \<Rightarrow> (any_index \<times> nat, fault, unit) op" where
  "fill_index E vs = op_for (\<lambda>(x, v). \<lambda>(i, k).
     case index_insert E (rand_f32 E k) x v vs i of (r, j) \<Rightarrow> (r, (j, k + 1))) (reader_iter E vs)"

definition rebuild_vector_index :: "'b env \<Rightarrow> ('b, unit) collection_op" where
  "rebuild_vector_index E =
     op_then (op_read (collect_documents E)) (\<lambda>ds. \<lambda>c.
     case fill_index E (vectors_of ds) (c_vindex c, c_draws c) of
       (r, (i, k)) \<Rightarrow> (r, c\<lparr>c_vindex := i, c_draws := k\<rparr>))"

section \<open>Opening\<close>

definition opened_metadata ::
  "'b env \<Rightarrow> string \<Rightarrow> nat \<Rightarrow> nat \<Rightarrow> collection_metadata option \<Rightarrow> collection_metadata" where
  "opened_metadata E name tick n m =
     (case m of
        None \<Rightarrow> collection_metadata_new name (now_secs E tick)
      | Some m \<Rightarrow> update_vector_count n (now_secs E tick) m)"

definition opened_wal :: "'b env \<Rightarrow> collection_config \<Rightarrow> nat \<Rightarrow> 'b list list \<Rightarrow> 'b wal" where
  "opened_wal E cfg min_seq file =
     (if wal_enabled (cc_wal cfg) then wal_new E file (min_seq + 1) else wal_off file (min_seq + 1))"

definition finish_open :: "'b env \<Rightarrow> bool \<Rightarrow> ('b, unit) collection_op" where
  "finish_open E vindex_missing = (\<lambda>c.
     op_then (if c_index c \<noteq> [] \<and> vindex_missing then rebuild_vector_index E else op_return ())
       (\<lambda>_. rebuild_vector_cache E) c)"

text \<open>
  \<^verbatim>\<open>CollectionBuilder::open\<close>, with the clock and the random source at the given positions.
\<close>

definition open_collection ::
  "'b env \<Rightarrow> string \<Rightarrow> collection_config \<Rightarrow> nat \<Rightarrow> nat
     \<Rightarrow> ('b disk, fault, 'b collection) op" where
  "open_collection E name cfg tick draw = (\<lambda>d.
     case load_index E (d_saved d) of Inl e \<Rightarrow> (Inl e, d) | Inr i \<Rightarrow>
     let s = store_open E (d_data d) cfg i; d1 = d\<lparr>d_data := rs_file s\<rparr> in
     case load_metadata E (d_saved d) of Inl e \<Rightarrow> (Inl e, d1) | Inr m \<Rightarrow>
     case load_vector_index E (d_saved d) of Inl e \<Rightarrow> (Inl e, d1) | Inr v \<Rightarrow>
     case (if wal_enabled (cc_wal cfg) then load_wal_meta E (d_saved d) else Inr 0) of
       Inl e \<Rightarrow> (Inl e, d1) | Inr min_seq \<Rightarrow>
     let w = opened_wal E cfg min_seq (d_wal d); d2 = d1\<lparr>d_wal := wal_lines w\<rparr> in
     case replay E min_seq w of Inl e \<Rightarrow> (Inl e, d2) | Inr es \<Rightarrow>
     let c = \<lparr>c_store = s, c_index = i,
           c_vindex = (case v of None \<Rightarrow> create_index E (cc_index cfg) (length i) | Some j \<Rightarrow> j),
           c_cache = cache_new (cc_cache cfg), c_config = cfg,
           c_meta = opened_metadata E name tick (length i) m,
           c_checkpoint = checkpoint_manager_new w, c_saved = d_saved d,
           c_ticks = tick + 1, c_draws = draw\<rparr> in
     case (if es \<noteq> [] then recover E es else finish_open E (v = None)) c of
       (Inl e, c') \<Rightarrow> (Inl e, disk_of c')
     | (Inr _, c') \<Rightarrow> (Inr c', disk_of c'))"

section \<open>Reopening the data file\<close>

lemma next_append_offset_ge: "(x, p) \<in> set i \<Longrightarrow> ptr_offset p + ptr_length p \<le> next_append_offset i"
  by (force simp: next_append_offset_def intro: Max_ge)

lemma hm_get_set: "hm_get i x = Some p \<Longrightarrow> (x, p) \<in> set i"
  by (simp add: hm_get_def map_of_SomeD)

lemma ensure_file_size_props:
  "length f \<le> length (ensure_file_size z n f)"
  "off + k \<le> length f \<Longrightarrow> read_range off k (ensure_file_size z n f) = read_range off k f"
  by (auto simp: ensure_file_size_def read_set_len)

text \<open>The cursor is put behind the last indexed record, and the indexed records read as before.\<close>

lemma store_open_pointers:
  assumes "store_ok s" and "pointers_ok E s i"
  shows "store_ok (store_open E (rs_file s) cfg i)" and "pointers_ok E (store_open E (rs_file s) cfg i) i"
    and "docs_in E (store_open E (rs_file s) cfg i) i = docs_in E s i"
proof -
  let ?t = "store_open E (rs_file s) cfg i"
  have in_s: "in_store s p" if "hm_get i x = Some p" for x p
    using assms(2) that by (auto simp: pointers_ok_def)
  have infile: "ptr_offset p + ptr_length p \<le> length (rs_file s)" if "hm_get i x = Some p" for x p
    using in_s [OF that] assms(1) by (simp add: in_store_def store_ok_def)
  have "next_append_offset i \<le> length (rs_file s)"
    using next_append_offset_le infile hm_ok_get assms(2) by (metis pointers_ok_def)
  then have "next_append_offset i \<le> length (ensure_file_size (zero_byte E) (initial_size cfg) (rs_file s))"
    using ensure_file_size_props(1) by (rule le_trans)
  then show ok: "store_ok ?t"
    by (auto simp: store_ok_def store_open_def)
  have same: "read_document E p ?t = read_document E p s" if "hm_get i x = Some p" for x p
    using infile [OF that] le_trans [OF infile [OF that] ensure_file_size_props(1)]
      ensure_file_size_props(2) [OF infile [OF that]]
    by (auto simp: read_document_def read_bytes_def store_open_def split: option.splits)
  have "in_store ?t p" if "hm_get i x = Some p" for x p
    using next_append_offset_ge [OF hm_get_set [OF that]] by (simp add: in_store_def store_open_def)
  then show "pointers_ok E ?t i" using assms(2) same by (simp add: pointers_ok_def)
  show "docs_in E ?t i = docs_in E s i"
    by (rule ext) (simp add: docs_in_def same split: option.split)
qed

section \<open>What replay restores\<close>

lemma replay_entry_effect:
  assumes "codecs_ok E" and "stored E c" and "fits E c (entry_documents e)"
    and "replay_entry E e c = (Inr u, c')"
  shows "stored E c' \<and> docs E c' = apply_entry e (docs E c) \<and> c_saved c' = c_saved c \<and>
    c_checkpoint c' = c_checkpoint c \<and> c_config c' = c_config c \<and>
    append_cursor (c_store c') = append_cursor (c_store c) + collection_bytes E (entry_documents e)"
proof (cases e)
  case (WalInsert d n)
  with assms(3,4) insert_internal_effect [OF assms(1,2), of d] show ?thesis
    by (auto simp: ignore_result_def op_then_eq_Inr collection_bytes_def)
next
  case (WalUpdate d n)
  obtain c1 where c1: "delete_internal E (doc_id d) c = (Inr (), c1)"
    and c2: "ignore_result (insert_internal E d) c1 = (Inr u, c')"
    using assms(4) by (auto simp: WalUpdate op_then_eq_Inr)
  note e = delete_internal_effect [OF assms(2) c1]
  have st: "stored E c1" using e by blast
  have f: "fits E c1 [d]" using assms(3) e by (simp add: fits_def WalUpdate)
  obtain x where x: "insert_internal E d c1 = (Inr x, c')"
    using c2 by (auto simp: ignore_result_def op_then_eq_Inr)
  show ?thesis
    using insert_internal_effect [OF assms(1) st f x] e
    by (simp add: WalUpdate collection_bytes_def put_drop_doc)
next
  case (WalDelete x n)
  then show ?thesis
    using delete_internal_effect [OF assms(2), of x] assms(4) by (simp add: collection_bytes_def)
next
  case (WalCheckpoint t n)
  then show ?thesis using assms by (simp add: collection_bytes_def)
qed

lemma fits_append:
  "fits E c (ds @ es) \<Longrightarrow> fits E c ds"
  "fits E c (ds @ es) \<Longrightarrow> append_cursor (c_store c') = append_cursor (c_store c) + collection_bytes E ds
   \<Longrightarrow> fits E c' es"
  by (auto simp: fits_def collection_bytes_def)

lemma replay_wal_effect:
  assumes "codecs_ok E" and "stored E c" and "fits E c (log_documents es)"
    and "replay_wal E es c = (Inr u, c')"
  shows "stored E c' \<and> docs E c' = fold apply_entry es (docs E c) \<and> c_saved c' = c_saved c \<and>
    c_checkpoint c' = c_checkpoint c \<and> c_config c' = c_config c \<and>
    append_cursor (c_store c') = append_cursor (c_store c) + collection_bytes E (log_documents es)"
  using assms(2-)
proof (induction es arbitrary: c)
  case Nil
  then show ?case by (simp add: replay_wal_def)
next
  case (Cons e es)
  obtain c1 where c1: "replay_entry E e c = (Inr (), c1)" and rest: "replay_wal E es c1 = (Inr u, c')"
    using Cons.prems(3) by (auto simp: replay_wal_def op_then_eq_Inr)
  have f: "fits E c (entry_documents e @ log_documents es)"
    using Cons.prems(2) by simp
  note r = replay_entry_effect [OF assms(1) Cons.prems(1) fits_append(1) [OF f] c1]
  have "stored E c1" "fits E c1 (log_documents es)" using r fits_append(2) [OF f] by auto
  from Cons.IH [OF this rest] r show ?case by simp
qed

text \<open>Rebuilding touches neither the documents nor the disk.\<close>

definition same_documents :: "'b collection \<Rightarrow> 'b collection \<Rightarrow> bool" where
  "same_documents c c' \<longleftrightarrow> c_store c' = c_store c \<and> c_index c' = c_index c \<and> c_saved c' = c_saved c \<and>
     c_checkpoint c' = c_checkpoint c \<and> c_config c' = c_config c"

lemma same_documents_trans: "same_documents c d \<Longrightarrow> same_documents d e \<Longrightarrow> same_documents c e"
  by (simp add: same_documents_def)

lemma same_documents_docs: "same_documents c c' \<Longrightarrow> docs E c' = docs E c \<and> stored E c' = stored E c"
  by (rule stored_eq) (simp_all add: same_documents_def)

lemma rebuild_vector_cache_same: "rebuild_vector_cache E c = (r, c') \<Longrightarrow> same_documents c c'"
  by (cases "collect_documents E c")
    (auto simp: rebuild_vector_cache_def op_then_apply same_documents_def)

lemma rebuild_vector_index_same: "rebuild_vector_index E c = (r, c') \<Longrightarrow> same_documents c c'"
  by (cases "collect_documents E c")
    (auto simp: rebuild_vector_index_def op_then_apply same_documents_def split: prod.splits)

lemma finish_open_same:
  assumes "finish_open E b c = (r, c')"
  shows "same_documents c c'"
proof -
  let ?m = "if c_index c \<noteq> [] \<and> b then rebuild_vector_index E else op_return ()"
  obtain r1 c1 where c1: "?m c = (r1, c1)" by fastforce
  then have "same_documents c c1"
    using rebuild_vector_index_same [of E c] by (auto simp: same_documents_def split: if_splits)
  moreover have "same_documents c1 c'"
    using assms c1 rebuild_vector_cache_same [of E c1]
    by (cases r1) (auto simp: finish_open_def op_then_apply same_documents_def)
  ultimately show ?thesis by (rule same_documents_trans)
qed

section \<open>Reopening\<close>

text \<open>What is on the disk of a collection gives the map \<open>D\<close>, and replaying it has room.\<close>

definition recoverable :: "'b env \<Rightarrow> 'b disk \<Rightarrow> doc_map \<Rightarrow> bool" where
  "recoverable E d D \<longleftrightarrow>
     (\<exists>s i m es. rs_file s = d_data d \<and> store_ok s \<and> load_index E (d_saved d) = Inr i \<and> pointers_ok E s i \<and>
        load_wal_meta E (d_saved d) = Inr m \<and> replay_lines E m (d_wal d) = Inr es \<and>
        next_append_offset i + collection_bytes E (log_documents es) \<le> max_u64 \<and>
        short_records E (log_documents es) \<and>
        fold apply_entry es (docs_in E s i) = D)"

lemma open_recovers:
  assumes "codecs_ok E" and "wal_enabled (cc_wal cfg)" and "recoverable E d D"
    and "open_collection E name cfg tick draw d = (Inr c, d')"
  shows "stored E c \<and> docs E c = D \<and> durable E c \<and> c_config c = cfg \<and> d' = disk_of c
    \<and> append_cursor (c_store c) \<le> max_u64"
proof -
  obtain s i m es where s: "rs_file s = d_data d" "store_ok s" "load_index E (d_saved d) = Inr i" "pointers_ok E s i"
    "load_wal_meta E (d_saved d) = Inr m" "replay_lines E m (d_wal d) = Inr es"
    "next_append_offset i + collection_bytes E (log_documents es) \<le> max_u64"
    "short_records E (log_documents es)"
    "fold apply_entry es (docs_in E s i) = D"
    using assms(3) by (auto simp: recoverable_def)
  let ?w = "wal_new E (d_wal d) (m + 1)"
  have w: "opened_wal E cfg m (d_wal d) = ?w" by (simp add: opened_wal_def assms(2))
  have rp: "replay E m ?w = Inr es" by (rule replay_wal_new [OF assms(1) s(6)])
  obtain v mo where v: "load_vector_index E (d_saved d) = Inr v" and mo: "load_metadata E (d_saved d) = Inr mo"
    using assms(4) s(3) by (auto simp: open_collection_def Let_def split: sum.splits)
  let ?t = "store_open E (rs_file s) cfg i"
  let ?c = "\<lparr>c_store = ?t, c_index = i,
      c_vindex = (case v of None \<Rightarrow> create_index E (cc_index cfg) (length i) | Some j \<Rightarrow> j),
      c_cache = cache_new (cc_cache cfg), c_config = cfg,
      c_meta = opened_metadata E name tick (length i) mo,
      c_checkpoint = checkpoint_manager_new ?w, c_saved = d_saved d,
      c_ticks = tick + 1, c_draws = draw\<rparr>"
  have run: "(if es \<noteq> [] then recover E es else finish_open E (v = None)) ?c = (Inr (), c)" and d': "d' = disk_of c"
    using assms(4) s(1,3,5) v mo w rp assms(2)
    by (auto simp: open_collection_def Let_def split: sum.splits prod.splits)
  note o = store_open_pointers [OF s(2,4), of cfg]
  have c0: "stored E ?c" "docs E ?c = docs_in E s i" using o by (simp_all add: stored_def docs_def)
  show ?thesis
  proof (cases "es = []")
    case True
    then have sd: "same_documents ?c c" using run finish_open_same [of E "v = None" ?c] by auto
    have st: "stored E c" "docs E c = D" using same_documents_docs [OF sd, of E] c0 s(9) True by simp_all
    have "replay_lines E m (wal_lines ?w) = Inr []" using rp True by (simp add: replay_def)
    then have "logged E c 0 (docs E c)"
      using s(3,5) o(2,3) s(9) True sd st(2) next_append_offset_stored [OF o(2)]
      by (auto simp: logged_def same_documents_def checkpoint_manager_new_def)
    moreover have "append_cursor (c_store c) \<le> max_u64"
      using s(7) sd by (simp add: same_documents_def store_open_def)
    ultimately show ?thesis
      using st d' assms(2) sd by (simp add: durable_def same_documents_def checkpoint_manager_new_def)
  next
    case False
    obtain c1 c2 where c1: "replay_wal E es ?c = (Inr (), c1)" and c2: "rebuild_vector_cache E c1 = (Inr (), c2)"
      and c3: "checkpoint E c2 = (Inr (), c)"
      using run False by (auto simp: recover_def op_then_eq_Inr)
    have f: "fits E ?c (log_documents es)" using s(7,8) by (simp add: fits_def store_open_def)
    note r = replay_wal_effect [OF assms(1) c0(1) f c1]
    have k: "same_documents c1 c2" using rebuild_vector_cache_same [OF c2] .
    have st: "stored E c2" "docs E c2 = D" using same_documents_docs [OF k, of E] r c0(2) s(9) by simp_all
    have "logged E c 0 (docs E c2)"
      by (rule checkpoint_logged [OF assms(1) st(1) _ _ _ c3])
        (use r assms(2) k in \<open>simp_all add: same_documents_def checkpoint_manager_new_def\<close>)
    moreover have sd: "same_data c2 c" using checkpoint_same [OF c3] by simp
    moreover have "append_cursor (c_store c) \<le> max_u64"
      using r k sd s(7) by (simp add: same_data_def same_documents_def store_open_def)
    ultimately show ?thesis
      using st d' assms(2) r same_data_docs [OF sd, of E]
      using k by (simp add: durable_def same_data_def same_documents_def checkpoint_manager_new_def)
  qed
qed

section \<open>Histories\<close>

text \<open>
  The states a collection goes through from its first opening: commands that returned, and
  crashes followed by a reopening with the same configuration. \<open>D\<close> is what its users were told
  it holds.
\<close>

inductive history :: "'b env \<Rightarrow> collection_config \<Rightarrow> 'b collection \<Rightarrow> doc_map \<Rightarrow> bool"
  for E cfg where
  created: "open_collection E name cfg tick draw no_files = (Inr c, d) \<Longrightarrow> history E cfg c Map.empty"
| returned: "history E cfg c D \<Longrightarrow> run E cmd c = (Inr (), c') \<Longrightarrow> fits E c (written cmd D) \<Longrightarrow>
    \<forall>d \<in> set (written cmd D). loggable E d \<Longrightarrow> history E cfg c' (meaning cmd D)"
| crashed: "history E cfg c D \<Longrightarrow> open_collection E name cfg tick draw (disk_of c) = (Inr c', d) \<Longrightarrow>
    history E cfg c' D"

lemma durable_recoverable:
  assumes "stored E c" and "durable E c" and "append_cursor (c_store c) \<le> max_u64"
  shows "recoverable E (disk_of c) (docs E c)"
  using assms by (fastforce simp: durable_def logged_def recoverable_def disk_of_def stored_def)

lemma no_files_recoverable: "recoverable E no_files Map.empty"
  unfolding recoverable_def
  by (rule exI [of _ "\<lparr>rs_file = [], rs_mmap = None, append_cursor = 0\<rparr>"])
    (auto simp: no_files_def load_index_def load_wal_meta_def pointers_ok_def store_ok_def docs_in_def
      next_append_offset_def)

text \<open>Every state of a history holds what its users were told, in memory and on disk.\<close>

lemma history_durable:
  assumes "history E cfg c D" and "codecs_ok E" and "wal_enabled (cc_wal cfg)"
  shows "stored E c \<and> docs E c = D \<and> durable E c \<and> c_config c = cfg \<and> append_cursor (c_store c) \<le> max_u64"
  using assms(1)
proof (induction rule: history.induct)
  case (created name tick draw c d)
  then show ?case using open_recovers [OF assms(2,3) no_files_recoverable] by blast
next
  case (returned c D cmd c')
  have "advances E c (written cmd D) (meaning cmd D) c'"
    using advances_run [OF assms(2), of c cmd c'] returned by simp
  then show ?case using returned by (auto simp: advances_def fits_def)
next
  case (crashed c D name tick draw c' d)
  have "recoverable E (disk_of c) D" using durable_recoverable [of E c] crashed.IH by simp
  then show ?case using open_recovers [OF assms(2,3) _ crashed.hyps(2)] by blast
qed

section \<open>Properties\<close>

text \<open>
  C3. Nothing that was acknowledged is lost. After any history of commands that returned and
  crashes at any point between them, the collection reads back exactly the documents the commands
  mean, and so does the collection reopened from what the next crash leaves on disk.
\<close>

theorem documents_survive_crashes:
  assumes "codecs_ok E" and "wal_enabled (cc_wal cfg)" and "history E cfg c D"
  shows "(\<forall>x. get E x c = Inr (D x)) \<and>
    (\<forall>name tick draw c' d. open_collection E name cfg tick draw (disk_of c) = (Inr c', d) \<longrightarrow>
       (\<forall>x. get E x c' = Inr (D x)))"
proof -
  have "stored E c \<and> docs E c = D" using history_durable [OF assms(3,1,2)] by simp
  moreover have "stored E c' \<and> docs E c' = D"
    if "open_collection E name cfg tick draw (disk_of c) = (Inr c', d)" for name tick draw c' d
    using history_durable [OF history.crashed [OF assms(3) that] assms(1,2)] by simp
  ultimately show ?thesis using get_docs by metis
qed

definition small_config :: collection_config where
  "small_config = default_collection_config\<lparr>cc_memory := default_memory_config\<lparr>initial_mmap_size := 0\<rparr>\<rparr>"

lemma open_small:
  "\<exists>c d. open_collection blob_env ''c'' small_config 0 0 no_files = (Inr c, d)
     \<and> rs_file (c_store c) = [] \<and> append_cursor (c_store c) = 0 \<and> rs_mmap (c_store c) = Some 0
     \<and> c_config c = small_config \<and> (\<exists>i. c_vindex c = FlatIdx i) \<and> cm_dimensions (c_meta c) = None"
  by (simp add: open_collection_def no_files_def load_index_def Let_def load_metadata_def
      load_vector_index_def small_config_def default_collection_config_def default_wal_config_def
      load_wal_meta_def opened_wal_def replay_def wal_new_def ensure_header_def store_open_def
      initial_size_def default_memory_config_def ensure_file_size_def next_append_offset_def
      finish_open_def rebuild_vector_cache_def collect_documents_def hm_iter_def hm_keys_def
      op_then_apply create_index_def default_index_config_def default_auto_index_def
      opened_metadata_def collection_metadata_new_def wal_version_def replay_lines.simps(2))

theorem documents_survive_crashes_witness:
  "\<exists>c c'. history blob_env small_config c' [5 \<mapsto> unit_document 5]
     \<and> run blob_env (Insert (unit_document 5)) c = (Inr (), c')
     \<and> get blob_env 5 c' = Inr (Some (unit_document 5))"
proof -
  obtain c d where c: "open_collection blob_env ''c'' small_config 0 0 no_files = (Inr c, d)"
    "rs_file (c_store c) = []" "append_cursor (c_store c) = 0" "rs_mmap (c_store c) = Some 0"
    "c_config c = small_config" "\<exists>i. c_vindex c = FlatIdx i" "cm_dimensions (c_meta c) = None"
    using open_small by blast
  obtain c' where "insert_document blob_env (unit_document 5) c = (Inr 5, c')"
    using insert_first [OF c(2,3), of _ 5] c(4-7) by (auto simp: small_config_def default_collection_config_def)
  then have r: "run blob_env (Insert (unit_document 5)) c = (Inr (), c')"
    by (simp add: ignore_result_def op_then_Inr)
  have "history blob_env small_config c' (meaning (Insert (unit_document 5)) Map.empty)"
    by (rule history.returned [OF history.created [OF c(1)] r])
      (use c(3) in \<open>auto simp: fits_def max_u64_def loggable_def\<close>)
  then have h: "history blob_env small_config c' [5 \<mapsto> unit_document 5]" by (simp add: put_doc_def)
  have "wal_enabled (cc_wal small_config)"
    by (simp add: small_config_def default_collection_config_def default_wal_config_def)
  then have "get blob_env 5 c' = Inr (Some (unit_document 5))"
    using documents_survive_crashes [OF _ _ h] by simp
  then show ?thesis using h r by blast
qed

end
