(* ===== verification/Maintenance.thy ===== *)
theory Maintenance
  imports Recovery
begin

text \<open>
  Maintenance of a collection: rebuilding the vector index
  (\<^verbatim>\<open>Collection::rebuild_index\<close> in \<^verbatim>\<open>src/src/collections/collection.rs\<close>)
  and compacting the data file (\<^verbatim>\<open>compact.rs\<close>). Compaction is split at its
  \<^verbatim>\<open>rename\<close>: \<open>rewrite\<close> builds the new file and indexes beside the old ones,
  \<open>install_rewritten\<close> puts them in place.
\<close>

section \<open>Rebuilding the index\<close>

definition install_index :: "'b env \<Rightarrow> any_index \<Rightarrow> ('b, unit) collection_op" where
  "install_index E i =
     op_then (op_modify (\<lambda>c. c\<lparr>c_vindex := i\<rparr>)) (\<lambda>_.
     op_then (rebuild_vector_cache E) (\<lambda>_.
     op_modify (save_vector_index E)))"

definition rebuild_index :: "'b env \<Rightarrow> ('b, unit) collection_op" where
  "rebuild_index E =
     op_then (op_read (collect_documents E)) (\<lambda>ds. \<lambda>c.
     case fill_index E (vectors_of ds)
         (create_index E (cc_index (c_config c)) (collection_count c), c_draws c) of
       (Inl e, (i, k)) \<Rightarrow> (Inl e, c\<lparr>c_draws := k\<rparr>)
     | (Inr _, (i, k)) \<Rightarrow> install_index E i (c\<lparr>c_draws := k\<rparr>))"

section \<open>Compaction\<close>

record 'b compaction =
  k_store :: "'b record_store"
  k_index :: doc_index
  k_vectors :: vectors
  k_vindex :: any_index
  k_meta :: collection_metadata
  k_draws :: nat

record compact_stats =
  original_entries :: nat
  compacted_entries :: nat

definition compact_start :: "'b env \<Rightarrow> nat \<Rightarrow> nat \<Rightarrow> 'b collection \<Rightarrow> 'b compaction" where
  "compact_start E n now c =
     \<lparr>k_store = store_open E [] (c_config c) [], k_index = [], k_vectors = [],
      k_vindex = create_index E (cc_index (c_config c)) n,
      k_meta = update_vector_count 0 now (c_meta c), k_draws = c_draws c\<rparr>"

definition copy_bytes :: "'b env \<Rightarrow> 'b list \<Rightarrow> ('b compaction, fault, entry_pointer) op" where
  "copy_bytes E bs = (\<lambda>k. case append E bs (k_store k) of (r, s) \<Rightarrow> (r, k\<lparr>k_store := s\<rparr>))"

definition note_copied :: "document \<Rightarrow> entry_pointer \<Rightarrow> 'b compaction \<Rightarrow> 'b compaction" where
  "note_copied d p k =
     k\<lparr>k_meta := set_dimensions (length (get_vector d)) (k_meta k),
       k_index := hm_insert (doc_id d) p (k_index k),
       k_vectors := hm_insert (doc_id d) (get_vector d) (k_vectors k)\<rparr>"

definition index_copied :: "'b env \<Rightarrow> document \<Rightarrow> ('b compaction, fault, unit) op" where
  "index_copied E d = (\<lambda>k.
     case index_insert E (rand_f32 E (k_draws k)) (doc_id d) (get_vector d) (k_vectors k) (k_vindex k) of
       (r, i) \<Rightarrow> (r, k\<lparr>k_vindex := i, k_draws := k_draws k + 1\<rparr>))"

definition compact_document :: "'b env \<Rightarrow> document \<Rightarrow> ('b compaction, fault, unit) op" where
  "compact_document E d =
     op_then (copy_bytes E (enc_doc E d)) (\<lambda>p.
     op_then (op_modify (note_copied d p)) (\<lambda>_.
     index_copied E d))"

text \<open>Everything before the rename: the collection keeps only the clock and the draws it used.\<close>

definition rewrite :: "'b env \<Rightarrow> document list \<Rightarrow> ('b, 'b compaction) collection_op" where
  "rewrite E ds =
     op_then (read_clock E) (\<lambda>now. \<lambda>c.
     case op_for (compact_document E) ds (compact_start E (length ds) now c) of
       (Inl e, k) \<Rightarrow> (Inl e, c\<lparr>c_draws := k_draws k\<rparr>)
     | (Inr _, k) \<Rightarrow>
         op_then (read_clock E) (\<lambda>later.
         op_return (k\<lparr>k_meta := update_vector_count (length (k_index k)) later (k_meta k)\<rparr>))
         (c\<lparr>c_draws := k_draws k\<rparr>))"

text \<open>The disk right after the rename: the new data file beside the old saved indexes and log.\<close>

definition disk_after_rename :: "'b compaction \<Rightarrow> 'b collection \<Rightarrow> 'b disk" where
  "disk_after_rename k c = (disk_of c)\<lparr>d_data := rs_file (k_store k)\<rparr>"

definition adopt_rewritten :: "'b env \<Rightarrow> 'b compaction \<Rightarrow> 'b collection \<Rightarrow> 'b collection" where
  "adopt_rewritten E k c =
     c\<lparr>c_store := store_open E (rs_file (k_store k)) (c_config c) (k_index k),
       c_index := k_index k, c_vindex := k_vindex k, c_meta := k_meta k,
       c_cache := clear_all (c_cache c)\<rparr>"

definition install_rewritten :: "'b env \<Rightarrow> 'b compaction \<Rightarrow> ('b, unit) collection_op" where
  "install_rewritten E k =
     op_then (op_modify (adopt_rewritten E k)) (\<lambda>_.
     op_then (rebuild_vector_cache E) (\<lambda>_.
     op_then (op_modify (save_index E)) (\<lambda>_.
     op_then (op_modify (save_vector_index E)) (\<lambda>_.
     op_then (op_modify (save_metadata E)) (\<lambda>_.
     op_modify (set_wal (rotate E)))))))"

definition compact :: "'b env \<Rightarrow> ('b, compact_stats) collection_op" where
  "compact E = (\<lambda>c.
     op_then (op_read (get_all E)) (\<lambda>ds.
     op_then (rewrite E ds) (\<lambda>k.
     op_then (install_rewritten E k) (\<lambda>_.
     op_then (op_read (\<lambda>c. Inr (collection_count c))) (\<lambda>n.
     op_return \<lparr>original_entries = collection_count c, compacted_entries = n\<rparr>)))) c)"

section \<open>Reading everything\<close>

text \<open>The documents of a collection, listed in the order its index is visited.\<close>

definition listed :: "'b env \<Rightarrow> 'b collection \<Rightarrow> uuid list" where
  "listed E c = hm_iter (uuid_order E) (c_index c)"

definition live_documents :: "'b env \<Rightarrow> 'b collection \<Rightarrow> document list" where
  "live_documents E c = map (\<lambda>x. the (docs E c x)) (listed E c)"

lemma listed_docs:
  assumes "stored E c" and "hash_order (uuid_order E)"
  shows "distinct (listed E c)" and "set (listed E c) = dom (docs E c)"
    and "length (listed E c) = collection_count c"
  using assms by (simp_all add: listed_def stored_def pointers_ok_def distinct_hm_iter set_hm_iter
      length_hm_iter docs_def dom_docs_in collection_count_def)

lemma collect_documents_stored:
  assumes "stored E c" and "hash_order (uuid_order E)"
  shows "collect_documents E c = Inr (map (\<lambda>x. (x, the (docs E c x))) (listed E c))"
  unfolding collect_documents_def listed_def [symmetric]
proof (rule collect_results_total)
  fix x assume "x \<in> set (listed E c)"
  then obtain d where "docs E c x = Some d" using listed_docs(2) [OF assms] by blast
  then show "and_then (get E x c) (\<lambda>r. case r of None \<Rightarrow> panic | Some d \<Rightarrow> Inr (x, d)) = Inr (x, the (docs E c x))"
    by (simp add: get_docs [OF assms(1)])
qed

lemma get_all_stored:
  "stored E c \<Longrightarrow> hash_order (uuid_order E) \<Longrightarrow> get_all E c = Inr (live_documents E c)"
  by (simp add: get_all_def collect_documents_stored live_documents_def comp_def)

lemma live_document_id:
  assumes "stored E c" and "hash_order (uuid_order E)" and "x \<in> set (listed E c)"
  shows "docs E c x = Some (the (docs E c x)) \<and> doc_id (the (docs E c x)) = x"
  using assms listed_docs(2) [OF assms(1,2)] docs_id [OF assms(1), of x] by auto

text \<open>Putting the documents of a map one by one into an empty map gives the map.\<close>

lemma fold_put_docs:
  "(\<And>x. x \<in> set xs \<Longrightarrow> D x = Some (the (D x)) \<and> doc_id (the (D x)) = x) \<Longrightarrow>
   fold put_doc (map (\<lambda>x. the (D x)) xs) M = (\<lambda>x. if x \<in> set xs then D x else M x)"
proof (induction xs arbitrary: M)
  case (Cons x xs)
  have x: "D x = Some (the (D x))" "doc_id (the (D x)) = x" using Cons.prems [of x] by simp_all
  have p: "put_doc (the (D x)) M y = (if y = x then D x else M y)" for y
    unfolding put_doc_def x(2) using x(1) by simp
  have "fold put_doc (map (\<lambda>x. the (D x)) xs) (put_doc (the (D x)) M)
    = (\<lambda>y. if y \<in> set xs then D y else put_doc (the (D x)) M y)"
    by (rule Cons.IH) (use Cons.prems in auto)
  then show ?case by (auto simp: p fun_eq_iff)
qed simp

lemma fold_live_documents:
  assumes "stored E c" and "hash_order (uuid_order E)"
  shows "fold put_doc (live_documents E c) Map.empty = docs E c"
  unfolding live_documents_def
  using fold_put_docs [of "listed E c" "docs E c" Map.empty, OF live_document_id [OF assms]]
    listed_docs(2) [OF assms] by (auto simp: fun_eq_iff domIff)

section \<open>The loop of a compaction\<close>

text \<open>What the new files hold after the documents of the map \<open>D\<close> were copied.\<close>

definition copied :: "'b env \<Rightarrow> doc_map \<Rightarrow> nat \<Rightarrow> 'b compaction \<Rightarrow> bool" where
  "copied E D n k \<longleftrightarrow> store_ok (k_store k) \<and> pointers_ok E (k_store k) (k_index k) \<and>
     docs_in E (k_store k) (k_index k) = D \<and> append_cursor (k_store k) = n \<and>
     n \<le> next_append_offset (k_index k) \<and> hm_ok (k_vectors k) \<and> hm_get (k_vectors k) = map_option doc_vector \<circ> D \<and>
     index_agrees E D (k_vectors k) (k_vindex k)"

lemma copied_start:
  assumes "hash_order (uuid_order E)"
  shows "copied E Map.empty 0 (compact_start E n now c)"
proof -
  have "store_ok (store_open E [] (c_config c) [])"
    by (auto simp: store_ok_def store_open_def next_append_offset_def split: option.splits)
  moreover have "docs_in E s [] = Map.empty" for s by (rule ext) (simp add: docs_in_def)
  moreover have "index_inv E (create_index E (cc_index (c_config c)) n)" using assms by (simp add: index_inv_def)
  ultimately show ?thesis
    by (auto simp: copied_def compact_start_def pointers_ok_def store_open_def next_append_offset_def
        index_agrees_def hm_keys_def)
qed

lemma compact_document_copied:
  assumes "codecs_ok E" and "copied E D n k" and "length (enc_doc E d) < 2 ^ 32"
    and "n + length (enc_doc E d) \<le> max_u64" and "compact_document E d k = (Inr (), k')"
  shows "copied E (put_doc d D) (n + length (enc_doc E d)) k'"
proof -
  have k: "store_ok (k_store k)" "pointers_ok E (k_store k) (k_index k)" "docs_in E (k_store k) (k_index k) = D"
    "append_cursor (k_store k) = n" "hm_ok (k_vectors k)" "hm_get (k_vectors k) = map_option doc_vector \<circ> D"
    "index_agrees E D (k_vectors k) (k_vindex k)"
    using assms(2) by (simp_all add: copied_def)
  let ?i = "\<lambda>p. hm_insert (doc_id d) p (k_index k)"
  obtain p s where a: "append E (enc_doc E d) (k_store k) = (Inr p, s)"
    and r: "op_then (op_modify (note_copied d p)) (\<lambda>_. index_copied E d) (k\<lparr>k_store := s\<rparr>) = (Inr (), k')"
    using assms(5) by (auto simp: compact_document_def op_then_eq_Inr copy_bytes_def split: prod.splits)
  have fit: "record_fits (k_store k) (enc_doc E d)" using assms(3,4) k(4) by (simp add: record_fits_def)
  have x: "extends E (k_store k) s" "in_store s p" "read_document E p s = Inr d"
    "append_cursor s = n + length (enc_doc E d)"
    using append_extends [OF assms(1) k(1) fit a] append_store(4) [OF k(1) fit a] k(4) by auto
  let ?vs = "hm_insert (doc_id d) (doc_vector d) (k_vectors k)"
  have "p = \<lparr>ptr_offset = n, ptr_length = length (enc_doc E d)\<rparr>"
    using append_eq [OF k(1) fit, of E] a k(4) by simp
  then have ge: "n + length (enc_doc E d) \<le> next_append_offset (?i p)"
    using next_append_offset_ge [OF hm_get_set, of "?i p" "doc_id d" p] by simp
  obtain u j where j: "index_insert E u (doc_id d) (doc_vector d) ?vs (k_vindex k) = (Inr (), j)"
    and k': "k_vindex k' = j" "k_store k' = s" "k_index k' = ?i p" "k_vectors k' = ?vs"
    using r by (auto simp: op_then_apply index_copied_def note_copied_def get_vector_def split: prod.splits)
  note e = extends_pointers [OF x(1) k(2)]
  have "pointers_ok E s (?i p)" by (rule pointers_ok_insert [OF e(1) x(2,3)])
  moreover have "docs_in E s (?i p) = put_doc d D" using docs_in_insert [OF x(3)] e(2) k(3) by (simp add: put_doc_def)
  moreover have "index_agrees E (put_doc d D) ?vs j"
    unfolding put_doc_def by (rule index_agrees_insert [OF k(7,5) j])
  ultimately show ?thesis
    using x(1,4) k(5,6) ge by (auto simp: copied_def k' extends_def put_doc_def fun_eq_iff)
qed

lemma compact_loop_copied:
  assumes "codecs_ok E" and "copied E D n k" and "short_records E ds"
    and "n + collection_bytes E ds \<le> max_u64" and "op_for (compact_document E) ds k = (Inr (), k')"
  shows "copied E (fold put_doc ds D) (n + collection_bytes E ds) k'"
  using assms(2-)
proof (induction ds arbitrary: D n k)
  case (Cons d ds)
  obtain k1 where k1: "compact_document E d k = (Inr (), k1)" "op_for (compact_document E) ds k1 = (Inr (), k')"
    using Cons.prems(4) by (auto simp: op_then_eq_Inr)
  have c: "copied E (put_doc d D) (n + length (enc_doc E d)) k1"
    by (rule compact_document_copied [OF assms(1) Cons.prems(1) _ _ k1(1)]) (use Cons.prems in auto)
  have "copied E (fold put_doc ds (put_doc d D)) (n + length (enc_doc E d) + collection_bytes E ds) k'"
    by (rule Cons.IH [OF c _ _ k1(2)]) (use Cons.prems in auto)
  then show ?case by (simp add: add.assoc)
qed simp

section \<open>The effect of maintenance\<close>

text \<open>Rebuilding the cache of a readable collection never fails and makes it agree.\<close>

lemma fill_cache_agrees:
  assumes "\<And>x. x \<in> set xs \<Longrightarrow> D x = Some (the (D x)) \<and> doc_id (the (D x)) = x"
    and "cache_agrees M k" and "hm_get (cm_vectors k) = map_option doc_vector \<circ> M"
  shows "cache_agrees (fold put_doc (map (\<lambda>x. the (D x)) xs) M) (fill_cache (map (\<lambda>x. (x, the (D x))) xs) k) \<and>
    hm_get (cm_vectors (fill_cache (map (\<lambda>x. (x, the (D x))) xs) k))
      = map_option doc_vector \<circ> fold put_doc (map (\<lambda>x. the (D x)) xs) M"
  using assms
proof (induction xs arbitrary: k M)
  case (Cons x xs)
  let ?d = "the (D x)"
  let ?k = "put_metadata x (doc_metadata ?d) (put_vector x (get_vector ?d) k)"
  have x: "doc_id ?d = x" using Cons.prems(1) [of x] by simp
  have "cache_agrees (put_doc ?d M) ?k"
    using cache_agrees_vector_metadata [OF Cons.prems(2), of ?d] by (simp add: x get_vector_def)
  moreover have "hm_get (cm_vectors ?k) = map_option doc_vector \<circ> put_doc ?d M"
    using Cons.prems(3) by (auto simp: put_doc_def x get_vector_def put_vector_def fun_eq_iff)
  ultimately show ?case using Cons.IH [of "put_doc ?d M" ?k] Cons.prems(1) by (simp add: fill_cache_def)
qed (simp add: fill_cache_def)

lemma rebuild_vector_cache_effect:
  assumes "stored E c" and "hash_order (uuid_order E)"
  shows "\<exists>k. rebuild_vector_cache E c = (Inr (), c\<lparr>c_cache := k\<rparr>) \<and> cache_agrees (docs E c) k \<and>
    hm_get (cm_vectors k) = map_option doc_vector \<circ> docs E c"
proof -
  let ?new = "cache_new (cc_cache (c_config c))"
  have "cache_agrees Map.empty ?new \<and> hm_get (cm_vectors ?new) = map_option doc_vector \<circ> Map.empty"
    by (simp add: cache_agrees_def fun_eq_iff) (simp add: cache_new_def)
  then show ?thesis
    using fill_cache_agrees [of "listed E c" "docs E c" Map.empty ?new, OF live_document_id [OF assms]]
      fold_live_documents [OF assms]
    by (intro exI [of _ "fill_cache (map (\<lambda>x. (x, the (docs E c x))) (listed E c)) ?new"])
      (simp add: rebuild_vector_cache_def op_then_apply collect_documents_stored [OF assms] live_documents_def)
qed

text \<open>All documents have the dimension the collection records.\<close>

definition same_dimension :: "doc_map \<Rightarrow> collection_metadata \<Rightarrow> bool" where
  "same_dimension D m \<longleftrightarrow> (\<forall>x d. D x = Some d \<longrightarrow> cm_dimensions m = Some (length (doc_vector d)))"

lemma indexed_same_dimension: "indexed E c \<Longrightarrow> same_dimension (docs E c) (c_meta c)"
  unfolding indexed_def indexed_as_def cache_agrees_def dims_agree_def same_dimension_def by blast

lemma dims_agree_same:
  "same_dimension D m \<Longrightarrow> hm_get vs = map_option doc_vector \<circ> D \<Longrightarrow> dims_agree vs m"
  by (auto simp: dims_agree_def same_dimension_def)

lemma keys_same: "hm_get vs = map_option doc_vector \<circ> D \<Longrightarrow> set (hm_keys vs) = dom D"
  by (auto simp: hm_keys_get)

lemma index_agrees_keys:
  "index_agrees E D vs i \<Longrightarrow> set (hm_keys ws) = dom D \<Longrightarrow> index_agrees E D ws i"
  by (simp add: index_agrees_def)

text \<open>An index that holds the documents, and a rebuilt cache, agree.\<close>

lemma rebuilt_cache_indexed:
  assumes "stored E c" and "hash_order (uuid_order E)" and "same_dimension (docs E c) (c_meta c)"
    and "index_inv E (c_vindex c)" and "index_ids (c_vindex c) = dom (docs E c)"
    and "rebuild_vector_cache E c = (r, c')"
  shows "r = Inr () \<and> same_documents c c' \<and> c_vindex c' = c_vindex c \<and> c_meta c' = c_meta c \<and> indexed E c'"
proof -
  obtain k where k: "rebuild_vector_cache E c = (Inr (), c\<lparr>c_cache := k\<rparr>)" "cache_agrees (docs E c) k"
    "hm_get (cm_vectors k) = map_option doc_vector \<circ> docs E c"
    using rebuild_vector_cache_effect [OF assms(1,2)] by blast
  have c': "c' = c\<lparr>c_cache := k\<rparr>" "r = Inr ()" using assms(6) k(1) by simp_all
  have sd: "same_documents c c'" by (simp add: c' same_documents_def)
  have "indexed_as E (docs E c) c'"
    using k(2,3) assms(4,5) keys_same [OF k(3)] dims_agree_same [OF assms(3) k(3)]
    by (simp add: indexed_as_def index_agrees_def c')
  then show ?thesis
    using sd same_documents_docs [OF sd, of E] c' by (simp add: indexed_def)
qed

section \<open>Filling an index\<close>

lemma fill_index_draws:
  assumes "op_for (\<lambda>(x, v). \<lambda>(i, k).
      case index_insert E (rand_f32 E k) x v vs i of (r, j) \<Rightarrow> (r, (j, k + 1))) xs (i, k) = (Inr (), (j, k'))"
  shows "\<exists>fills. map snd fills = xs \<and> op_for (\<lambda>(u, x, v). index_insert E u x v vs) fills i = (Inr (), j)"
  using assms
proof (induction xs arbitrary: i k)
  case (Cons p xs)
  obtain x v where p: "p = (x, v)" by (cases p)
  obtain i1 where i1: "index_insert E (rand_f32 E k) x v vs i = (Inr (), i1)"
    "op_for (\<lambda>(x, v). \<lambda>(i, k).
      case index_insert E (rand_f32 E k) x v vs i of (r, j) \<Rightarrow> (r, (j, k + 1))) xs (i1, k + 1) = (Inr (), (j, k'))"
    using Cons.prems by (auto simp: p op_then_eq_Inr split: prod.splits)
  obtain fills where f: "map snd fills = xs" "op_for (\<lambda>(u, x, v). index_insert E u x v vs) fills i1 = (Inr (), j)"
    using Cons.IH [OF i1(2)] by blast
  then have "map snd ((rand_f32 E k, x, v) # fills) = p # xs
    \<and> op_for (\<lambda>(u, x, v). index_insert E u x v vs) ((rand_f32 E k, x, v) # fills) i = (Inr (), j)"
    using i1(1) by (simp add: p op_then_apply)
  then show ?case by (rule exI)
qed simp

text \<open>A new index filled from a map holds exactly its keys.\<close>

lemma fill_index_ids:
  assumes "hash_order (uuid_order E)" and "hm_ok vs"
    and "fill_index E vs (create_index E c n, k) = (Inr (), (j, k'))"
  shows "index_inv E j \<and> index_ids j = set (hm_keys vs)"
proof -
  obtain fills where f: "map snd fills = reader_iter E vs"
    and j: "op_for (\<lambda>(u, x, v). index_insert E u x v vs) fills (create_index E c n) = (Inr (), j)"
    using fill_index_draws assms(3) unfolding fill_index_def by blast
  have "(fst \<circ> snd) ` set fills = set (map fst (reader_iter E vs))" by (simp flip: f add: image_comp)
  then have "(fst \<circ> snd) ` set fills = set (hm_keys vs)" using set_hm_iter [OF assms(1), of vs] by simp
  then show ?thesis by (intro any.fill_all [OF j _ _ assms(2)]) (simp_all add: index_inv_def assms(1))
qed

lemma vectors_of_fold:
  "fold (\<lambda>(x, d). hm_insert x (get_vector d)) (map (\<lambda>x. (x, f x)) xs) vs
     = fold (\<lambda>x. hm_insert x (doc_vector (f x))) xs vs"
  by (induction xs arbitrary: vs) (simp_all add: get_vector_def)

lemma fold_insert_keys:
  "set (hm_keys (fold (\<lambda>x. hm_insert x (g x)) xs vs)) = set (hm_keys vs) \<union> set xs \<and>
   (hm_ok vs \<longrightarrow> hm_ok (fold (\<lambda>x. hm_insert x (g x)) xs vs))"
  by (induction xs arbitrary: vs) auto

lemma rebuild_index_effect:
  assumes "stored E c" and "hash_order (uuid_order E)" and "same_dimension (docs E c) (c_meta c)"
    and "rebuild_index E c = (Inr (), c')"
  shows "stored E c' \<and> docs E c' = docs E c \<and> indexed E c' \<and> (durable E c \<longrightarrow> durable E c')"
proof -
  let ?ds = "map (\<lambda>x. (x, the (docs E c x))) (listed E c)"
  obtain i k where i: "fill_index E (vectors_of ?ds)
      (create_index E (cc_index (c_config c)) (collection_count c), c_draws c) = (Inr (), (i, k))"
    and c1: "install_index E i (c\<lparr>c_draws := k\<rparr>) = (Inr (), c')"
    using assms(4)
    by (auto simp: rebuild_index_def op_then_apply collect_documents_stored [OF assms(1,2)] split: prod.splits sum.splits)
  let ?c = "c\<lparr>c_draws := k, c_vindex := i\<rparr>"
  have keys: "set (hm_keys (vectors_of ?ds)) = dom (docs E c)" "hm_ok (vectors_of ?ds)"
    using fold_insert_keys [of "\<lambda>x. doc_vector (the (docs E c x))" "listed E c" "[]"] listed_docs(2) [OF assms(1,2)]
    by (simp_all add: vectors_of_def vectors_of_fold hm_keys_def)
  note ids = fill_index_ids [OF assms(2) keys(2) i]
  have sc: "docs E ?c = docs E c" "stored E ?c" using stored_eq [of ?c c E] assms(1) by simp_all
  obtain c2 where c2: "rebuild_vector_cache E ?c = (Inr (), c2)" and c': "c' = save_vector_index E c2"
    using c1 by (auto simp: install_index_def op_then_eq_Inr)
  have r: "same_documents ?c c2 \<and> indexed E c2"
    using rebuilt_cache_indexed [OF sc(2) assms(2) _ _ _ c2] ids keys(1) sc(1) assms(3) by simp
  have s: "stored E c2" "docs E c2 = docs E c" using same_documents_docs [of ?c c2 E] r sc by simp_all
  have d: "docs E c' = docs E c2" "stored E c' = stored E c2" using stored_eq [of c' c2 E] by (simp_all add: c')
  moreover have "indexed E c' = indexed E c2" using indexed_eq [of E c' c2] d(1) by (simp add: c')
  moreover have "durable E c'" if "durable E c"
  proof -
    have "c_store c' = c_store c" "wal (c_checkpoint c') = wal (c_checkpoint c)"
      "saved_index (c_saved c') = saved_index (c_saved c)" "saved_wal_meta (c_saved c') = saved_wal_meta (c_saved c)"
      "c_config c' = c_config c"
      using r by (simp_all add: c' same_documents_def save_vector_index_def)
    then show ?thesis using that d s by (simp add: durable_def logged_def load_index_def load_wal_meta_def)
  qed
  ultimately show ?thesis using r s by simp
qed

section \<open>What a compaction does\<close>

lemma rewrite_effect:
  assumes "codecs_ok E" and "hash_order (uuid_order E)" and "short_records E ds"
    and "collection_bytes E ds \<le> max_u64" and "rewrite E ds c = (Inr k, c')"
  shows "copied E (fold put_doc ds Map.empty) (collection_bytes E ds) k \<and> same_documents c c' \<and>
    c_cache c' = c_cache c \<and> c_vindex c' = c_vindex c \<and> c_meta c' = c_meta c"
proof -
  let ?s = "compact_start E (length ds) (now_secs E (c_ticks c)) (c\<lparr>c_ticks := c_ticks c + 1\<rparr>)"
  obtain k1 t where k1: "op_for (compact_document E) ds ?s = (Inr (), k1)"
    and k: "k = k1\<lparr>k_meta := update_vector_count (length (k_index k1)) t (k_meta k1)\<rparr>"
    and c': "same_documents c c' \<and> c_cache c' = c_cache c \<and> c_vindex c' = c_vindex c \<and> c_meta c' = c_meta c"
    using assms(5)
    by (auto simp: rewrite_def op_then_apply read_clock_def same_documents_def split: prod.splits sum.splits)
  have "copied E (fold put_doc ds Map.empty) (0 + collection_bytes E ds) k1"
    by (rule compact_loop_copied [OF assms(1) copied_start [OF assms(2)] assms(3) _ k1]) (use assms(4) in simp)
  then show ?thesis using k c' by (auto simp: copied_def)
qed

text \<open>The dimension recorded in the new metadata is the old one where there was one.\<close>

lemma rewrite_dimensions:
  assumes "rewrite E ds c = (Inr k, c')" and "cm_dimensions (c_meta c) = Some n \<or> ds = []"
  shows "cm_dimensions (k_meta k) = cm_dimensions (c_meta c)"
proof -
  have step: "cm_dimensions (k_meta k2) = cm_dimensions (k_meta k1)"
    if "compact_document E d k1 = (r, k2)" "cm_dimensions (k_meta k1) = Some n" for d k1 k2 r
  proof -
    have "set_dimensions m (k_meta k1) = k_meta k1" for m using that(2) by (simp add: set_dimensions_def)
    then show ?thesis
      using that(1) by (auto simp: compact_document_def op_then_apply copy_bytes_def note_copied_def
          index_copied_def split: prod.splits sum.splits)
  qed
  have loop: "cm_dimensions (k_meta k2) = cm_dimensions (k_meta k1)"
    if "op_for (compact_document E) ds k1 = (Inr (), k2)" "cm_dimensions (k_meta k1) = Some n \<or> ds = []" for ds k1 k2
    using that
  proof (induction ds arbitrary: k1)
    case (Cons d ds)
    obtain k3 where "compact_document E d k1 = (Inr (), k3)" "op_for (compact_document E) ds k3 = (Inr (), k2)"
      using Cons.prems(1) by (auto simp: op_then_eq_Inr)
    then show ?case using Cons.IH [of k3] step [of d k1 "Inr ()" k3] Cons.prems(2) by simp
  qed simp
  obtain k1 c1 t where k1: "op_for (compact_document E) ds (compact_start E (length ds) (now_secs E (c_ticks c)) c1) = (Inr (), k1)"
    "c_meta c1 = c_meta c" "k = k1\<lparr>k_meta := update_vector_count (length (k_index k1)) t (k_meta k1)\<rparr>"
    using assms(1)
    by (auto simp: rewrite_def op_then_apply read_clock_def split: prod.splits sum.splits)
  then show ?thesis using loop [OF k1(1)] assms(2) by (simp add: compact_start_def)
qed

lemma install_effect:
  assumes "codecs_ok E" and "copied E D n k" and "stored E c" and "hash_order (uuid_order E)"
    and "same_dimension D (k_meta k)" and "install_rewritten E k c = (r, c')"
  shows "r = Inr () \<and> stored E c' \<and> docs E c' = D \<and> indexed E c' \<and> append_cursor (c_store c') = n \<and>
    c_config c' = c_config c \<and>
    (wal_on (wal (c_checkpoint c)) \<and> wal_enabled (cc_wal (c_config c)) \<and>
     (\<exists>m. load_wal_meta E (c_saved c) = Inr m \<and> m < next_seq (wal (c_checkpoint c))) \<longrightarrow> durable E c')"
proof -
  have k: "store_ok (k_store k)" "pointers_ok E (k_store k) (k_index k)" "docs_in E (k_store k) (k_index k) = D"
    "append_cursor (k_store k) = n" "n \<le> next_append_offset (k_index k)" "index_agrees E D (k_vectors k) (k_vindex k)"
    using assms(2) by (simp_all add: copied_def)
  let ?c = "adopt_rewritten E k c"
  note o = store_open_pointers [OF k(1,2), of "c_config c"]
  have st: "stored E ?c" "docs E ?c = D"
    using o k(3) by (simp_all add: stored_def docs_def adopt_rewritten_def)
  have cur: "append_cursor (c_store ?c) = n"
    using k(4,5) next_append_offset_stored [OF k(2)] by (simp add: adopt_rewritten_def store_open_def)
  obtain r2 c2 where c2: "rebuild_vector_cache E ?c = (r2, c2)" by fastforce
  have e: "r2 = Inr () \<and> same_documents ?c c2 \<and> c_vindex c2 = c_vindex ?c \<and> c_meta c2 = c_meta ?c \<and> indexed E c2"
    by (rule rebuilt_cache_indexed [OF st(1) assms(4) _ _ _ c2])
      (use st(2) assms(5) k(6) in \<open>simp_all add: adopt_rewritten_def index_agrees_def\<close>)
  have r: "r = Inr ()" "c' = set_wal (rotate E) (save_metadata E (save_vector_index E (save_index E c2)))"
    using assms(6) c2 e by (auto simp: install_rewritten_def op_then_apply)
  have c': "c_store c' = c_store c2" "c_index c' = c_index c2" "c_cache c' = c_cache c2"
    "c_vindex c' = c_vindex c2" "c_meta c' = c_meta c2" "c_config c' = c_config c2"
    by (simp_all add: r)
  have d: "stored E c'" "docs E c' = D" "indexed E c'"
    using stored_eq [of c' c2 E] indexed_eq [of E c' c2] c' same_documents_docs [of ?c c2 E] e st by simp_all
  have "durable E c'" if "wal_on (wal (c_checkpoint c))" "wal_enabled (cc_wal (c_config c))"
    "load_wal_meta E (c_saved c) = Inr m" "m < next_seq (wal (c_checkpoint c))" for m
  proof -
    have w: "wal (c_checkpoint c') = rotate E (wal (c_checkpoint c))"
      "saved_index (c_saved c') = Some (enc_index E (c_index c'))"
      "saved_wal_meta (c_saved c') = saved_wal_meta (c_saved c)" "c_config c' = c_config c"
      using e by (simp_all add: r same_documents_def adopt_rewritten_def set_wal_def save_index_def
          save_metadata_def save_vector_index_def)
    have "replay_lines E m (wal_lines (wal (c_checkpoint c'))) = Inr []"
      using replay_rotate [OF assms(1), of m "wal (c_checkpoint c)"] that(1) by (simp add: w replay_def)
    moreover have "load_index E (c_saved c') = Inr (c_index c')"
      using assms(1) by (simp add: load_index_def w codecs_ok_def)
    moreover have "load_wal_meta E (c_saved c') = Inr m" using that(3) by (simp add: load_wal_meta_def w)
    ultimately show ?thesis
      using that d next_append_offset_stored [of E "c_store c'" "c_index c'"]
      by (simp add: durable_def logged_def stored_def docs_def w)
  qed
  moreover have "append_cursor (c_store c') = n" "c_config c' = c_config c"
    using cur e by (simp_all add: r same_documents_def adopt_rewritten_def)
  ultimately show ?thesis using r d by blast
qed

lemma compact_effect:
  assumes "codecs_ok E" and "stored E c" and "indexed E c" and "short_records E (live_documents E c)"
    and "collection_bytes E (live_documents E c) \<le> max_u64" and "compact E c = (Inr st, c')"
  shows "stored E c' \<and> docs E c' = docs E c \<and> indexed E c' \<and> (durable E c \<longrightarrow> durable E c') \<and>
    c_config c' = c_config c \<and>
    used_bytes (c_store c') = collection_bytes E (live_documents E c) \<and>
    original_entries st = collection_count c \<and> compacted_entries st = collection_count c"
proof -
  have h: "hash_order (uuid_order E)"
    using assms(3) by (simp add: indexed_def indexed_as_def index_agrees_def index_inv_def)
  let ?ds = "live_documents E c"
  obtain k c1 where k: "rewrite E ?ds c = (Inr k, c1)" and c': "install_rewritten E k c1 = (Inr (), c')"
    and s: "st = \<lparr>original_entries = collection_count c, compacted_entries = collection_count c'\<rparr>"
    using assms(6) by (auto simp: compact_def get_all_stored [OF assms(2) h] op_then_eq_Inr)
  have e: "copied E (docs E c) (collection_bytes E ?ds) k" "same_documents c c1" "c_meta c1 = c_meta c"
    using rewrite_effect [OF assms(1) h assms(4,5) k] fold_live_documents [OF assms(2) h] by auto
  have st1: "stored E c1" using same_documents_docs [OF e(2)] assms(2) by blast
  note sd = indexed_same_dimension [OF assms(3)]
  have dim: "same_dimension (docs E c) (k_meta k)"
    unfolding same_dimension_def
  proof (intro allI impI)
    fix x d assume d: "docs E c x = Some d"
    then have n: "cm_dimensions (c_meta c) = Some (length (doc_vector d))"
      using sd unfolding same_dimension_def by blast
    then show "cm_dimensions (k_meta k) = Some (length (doc_vector d))"
      using rewrite_dimensions [OF k disjI1 [OF n]] by simp
  qed
  note i = install_effect [OF assms(1) e(1) st1 h dim c']
  have "durable E c'" if "durable E c"
    using i that e(2) by (auto simp: durable_def logged_def same_documents_def)
  moreover have "collection_count c' = collection_count c"
    using listed_docs [of E c'] listed_docs [OF assms(2) h] h i distinct_card [of "listed E c'"]
      distinct_card [of "listed E c"] by simp
  ultimately show ?thesis using i s e(2) by (simp add: used_bytes_def same_documents_def)
qed

section \<open>Maintenance with a flat index returns\<close>

lemma flat_index_insert: "\<exists>j. index_insert E u x v vs (FlatIdx i) = (Inr (), FlatIdx j)"
  by (simp add: flat_insert_def on_part_def)

lemma create_flat:
  "select_type ic n = Flat \<Longrightarrow> \<exists>i. create_index E ic n = FlatIdx i"
  by (simp add: create_index_def)

lemma fill_flat_returns: "\<exists>j k'. fill_index E vs (FlatIdx i, k) = (Inr (), (FlatIdx j, k'))"
proof -
  have "\<exists>j k'. op_for (\<lambda>(x, v). \<lambda>(i, k).
      case index_insert E (rand_f32 E k) x v vs i of (r, j) \<Rightarrow> (r, (j, k + 1))) xs (FlatIdx i, k)
    = (Inr (), (FlatIdx j, k'))" for xs
  proof (induction xs arbitrary: i k)
    case (Cons p xs)
    obtain x v where p: "p = (x, v)" by (cases p)
    obtain j where "index_insert E (rand_f32 E k) x v vs (FlatIdx i) = (Inr (), FlatIdx j)"
      using flat_index_insert by blast
    then show ?case using Cons.IH [of j "k + 1"] by (simp add: p op_then_apply)
  qed simp
  then show ?thesis unfolding fill_index_def .
qed

lemma rebuild_index_returns:
  assumes "stored E c" and "hash_order (uuid_order E)"
    and "select_type (cc_index (c_config c)) (collection_count c) = Flat"
  shows "\<exists>c'. rebuild_index E c = (Inr (), c')"
proof -
  let ?ds = "map (\<lambda>x. (x, the (docs E c x))) (listed E c)"
  obtain i where i: "create_index E (cc_index (c_config c)) (collection_count c) = FlatIdx i"
    using create_flat [OF assms(3)] by blast
  obtain j k where f: "fill_index E (vectors_of ?ds) (FlatIdx i, c_draws c) = (Inr (), (FlatIdx j, k))"
    using fill_flat_returns by blast
  let ?c = "c\<lparr>c_draws := k, c_vindex := FlatIdx j\<rparr>"
  have "stored E ?c" using stored_eq [of ?c c E] assms(1) by simp
  then obtain q where "rebuild_vector_cache E ?c = (Inr (), ?c\<lparr>c_cache := q\<rparr>)"
    using rebuild_vector_cache_effect [OF _ assms(2)] by blast
  then show ?thesis
    using f by (simp add: rebuild_index_def op_then_apply collect_documents_stored [OF assms(1,2)] i install_index_def)
qed

lemma compact_document_returns:
  assumes "codecs_ok E" and "copied E D n k" and "length (enc_doc E d) < 2 ^ 32"
    and "n + length (enc_doc E d) \<le> max_u64" and "k_vindex k = FlatIdx i"
  shows "\<exists>k' j. compact_document E d k = (Inr (), k') \<and> k_vindex k' = FlatIdx j"
proof -
  have "store_ok (k_store k)" "record_fits (k_store k) (enc_doc E d)"
    using assms(2-4) by (auto simp: copied_def record_fits_def)
  then obtain p s where "append E (enc_doc E d) (k_store k) = (Inr p, s)"
    using append_eq [of "k_store k" "enc_doc E d" E] by blast
  then show ?thesis
    using assms(5)
    by (simp add: compact_document_def op_then_apply copy_bytes_def index_copied_def note_copied_def
        flat_insert_def on_part_def)
qed

lemma compact_loop_returns:
  assumes "codecs_ok E" and "copied E D n k" and "short_records E ds"
    and "n + collection_bytes E ds \<le> max_u64" and "k_vindex k = FlatIdx i"
  shows "\<exists>k'. op_for (compact_document E) ds k = (Inr (), k')"
  using assms(2-)
proof (induction ds arbitrary: D n k i)
  case (Cons d ds)
  obtain k1 j where k1: "compact_document E d k = (Inr (), k1)" "k_vindex k1 = FlatIdx j"
    using compact_document_returns [OF assms(1) Cons.prems(1) _ _ Cons.prems(4), of d] Cons.prems(2,3) by auto
  have "copied E (put_doc d D) (n + length (enc_doc E d)) k1"
    by (rule compact_document_copied [OF assms(1) Cons.prems(1) _ _ k1(1)]) (use Cons.prems in auto)
  then obtain k' where "op_for (compact_document E) ds k1 = (Inr (), k')"
    using Cons.IH [of "put_doc d D" "n + length (enc_doc E d)" k1 j] Cons.prems k1(2) by (auto simp: add.assoc)
  then show ?case using k1(1) by (simp add: op_then_apply)
qed simp

lemma compact_returns:
  assumes "codecs_ok E" and "stored E c" and "indexed E c" and "short_records E (live_documents E c)"
    and "collection_bytes E (live_documents E c) \<le> max_u64"
    and "select_type (cc_index (c_config c)) (collection_count c) = Flat"
  shows "\<exists>st c'. compact E c = (Inr st, c')"
proof -
  have h: "hash_order (uuid_order E)"
    using assms(3) by (simp add: indexed_def indexed_as_def index_agrees_def index_inv_def)
  let ?ds = "live_documents E c"
  let ?s = "compact_start E (length ?ds) (now_secs E (c_ticks c)) (c\<lparr>c_ticks := c_ticks c + 1\<rparr>)"
  have n: "length ?ds = collection_count c" using listed_docs(3) [OF assms(2) h] by (simp add: live_documents_def)
  obtain i where i: "k_vindex ?s = FlatIdx i"
    using create_flat [OF assms(6)] by (auto simp: compact_start_def n)
  obtain k1 where k1: "op_for (compact_document E) ?ds ?s = (Inr (), k1)"
    using compact_loop_returns [OF assms(1) copied_start [OF h] assms(4) _ i] assms(5) by auto
  have "\<exists>k c1. rewrite E ?ds c = (Inr k, c1)"
    using k1 by (simp add: rewrite_def op_then_apply read_clock_def)
  then obtain k c1 where k: "rewrite E ?ds c = (Inr k, c1)" by blast
  have e: "copied E (docs E c) (collection_bytes E ?ds) k" "same_documents c c1"
    using rewrite_effect [OF assms(1) h assms(4,5) k] fold_live_documents [OF assms(2) h] by auto
  have "stored E (adopt_rewritten E k c1)"
    using e store_open_pointers [of "k_store k" E "k_index k"] by (simp add: copied_def stored_def adopt_rewritten_def)
  then obtain q where "rebuild_vector_cache E (adopt_rewritten E k c1) = (Inr (), (adopt_rewritten E k c1)\<lparr>c_cache := q\<rparr>)"
    using rebuild_vector_cache_effect [OF _ h] by blast
  then have "\<exists>c'. install_rewritten E k c1 = (Inr (), c')"
    by (simp add: install_rewritten_def op_then_apply)
  then obtain c' where "install_rewritten E k c1 = (Inr (), c')" by blast
  then show ?thesis using k by (simp add: compact_def get_all_stored [OF assms(2) h] op_then_apply)
qed

section \<open>A crash after the rename\<close>

lemma collect_results_fails:
  "x \<in> set xs \<Longrightarrow> f x = Inl e \<Longrightarrow> \<exists>e'. collect_results f xs = Inl e'"
proof (induction xs)
  case (Cons y ys)
  then show ?case by (cases "f y"; cases "collect_results f ys") auto
qed simp

lemma unreadable_fails:
  assumes "hash_order (uuid_order E)" and "hm_get (c_index c) x = Some p" and "read_document E p (c_store c) = Inl e"
  shows "\<exists>e'. finish_open E b c = (Inl e', snd (finish_open E b c))"
proof -
  have "x \<in> set (hm_iter (uuid_order E) (c_index c))"
    using set_hm_iter [OF assms(1), of "c_index c"] hm_get_key [OF assms(2)] by simp
  then obtain e' where e': "collect_documents E c = Inl e'"
    unfolding collect_documents_def
    using collect_results_fails [of x _ "\<lambda>x. and_then (get E x c) (\<lambda>r. case r of None \<Rightarrow> panic | Some d \<Rightarrow> Inr (x, d))"]
    by (fastforce simp: get_def assms(2,3))
  then show ?thesis
    by (simp add: finish_open_def op_then_apply rebuild_vector_cache_def rebuild_vector_index_def)
qed

text \<open>\<open>small_collection x\<close>: one document, after a deleted one, of a collection that was checkpointed.\<close>

definition small_collection :: "uuid \<Rightarrow> blob collection" where
  "small_collection x = (one_collection x)\<lparr>
     c_store := \<lparr>rs_file = [DocBlob (unit_document 0), DocBlob (unit_document x)], rs_mmap = Some 2, append_cursor = 2\<rparr>,
     c_index := [(x, \<lparr>ptr_offset = 1, ptr_length = 1\<rparr>)], c_config := small_config,
     c_saved := \<lparr>saved_index = Some [IndexBlob [(x, \<lparr>ptr_offset = 1, ptr_length = 1\<rparr>)]],
       saved_vector_index = None, saved_metadata = None, saved_wal_meta = None\<rparr>\<rparr>"

lemma small_collection_rewrite:
  "\<exists>k c1. rewrite blob_env (live_documents blob_env (small_collection x)) (small_collection x) = (Inr k, c1)
     \<and> rs_file (k_store k) = [DocBlob (unit_document x), ZeroBlob]
     \<and> c_saved c1 = c_saved (small_collection x) \<and> wal (c_checkpoint c1) = wal (c_checkpoint (small_collection x))"
proof -
  have two: "replicate 2 z = [z, z]" for z :: blob by (simp add: numeral_2_eq_2)
  have r: "read_document blob_env \<lparr>ptr_offset = Suc 0, ptr_length = Suc 0\<rparr> (c_store (small_collection x)) = Inr (unit_document x)"
    by (simp add: read_document_def read_bytes_def read_range_def small_collection_def)
  have "docs blob_env (small_collection x) x = Some (unit_document x)"
    using r by (simp add: docs_def docs_in_def hm_get_def) (simp add: small_collection_def)
  then have l: "live_documents blob_env (small_collection x) = [unit_document x]"
    by (simp add: live_documents_def listed_def hm_iter_def hm_keys_def) (simp add: small_collection_def)
  have c: "c_config (small_collection x) = small_config" by (simp add: small_collection_def)
  show ?thesis
    unfolding l rewrite_def
    by (simp add: op_then_apply read_clock_def compact_document_def copy_bytes_def append_def
        compact_start_def c small_config_def default_collection_config_def store_open_def initial_size_def
        default_memory_config_def ensure_file_size_def next_append_offset_def grow_if_needed_def sat_mul_def max_u64_def
        set_len_def write_at_def write_bytes_def two note_copied_def index_copied_def create_index_def
        default_index_config_def default_auto_index_def on_part_def flat_insert_def flat_new_def)
qed

section \<open>Properties\<close>

text \<open>
  C16. Rebuilding the index repairs it: whatever the cache and the vector index held before,
  afterwards both agree with the stored documents, which are untouched, as is what a reopening
  would find. With a configuration that selects the flat index it always returns.
\<close>

theorem rebuild_index_repairs:
  assumes "stored E c" and "hash_order (uuid_order E)" and "same_dimension (docs E c) (c_meta c)"
  shows "(select_type (cc_index (c_config c)) (collection_count c) = Flat \<longrightarrow> (\<exists>c'. rebuild_index E c = (Inr (), c')))
    \<and> (\<forall>c'. rebuild_index E c = (Inr (), c') \<longrightarrow> indexed E c' \<and> (\<forall>x. get E x c' = Inr (docs E c x))
         \<and> (durable E c \<longrightarrow> durable E c'))"
  using rebuild_index_returns [OF assms(1,2)] rebuild_index_effect [OF assms] get_docs by metis

theorem rebuild_index_repairs_witness:
  "\<exists>c'. rebuild_index blob_env ((one_collection 5)\<lparr>c_vindex := FlatIdx (flat_new default_flat_config),
       c_cache := cache_new default_cache_config\<rparr>) = (Inr (), c') \<and> indexed blob_env c'
     \<and> get blob_env 5 c' = Inr (Some (unit_document 5))"
proof -
  let ?c = "(one_collection 5)\<lparr>c_vindex := FlatIdx (flat_new default_flat_config), c_cache := cache_new default_cache_config\<rparr>"
  have d: "stored blob_env ?c" "docs blob_env ?c = [5 \<mapsto> unit_document 5]"
    using stored_eq [of ?c "one_collection 5" blob_env] by simp_all
  have t: "select_type (cc_index (c_config ?c)) (collection_count ?c) = Flat"
    by (simp add: one_collection_def empty_collection_def default_collection_config_def
        default_index_config_def default_auto_index_def collection_count_def)
  have "same_dimension (docs blob_env ?c) (c_meta ?c)" by (simp add: d(2) same_dimension_def)
  then show ?thesis
    using rebuild_index_repairs [OF d(1), OF _] t d(2) by auto
qed

text \<open>
  C15. Compaction loses nothing and reclaims everything: the documents are the same, the cache and
  the index agree with them, what was durable is durable again, and the data file holds the live
  documents and no other byte in use. With a flat index it always returns.
\<close>

theorem compact_preserves:
  assumes "codecs_ok E" and "stored E c" and "indexed E c" and "short_records E (live_documents E c)"
    and "collection_bytes E (live_documents E c) \<le> max_u64"
  shows "(select_type (cc_index (c_config c)) (collection_count c) = Flat \<longrightarrow> (\<exists>st c'. compact E c = (Inr st, c')))
    \<and> (\<forall>st c'. compact E c = (Inr st, c') \<longrightarrow> indexed E c' \<and> (\<forall>x. get E x c' = Inr (docs E c x))
         \<and> (durable E c \<longrightarrow> durable E c') \<and> used_bytes (c_store c') = collection_bytes E (live_documents E c)
         \<and> original_entries st = collection_count c \<and> compacted_entries st = collection_count c)"
  using compact_returns [OF assms] compact_effect [OF assms] get_docs by metis

theorem compact_preserves_witness:
  "\<exists>st c'. compact blob_env ((one_collection 5)\<lparr>c_store := \<lparr>rs_file = [DocBlob (unit_document 5), ZeroBlob],
       rs_mmap = None, append_cursor = 2\<rparr>\<rparr>) = (Inr st, c') \<and> used_bytes (c_store c') = 1
     \<and> get blob_env 5 c' = Inr (Some (unit_document 5))"
proof -
  let ?c = "(one_collection 5)\<lparr>c_store := \<lparr>rs_file = [DocBlob (unit_document 5), ZeroBlob],
    rs_mmap = None, append_cursor = 2\<rparr>\<rparr>"
  have r: "read_document blob_env \<lparr>ptr_offset = 0, ptr_length = Suc 0\<rparr> (c_store ?c) = Inr (unit_document 5)"
    by (simp add: read_document_def read_bytes_def read_range_def)
  have d: "docs blob_env ?c = [5 \<mapsto> unit_document 5]"
    using r by (intro ext) (simp add: docs_def docs_in_def hm_get_def)
  have st: "stored blob_env ?c"
    using r by (auto simp: stored_def store_ok_def pointers_ok_def hm_get_def hm_ok_def hm_keys_def in_store_def
      split: if_splits)
  have ix: "indexed blob_env ?c" using indexed_eq [of blob_env ?c "one_collection 5"] d by simp
  have l: "live_documents blob_env ?c = [unit_document 5]"
    by (simp add: live_documents_def listed_def d hm_iter_def hm_keys_def)
  have t: "select_type (cc_index (c_config ?c)) (collection_count ?c) = Flat"
    by (simp add: one_collection_def empty_collection_def default_collection_config_def
        default_index_config_def default_auto_index_def collection_count_def)
  show ?thesis
    using compact_preserves [OF _ st ix] t d l by (auto simp: max_u64_def)
qed



end
