(* ===== verification/Invariants.thy ===== *)
theory Invariants
  imports Recovery
begin

text \<open>
  Invariants of collections. An invariant is given by what it tolerates: which single assignments
  keep it, and for which documents. The locale \<open>collection_invariant\<close> lifts that, once for
  all, to every operation of \<^verbatim>\<open>src/src/collections/operations/\<close>.
\<close>

lemma op_preserves_if_state:
  "op_preserves P m \<Longrightarrow> op_preserves P n \<Longrightarrow> op_preserves P (\<lambda>s. if b s then m s else n s)"
  by (simp add: op_preserves_def)

lemma op_preserves_ignore: "op_preserves P m \<Longrightarrow> op_preserves P (ignore_result m)"
  unfolding ignore_result_def by (intro op_preserves_then op_preserves_return)

lemma snd_ignore_result: "snd (ignore_result m c) = snd (m c)"
  by (simp add: ignore_result_def op_then_apply split: prod.split sum.split)

locale document_invariant =
  fixes E :: "'b env" and inv :: "'b collection \<Rightarrow> bool" and ok :: "document \<Rightarrow> bool"
  assumes clock: "inv c \<Longrightarrow> inv (c\<lparr>c_ticks := t\<rparr>)"
    and store: "inv c \<Longrightarrow> inv (c\<lparr>c_store := s\<rparr>)"
    and index: "inv c \<Longrightarrow> inv (c\<lparr>c_index := i\<rparr>)"
    and cache: "inv c \<Longrightarrow> inv (c\<lparr>c_cache := k\<rparr>)"
    and vindex: "inv c \<Longrightarrow> index_type_of v = index_type_of (c_vindex c) \<Longrightarrow> inv (c\<lparr>c_vindex := v\<rparr>)"
    and draws: "inv c \<Longrightarrow> inv (c\<lparr>c_draws := n\<rparr>)"
    and count: "inv c \<Longrightarrow> inv (c\<lparr>c_meta := update_vector_count n t (c_meta c)\<rparr>)"
    and dims: "inv c \<Longrightarrow> ok d \<Longrightarrow> inv (c\<lparr>c_meta := set_dimensions (length (doc_vector d)) (c_meta c)\<rparr>)"
begin

lemma keep_clock: "op_preserves inv (read_clock E)"
  by (rule op_preservesI) (simp add: read_clock_def clock)

lemma keep_pieces:
  "op_preserves inv (store_bytes E bs)" "op_preserves inv (store_batch E bss)"
  "op_preserves inv (point_to x p)" "op_preserves inv (on_cache f)"
  "op_preserves inv (check_dimensions v)"
  "op_preserves inv (op_modify (\<lambda>c. c\<lparr>c_index := g (c_index c)\<rparr>))"
  by (rule op_preservesI; simp add: store_bytes_def store_batch_def point_to_def on_cache_def
      check_dimensions_def store index cache split: prod.split)+

lemma keep_index:
  "op_preserves inv (index_vector E x v)" "op_preserves inv (unindex_vector E x)"
proof -
  show "op_preserves inv (index_vector E x v)"
  proof (rule op_preservesI)
    fix c assume i: "inv c"
    obtain r j where j: "index_insert E (rand_f32 E (c_draws c)) x v (cm_vectors (c_cache c)) (c_vindex c) = (r, j)"
      by fastforce
    have "inv (c\<lparr>c_vindex := j, c_draws := c_draws c + 1\<rparr>)"
      using draws [OF vindex [OF i index_type_insert [OF j]]] by simp
    then show "inv (snd (index_vector E x v c))" by (simp add: index_vector_def j)
  qed
  show "op_preserves inv (unindex_vector E x)"
    by (rule op_preservesI) (simp add: unindex_vector_def vindex)
qed

lemma keep_evict:
  "op_preserves inv (op_modify (\<lambda>c. c\<lparr>c_cache := cache_remove x (index_type_of (c_vindex c) \<noteq> Hnsw) (c_cache c)\<rparr>))"
  by (rule op_preserves_modify) (rule cache)

lemma keep_refresh: "op_preserves inv (refresh_count E)"
  unfolding refresh_count_def by (intro op_preserves_then keep_clock op_preserves_modify count)

lemma keep_fix: "ok d \<Longrightarrow> op_preserves inv (fix_dimensions (length (get_vector d)))"
  unfolding fix_dimensions_def get_vector_def by (intro op_preserves_modify dims)

lemma keep_insert_internal: "ok d \<Longrightarrow> op_preserves inv (insert_internal E d)"
  unfolding insert_internal_def store_document_def
  by (intro op_preserves_then op_preserves_read op_preserves_return keep_pieces keep_fix keep_index keep_refresh)

lemma keep_delete_internal: "op_preserves inv (delete_internal E x)"
  unfolding delete_internal_def
  by (intro op_preserves_then keep_pieces keep_index keep_evict keep_refresh)

lemma keep_replay:
  assumes "\<forall>d \<in> set (log_documents es). ok d"
  shows "op_preserves inv (replay_wal E es)"
  unfolding replay_wal_def
proof (rule op_preserves_for)
  fix e assume "e \<in> set es"
  then have "\<forall>d \<in> set (entry_documents e). ok d" using assms by (auto simp: log_documents_def)
  then show "op_preserves inv (replay_entry E e)"
    by (cases e) (auto intro!: op_preserves_then op_preserves_ignore keep_insert_internal keep_delete_internal)
qed

end

locale collection_invariant = document_invariant +
  assumes counter: "inv c \<Longrightarrow> inv (c\<lparr>c_checkpoint := (c_checkpoint c)\<lparr>operation_count := n\<rparr>\<rparr>)"
    and log: "inv c \<Longrightarrow> (\<exists>d. ok d \<and> (e = WalInsert d 0 \<or> e = WalUpdate d 0)) \<or> (\<exists>x. e = WalDelete x 0) \<Longrightarrow>
      inv (set_wal (log_entry E e) c)"
    and checkpointed: "inv c \<Longrightarrow> inv (snd (checkpoint E c))"
begin

lemma keep_log:
  "ok d \<Longrightarrow> op_preserves inv (wal_log E (WalInsert d 0))"
  "ok d \<Longrightarrow> op_preserves inv (wal_log E (WalUpdate d 0))"
  "op_preserves inv (wal_log E (WalDelete x 0))"
  unfolding wal_log_def by (rule op_preserves_modify; use log in blast)+

lemma keep_track: "op_preserves inv (track_operation E)"
proof -
  have "op_preserves inv (interval_due E)"
    by (rule op_preservesI) (auto simp: interval_due_def op_then_apply read_clock_def clock split: option.split)
  moreover have "op_preserves inv should_checkpoint"
    by (rule op_preservesI) (simp add: should_checkpoint_def counter)
  moreover have "op_preserves inv (checkpoint E)"
    by (rule op_preservesI) (rule checkpointed)
  moreover have "op_preserves inv (op_modify reset_counter)"
    by (rule op_preserves_modify) (simp add: reset_counter_def counter)
  ultimately show ?thesis unfolding track_operation_def by (auto intro!: op_preserves_then)
qed

lemma keep_insert: "ok d \<Longrightarrow> op_preserves inv (insert_document E d)"
  unfolding insert_document_def
  by (intro op_preserves_then keep_log keep_track keep_insert_internal op_preserves_return)

lemma keep_upsert: "ok d \<Longrightarrow> op_preserves inv (upsert E d)"
  unfolding upsert_def
  by (intro op_preserves_if_state op_preserves_then keep_insert keep_log keep_track keep_insert_internal
      keep_delete_internal op_preserves_return op_preserves_read)

lemma keep_delete: "op_preserves inv (delete_document E x)"
  unfolding delete_document_def
  by (rule op_preserves_if_state [OF _ op_preserves_Pair])
    (intro op_preserves_then keep_log keep_track keep_delete_internal op_preserves_return)

lemma keep_insert_batch:
  assumes "\<forall>d \<in> set ds. ok d"
  shows "op_preserves inv (insert_batch E ds)"
proof -
  have "op_preserves inv (op_for (admit_document E) ds)"
    unfolding admit_document_def
    by (intro op_preserves_for op_preserves_then keep_fix keep_pieces keep_index) (use assms in blast)
  moreover have "op_preserves inv (op_for (\<lambda>d. wal_log E (WalInsert d 0)) ds)"
    by (intro op_preserves_for keep_log) (use assms in blast)
  moreover have "op_preserves inv (op_for (\<lambda>(d, p). point_to (doc_id d) p) dps)" for dps
    by (intro op_preserves_for) (auto intro: keep_pieces split: prod.split)
  ultimately show ?thesis
    unfolding insert_batch_def
    by (intro op_preserves_then op_preserves_read keep_pieces keep_track keep_refresh op_preserves_return)
qed

lemma keep_delete_batch: "op_preserves inv (delete_batch E xs)"
proof -
  have "op_preserves inv (log_delete E x)" for x
    unfolding log_delete_def by (intro op_preserves_if_state keep_log) simp
  moreover have "op_preserves inv (delete_present E xs)" for xs
  proof (induction xs)
    case (Cons x xs)
    then show ?case
      unfolding delete_present.simps
      by (intro op_preserves_if_state op_preserves_then keep_delete_internal op_preserves_return)
  qed simp
  ultimately show ?thesis
    unfolding delete_batch_def
    by (intro op_preserves_then op_preserves_for) (auto intro: keep_track)
qed

lemma keep_update_metadata:
  assumes "stored E c" and "\<forall>d \<in> set (written (UpdateMetadata x m) (docs E c)). ok d" and "inv c"
  shows "inv (snd (update_metadata E x m c))"
proof (cases "docs E c x")
  case None
  then show ?thesis using assms(3) by (simp add: update_metadata_def op_then_apply get_docs [OF assms(1)])
next
  case (Some d)
  then have d: "d\<lparr>doc_id := x, doc_metadata := m\<rparr> = d\<lparr>doc_metadata := m\<rparr>" "ok (d\<lparr>doc_metadata := m\<rparr>)"
    using docs_id [OF assms(1) Some] assms(2) by simp_all
  have p: "op_preserves inv
      (op_then (wal_log E (WalUpdate (d\<lparr>doc_metadata := m\<rparr>) 0)) (\<lambda>_.
         op_then (op_read (enforce_single (length (enc_doc E (d\<lparr>doc_metadata := m\<rparr>))))) (\<lambda>_.
         op_then (store_bytes E (enc_doc E (d\<lparr>doc_metadata := m\<rparr>))) (\<lambda>p.
         op_then (point_to x p) (\<lambda>_.
         op_then (on_cache (put_metadata x m)) (\<lambda>_.
         op_then (refresh_count E) (\<lambda>_.
         op_then (track_operation E) (\<lambda>_.
         op_return True))))))))"
    by (intro op_preserves_then keep_log keep_track keep_pieces keep_refresh op_preserves_return
        op_preserves_read d(2))
  show ?thesis
    using op_preservesD [OF p assms(3)]
    by (simp add: update_metadata_def op_then_Inr [where m = "op_read (get E x)"] get_docs [OF assms(1)] Some d(1))
qed

lemma keep_update_vector:
  assumes "stored E c" and "\<forall>d \<in> set (written (UpdateVector x v) (docs E c)). ok d" and "inv c"
  shows "inv (snd (update_vector E x v c))"
proof (cases "docs E c x")
  case None
  then show ?thesis using assms(3) by (simp add: update_vector_def op_then_apply get_docs [OF assms(1)])
next
  case (Some d)
  then have d: "d\<lparr>doc_id := x, doc_vector := v\<rparr> = d\<lparr>doc_vector := v\<rparr>" "ok (d\<lparr>doc_vector := v\<rparr>)"
    using docs_id [OF assms(1) Some] assms(2) by simp_all
  have "inv (c\<lparr>c_meta := set_dimensions (length v) (c_meta c)\<rparr>)" if "inv c" for c
    using dims [OF that d(2)] by simp
  then have "op_preserves inv (settle_dimensions v)"
    by (intro op_preservesI) (auto simp: settle_dimensions_def fix_dimensions_def split: option.split)
  then have p: "op_preserves inv
      (op_then (wal_log E (WalUpdate (d\<lparr>doc_vector := v\<rparr>) 0)) (\<lambda>_.
         op_then (settle_dimensions v) (\<lambda>_.
         op_then (op_read (enforce_single (length (enc_doc E (d\<lparr>doc_vector := v\<rparr>))))) (\<lambda>_.
         op_then (store_bytes E (enc_doc E (d\<lparr>doc_vector := v\<rparr>))) (\<lambda>p.
         op_then (point_to x p) (\<lambda>_.
         op_then (on_cache (put_vector x v)) (\<lambda>_.
         op_then (on_cache (put_metadata x (doc_metadata d))) (\<lambda>_.
         op_then (unindex_vector E x) (\<lambda>_.
         op_then (index_vector E x v) (\<lambda>_.
         op_then (refresh_count E) (\<lambda>_.
         op_then (track_operation E) (\<lambda>_.
         op_return True))))))))))))"
    by (intro op_preserves_then keep_log keep_track keep_pieces keep_index keep_refresh
        op_preserves_return op_preserves_read d(2))
  show ?thesis
    using op_preservesD [OF p assms(3)]
    by (simp add: update_vector_def op_then_Inr [where m = "op_read (get E x)"] get_docs [OF assms(1)] Some d(1))
qed

text \<open>Whether or not the command succeeds.\<close>

lemma keep_run:
  assumes "stored E c" and "\<forall>d \<in> set (written cmd (docs E c)). ok d" and "inv c"
  shows "inv (snd (run E cmd c))"
proof (cases cmd)
  case (Insert d)
  then show ?thesis using op_preservesD [OF keep_insert [of d] assms(3)] assms(2) by (simp add: snd_ignore_result)
next
  case (InsertBatch ds)
  then show ?thesis
    using op_preservesD [OF keep_insert_batch [of ds] assms(3)] assms(2) by (simp add: snd_ignore_result)
next
  case (Upsert d)
  then show ?thesis using op_preservesD [OF keep_upsert [of d] assms(3)] assms(2) by (simp add: snd_ignore_result)
next
  case (Delete x)
  then show ?thesis using op_preservesD [OF keep_delete assms(3)] by (simp add: snd_ignore_result)
next
  case (DeleteBatch xs)
  then show ?thesis using op_preservesD [OF keep_delete_batch assms(3)] by (simp add: snd_ignore_result)
next
  case (UpdateMetadata x m)
  then show ?thesis
    using keep_update_metadata [OF assms(1) _ assms(3), of x m] assms(2) by (simp only: run.simps snd_ignore_result)
next
  case (UpdateVector x v)
  then show ?thesis
    using keep_update_vector [OF assms(1) _ assms(3), of x v] assms(2) by (simp only: run.simps snd_ignore_result)
next
  case Checkpoint
  then show ?thesis using checkpointed [OF assms(3)] by simp
next
  case Flush
  then show ?thesis using assms(3) by (simp add: flush_def set_wal_def wal_flush_def)
qed

end

end
