(* ===== verification/Crash.thy ===== *)
theory Crash
  imports Invariants
begin

text \<open>
  Crashes in the middle of a checkpoint. \<^verbatim>\<open>checkpoint\<close> in
  \<^verbatim>\<open>src/src/collections/checkpoint.rs\<close> writes five files, one after the other;
  \<open>checkpoint_steps\<close> lists its writes, and a crash cuts the list short. What makes every cut
  harmless is that replaying a log a second time changes nothing and that the log's numbers stay
  below the next one.
\<close>

section \<open>The writes of a checkpoint\<close>

definition checkpoint_steps :: "'b env \<Rightarrow> nat \<Rightarrow> bool \<Rightarrow> ('b collection \<Rightarrow> 'b collection) list" where
  "checkpoint_steps E ts enabled =
     [save_index E, save_vector_index E, save_metadata E] @
     (if enabled then
       [\<lambda>c. record_checkpoint ts (set_wal (wal_checkpoint E ts) c),
        \<lambda>c. save_wal_meta E (next_seq (wal (c_checkpoint c)) - 1) c,
        set_wal (rotate E)]
      else [])"

text \<open>The state after the first \<open>n\<close> writes, the clock having been read.\<close>

definition checkpoint_cut :: "'b env \<Rightarrow> nat \<Rightarrow> 'b collection \<Rightarrow> 'b collection" where
  "checkpoint_cut E n c =
     fold (\<lambda>f. f) (take n (checkpoint_steps E (now_secs E (c_ticks c)) (wal_enabled (cc_wal (c_config c)))))
       (c\<lparr>c_ticks := c_ticks c + 1\<rparr>)"

lemma checkpoint_all_steps: "checkpoint E c = (Inr (), checkpoint_cut E 6 c)"
  by (simp add: checkpoint_def op_then_apply checkpoint_cut_def checkpoint_steps_def read_clock_def
      checkpoint_wal_def Let_def)

section \<open>Replaying twice\<close>

text \<open>What the log says last about an id, if anything.\<close>

fun entry_about :: "uuid \<Rightarrow> wal_entry \<Rightarrow> document option option" where
  "entry_about x (WalInsert d _) = (if doc_id d = x then Some (Some d) else None)"
| "entry_about x (WalUpdate d _) = (if doc_id d = x then Some (Some d) else None)"
| "entry_about x (WalDelete y _) = (if y = x then Some None else None)"
| "entry_about x (WalCheckpoint _ _) = None"

definition last_about :: "uuid \<Rightarrow> wal_entry list \<Rightarrow> document option option" where
  "last_about x es = fold (\<lambda>e r. case entry_about x e of None \<Rightarrow> r | Some v \<Rightarrow> Some v) es None"

lemma apply_entry_about:
  "apply_entry e D x = (case entry_about x e of None \<Rightarrow> D x | Some v \<Rightarrow> v)"
  by (cases e) (auto simp: put_doc_def drop_doc_def)

lemma fold_apply_entry:
  "fold apply_entry es D x = (case last_about x es of None \<Rightarrow> D x | Some v \<Rightarrow> v)"
proof (induction es rule: rev_induct)
  case (snoc e es)
  then show ?case by (auto simp: last_about_def apply_entry_about split: option.splits)
qed (simp add: last_about_def)

lemma replay_twice: "fold apply_entry es (fold apply_entry es D) = fold apply_entry es D"
  by (rule ext) (auto simp: fold_apply_entry split: option.splits)

section \<open>The numbers in the log\<close>

definition numbered_below :: "'b env \<Rightarrow> nat \<Rightarrow> 'b list list \<Rightarrow> bool" where
  "numbered_below E n ls \<longleftrightarrow>
     (\<forall>l \<in> set ls. \<forall>e. l \<noteq> [] \<and> parse_header E l = None \<and> parse_entry E l = Some e \<longrightarrow> wal_seq e < n)"

definition numbered :: "'b env \<Rightarrow> 'b wal \<Rightarrow> bool" where
  "numbered E w \<longleftrightarrow> numbered_below E (next_seq w) (wal_lines w)"

lemma replay_none:
  "replay_lines E m ls = Inr es \<Longrightarrow> numbered_below E (k + 1) ls \<Longrightarrow> replay_lines E k ls = Inr []"
proof (induction ls arbitrary: es)
  case (Cons l ls)
  have n: "numbered_below E (k + 1) ls" using Cons.prems(2) by (simp add: numbered_below_def)
  have "\<exists>fs. replay_lines E m ls = Inr fs"
    using Cons.prems(1) by (auto simp: replay_lines.simps(2) and_then_eq_Inr split: if_splits option.splits)
  then have IH: "replay_lines E k ls = Inr []" using Cons.IH n by blast
  have "wal_seq e \<le> k" if "l \<noteq> []" "parse_header E l = None" "parse_entry E l = Some e" for e
    using Cons.prems(2) that by (auto simp: numbered_below_def)
  then show ?case
    using Cons.prems(1) IH by (auto simp: replay_lines.simps(2) split: if_splits option.splits)
qed simp

lemma replay_Nil_numbered: "replay_lines E m ls = Inr [] \<Longrightarrow> numbered_below E (m + 1) ls"
proof (induction ls)
  case (Cons l ls)
  then have "replay_lines E m ls = Inr []"
    by (auto simp: replay_lines.simps(2) and_then_eq_Inr split: if_splits option.splits)
  moreover have "wal_seq e < m + 1" if "l \<noteq> []" "parse_header E l = None" "parse_entry E l = Some e" for e
    using Cons.prems that by (auto simp: replay_lines.simps(2) and_then_eq_Inr split: if_splits)
  ultimately show ?case using Cons.IH by (auto simp: numbered_below_def)
qed (simp add: numbered_below_def)

lemma numbered_header: "codecs_ok E \<Longrightarrow> numbered_below E n [json_header E wal_version]"
  by (simp add: numbered_below_def codecs_ok_def)

lemma numbered_log_entry:
  assumes "codecs_ok E" and "numbered E w" and "entry_round_trips E (set_seq (next_seq w) e)"
  shows "numbered E (log_entry E e w)"
proof -
  have "numbered_below E (next_seq w + 1) (wal_lines w)"
    using assms(2) unfolding numbered_def numbered_below_def by (fastforce intro: less_SucI)
  moreover have "numbered_below E (next_seq w + 1) [json_entry E (set_seq (next_seq w) e)]"
    using assms(3) by (simp add: numbered_below_def entry_round_trips_def)
  ultimately show ?thesis by (auto simp: numbered_def log_entry_def numbered_below_def)
qed

lemma numbered_rotate: "codecs_ok E \<Longrightarrow> numbered E w \<Longrightarrow> numbered E (rotate E w)"
  using numbered_header [of E "next_seq w"]
  by (auto simp: numbered_def rotate_def ensure_header_def)

section \<open>Every cut is recoverable\<close>

text \<open>There is room to append the logged documents once more.\<close>

definition replay_room :: "'b env \<Rightarrow> 'b collection \<Rightarrow> bool" where
  "replay_room E c \<longleftrightarrow>
     (\<forall>m es. load_wal_meta E (c_saved c) = Inr m \<and> replay_lines E m (wal_lines (wal (c_checkpoint c))) = Inr es \<longrightarrow>
        append_cursor (c_store c) + collection_bytes E (log_documents es) \<le> max_u64)"

lemma recoverable_saved:
  assumes "stored E c" and "c_store c' = c_store c" and "load_index E (c_saved c') = Inr (c_index c)"
    and "load_wal_meta E (c_saved c') = Inr m" and "replay_lines E m (wal_lines (wal (c_checkpoint c'))) = Inr es"
    and "fold apply_entry es (docs E c) = docs E c" and "short_records E (log_documents es)"
    and "append_cursor (c_store c) + collection_bytes E (log_documents es) \<le> max_u64"
  shows "recoverable E (disk_of c') (docs E c)"
proof -
  have "pointers_ok E (c_store c) (c_index c)" "store_ok (c_store c)" using assms(1) by (simp_all add: stored_def)
  then show ?thesis
    unfolding recoverable_def
    using assms next_append_offset_stored [of E "c_store c" "c_index c"]
    by (intro exI [of _ "c_store c"] exI [of _ "c_index c"] exI [of _ m] exI [of _ es])
      (auto simp: disk_of_def docs_def)
qed

lemma checkpoint_cut_recoverable:
  assumes "codecs_ok E" and "stored E c" and "durable E c" and "numbered E (wal (c_checkpoint c))"
    and "replay_room E c"
  shows "recoverable E (disk_of (checkpoint_cut E n c)) (docs E c)"
proof -
  let ?w = "wal (c_checkpoint c)" and ?ts = "now_secs E (c_ticks c)"
  have on: "wal_on ?w" "wal_enabled (cc_wal (c_config c))" using assms(3) by (simp_all add: durable_def)
  obtain i m es where d: "load_wal_meta E (c_saved c) = Inr m" "m < next_seq ?w"
    "replay_lines E m (wal_lines ?w) = Inr es" "fold apply_entry es (docs_in E (c_store c) i) = docs E c"
    "short_records E (log_documents es)"
    using assms(3) by (auto simp: durable_def logged_def)
  have room: "append_cursor (c_store c) + collection_bytes E (log_documents es) \<le> max_u64"
    using assms(5) d(1,3) by (simp add: replay_room_def)
  have twice: "fold apply_entry es (docs E c) = docs E c" using replay_twice d(4) by metis
  have li: "load_index E (saved_index_update (\<lambda>_. Some (enc_index E (c_index c))) v) = Inr (c_index c)" for v
    using assms(1) by (simp add: load_index_def codecs_ok_def)
  note rs = recoverable_saved [OF assms(2)]
  let ?w4 = "log_entry E (WalCheckpoint ?ts 0) ?w"
  have ck: "entry_round_trips E (set_seq (next_seq ?w) (WalCheckpoint ?ts 0))"
    using assms(1) by (simp add: entry_round_trips_def codecs_ok_def)
  have w4: "replay_lines E m (wal_lines ?w4) = Inr (es @ [WalCheckpoint ?ts (next_seq ?w)])"
    using replay_log_entry [OF assms(1) ck on(1), of m es] d(2,3) on(1) by (simp add: replay_def)
  have w5: "replay_lines E (next_seq ?w) (wal_lines ?w4) = Inr []"
    using replay_none [OF w4] numbered_log_entry [OF assms(1,4) ck] by (simp add: numbered_def)
  have w6: "replay_lines E k (wal_lines (rotate E ?w4)) = Inr []" for k
    using replay_rotate [OF assms(1), of k ?w4] on(1) by (simp add: replay_def)
  have lm: "load_wal_meta E (saved_wal_meta_update (\<lambda>_. Some (json_wal_meta E k)) v) = Inr k" for k v
    using assms(1) by (simp add: load_wal_meta_def codecs_ok_def)
  have steps: "n = 0 \<or> n = 1 \<or> n = 2 \<or> n = 3 \<or> n = 4 \<or> n = 5 \<or> 6 \<le> n" by linarith
  have zero: "recoverable E (disk_of (checkpoint_cut E 0 c)) (docs E c)"
    using durable_recoverable [OF assms(2,3)] room by (simp add: checkpoint_cut_def disk_of_def)
  have saved: "recoverable E (disk_of (checkpoint_cut E k c)) (docs E c)" if "k = 1 \<or> k = 2 \<or> k = 3" for k
    using that d twice room
    by (intro rs [where m = m and es = es])
      (auto simp: checkpoint_cut_def checkpoint_steps_def numeral_2_eq_2 numeral_3_eq_3 save_index_def
        save_vector_index_def save_metadata_def load_index_def load_wal_meta_def assms(1)[unfolded codecs_ok_def])
  have cut: "take 4 xs = take 3 xs @ [xs ! 3]" "take 5 xs = take 3 xs @ [xs ! 3, xs ! 4]"
    "k \<ge> 6 \<Longrightarrow> take k xs = take 3 xs @ [xs ! 3, xs ! 4, xs ! 5]"
    if "length xs = 6" for k and xs :: "('b collection \<Rightarrow> 'b collection) list"
    using that by (auto simp: numeral_eq_Suc length_Suc_conv)
  let ?c3 = "save_metadata E (save_vector_index E (save_index E (c\<lparr>c_ticks := c_ticks c + 1\<rparr>)))"
  let ?c4 = "record_checkpoint ?ts (set_wal (wal_checkpoint E ?ts) ?c3)"
  have eq: "checkpoint_cut E 4 c = ?c4" "checkpoint_cut E 5 c = save_wal_meta E (next_seq ?w) ?c4"
    "6 \<le> n \<Longrightarrow> checkpoint_cut E n c = set_wal (rotate E) (save_wal_meta E (next_seq ?w) ?c4)"
    by (simp_all add: checkpoint_cut_def checkpoint_steps_def on(2) cut wal_checkpoint_def numeral_3_eq_3)
  have index: "load_index E (c_saved ?c4) = Inr (c_index c)" "c_store ?c4 = c_store c"
    "wal (c_checkpoint ?c4) = ?w4" "load_wal_meta E (c_saved ?c4) = Inr m"
    using assms(1) d(1)
    by (simp_all add: wal_checkpoint_def save_index_def save_vector_index_def save_metadata_def load_index_def
        load_wal_meta_def codecs_ok_def)
  have four: "recoverable E (disk_of (checkpoint_cut E 4 c)) (docs E c)"
    unfolding eq(1)
    by (rule rs [OF index(2,1,4), where es = "es @ [WalCheckpoint ?ts (next_seq ?w)]"])
      (use d twice room w4 index(3) in simp_all)
  have index': "load_index E (c_saved (save_wal_meta E (next_seq ?w) ?c4)) = Inr (c_index c)"
    "load_wal_meta E (c_saved (save_wal_meta E (next_seq ?w) ?c4)) = Inr (next_seq ?w)"
    using index(1) assms(1)
    by (simp_all add: save_wal_meta_def load_index_def load_wal_meta_def codecs_ok_def)
  have five: "recoverable E (disk_of (checkpoint_cut E 5 c)) (docs E c)"
    unfolding eq(2)
    by (rule rs [OF _ index', where es = "[]"]) (use room w5 index(2,3) in simp_all)
  have six: "recoverable E (disk_of (checkpoint_cut E n c)) (docs E c)" if "6 \<le> n"
    unfolding eq(3) [OF that]
    by (rule rs [where m = "next_seq ?w" and es = "[]"])
      (use room w6 index' index(2,3) in \<open>simp_all add: load_index_def load_wal_meta_def\<close>)
  show ?thesis using steps zero saved four five six by auto
qed

section \<open>Every operation keeps the numbering\<close>

definition wal_inv :: "'b env \<Rightarrow> 'b collection \<Rightarrow> bool" where
  "wal_inv E c \<longleftrightarrow> codecs_ok E \<and> numbered E (wal (c_checkpoint c))"

lemma numbered_checkpoint:
  assumes "codecs_ok E" and "numbered E (wal (c_checkpoint c))"
  shows "numbered E (wal (c_checkpoint (snd (checkpoint E c))))"
proof -
  have "numbered E (wal_checkpoint E ts (wal (c_checkpoint c)))" for ts
    unfolding wal_checkpoint_def
    by (rule numbered_log_entry [OF assms])
      (use assms(1) in \<open>simp add: codecs_ok_def entry_round_trips_def\<close>)
  then show ?thesis
    using numbered_rotate [OF assms(1)] assms(2) by (simp add: checkpoint_def op_then_apply)
qed

interpretation numbering: collection_invariant E "wal_inv E" "loggable E" for E
proof (unfold_locales, goal_cases)
  case (10 c e)
  then have "entry_round_trips E (set_seq n e)" for n
    using round_trip_delete [of E] by (auto simp: wal_inv_def loggable_def)
  then show ?case using 10 numbered_log_entry by (auto simp: wal_inv_def)
next
  case (11 c)
  then show ?case using numbered_checkpoint by (auto simp: wal_inv_def)
qed (simp_all add: wal_inv_def)

text \<open>A replay leaves the log and the saved files alone.\<close>

interpretation log_untouched:
  document_invariant E "\<lambda>c. wal (c_checkpoint c) = w \<and> c_config c = k \<and> c_saved c = v" "\<lambda>_. True"
  for E w k v
  by unfold_locales simp_all

text \<open>
  Opening: either nothing in the log is newer than the last checkpoint, or the checkpoint after the
  replay empties it.
\<close>

lemma checkpoint_wal_inv:
  assumes "codecs_ok E" and "wal_on (wal (c_checkpoint c))" and "wal_enabled (cc_wal (c_config c))"
  shows "wal_inv E (snd (checkpoint E c))"
  using assms numbered_header [OF assms(1)]
  by (auto simp: checkpoint_def op_then_apply wal_inv_def numbered_def rotate_def ensure_header_def wal_checkpoint_def)

lemma open_cases:
  assumes "wal_enabled (cc_wal cfg)" and "open_collection E name cfg tick draw d = (Inr c, d')"
  obtains m es v c0 where "replay E m (wal_new E (d_wal d) (m + 1)) = Inr es"
    "(if es \<noteq> [] then recover E es else finish_open E (v = (None::any_index option))) c0 = (Inr (), c)"
    "c_checkpoint c0 = checkpoint_manager_new (wal_new E (d_wal d) (m + 1))" "c_config c0 = cfg"
proof -
  obtain i where i: "load_index E (d_saved d) = Inr i"
    using assms(2) by (auto simp: open_collection_def split: sum.splits)
  obtain mo v m where l: "load_metadata E (d_saved d) = Inr mo" "load_vector_index E (d_saved d) = Inr v"
    "load_wal_meta E (d_saved d) = Inr m"
    using assms i by (auto simp: open_collection_def Let_def split: sum.splits)
  have w: "opened_wal E cfg m (d_wal d) = wal_new E (d_wal d) (m + 1)" using assms(1) by (simp add: opened_wal_def)
  obtain es where es: "replay E m (wal_new E (d_wal d) (m + 1)) = Inr es"
    using assms i l w by (auto simp: open_collection_def Let_def split: sum.splits)
  show thesis
    by (rule that [OF es, of v "\<lparr>c_store = store_open E (d_data d) cfg i, c_index = i,
        c_vindex = (case v of None \<Rightarrow> create_index E (cc_index cfg) (length i) | Some j \<Rightarrow> j),
        c_cache = cache_new (cc_cache cfg), c_config = cfg, c_meta = opened_metadata E name tick (length i) mo,
        c_checkpoint = checkpoint_manager_new (wal_new E (d_wal d) (m + 1)), c_saved = d_saved d,
        c_ticks = tick + 1, c_draws = draw\<rparr>"])
      (use assms i l w es in \<open>auto simp: open_collection_def Let_def split: sum.splits prod.splits\<close>)
qed

lemma open_wal_inv:
  assumes "codecs_ok E" and "wal_enabled (cc_wal cfg)"
    and "open_collection E name cfg tick draw d = (Inr c, d')"
  shows "wal_inv E c"
proof -
  obtain m es v c0 where m: "replay E m (wal_new E (d_wal d) (m + 1)) = Inr es"
    and run: "(if es \<noteq> [] then recover E es else finish_open E (v = (None::any_index option))) c0 = (Inr (), c)"
    and c0: "c_checkpoint c0 = checkpoint_manager_new (wal_new E (d_wal d) (m + 1))" "c_config c0 = cfg"
    using open_cases [OF assms(2,3)] .
  let ?w = "wal_new E (d_wal d) (m + 1)"
  show ?thesis
  proof (cases "es = []")
    case True
    then have nb: "numbered_below E (m + 1) (wal_lines ?w)" using m replay_Nil_numbered by (simp add: replay_def)
    have f: "finish_open E (v = None) c0 = (Inr (), c)" using run True by simp
    have "c_checkpoint c = checkpoint_manager_new ?w"
      using finish_open_same [OF f] c0(1) by (simp add: same_documents_def)
    then show ?thesis using nb assms(1) by (simp add: wal_inv_def numbered_def checkpoint_manager_new_def)
  next
    case False
    obtain c1 c2 where c1: "replay_wal E es c0 = (Inr (), c1)" and c2: "rebuild_vector_cache E c1 = (Inr (), c2)"
      and c3: "checkpoint E c2 = (Inr (), c)"
      using run False by (auto simp: recover_def op_then_eq_Inr)
    have "c_checkpoint c2 = c_checkpoint c1" "c_config c2 = c_config c1"
      using rebuild_vector_cache_same [OF c2] by (simp_all add: same_documents_def)
    moreover have "wal (c_checkpoint c1) = wal (c_checkpoint c0) \<and> c_config c1 = c_config c0"
      using op_preserves_Inr [OF log_untouched.keep_replay _ c1] by simp
    ultimately have "wal_inv E (snd (checkpoint E c2))"
      using assms(2) c0 by (intro checkpoint_wal_inv [OF assms(1)]) (simp_all add: checkpoint_manager_new_def)
    then show ?thesis using c3 by simp
  qed
qed

text \<open>So the numbering holds in every state of a history.\<close>

lemma history_numbered:
  assumes "history E cfg c D" and "codecs_ok E" and "wal_enabled (cc_wal cfg)"
  shows "numbered E (wal (c_checkpoint c))"
  using assms(1)
proof (induction rule: history.induct)
  case (created name tick draw c d)
  then show ?case using open_wal_inv [OF assms(2,3)] by (simp add: wal_inv_def)
next
  case (returned c D cmd c')
  have h: "stored E c" "docs E c = D" using history_durable [OF returned.hyps(1) assms(2,3)] by simp_all
  have "wal_inv E (snd (run E cmd c))"
    by (rule numbering.keep_run [OF h(1)]) (use returned h assms(2) in \<open>simp_all add: wal_inv_def\<close>)
  then show ?case using returned by (simp add: wal_inv_def)
next
  case (crashed c D name tick draw c' d)
  then show ?case using open_wal_inv [OF assms(2,3)] by (simp add: wal_inv_def)
qed

lemma open_small_fields:
  "\<exists>c d. open_collection blob_env ''c'' small_config 0 0 no_files = (Inr c, d)
     \<and> c_saved c = d_saved no_files \<and> wal (c_checkpoint c) = wal_new blob_env [] 1 \<and> c_index c = []
     \<and> rs_file (c_store c) = [] \<and> c_config c = small_config \<and> c_meta c = collection_metadata_new ''c'' 0
     \<and> append_cursor (c_store c) = 0"
  by (simp add: open_collection_def no_files_def load_index_def Let_def load_metadata_def
      load_vector_index_def small_config_def default_collection_config_def default_wal_config_def
      load_wal_meta_def opened_wal_def replay_def wal_new_def ensure_header_def store_open_def
      initial_size_def default_memory_config_def ensure_file_size_def next_append_offset_def
      finish_open_def rebuild_vector_cache_def collect_documents_def hm_iter_def hm_keys_def
      op_then_apply create_index_def default_index_config_def default_auto_index_def
      opened_metadata_def collection_metadata_new_def wal_version_def replay_lines.simps(2) checkpoint_manager_new_def)

section \<open>Properties\<close>



end
