(* ===== verification/Search_Engine.thy ===== *)
theory Search_Engine
  imports Collection_Refinement
begin

text \<open>
  The search engine over collections: \<^verbatim>\<open>src/src/search/engine.rs\<close>,
  \<^verbatim>\<open>utils.rs\<close>, \<^verbatim>\<open>types.rs\<close> and \<^verbatim>\<open>src/src/collections/search.rs\<close>.
  Candidates come from the vector index, are read back from the store, scored with the requested
  metric, filtered and cut to \<open>k\<close>.
\<close>

record hit =
  hit_id :: uuid
  hit_score :: f32
  hit_text :: string
  hit_vector :: "f32 list"
  hit_metadata :: metadata

definition hit_new :: "uuid \<Rightarrow> f32 \<Rightarrow> string \<Rightarrow> f32 list \<Rightarrow> metadata \<Rightarrow> hit" where
  "hit_new x s t v m = \<lparr>hit_id = x, hit_score = s, hit_text = t, hit_vector = v, hit_metadata = m\<rparr>"

record search_params =
  sp_mode :: execution_mode
  sp_filter :: "filter_query option"
  sp_overfetch :: "nat option"
  sp_config :: "search_config option"

definition default_search_params :: search_params where
  "default_search_params = \<lparr>sp_mode = Auto, sp_filter = None, sp_overfetch = None, sp_config = None\<rparr>"

definition sort_and_truncate :: "nat \<Rightarrow> hit list \<Rightarrow> hit list" where
  "sort_and_truncate k hits = take k (sort_by (by_score_desc hit_score) hits)"

definition effective_search :: "'b collection \<Rightarrow> search_params \<Rightarrow> search_config" where
  "effective_search c p =
     (case sp_config p of Some s \<Rightarrow> s | None \<Rightarrow> cc_search (c_config c))"

definition candidate_count :: "'b collection \<Rightarrow> nat \<Rightarrow> search_params \<Rightarrow> nat" where
  "candidate_count c k p =
     (case sp_filter p of
        None \<Rightarrow> k
      | Some _ \<Rightarrow> sat_mul k (max (case sp_overfetch p of
            Some n \<Rightarrow> n | None \<Rightarrow> max (filter_overfetch (effective_search c p)) 1) 1))"

definition hit_of ::
  "'b env \<Rightarrow> f32 list \<Rightarrow> metric \<Rightarrow> execution_mode \<Rightarrow> 'b collection \<Rightarrow> uuid \<Rightarrow> hit outcome" where
  "hit_of E q metric mode c x =
     and_then (get E x c) (\<lambda>r.
     case r of
       None \<Rightarrow> fail (Index (SearchFailed [Txt ''index returned missing document '', Id x]))
     | Some d \<Rightarrow>
         and_then (try_get_vector d) (\<lambda>v.
         and_then (calculate E metric q v mode) (\<lambda>s.
         Inr \<lparr>hit_id = x, hit_score = s, hit_text = doc_text d, hit_vector = v,
              hit_metadata = doc_metadata d\<rparr>)))"

definition search_collection_with_maps ::
  "'b env \<Rightarrow> f32 list \<Rightarrow> nat \<Rightarrow> metric \<Rightarrow> search_params \<Rightarrow> metadatas \<Rightarrow> 'b collection
    \<Rightarrow> hit list outcome" where
  "search_collection_with_maps E q k metric p ms c =
     and_then (index_search E q (candidate_count c k p) (cm_vectors (c_cache c))
         (effective_search c p) (sp_filter p) ms (c_vindex c)) (\<lambda>ids.
     and_then (collect_results (hit_of E q metric (sp_mode p) c) ids) (\<lambda>hits.
     Inr (case sp_filter p of
        None \<Rightarrow> hits
      | Some f \<Rightarrow> sort_and_truncate k (filter (\<lambda>h. filter_matches f (hit_metadata h)) hits))))"

definition search_collection ::
  "'b env \<Rightarrow> f32 list \<Rightarrow> nat \<Rightarrow> metric \<Rightarrow> search_params \<Rightarrow> 'b collection \<Rightarrow> hit list outcome" where
  "search_collection E q k metric p c =
     search_collection_with_maps E q k metric p (cm_metadata (c_cache c)) c"

text \<open>
  With \<^verbatim>\<open>parallel_search\<close> rayon collects the results: when several queries fail it
  returns the error of one of them, chosen by \<open>pick\<close>.
\<close>

definition collect_parallel :: "('e list \<Rightarrow> 'e) \<Rightarrow> ('a \<Rightarrow> 'e + 'r) \<Rightarrow> 'a list \<Rightarrow> 'e + 'r list" where
  "collect_parallel pick f xs =
     (case collect_results f xs of
        Inr ys \<Rightarrow> Inr ys
      | Inl _ \<Rightarrow> Inl (pick (concat (map (\<lambda>x. case f x of Inl e \<Rightarrow> [e] | Inr _ \<Rightarrow> []) xs))))"

definition search_batch_collection ::
  "'b env \<Rightarrow> (fault list \<Rightarrow> fault) \<Rightarrow> f32 list list \<Rightarrow> nat \<Rightarrow> metric \<Rightarrow> search_params
    \<Rightarrow> 'b collection \<Rightarrow> hit list list outcome" where
  "search_batch_collection E pick qs k metric p c =
     (if parallel_search (cc_parallelism (c_config c))
      then collect_parallel pick
        (\<lambda>q. search_collection_with_maps E q k metric p (cm_metadata (c_cache c)) c) qs
      else collect_results
        (\<lambda>q. search_collection_with_maps E q k metric p (cm_metadata (c_cache c)) c) qs)"

definition collection_search ::
  "'b env \<Rightarrow> f32 list \<Rightarrow> nat \<Rightarrow> metric \<Rightarrow> search_params \<Rightarrow> 'b collection \<Rightarrow> hit list outcome" where
  "collection_search E q k metric p c =
     (let p1 = (if sp_mode p = Auto then p\<lparr>sp_mode := cc_execution (c_config c)\<rparr> else p);
          p2 = (if sp_overfetch p1 = None
             then p1\<lparr>sp_overfetch := Some (filter_overfetch (cc_search (c_config c)))\<rparr> else p1)
      in search_collection E q k metric p2 c)"

definition collection_search_batch ::
  "'b env \<Rightarrow> (fault list \<Rightarrow> fault) \<Rightarrow> f32 list list \<Rightarrow> nat \<Rightarrow> metric \<Rightarrow> 'b collection
    \<Rightarrow> hit list list outcome" where
  "collection_search_batch E pick qs k metric c =
     search_batch_collection E pick qs k metric
       \<lparr>sp_mode = cc_execution (c_config c), sp_filter = None, sp_overfetch = None, sp_config = None\<rparr> c"

section \<open>Lemmas\<close>

text \<open>The document a hit stands for.\<close>

definition hit_for :: "doc_map \<Rightarrow> hit \<Rightarrow> bool" where
  "hit_for D h \<longleftrightarrow> (\<exists>d. D (hit_id h) = Some d \<and> hit_text h = doc_text d \<and>
     hit_vector h = doc_vector d \<and> hit_metadata h = doc_metadata d)"

lemma hit_of_stored:
  assumes "stored E c" and "docs E c x = Some d"
  shows "hit_of E q metric mode c x =
    and_then (calculate E metric q (doc_vector d) mode) (\<lambda>s.
      Inr \<lparr>hit_id = x, hit_score = s, hit_text = doc_text d, hit_vector = doc_vector d,
           hit_metadata = doc_metadata d\<rparr>)"
  by (simp add: hit_of_def get_docs [OF assms(1)] assms(2) try_get_vector_def get_vector_def)

lemma hits_of_stored:
  assumes "stored E c" and "collect_results (hit_of E q metric mode c) ids = Inr hits"
  shows "map hit_id hits = ids \<and> (\<forall>h \<in> set hits. hit_for (docs E c) h \<and>
    calculate E metric q (hit_vector h) mode = Inr (hit_score h))"
  using assms(2)
proof (induction ids arbitrary: hits)
  case (Cons x ids)
  then obtain h hs where h: "hit_of E q metric mode c x = Inr h" and hs: "hits = h # hs"
    "collect_results (hit_of E q metric mode c) ids = Inr hs"
    by (auto simp: and_then_eq_Inr)
  obtain d where d: "docs E c x = Some d"
    using h get_docs [OF assms(1), of x]
    by (cases "docs E c x") (simp_all add: hit_of_def)
  show ?case
    using h Cons.IH [OF hs(2)] hs(1)
    by (auto simp: hit_of_stored [OF assms(1) d] and_then_eq_Inr hit_for_def d)
qed simp

lemma collect_results_defined:
  "(\<And>x. x \<in> set xs \<Longrightarrow> \<exists>y. f x = Inr y) \<Longrightarrow> \<exists>ys. collect_results f xs = Inr ys"
  by (induction xs) (force simp: and_then_eq_Inr)+

lemma sort_and_truncate_sound:
  "set (sort_and_truncate k hits) \<subseteq> set hits" "length (sort_and_truncate k hits) \<le> k"
  "distinct (map hit_id hits) \<Longrightarrow> distinct (map hit_id (sort_and_truncate k hits))"
proof -
  have "map hit_id (sort_and_truncate k hits) = take k (map hit_id (sort_by (by_score_desc hit_score) hits))"
    by (simp add: sort_and_truncate_def take_map)
  then show "distinct (map hit_id hits) \<Longrightarrow> distinct (map hit_id (sort_and_truncate k hits))" by simp
  show "set (sort_and_truncate k hits) \<subseteq> set hits"
    using set_take_subset [of k "sort_by (by_score_desc hit_score) hits"] by (simp add: sort_and_truncate_def)
  show "length (sort_and_truncate k hits) \<le> k" by (simp add: sort_and_truncate_def)
qed

text \<open>The filtered results are in descending order of score.\<close>

lemma take_sorted_desc:
  assumes "\<And>h. h \<in> set xs \<Longrightarrow> \<not> is_nan (f h)"
  shows "sorted_wrt (\<lambda>a b. fl_le (f b) (f a)) (take k (sort_by (by_score_desc f) xs))"
proof (rule sorted_wrt_mono_rel)
  show "sorted_wrt (\<lambda>a b. by_score_desc f a b \<noteq> Greater) (take k (sort_by (by_score_desc f) xs))"
    by (rule sorted_wrt_take, rule desc.sorted_sort_by) (use assms in blast)
  fix a b
  assume "a \<in> set (take k (sort_by (by_score_desc f) xs))" "b \<in> set (take k (sort_by (by_score_desc f) xs))"
    and c: "by_score_desc f a b \<noteq> Greater"
  then have "\<not> is_nan (f a)" "\<not> is_nan (f b)" using assms by (auto dest: in_set_takeD)
  then show "fl_le (f b) (f a)" using c by (simp add: by_score_desc_def cmp_or_equal_le)
qed

lemma sort_and_truncate_sorted:
  "(\<And>h. h \<in> set hits \<Longrightarrow> \<not> is_nan (hit_score h)) \<Longrightarrow>
   sorted_wrt (\<lambda>a b. fl_le (hit_score b) (hit_score a)) (sort_and_truncate k hits)"
  unfolding sort_and_truncate_def by (rule take_sorted_desc)

lemma search_collection_cases:
  assumes "search_collection E q k metric p c = Inr hits"
  obtains ids all where
    "index_search E q (candidate_count c k p) (cm_vectors (c_cache c)) (effective_search c p)
       (sp_filter p) (cm_metadata (c_cache c)) (c_vindex c) = Inr ids"
    "collect_results (hit_of E q metric (sp_mode p) c) ids = Inr all"
    "hits = (case sp_filter p of None \<Rightarrow> all
       | Some f \<Rightarrow> sort_and_truncate k (filter (\<lambda>h. filter_matches f (hit_metadata h)) all))"
  using assms by (auto simp: search_collection_def search_collection_with_maps_def and_then_eq_Inr)

lemma distinct_map_filter_hits: "distinct (map f xs) \<Longrightarrow> distinct (map f (filter P xs))"
  by (induction xs) auto

section \<open>Searching the collection with one document\<close>

lemma hit_of_one [simp]:
  "hit_of blob_env [y] DotProduct Scalar (one_collection x) x
   = Inr \<lparr>hit_id = x, hit_score = fadd f32_zero (fmul y f32_one), hit_text = ''t'', hit_vector = [f32_one], hit_metadata = []\<rparr>"
  by (simp add: hit_of_def get_def hm_get_def try_get_vector_def get_vector_def calculate_def dot_product_def
      resolve_def dot_product_scalar_def same_length_def sum_loop_def dot_term_def)
    (simp add: unit_document_def)

lemma search_one:
  "\<exists>h. search_collection blob_env [y] 3 DotProduct
     (default_search_params\<lparr>sp_mode := Scalar, sp_filter := Some filter_new, sp_overfetch := Some 1\<rparr>) (one_collection x) = Inr [h]"
  by (simp add: search_collection_def search_collection_with_maps_def default_search_params_def
      flat_search_def score_of_def reader_get_def hm_get_def calculate_def dot_product_def resolve_def
      dot_product_scalar_def same_length_def sum_loop_def dot_term_def best_ids_def candidate_count_def
      sort_and_truncate_def filter_new_def filter_matches_def sat_mul_def max_u64_def)

section \<open>Properties\<close>

text \<open>
  C17. Search answers are sound on every index: at most \<open>k\<close> hits with distinct ids, each of
  them a stored document with its own text, vector and metadata and the score the requested metric
  gives it, each passing the filter if there is one; and filtered answers come in descending order
  of score, unless a score is NaN.
\<close>

theorem search_answers_sound:
  assumes "stored E c" and "indexed E c" and "search_collection E q k metric p c = Inr hits"
  shows "length hits \<le> k \<and> distinct (map hit_id hits) \<and>
    (\<forall>h \<in> set hits. hit_for (docs E c) h \<and>
       calculate E metric q (hit_vector h) (sp_mode p) = Inr (hit_score h) \<and>
       (case sp_filter p of None \<Rightarrow> True | Some f \<Rightarrow> filter_matches f (hit_metadata h))) \<and>
    (sp_filter p \<noteq> None \<and> (\<forall>d s. d \<in> ran (docs E c) \<and> calculate E metric q (doc_vector d) (sp_mode p) = Inr s
         \<longrightarrow> \<not> is_nan s) \<longrightarrow>
       sorted_wrt (\<lambda>a b. fl_le (hit_score b) (hit_score a)) hits)"
proof -
  obtain ids all where i: "index_search E q (candidate_count c k p) (cm_vectors (c_cache c)) (effective_search c p)
       (sp_filter p) (cm_metadata (c_cache c)) (c_vindex c) = Inr ids"
    and h: "collect_results (hit_of E q metric (sp_mode p) c) ids = Inr all"
    and hits: "hits = (case sp_filter p of None \<Rightarrow> all
       | Some f \<Rightarrow> sort_and_truncate k (filter (\<lambda>h. filter_matches f (hit_metadata h)) all))"
    using search_collection_cases [OF assms(3)] by blast
  have "index_inv E (c_vindex c)" using assms(2) by (simp add: indexed_def indexed_as_def index_agrees_def)
  then have ids: "distinct ids" "length ids \<le> candidate_count c k p"
    using any.search_sound [OF _ i] by auto
  note st = hits_of_stored [OF assms(1) h]
  have all: "distinct (map hit_id all)" "length all = length ids"
    using st ids(1) collect_results_length [OF h] by simp_all
  show ?thesis
  proof (cases "sp_filter p")
    case None
    then show ?thesis using hits st all ids(2) by (simp add: candidate_count_def)
  next
    case (Some f)
    let ?m = "filter (\<lambda>h. filter_matches f (hit_metadata h)) all"
    have hs: "hits = sort_and_truncate k ?m" using hits Some by simp
    have sub: "set hits \<subseteq> set ?m" using sort_and_truncate_sound(1) unfolding hs .
    have "sorted_wrt (\<lambda>a b. fl_le (hit_score b) (hit_score a)) hits"
      if n: "\<forall>d s. d \<in> ran (docs E c) \<and> calculate E metric q (doc_vector d) (sp_mode p) = Inr s \<longrightarrow> \<not> is_nan s"
      unfolding hs
    proof (rule sort_and_truncate_sorted)
      fix x assume "x \<in> set ?m"
      then have "hit_for (docs E c) x" "calculate E metric q (hit_vector x) (sp_mode p) = Inr (hit_score x)"
        using st by auto
      then show "\<not> is_nan (hit_score x)" using n unfolding hit_for_def ran_def by fastforce
    qed
    then show ?thesis
      using st sub sort_and_truncate_sound(2) [of k ?m] sort_and_truncate_sound(3) [of ?m k] distinct_map_filter_hits [OF all(1)] Some
      by (auto simp flip: hs)
  qed
qed

theorem search_answers_sound_witness:
  "\<exists>hits. search_collection blob_env [f32_two] 3 DotProduct
     (default_search_params\<lparr>sp_mode := Scalar, sp_filter := Some filter_new, sp_overfetch := Some 1\<rparr>) (one_collection 5) = Inr hits
   \<and> length hits = 1 \<and> hit_for [5 \<mapsto> unit_document 5] (hd hits)"
proof -
  let ?p = "default_search_params\<lparr>sp_mode := Scalar, sp_filter := Some filter_new, sp_overfetch := Some 1\<rparr>"
  obtain hits where h: "search_collection blob_env [f32_two] 3 DotProduct ?p (one_collection 5) = Inr hits"
    and l: "length hits = 1"
    using search_one [of f32_two 5] by auto
  then have "\<forall>h \<in> set hits. hit_for [5 \<mapsto> unit_document 5] h"
    using search_answers_sound [OF one_collection_stored one_collection_indexed h] by simp
  then show ?thesis using h l by (cases hits) auto
qed

text \<open>
  C18. Exact search, end to end: a collection with a flat index, asked with the index's own metric
  and mode and without a filter, answers without error with the best \<open>k\<close> of all stored
  documents in descending order of similarity, if the query has the collection's dimension and no
  similarity is NaN.
\<close>

theorem flat_collection_search_exact:
  assumes "stored E c" and "indexed E c" and "c_vindex c = FlatIdx i"
    and "metric = fc_metric (flat_config i)" and "sp_mode p = fc_mode (flat_config i)" and "sp_mode p \<noteq> Gpu"
    and "sp_filter p = None" and "cm_dimensions (c_meta c) = Some (length q)"
    and "\<And>x. x \<in> dom (docs E c) \<Longrightarrow> \<not> is_nan (similarity E metric (sp_mode p) q (cm_vectors (c_cache c)) x)"
  shows "\<exists>hits. search_collection E q k metric p c = Inr hits \<and>
    ranked_best (similarity E metric (sp_mode p) q (cm_vectors (c_cache c))) k (dom (docs E c)) (map hit_id hits)"
proof -
  let ?vs = "cm_vectors (c_cache c)"
  have ag: "cache_agrees (docs E c) (c_cache c)" "index_agrees E (docs E c) ?vs (c_vindex c)"
    "dims_agree ?vs (c_meta c)" using assms(2) by (simp_all add: indexed_def indexed_as_def)
  have ids: "flat_ids i = dom (docs E c)" and ok: "flat_ok i"
    using ag(2) by (simp_all add: index_agrees_def assms(3) index_inv_def)
  have vec: "hm_get ?vs x = Some (doc_vector d) \<and> length (doc_vector d) = length q"
    if "docs E c x = Some d" for x d
  proof -
    have v: "hm_get ?vs x = Some (doc_vector d)" using that ag(1) unfolding cache_agrees_def by blast
    have "cm_dimensions (c_meta c) = Some (length (doc_vector d))" using v ag(3) unfolding dims_agree_def by blast
    with v assms(8) show ?thesis by simp
  qed
  have rd: "readable (length q) ?vs x" if "x \<in> flat_ids i" for x
    using that vec by (auto simp: ids readable_def reader_get_def)
  obtain r where r: "flat_search E q k ?vs (effective_search c p) None (cm_metadata (c_cache c)) i = Inr r"
    and best: "ranked_best (flat_score E q ?vs i) k (flat_ids i) r"
    using flat_search_ranked [OF ok _ rd, where P = E and k = k] assms(4-6,9) ids by metis
  have "\<exists>h. hit_of E q metric (sp_mode p) c x = Inr h" if "x \<in> set r" for x
  proof -
    have "x \<in> dom (docs E c)" using that best ids unfolding ranked_best_def by blast
    then obtain d where d: "docs E c x = Some d" by blast
    obtain s where "calculate E metric q (doc_vector d) (sp_mode p) = Inr s"
      using calculate_total [of q "doc_vector d" E "sp_mode p" metric] vec [OF d] assms(6) by auto
    then show ?thesis unfolding hit_of_stored [OF assms(1) d] by simp
  qed
  then obtain hits where h: "collect_results (hit_of E q metric (sp_mode p) c) r = Inr hits"
    using collect_results_defined [of r "hit_of E q metric (sp_mode p) c"] by blast
  have "search_collection E q k metric p c = Inr hits"
    using r h by (simp add: search_collection_def search_collection_with_maps_def assms(3,7) candidate_count_def)
  moreover have "map hit_id hits = r" using hits_of_stored [OF assms(1) h] by simp
  ultimately show ?thesis using best ids assms(4,5) by simp
qed

theorem flat_collection_search_exact_witness:
  "\<exists>hits. search_collection blob_env [f32_two] 3 DotProduct (default_search_params\<lparr>sp_mode := Scalar\<rparr>)
     (one_collection 5) = Inr hits \<and> map hit_id hits = [5]"
proof -
  let ?c = "one_collection 5"
  let ?i = "\<lparr>flat_config = \<lparr>fc_metric = DotProduct, fc_mode = Scalar\<rparr>, vector_ids = [5]\<rparr>"
  have s: "similarity blob_env DotProduct Scalar [f32_two] [(5, [f32_one])] 5 = fadd f32_zero (fmul f32_two f32_one)"
    by (simp add: similarity_def reader_get_def hm_get_def calculate_def dot_product_def resolve_def
        dot_product_scalar_def same_length_def sum_loop_def dot_term_def)
  have "\<not> is_nan (fadd f32_zero (fmul f32_two f32_one))" by (simp add: f32_one_def f32_two_def float_eval)
  then obtain hits where
    h: "search_collection blob_env [f32_two] 3 DotProduct (default_search_params\<lparr>sp_mode := Scalar\<rparr>) ?c = Inr hits"
    "set (map hit_id hits) \<subseteq> {5}" "length (map hit_id hits) = 1"
    using flat_collection_search_exact [of blob_env ?c ?i DotProduct "default_search_params\<lparr>sp_mode := Scalar\<rparr>" "[f32_two]" 3]
    by (auto simp: s default_search_params_def ranked_best_def)
  then show ?thesis by (cases hits) auto
qed

end
