(* ===== verification/Duplicates.thy ===== *)
theory Duplicates
  imports Search_Engine
begin

text \<open>
  Duplicate detection, \<^verbatim>\<open>src/src/collections/dup.rs\<close>: every cached vector is searched
  for in the index, and each pair of neighbours that scores at least the threshold is reported once,
  its smaller id first, the best pairs first. The set \<^verbatim>\<open>seen\<close> is the list of the pairs
  met so far.
\<close>

record duplicate_hit =
  id_a :: uuid
  id_b :: uuid
  dup_score :: f32

definition duplicate_search_config ::
  "'b collection \<Rightarrow> nat option \<Rightarrow> nat option \<Rightarrow> search_config" where
  "duplicate_search_config c ef_override np =
     (let s0 = cc_search (c_config c);
          s1 = (case ef_override of Some n \<Rightarrow> s0\<lparr>ef := Some n\<rparr> | None \<Rightarrow> s0)
      in (case np of Some n \<Rightarrow> s1\<lparr>nprobe := Some n\<rparr> | None \<Rightarrow> s1))"

definition neighbor_count :: "nat option \<Rightarrow> nat option \<Rightarrow> nat \<Rightarrow> nat" where
  "neighbor_count limit k n =
     max (min (case k of Some k \<Rightarrow> k
       | None \<Rightarrow> (case limit of Some l \<Rightarrow> max (sat_mul l 2) 10 | None \<Rightarrow> 50 - 1)) (n - 1)) 1"

definition ordered_pair :: "uuid \<Rightarrow> uuid \<Rightarrow> uuid \<times> uuid" where
  "ordered_pair x y = (if x < y then (x, y) else (y, x))"

type_synonym dup_state = "(uuid \<times> uuid) list \<times> duplicate_hit list"

definition consider_pair ::
  "'b env \<Rightarrow> metric \<Rightarrow> execution_mode \<Rightarrow> f32 \<Rightarrow> vectors \<Rightarrow> uuid \<Rightarrow> uuid \<Rightarrow> dup_state \<Rightarrow> dup_state outcome" where
  "consider_pair E metric mode threshold vs x y s =
     (if y = x \<or> ordered_pair x y \<in> set (fst s) then Inr s
      else
        (case (hm_get vs (fst (ordered_pair x y)), hm_get vs (snd (ordered_pair x y))) of
           (Some va, Some vb) \<Rightarrow>
             and_then (calculate E metric va vb mode) (\<lambda>score.
             Inr (ordered_pair x y # fst s,
               if fl_ge score threshold
               then snd s @ [\<lparr>id_a = fst (ordered_pair x y), id_b = snd (ordered_pair x y), dup_score = score\<rparr>]
               else snd s))
         | _ \<Rightarrow> Inr (ordered_pair x y # fst s, snd s)))"

definition consider_id ::
  "'b env \<Rightarrow> metric \<Rightarrow> f32 \<Rightarrow> nat \<Rightarrow> search_config \<Rightarrow> 'b collection \<Rightarrow> uuid \<Rightarrow> dup_state \<Rightarrow> dup_state outcome" where
  "consider_id E metric threshold k cfg c x s =
     (case hm_get (cm_vectors (c_cache c)) x of
        None \<Rightarrow> Inr s
      | Some v \<Rightarrow>
          and_then (index_search E v k (cm_vectors (c_cache c)) cfg None (cm_metadata (c_cache c)) (c_vindex c)) (\<lambda>ys.
          fold_results (consider_pair E metric (cc_execution (c_config c)) threshold (cm_vectors (c_cache c)) x) ys s))"

definition find_duplicates ::
  "'b env \<Rightarrow> 'b collection \<Rightarrow> metric \<Rightarrow> f32 \<Rightarrow> nat option \<Rightarrow> nat option \<Rightarrow> nat option \<Rightarrow> nat option
    \<Rightarrow> duplicate_hit list outcome" where
  "find_duplicates E c metric threshold limit k ef_override np =
     (let ids = hm_iter (uuid_order E) (cm_vectors (c_cache c)) in
      and_then (fold_results (consider_id E metric threshold (neighbor_count limit k (length ids))
          (duplicate_search_config c ef_override np) c) ids ([], [])) (\<lambda>s.
      Inr (let pairs = sort_by (by_score_desc dup_score) (snd s)
           in case limit of Some n \<Rightarrow> take n pairs | None \<Rightarrow> pairs)))"

section \<open>Lemmas\<close>

abbreviation pair_of :: "duplicate_hit \<Rightarrow> uuid \<times> uuid" where
  "pair_of h \<equiv> (id_a h, id_b h)"

text \<open>A reported pair: cached vectors in order of id, scored at least the threshold.\<close>

definition duplicate_of ::
  "'b env \<Rightarrow> metric \<Rightarrow> f32 \<Rightarrow> 'b collection \<Rightarrow> duplicate_hit \<Rightarrow> bool" where
  "duplicate_of E metric threshold c h \<longleftrightarrow>
     id_a h < id_b h \<and> (id_a h \<in> index_ids (c_vindex c) \<or> id_b h \<in> index_ids (c_vindex c)) \<and>
     fl_ge (dup_score h) threshold \<and>
     (\<exists>va vb. hm_get (cm_vectors (c_cache c)) (id_a h) = Some va \<and> hm_get (cm_vectors (c_cache c)) (id_b h) = Some vb \<and>
        calculate E metric va vb (cc_execution (c_config c)) = Inr (dup_score h))"

definition dup_inv :: "'b env \<Rightarrow> metric \<Rightarrow> f32 \<Rightarrow> 'b collection \<Rightarrow> dup_state \<Rightarrow> bool" where
  "dup_inv E metric threshold c s \<longleftrightarrow> distinct (map pair_of (snd s)) \<and>
     set (map pair_of (snd s)) \<subseteq> set (fst s) \<and> (\<forall>h \<in> set (snd s). duplicate_of E metric threshold c h)"

lemma ordered_pair_less: "x \<noteq> y \<Longrightarrow> fst (ordered_pair x y) < snd (ordered_pair x y)"
  by (auto simp: ordered_pair_def)

lemma ordered_pair_set: "{fst (ordered_pair x y), snd (ordered_pair x y)} = {x, y}"
  by (auto simp: ordered_pair_def)

lemma consider_pair_inv:
  assumes "dup_inv E metric threshold c s" and "y \<in> index_ids (c_vindex c)"
    and "consider_pair E metric (cc_execution (c_config c)) threshold (cm_vectors (c_cache c)) x y s = Inr s'"
  shows "dup_inv E metric threshold c s'"
proof (cases "y = x \<or> ordered_pair x y \<in> set (fst s)")
  case True
  then show ?thesis using assms(1,3) by (simp add: consider_pair_def)
next
  case False
  let ?o = "ordered_pair x y"
  have new: "?o \<notin> set (map pair_of (snd s))" using False assms(1) unfolding dup_inv_def by blast
  have lt: "fst ?o < snd ?o" and ids: "fst ?o = y \<or> snd ?o = y"
    using False ordered_pair_less [of x y] ordered_pair_set [of x y] by auto
  show ?thesis
  proof (cases "snd s' = snd s")
    case True
    moreover have "fst s' = ?o # fst s"
      using assms(3) False by (auto simp: consider_pair_def and_then_eq_Inr split: option.splits)
    ultimately show ?thesis using assms(1) by (auto simp: dup_inv_def)
  next
    case changed: False
    obtain va vb score where v: "hm_get (cm_vectors (c_cache c)) (fst ?o) = Some va"
      "hm_get (cm_vectors (c_cache c)) (snd ?o) = Some vb"
      "calculate E metric va vb (cc_execution (c_config c)) = Inr score" "fl_ge score threshold"
      and s': "s' = (?o # fst s, snd s @ [\<lparr>id_a = fst ?o, id_b = snd ?o, dup_score = score\<rparr>])"
      using assms(3) False changed
      by (auto simp: consider_pair_def and_then_eq_Inr split: option.splits if_splits)
    have "duplicate_of E metric threshold c \<lparr>id_a = fst ?o, id_b = snd ?o, dup_score = score\<rparr>"
      using v lt ids assms(2) by (auto simp: duplicate_of_def)
    then show ?thesis
      using assms(1) new by (auto simp: dup_inv_def s')
  qed
qed

lemma consider_id_inv:
  assumes "index_inv E (c_vindex c)" and "dup_inv E metric threshold c s"
    and "consider_id E metric threshold k cfg c x s = Inr s'"
  shows "dup_inv E metric threshold c s'"
proof (cases "hm_get (cm_vectors (c_cache c)) x")
  case None
  then show ?thesis using assms(2,3) by (simp add: consider_id_def)
next
  case (Some v)
  then obtain ys where ys: "index_search E v k (cm_vectors (c_cache c)) cfg None (cm_metadata (c_cache c)) (c_vindex c) = Inr ys"
    and f: "fold_results (consider_pair E metric (cc_execution (c_config c)) threshold (cm_vectors (c_cache c)) x) ys s = Inr s'"
    using assms(3) by (auto simp: consider_id_def and_then_eq_Inr)
  have "set ys \<subseteq> index_ids (c_vindex c)" using any.search_sound [OF assms(1) ys] by blast
  then show ?thesis
    using fold_results_invariant [OF f, of "dup_inv E metric threshold c"] assms(2) consider_pair_inv by blast
qed

lemma find_duplicates_inv:
  assumes "index_inv E (c_vindex c)" and "find_duplicates E c metric threshold limit k ef_override np = Inr ds"
  obtains s where "dup_inv E metric threshold c s"
    "ds = (case limit of Some n \<Rightarrow> take n (sort_by (by_score_desc dup_score) (snd s))
       | None \<Rightarrow> sort_by (by_score_desc dup_score) (snd s))"
proof -
  obtain s where f: "fold_results (consider_id E metric threshold
      (neighbor_count limit k (length (hm_iter (uuid_order E) (cm_vectors (c_cache c)))))
      (duplicate_search_config c ef_override np) c) (hm_iter (uuid_order E) (cm_vectors (c_cache c))) ([], []) = Inr s"
    and ds: "ds = (case limit of Some n \<Rightarrow> take n (sort_by (by_score_desc dup_score) (snd s))
       | None \<Rightarrow> sort_by (by_score_desc dup_score) (snd s))"
    using assms(2) by (auto simp: find_duplicates_def Let_def and_then_eq_Inr)
  have "dup_inv E metric threshold c ([], [])" by (simp add: dup_inv_def)
  then have "dup_inv E metric threshold c s"
    using fold_results_invariant [OF f, of "dup_inv E metric threshold c"] consider_id_inv [OF assms(1)] by blast
  then show thesis using that ds by blast
qed

lemma fl_ge_not_nan: "fl_ge a b \<Longrightarrow> \<not> is_nan a"
  using partial_cmp_Some_iff [of a b] by (auto simp: fl_ge_def)

text \<open>With one neighbour asked for, and every vector closest to itself, each search finds only itself.\<close>

lemma flat_self_search:
  assumes "flat_ok i" and "flat_ids i = {a, b}" and "fc_mode (flat_config i) \<noteq> Gpu" and "x \<in> {a, b}"
    and "hm_get vs x = Some v" and "\<And>z. z \<in> {a, b} \<Longrightarrow> readable (length v) vs z"
    and "\<And>z. z \<in> {a, b} \<Longrightarrow> \<not> is_nan (flat_score E v vs i z)"
    and "\<And>z. z \<in> {a, b} \<Longrightarrow> z \<noteq> x \<Longrightarrow> fl_lt (flat_score E v vs i z) (flat_score E v vs i x)"
  shows "flat_search E v 1 vs q f ms i = Inr [x]"
proof -
  obtain r where r: "flat_search E v 1 vs q f ms i = Inr r" and best: "ranked_best (flat_score E v vs i) 1 {a, b} r"
    using flat_search_ranked [OF assms(1,3), of v vs E 1 q f ms] assms(2,6,7) by auto
  have "1 \<le> card {a, b}" by (cases "a = b") simp_all
  then obtain z where z: "r = [z]" "z \<in> {a, b}"
    using best by (auto simp: ranked_best_def length_Suc_conv min_def)
  have "z = x"
  proof (rule ccontr)
    assume n: "z \<noteq> x"
    then have "fl_le (flat_score E v vs i x) (flat_score E v vs i z)"
      using best z assms(4) unfolding ranked_best_def by auto
    then show False using fl_lt_not_le [OF assms(8) [OF z(2) n]] by simp
  qed
  then show ?thesis using r z by simp
qed

section \<open>A collection with two documents\<close>

definition vector_document :: "uuid \<Rightarrow> f32 list \<Rightarrow> document" where
  "vector_document x v = \<lparr>doc_id = x, doc_vector = v, doc_text = ''t'', doc_metadata = []\<rparr>"

definition pair_collection :: "f32 list \<Rightarrow> f32 list \<Rightarrow> blob collection" where
  "pair_collection v w = (empty_collection (Some 1))\<lparr>
     c_store := \<lparr>rs_file = [DocBlob (vector_document 5 v), DocBlob (vector_document 6 w)], rs_mmap = None, append_cursor = 2\<rparr>,
     c_index := [(5, \<lparr>ptr_offset = 0, ptr_length = 1\<rparr>), (6, \<lparr>ptr_offset = 1, ptr_length = 1\<rparr>)],
     c_vindex := FlatIdx \<lparr>flat_config = \<lparr>fc_metric = DotProduct, fc_mode = Scalar\<rparr>, vector_ids = [5, 6]\<rparr>,
     c_cache := \<lparr>cm_config = default_cache_config, cm_vectors = [(5, v), (6, w)], cm_metadata = [], metadata_order = []\<rparr>,
     c_config := default_collection_config\<lparr>cc_execution := Scalar\<rparr>\<rparr>"

lemma pair_collection_simps [simp]:
  "c_store (pair_collection v w) =
     \<lparr>rs_file = [DocBlob (vector_document 5 v), DocBlob (vector_document 6 w)], rs_mmap = None, append_cursor = 2\<rparr>"
  "c_index (pair_collection v w) = [(5, \<lparr>ptr_offset = 0, ptr_length = 1\<rparr>), (6, \<lparr>ptr_offset = 1, ptr_length = 1\<rparr>)]"
  "c_vindex (pair_collection v w) =
     FlatIdx \<lparr>flat_config = \<lparr>fc_metric = DotProduct, fc_mode = Scalar\<rparr>, vector_ids = [5, 6]\<rparr>"
  "cm_dimensions (c_meta (pair_collection v w)) = Some 1"
  "c_cache (pair_collection v w) = \<lparr>cm_config = default_cache_config, cm_vectors = [(5, v), (6, w)],
     cm_metadata = [], metadata_order = []\<rparr>"
  "cc_execution (c_config (pair_collection v w)) = Scalar"
  by (simp_all add: pair_collection_def empty_collection_def)

lemma pair_collection_docs [simp]:
  "docs blob_env (pair_collection v w) = [5 \<mapsto> vector_document 5 v, 6 \<mapsto> vector_document 6 w]"
  by (rule ext) (simp add: docs_def docs_in_def hm_get_def read_document_def read_bytes_def read_range_def)

lemma pair_collection_indexed:
  "length v = 1 \<Longrightarrow> length w = 1 \<Longrightarrow> indexed blob_env (pair_collection v w)"
  unfolding indexed_def pair_collection_docs indexed_as_def cache_agrees_def
  by (auto simp: index_agrees_def dims_agree_def index_inv_def hm_keys_def hm_get_def cache_ok_def hm_ok_def
      flat_ok_def flat_ids_def default_cache_config_def vector_document_def split: if_splits)

text \<open>The product of two vectors of one component.\<close>

abbreviation product1 :: "f32 \<Rightarrow> f32 \<Rightarrow> f32" where
  "product1 x y \<equiv> fadd f32_zero (fmul x y)"

lemma calculate_product1 [simp]: "calculate blob_env DotProduct [x] [y] Scalar = Inr (product1 x y)"
  by (simp add: calculate_def dot_product_def resolve_def dot_product_scalar_def same_length_def
      sum_loop_def dot_term_def)

definition minus_one :: f32 where
  "minus_one = Fin True (2 ^ 149)"

lemma one_products:
  "product1 f32_one f32_one = f32_one" "product1 f32_one minus_one = minus_one"
  "product1 minus_one f32_one = minus_one" "product1 minus_one minus_one = f32_one"
  "fl_lt minus_one f32_one" "fl_ge f32_one f32_one" "\<not> is_nan f32_one" "\<not> is_nan minus_one"
  by (simp_all add: f32_one_def minus_one_def float_eval)

section \<open>Properties\<close>

text \<open>
  C28. Duplicate detection is sound: each pair of ids is reported at most once and in order of id,
  with the score the requested metric gives its two cached vectors, which is at least the threshold;
  at least one of the two is a live document, and both are on every index but HNSW; the list is in
  descending order of score and respects the limit.
\<close>

theorem find_duplicates_sound:
  assumes "indexed E c" and "find_duplicates E c metric threshold limit k ef_override np = Inr ds"
  shows "distinct (map (\<lambda>h. (id_a h, id_b h)) ds) \<and>
    (\<forall>h \<in> set ds. duplicate_of E metric threshold c h \<and>
       (id_a h \<in> dom (docs E c) \<or> id_b h \<in> dom (docs E c)) \<and>
       (index_type_of (c_vindex c) \<noteq> Hnsw \<longrightarrow> {id_a h, id_b h} \<subseteq> dom (docs E c))) \<and>
    sorted_wrt (\<lambda>x y. fl_le (dup_score y) (dup_score x)) ds \<and>
    (case limit of None \<Rightarrow> True | Some n \<Rightarrow> length ds \<le> n)"
proof -
  have ix: "index_inv E (c_vindex c)" "index_ids (c_vindex c) = dom (docs E c)"
    "index_type_of (c_vindex c) \<noteq> Hnsw \<Longrightarrow> set (hm_keys (cm_vectors (c_cache c))) = dom (docs E c)"
    using assms(1) by (auto simp: indexed_def indexed_as_def index_agrees_def)
  obtain s where inv: "dup_inv E metric threshold c s"
    and ds: "ds = (case limit of Some n \<Rightarrow> take n (sort_by (by_score_desc dup_score) (snd s))
       | None \<Rightarrow> sort_by (by_score_desc dup_score) (snd s))"
    using find_duplicates_inv [OF ix(1) assms(2)] .
  obtain n where n: "ds = take n (sort_by (by_score_desc dup_score) (snd s))"
    "case limit of None \<Rightarrow> True | Some m \<Rightarrow> n = m"
    using ds by (cases limit) (auto intro: that [of "length (sort_by (by_score_desc dup_score) (snd s))"])
  have sub: "set ds \<subseteq> set (snd s)" using set_take_subset [of n "sort_by (by_score_desc dup_score) (snd s)"] by (simp add: n(1))
  have dup: "duplicate_of E metric threshold c h" if "h \<in> set ds" for h
    using inv sub that unfolding dup_inv_def by blast
  have "distinct (map pair_of (sort_by (by_score_desc dup_score) (snd s)))" using inv by (simp add: dup_inv_def)
  then have "distinct (map pair_of ds)" by (simp add: n(1) flip: take_map)
  moreover have "sorted_wrt (\<lambda>x y. fl_le (dup_score y) (dup_score x)) ds"
    unfolding n(1)
    by (rule take_sorted_desc) (use inv fl_ge_not_nan in \<open>auto simp: dup_inv_def duplicate_of_def\<close>)
  moreover have "{id_a h, id_b h} \<subseteq> dom (docs E c)" if "h \<in> set ds" "index_type_of (c_vindex c) \<noteq> Hnsw" for h
    using dup [OF that(1)] ix(3) [OF that(2)] hm_get_key by (fastforce simp: duplicate_of_def)
  moreover have "id_a h \<in> dom (docs E c) \<or> id_b h \<in> dom (docs E c)" if "h \<in> set ds" for h
    using dup [OF that] ix(2) by (simp add: duplicate_of_def)
  moreover have "case limit of None \<Rightarrow> True | Some m \<Rightarrow> length ds \<le> m"
    using n by (cases limit) simp_all
  ultimately show ?thesis using dup by blast
qed

theorem find_duplicates_sound_witness:
  "\<exists>ds. find_duplicates blob_env (pair_collection [f32_one] [f32_one]) DotProduct f32_one (Some 3) None None None = Inr ds
     \<and> map (\<lambda>h. (id_a h, id_b h)) ds = [(5, 6)] \<and> distinct (map (\<lambda>h. (id_a h, id_b h)) ds)"
proof -
  let ?c = "pair_collection [f32_one] [f32_one]"
  have f: "find_duplicates blob_env ?c DotProduct f32_one (Some 3) None None None
      = Inr [\<lparr>id_a = 5, id_b = 6, dup_score = f32_one\<rparr>]"
    by (simp add: find_duplicates_def hm_iter_def hm_keys_def neighbor_count_def consider_id_def hm_get_def
        flat_search_def score_of_def reader_get_def one_products best_ids_def by_score_desc_def
        consider_pair_def ordered_pair_def)
  show ?thesis
    using find_duplicates_sound [OF pair_collection_indexed f] f by simp
qed

text \<open>
  Duplicate detection misses pairs. One neighbour too few is asked for, since every vector
  finds itself first: in a flat collection of two documents whose vectors are closest to themselves
  nothing is ever reported, whatever the threshold, the limit and the overrides.
\<close>

theorem two_documents_no_duplicates:
  assumes "indexed E c" and "c_vindex c = FlatIdx i" and "fc_mode (flat_config i) \<noteq> Gpu"
    and "docs E c = [a \<mapsto> da, b \<mapsto> db]" and "a \<noteq> b" and "length (doc_vector da) = length (doc_vector db)"
    and "\<And>x d z. docs E c x = Some d \<Longrightarrow> z \<in> {a, b} \<Longrightarrow>
      \<not> is_nan (flat_score E (doc_vector d) (cm_vectors (c_cache c)) i z)"
    and "\<And>x d z. docs E c x = Some d \<Longrightarrow> z \<in> {a, b} \<Longrightarrow> z \<noteq> x \<Longrightarrow>
      fl_lt (flat_score E (doc_vector d) (cm_vectors (c_cache c)) i z)
        (flat_score E (doc_vector d) (cm_vectors (c_cache c)) i x)"
  shows "find_duplicates E c metric threshold limit k ef_override np = Inr []"
proof -
  let ?vs = "cm_vectors (c_cache c)"
  have ix: "index_inv E (FlatIdx i)" "flat_ids i = {a, b}" "set (hm_keys ?vs) = {a, b}" "hm_ok ?vs"
    and vec: "\<And>x d. docs E c x = Some d \<Longrightarrow> hm_get ?vs x = Some (doc_vector d)"
    using assms(1,2,4) by (auto simp: indexed_def indexed_as_def index_agrees_def cache_agrees_def cache_ok_def)
  have h: "hash_order (uuid_order E)" "flat_ok i" using ix(1) by (simp_all add: index_inv_def)
  have it: "set (hm_iter (uuid_order E) ?vs) = {a, b}" "distinct (hm_iter (uuid_order E) ?vs)"
    using set_hm_iter [OF h(1), of ?vs] distinct_hm_iter [OF h(1) ix(4)] ix(3) by simp_all
  then have n: "length (hm_iter (uuid_order E) ?vs) = 2" using distinct_card [OF it(2)] assms(5) by simp
  have k: "neighbor_count limit k 2 = 1" by (simp add: neighbor_count_def)
  have one: "consider_id E metric threshold 1 cfg c x s = Inr s" if x: "x \<in> {a, b}" for x s cfg
  proof -
    obtain d where d: "docs E c x = Some d" using x assms(4) by (cases "x = b") auto
    have rd: "readable (length (doc_vector d)) ?vs z" if "z \<in> {a, b}" for z
    proof -
      obtain e where e: "docs E c z = Some e" using \<open>z \<in> {a, b}\<close> assms(4) by (cases "z = b") auto
      have "length (doc_vector e) = length (doc_vector d)"
        using d e assms(4,6) by (auto split: if_splits)
      then show ?thesis using vec [OF e] by (simp add: readable_def reader_get_def)
    qed
    have "flat_search E (doc_vector d) 1 ?vs cfg None (cm_metadata (c_cache c)) i = Inr [x]"
      by (rule flat_self_search [OF h(2) ix(2) assms(3) x vec [OF d] rd]) (use assms(7,8) d in auto)
    then show ?thesis
      using vec [OF d] by (simp add: consider_id_def assms(2) consider_pair_def)
  qed
  have "fold_results (consider_id E metric threshold 1 cfg c) xs s = Inr s" if "set xs \<subseteq> {a, b}" for xs s cfg
    using that one by (induction xs) auto
  then show ?thesis using it(1) by (simp add: find_duplicates_def n k) (simp split: option.splits)
qed

theorem two_documents_no_duplicates_witness:
  "find_duplicates blob_env (pair_collection [f32_one] [minus_one]) DotProduct minus_one None (Some 9) None None = Inr []"
proof -
  let ?c = "pair_collection [f32_one] [minus_one]"
  let ?i = "\<lparr>flat_config = \<lparr>fc_metric = DotProduct, fc_mode = Scalar\<rparr>, vector_ids = [5, 6]\<rparr>"
  have s: "similarity blob_env DotProduct Scalar [y] [(5, [f32_one]), (6, [minus_one])] 5 = product1 y f32_one"
    "similarity blob_env DotProduct Scalar [y] [(5, [f32_one]), (6, [minus_one])] 6 = product1 y minus_one" for y
    by (simp_all add: similarity_def reader_get_def hm_get_def)
  show ?thesis
    by (rule two_documents_no_duplicates [of blob_env ?c ?i 5 "vector_document 5 [f32_one]" 6 "vector_document 6 [minus_one]"])
      (auto simp: pair_collection_indexed s one_products vector_document_def split: if_splits)
qed

end
