(* ===== verification/Liveness.thy ===== *)
theory Liveness
  imports Maintenance Crash Duplicates
begin

text \<open>
  When the operations of a collection return. With a flat index, no limits and vectors of one
  dimension every command succeeds, and so does every reopening; one vector of another
  dimension, although its insertion is refused, makes reopening fail.
\<close>

section \<open>Collections that accept vectors of one dimension\<close>

definition dimension_fits :: "nat \<Rightarrow> nat option \<Rightarrow> bool" where
  "dimension_fits n m \<longleftrightarrow> m = None \<or> m = Some n"

definition accepting :: "nat \<Rightarrow> 'b collection \<Rightarrow> bool" where
  "accepting n c \<longleftrightarrow> dimension_fits n (cm_dimensions (c_meta c)) \<and> index_type_of (c_vindex c) = Flat \<and>
     cc_limits (c_config c) = default_limits"

lemma accepting_eq:
  "c_meta c' = c_meta c \<Longrightarrow> c_vindex c' = c_vindex c \<Longrightarrow> c_config c' = c_config c \<Longrightarrow>
   accepting n c' = accepting n c"
  by (simp add: accepting_def)

lemma accepting_same_data: "same_data c c' \<Longrightarrow> accepting n c' = accepting n c"
  by (rule accepting_eq) (simp_all add: same_data_def)

lemma no_limits:
  assumes "cc_limits (c_config c) = default_limits"
  shows "enforce_single k c = Inr ()" and "enforce_batch a b e c = Inr ()"
  using assms by (simp_all add: enforce_single_def enforce_batch_def default_limits_def split: option.split)

lemma dimension_fits_set: "dimension_fits n (cm_dimensions m) \<Longrightarrow> cm_dimensions (set_dimensions n m) = Some n"
  by (auto simp: dimension_fits_def set_dimensions_dims)

lemma flat_insert_returns:
  "index_type_of i = Flat \<Longrightarrow> \<exists>j. index_insert E u x v vs i = (Inr (), j) \<and> index_type_of j = Flat"
  by (cases i) (simp_all add: flat_insert_def on_part_def)

section \<open>The pieces return\<close>

lemma store_bytes_returns:
  assumes "stored E c" and "fits E c [d]"
  shows "\<exists>s p. store_bytes E (enc_doc E d) c = (Inr p, c\<lparr>c_store := s\<rparr>)"
proof -
  have "store_ok (c_store c)" "record_fits (c_store c) (enc_doc E d)"
    using assms by (auto simp: stored_def fits_def record_fits_def)
  then obtain p s where "append E (enc_doc E d) (c_store c) = (Inr p, s)"
    using append_eq [of "c_store c" "enc_doc E d" E] by blast
  then show ?thesis by (intro exI [of _ s] exI [of _ p]) (simp add: store_bytes_def)
qed

lemma insert_internal_returns:
  assumes "stored E c" and "fits E c [d]" and "accepting n c" and "length (doc_vector d) = n"
  shows "\<exists>c'. insert_internal E d c = (Inr (doc_id d), c') \<and> accepting n c'"
proof -
  have a: "dimension_fits n (cm_dimensions (c_meta c))" "index_type_of (c_vindex c) = Flat"
    "cc_limits (c_config c) = default_limits" using assms(3) by (simp_all add: accepting_def)
  obtain s p where s: "store_bytes E (enc_doc E d) c = (Inr p, c\<lparr>c_store := s\<rparr>)"
    using store_bytes_returns [OF assms(1,2)] by blast
  note m = dimension_fits_set [OF a(1)]
  let ?k = "put_metadata (doc_id d) (doc_metadata d) (put_vector (doc_id d) (doc_vector d) (c_cache c))"
  obtain j where j: "index_insert E (rand_f32 E (c_draws c)) (doc_id d) (doc_vector d) (cm_vectors ?k) (c_vindex c) = (Inr (), j)"
    "index_type_of j = Flat"
    using flat_insert_returns [OF a(2)] by blast
  then show ?thesis
    using j(1) by (simp add: insert_internal_def store_document_def op_then_apply no_limits(1) [OF a(3)] s point_to_def
        fix_dimensions_def get_vector_def assms(4) check_dimensions_def m validate_dimensions_def on_cache_def
        index_vector_def refresh_count_effect accepting_def a(3) dimension_fits_def)
qed

lemma delete_internal_returns:
  "\<exists>c'. delete_internal E x c = (Inr (), c') \<and> (accepting n c \<longrightarrow> accepting n c')"
  by (simp add: delete_internal_def op_then_apply unindex_vector_def refresh_count_effect accepting_def)

lemma append_records_returns:
  assumes "store_ok s" and "append_cursor s + sum_list (map length bss) \<le> length (rs_file s)"
  shows "\<exists>ps t. append_records E bss s = (Inr ps, t)"
  using assms
proof (induction bss arbitrary: s)
  case (Cons bs bss)
  let ?f = "write_bytes (zero_byte E) (append_cursor s) bs (rs_file s)"
  let ?u = "s\<lparr>rs_file := ?f, append_cursor := append_cursor s + length bs\<rparr>"
  have fit: "append_cursor s + length bs \<le> length (rs_file s)" using Cons.prems(2) by simp
  then have len: "length ?f = length (rs_file s)" by (simp add: length_write_bytes)
  have "store_ok ?u" using Cons.prems(1) fit by (auto simp: store_ok_def len split: option.splits)
  moreover have "append_cursor ?u + sum_list (map length bss) \<le> length (rs_file ?u)"
    using Cons.prems(2) by (simp add: len)
  ultimately obtain ps t where "append_records E bss ?u = (Inr ps, t)" using Cons.IH by blast
  then show ?case by (simp add: op_then_apply write_at_ok [OF Cons.prems(1) fit])
qed simp

lemma store_batch_returns:
  assumes "stored E c" and "fits E c ds"
  shows "\<exists>s ps. store_batch E (map (enc_doc E) ds) c = (Inr ps, c\<lparr>c_store := s\<rparr>)"
proof -
  have b: "sum_list (map length (map (enc_doc E) ds)) = collection_bytes E ds"
    by (simp add: collection_bytes_def comp_def)
  let ?r = "append_cursor (c_store c) + collection_bytes E ds"
  let ?g = "grow_if_needed E ?r (c_store c)"
  have u: "?r \<le> max_u64" and ok: "store_ok (c_store c)" using assms by (simp_all add: fits_def stored_def)
  note g = grow_if_needed_ok [where E = E, OF ok le_add1 u]
  have "append_cursor ?g + sum_list (map length (map (enc_doc E) ds)) \<le> length (rs_file ?g)"
    using g(2,3) by (simp only: b)
  then obtain ps t where "append_records E (map (enc_doc E) ds) ?g = (Inr ps, t)"
    using append_records_returns [OF g(1)] by blast
  then show ?thesis
    by (intro exI [of _ t] exI [of _ ps]) (simp add: store_batch_def append_batch_def op_then_apply b del: map_map)
qed

lemma admit_documents_return:
  "accepting n c \<Longrightarrow> \<forall>d \<in> set ds. length (doc_vector d) = n \<Longrightarrow>
   \<exists>c'. op_for (admit_document E) ds c = (Inr (), c')"
proof (induction ds arbitrary: c)
  case (Cons d ds)
  have a: "dimension_fits n (cm_dimensions (c_meta c))" "index_type_of (c_vindex c) = Flat"
    "cc_limits (c_config c) = default_limits" using Cons.prems(1) by (simp_all add: accepting_def)
  have d: "length (doc_vector d) = n" using Cons.prems(2) by simp
  note m = dimension_fits_set [OF a(1)]
  let ?k = "put_vector (doc_id d) (doc_vector d) (put_metadata (doc_id d) (doc_metadata d) (c_cache c))"
  obtain j where j: "index_insert E (rand_f32 E (c_draws c)) (doc_id d) (doc_vector d) (cm_vectors ?k) (c_vindex c) = (Inr (), j)"
    "index_type_of j = Flat"
    using flat_insert_returns [OF a(2)] by blast
  have "\<exists>c1. admit_document E d c = (Inr (), c1) \<and> accepting n c1"
    using j by (simp add: admit_document_def op_then_apply fix_dimensions_def get_vector_def d check_dimensions_def m
        validate_dimensions_def on_cache_def index_vector_def accepting_def a(3) dimension_fits_def)
  then show ?case using Cons.IH Cons.prems(2) by (auto simp: op_then_apply)
qed simp

section \<open>Every command returns\<close>

lemma track_returns: "\<exists>c'. track_operation E c = (Inr (), c') \<and> same_data c c'"
  using track_operation_same by (metis prod.exhaust)

lemma log_returns: "\<exists>c'. wal_log E e c = (Inr (), c') \<and> same_data c c'"
  using wal_log_same by (metis prod.exhaust)

lemma insert_document_returns:
  assumes "stored E c" and "fits E c [d]" and "accepting n c" and "length (doc_vector d) = n"
  shows "\<exists>c'. insert_document E d c = (Inr (doc_id d), c')"
proof -
  obtain c1 where c1: "wal_log E (WalInsert d 0) c = (Inr (), c1)" "same_data c c1" using log_returns by blast
  obtain c2 where c2: "insert_internal E d c1 = (Inr (doc_id d), c2)"
    using insert_internal_returns [of E c1 d n] same_data_stored [OF c1(2) assms(1)] fits_same [OF c1(2)]
      accepting_same_data [OF c1(2)] assms by blast
  show ?thesis using c1 c2 track_returns [of E c2] by (auto simp: insert_document_def op_then_apply)
qed

lemma delete_document_returns: "\<exists>b c'. delete_document E x c = (Inr b, c')"
proof (cases "hm_contains (c_index c) x")
  case True
  obtain c1 where c1: "wal_log E (WalDelete x 0) c = (Inr (), c1)" using log_returns by blast
  obtain c2 where c2: "delete_internal E x c1 = (Inr (), c2)" using delete_internal_returns by blast
  show ?thesis using True c1 c2 track_returns [of E c2] by (auto simp: delete_document_def op_then_apply)
qed (auto simp: delete_document_def)

lemma upsert_returns:
  assumes "stored E c" and "fits E c [d]" and "accepting n c" and "length (doc_vector d) = n"
  shows "\<exists>x c'. upsert E d c = (Inr x, c')"
proof -
  have l: "cc_limits (c_config c) = default_limits" using assms(3) by (simp add: accepting_def)
  show ?thesis
  proof (cases "hm_contains (c_index c) (doc_id d)")
    case True
    obtain c1 where c1: "wal_log E (WalUpdate d 0) c = (Inr (), c1)" "same_data c c1" using log_returns by blast
    obtain c2 where c2: "delete_internal E (doc_id d) c1 = (Inr (), c2)" "accepting n c2"
      using delete_internal_returns [of E "doc_id d" c1 n] accepting_same_data [OF c1(2)] assms(3) by blast
    have e: "stored E c2" "c_store c2 = c_store c1"
      using delete_internal_effect [OF same_data_stored [OF c1(2) assms(1)] c2(1)] by auto
    have "fits E c2 [d]" using assms(2) c1(2) by (simp add: fits_def e(2) same_data_def)
    then obtain c3 where c3: "insert_internal E d c2 = (Inr (doc_id d), c3)"
      using insert_internal_returns [OF e(1) _ c2(2) assms(4)] by blast
    show ?thesis
      using True c1 c2 c3 track_returns [of E c3] by (auto simp: upsert_def op_then_apply no_limits(1) [OF l])
  next
    case False
    then show ?thesis
      using insert_document_returns [OF assms] by (auto simp: upsert_def op_then_apply no_limits(1) [OF l])
  qed
qed

lemma insert_batch_returns:
  assumes "codecs_ok E" and "stored E c" and "fits E c ds" and "accepting n c" and "\<forall>d \<in> set ds. length (doc_vector d) = n"
  shows "\<exists>xs c'. insert_batch E ds c = (Inr xs, c')"
proof -
  obtain c1 where c1: "op_for (\<lambda>d. wal_log E (WalInsert d 0)) ds c = (Inr (), c1)" "same_data c c1"
    using wal_log_all_same [of E "\<lambda>d. WalInsert d 0" ds c] by (metis prod.exhaust)
  have a1: "stored E c1" "fits E c1 ds" "accepting n c1"
    using same_data_stored [OF c1(2) assms(2)] fits_same [OF c1(2)] accepting_same_data [OF c1(2)] assms by auto
  then have l: "cc_limits (c_config c1) = default_limits" by (simp add: accepting_def)
  obtain s ps where c2: "store_batch E (map (enc_doc E) ds) c1 = (Inr ps, c1\<lparr>c_store := s\<rparr>)"
    using store_batch_returns [OF a1(1,2)] by blast
  obtain r c3 where c3: "op_for (\<lambda>(d, p). point_to (doc_id d) p) (zip ds ps) (c1\<lparr>c_store := s\<rparr>) = (r, c3)" by fastforce
  obtain t i where e: "r = Inr ()" "c3 = c1\<lparr>c_store := t, c_index := i\<rparr>"
    using store_batch_effect [OF assms(1) a1(1,2) c2 c3] by auto
  obtain c4 where c4: "track_operation E c3 = (Inr (), c4)" "same_data c3 c4" using track_returns by blast
  have "accepting n c4" using accepting_same_data [OF c4(2)] accepting_eq [of c3 c1] a1(3) by (simp add: e(2))
  then obtain c5 where "op_for (admit_document E) ds c4 = (Inr (), c5)"
    using admit_documents_return assms(5) by blast
  then show ?thesis
    using c1(1) c2 c3 e c4(1) by (simp add: insert_batch_def op_then_apply no_limits(2) [OF l] refresh_count_effect)
qed

lemma delete_batch_returns: "\<exists>k c'. delete_batch E xs c = (Inr k, c')"
proof -
  have "\<exists>c'. op_for (log_delete E) xs c = (Inr (), c')" for c
  proof (induction xs arbitrary: c)
    case (Cons x xs)
    have "\<exists>c'. log_delete E x c = (Inr (), c')" using log_returns by (simp add: log_delete_def) blast
    then show ?case using Cons.IH by (auto simp: op_then_apply)
  qed simp
  then obtain c1 where c1: "op_for (log_delete E) xs c = (Inr (), c1)" by blast
  have "\<exists>k c'. delete_present E xs c = (Inr k, c')" for c
  proof (induction xs arbitrary: c)
    case (Cons x xs)
    obtain c1 where c1: "delete_internal E x c = (Inr (), c1)" using delete_internal_returns by blast
    obtain k c' where "delete_present E xs c1 = (Inr k, c')" using Cons.IH by blast
    then show ?case using Cons.IH [of c] c1 by (auto simp: op_then_apply)
  qed simp
  then obtain k c2 where c2: "delete_present E xs c1 = (Inr k, c2)" by blast
  show ?thesis using c1 c2 track_returns [of E c2] by (auto simp: delete_batch_def op_then_apply)
qed

lemma update_metadata_returns:
  assumes "stored E c" and "fits E c (written (UpdateMetadata x m) (docs E c))" and "accepting n c"
  shows "\<exists>b c'. update_metadata E x m c = (Inr b, c')"
proof (cases "docs E c x")
  case None
  then show ?thesis by (auto simp: update_metadata_def op_then_apply get_docs [OF assms(1)])
next
  case (Some d)
  let ?d = "d\<lparr>doc_metadata := m\<rparr>"
  obtain c1 where c1: "wal_log E (WalUpdate (d\<lparr>doc_id := x, doc_metadata := m\<rparr>) 0) c = (Inr (), c1)" "same_data c c1"
    using log_returns by blast
  have l: "cc_limits (c_config c1) = default_limits"
    using c1(2) assms(3) by (simp add: accepting_def same_data_def)
  have "fits E c1 [?d]" using assms(2) fits_same [OF c1(2), of E] by (simp add: Some)
  then obtain s p where s: "store_bytes E (enc_doc E ?d) c1 = (Inr p, c1\<lparr>c_store := s\<rparr>)"
    using store_bytes_returns same_data_stored [OF c1(2) assms(1)] by blast
  let ?c = "c1\<lparr>c_store := s, c_index := hm_insert x p (c_index c1), c_cache := put_metadata x m (c_cache c1)\<rparr>"
  obtain c2 where c2: "refresh_count E ?c = (Inr (), c2)" using refresh_count_effect by blast
  show ?thesis
    using s c2 track_returns [of E c2]
    by (auto simp: update_metadata_def op_then_apply get_docs [OF assms(1)] Some c1(1) no_limits(1) [OF l]
        point_to_def on_cache_def)
qed

lemma update_vector_returns:
  assumes "stored E c" and "fits E c (written (UpdateVector x v) (docs E c))" and "accepting n c" and "length v = n"
  shows "\<exists>b c'. update_vector E x v c = (Inr b, c')"
proof (cases "docs E c x")
  case None
  then show ?thesis by (auto simp: update_vector_def op_then_apply get_docs [OF assms(1)])
next
  case (Some d)
  let ?d = "d\<lparr>doc_vector := v\<rparr>"
  obtain c1 where c1: "wal_log E (WalUpdate (d\<lparr>doc_id := x, doc_vector := v\<rparr>) 0) c = (Inr (), c1)" "same_data c c1"
    using log_returns by blast
  have a: "dimension_fits n (cm_dimensions (c_meta c1))" "index_type_of (c_vindex c1) = Flat"
    "cc_limits (c_config c1) = default_limits"
    using c1(2) assms(3) by (simp_all add: accepting_def same_data_def)
  obtain m where m: "settle_dimensions v c1 = (Inr (), c1\<lparr>c_meta := m\<rparr>)"
    using a(1) assms(4) unfolding dimension_fits_def
    by (auto simp: settle_dimensions_def fix_dimensions_def validate_dimensions_def intro: that [of "c_meta c1"])
  let ?c1 = "c1\<lparr>c_meta := m\<rparr>"
  have "stored E ?c1" using stored_eq [of ?c1 c1 E] same_data_stored [OF c1(2) assms(1)] by simp
  moreover have "fits E ?c1 [?d]" using assms(2) c1(2) by (simp add: Some fits_def same_data_def)
  ultimately obtain s p where s: "store_bytes E (enc_doc E ?d) ?c1 = (Inr p, ?c1\<lparr>c_store := s\<rparr>)"
    using store_bytes_returns by blast
  have l: "cc_limits (c_config ?c1) = default_limits" using a(3) by simp
  let ?k = "put_metadata x (doc_metadata d) (put_vector x v (c_cache c1))"
  have "index_type_of (index_remove E x (c_vindex c1)) = Flat" using a(2) by simp
  then obtain j where j: "index_insert E (rand_f32 E (c_draws c1)) x v (cm_vectors ?k) (index_remove E x (c_vindex c1)) = (Inr (), j)"
    using flat_insert_returns by blast
  let ?c3 = "c1\<lparr>c_meta := m, c_store := s, c_index := hm_insert x p (c_index c1), c_cache := ?k,
    c_vindex := j, c_draws := c_draws c1 + 1\<rparr>"
  obtain c4 where c4: "refresh_count E ?c3 = (Inr (), c4)" using refresh_count_effect by blast
  show ?thesis
    using s j c4 track_returns [of E c4] m
    by (auto simp: update_vector_def op_then_apply get_docs [OF assms(1)] Some c1(1) no_limits(1) [OF l]
        point_to_def on_cache_def unindex_vector_def index_vector_def)
qed

lemma ignore_returns: "\<exists>x c'. m c = (Inr x, c') \<Longrightarrow> \<exists>c'. ignore_result m c = (Inr (), c')"
  by (auto simp: ignore_result_def op_then_apply)

lemma run_returns:
  assumes "codecs_ok E" and "stored E c" and "fits E c (written cmd (docs E c))" and "accepting n c"
    and "\<forall>d \<in> set (written cmd (docs E c)). length (doc_vector d) = n"
  shows "\<exists>c'. run E cmd c = (Inr (), c')"
proof -
  note ig = ignore_returns
  show ?thesis
  proof (cases cmd)
    case (Insert d)
    then have "\<exists>c'. insert_document E d c = (Inr (doc_id d), c')"
      using insert_document_returns [OF assms(2) _ assms(4), of d] assms(3,5) by simp
    then show ?thesis unfolding Insert run.simps by (intro ig) blast
  next
    case (InsertBatch ds)
    then have "\<exists>xs c'. insert_batch E ds c = (Inr xs, c')"
      using insert_batch_returns [OF assms(1,2) _ assms(4), of ds] assms(3,5) by simp
    then show ?thesis unfolding InsertBatch run.simps by (rule ig)
  next
    case (Upsert d)
    then have "\<exists>x c'. upsert E d c = (Inr x, c')"
      using upsert_returns [OF assms(2) _ assms(4), of d] assms(3,5) by simp
    then show ?thesis unfolding Upsert run.simps by (rule ig)
  next
    case (Delete x)
    show ?thesis unfolding Delete run.simps by (rule ig [OF delete_document_returns])
  next
    case (DeleteBatch xs)
    show ?thesis unfolding DeleteBatch run.simps by (rule ig [OF delete_batch_returns])
  next
    case (UpdateMetadata x m)
    have "\<exists>b c'. update_metadata E x m c = (Inr b, c')"
      by (rule update_metadata_returns [OF assms(2) _ assms(4)]) (use assms(3) UpdateMetadata in blast)
    then show ?thesis unfolding UpdateMetadata run.simps by (rule ig)
  next
    case (UpdateVector x v)
    have "\<exists>b c'. update_vector E x v c = (Inr b, c')"
    proof (cases "docs E c x")
      case None
      then show ?thesis by (auto simp: update_vector_def op_then_apply get_docs [OF assms(2)])
    next
      case (Some d)
      then show ?thesis
        using update_vector_returns [OF assms(2) _ assms(4), of x v] assms(3,5) by (simp only: UpdateVector) simp
    qed
    then show ?thesis unfolding UpdateVector run.simps by (rule ig)
  next
    case Checkpoint
    then show ?thesis using checkpoint_all_steps by auto
  next
    case Flush
    then show ?thesis by (simp add: flush_def)
  qed
qed

section \<open>What keeps a collection openable\<close>

text \<open>Every document in the log has dimension \<open>n\<close>, and so have the saved metadata; the saved index is flat.\<close>

definition logged_dims :: "'b env \<Rightarrow> nat \<Rightarrow> 'b list list \<Rightarrow> bool" where
  "logged_dims E n ls \<longleftrightarrow>
     (\<forall>l \<in> set ls. \<forall>e. l \<noteq> [] \<and> parse_header E l = None \<and> parse_entry E l = Some e \<longrightarrow>
        (\<forall>d \<in> set (entry_documents e). length (doc_vector d) = n))"

definition saved_dims :: "collection_metadata option \<Rightarrow> nat option" where
  "saved_dims mo = (case mo of None \<Rightarrow> None | Some m \<Rightarrow> cm_dimensions m)"

definition saved_steady :: "'b env \<Rightarrow> nat \<Rightarrow> 'b saved \<Rightarrow> bool" where
  "saved_steady E n sv \<longleftrightarrow>
     (\<exists>mo. load_metadata E sv = Inr mo \<and> dimension_fits n (saved_dims mo)) \<and>
     (\<exists>v. load_vector_index E sv = Inr v \<and> (\<forall>i. v = Some i \<longrightarrow> index_type_of i = Flat))"

definition steady :: "'b env \<Rightarrow> nat \<Rightarrow> 'b collection \<Rightarrow> bool" where
  "steady E n c \<longleftrightarrow> codecs_ok E \<and> accepting n c \<and> schema_version (c_meta c) = 1 \<and>
     logged_dims E n (wal_lines (wal (c_checkpoint c))) \<and> saved_steady E n (c_saved c)"

lemma steadyI:
  "steady E n c \<Longrightarrow> accepting n c' \<Longrightarrow> schema_version (c_meta c') = 1 \<Longrightarrow>
   wal (c_checkpoint c') = wal (c_checkpoint c) \<Longrightarrow> c_saved c' = c_saved c \<Longrightarrow> steady E n c'"
  by (simp add: steady_def)

lemma logged_dims_replay:
  "replay_lines E m ls = Inr es \<Longrightarrow> logged_dims E n ls \<Longrightarrow> \<forall>d \<in> set (log_documents es). length (doc_vector d) = n"
proof (induction ls arbitrary: es)
  case (Cons l ls)
  have n: "logged_dims E n ls" using Cons.prems(2) by (simp add: logged_dims_def)
  obtain fs where fs: "replay_lines E m ls = Inr fs"
    and es: "es = fs \<or> (\<exists>e. es = e # fs \<and> l \<noteq> [] \<and> parse_header E l = None \<and> parse_entry E l = Some e)"
    using Cons.prems(1) by (auto simp: replay_lines.simps(2) and_then_eq_Inr split: if_splits option.splits)
  have "\<forall>d \<in> set (entry_documents e). length (doc_vector d) = n"
    if "l \<noteq> []" "parse_header E l = None" "parse_entry E l = Some e" for e
    using Cons.prems(2) that by (simp add: logged_dims_def)
  then show ?case using Cons.IH [OF fs n] es by auto
qed simp

lemma logged_dims_header: "codecs_ok E \<Longrightarrow> logged_dims E n [json_header E wal_version]"
  by (simp add: logged_dims_def codecs_ok_def)

lemma logged_dims_log:
  assumes "logged_dims E n (wal_lines w)" and "entry_round_trips E (set_seq (next_seq w) e)"
    and "\<forall>d \<in> set (entry_documents e). length (doc_vector d) = n"
  shows "logged_dims E n (wal_lines (log_entry E e w))"
  using assms by (auto simp: logged_dims_def log_entry_def entry_round_trips_def)

lemma logged_dims_rotate:
  "codecs_ok E \<Longrightarrow> logged_dims E n (wal_lines w) \<Longrightarrow> logged_dims E n (wal_lines (rotate E w))"
  using logged_dims_header [of E n] by (simp add: rotate_def ensure_header_def)

lemma logged_dims_new:
  "codecs_ok E \<Longrightarrow> logged_dims E n ls \<Longrightarrow> logged_dims E n (wal_lines (wal_new E ls k))"
  using logged_dims_header [of E n] by (simp add: wal_new_def ensure_header_def)

lemma steady_checkpoint:
  assumes "steady E n c"
  shows "steady E n (snd (checkpoint E c))"
proof -
  let ?c = "snd (checkpoint E c)"
  have s: "codecs_ok E" "accepting n c" "schema_version (c_meta c) = 1"
    "logged_dims E n (wal_lines (wal (c_checkpoint c)))" using assms by (simp_all add: steady_def)
  obtain c' where c': "checkpoint E c = (Inr (), c')" "same_data c c'"
    using checkpoint_same by (metis prod.exhaust)
  have "logged_dims E n (wal_lines (wal_checkpoint E ts (wal (c_checkpoint c))))" for ts
    unfolding wal_checkpoint_def
    by (rule logged_dims_log [OF s(4)]) (use s(1) in \<open>simp_all add: entry_round_trips_def codecs_ok_def\<close>)
  then have "logged_dims E n (wal_lines (wal (c_checkpoint ?c)))"
    using logged_dims_rotate [OF s(1)] s(4) by (simp add: checkpoint_def op_then_apply)
  moreover have sv: "saved_metadata (c_saved ?c) = Some (enc_metadata E (c_meta c))"
    "saved_vector_index (c_saved ?c) = Some (enc_vector_index E (c_vindex c))"
    by (simp_all add: checkpoint_def op_then_apply save_metadata_def save_vector_index_def checkpoint_wal_def
        Let_def save_wal_meta_def)
  then have "saved_steady E n (c_saved ?c)"
    using s(1-3) unfolding saved_steady_def load_metadata_def load_vector_index_def sv
    by (simp add: codecs_ok_def accepting_def saved_dims_def)
  ultimately show ?thesis
    using s(1-3) c' accepting_same_data [OF c'(2)] by (simp add: steady_def same_data_def)
qed

interpretation steadiness: document_invariant E "steady E n" "\<lambda>d. length (doc_vector d) = n" for E n
proof (unfold_locales, goal_cases)
  case (5 c v)
  then show ?case by (auto intro!: steadyI [of E n c] simp: accepting_def steady_def)
next
  case (8 c d)
  then have "dimension_fits n (cm_dimensions (c_meta c))" by (simp add: steady_def accepting_def)
  from dimension_fits_set [OF this] 8 show ?case
    by (auto intro!: steadyI [of E n c] simp: accepting_def steady_def dimension_fits_def set_dimensions_def)
qed (auto intro!: steadyI [where c = c for c] simp: accepting_def steady_def update_vector_count_def)

interpretation steady_operation:
  collection_invariant E "steady E n" "\<lambda>d. loggable E d \<and> length (doc_vector d) = n" for E n
proof (unfold_locales, goal_cases)
  case (8 c d)
  then show ?case using steadiness.dims by blast
next
  case (10 c e)
  then have "entry_round_trips E (set_seq k e)" "\<forall>d \<in> set (entry_documents e). length (doc_vector d) = n" for k
    using round_trip_delete [of E] by (auto simp: steady_def loggable_def)
  then have "logged_dims E n (wal_lines (log_entry E e (wal (c_checkpoint c))))"
    using 10(1) by (intro logged_dims_log) (simp_all add: steady_def)
  then show ?case using 10(1) by (simp add: steady_def accepting_def)
next
  case (11 c)
  then show ?case by (rule steady_checkpoint)
qed (auto intro: steadiness.clock steadiness.store steadiness.index steadiness.cache steadiness.vindex
    steadiness.draws steadiness.count simp: steady_def accepting_def update_vector_count_def)

section \<open>Opening returns\<close>

definition flat_config_for_all :: "collection_config \<Rightarrow> bool" where
  "flat_config_for_all cfg \<longleftrightarrow> cc_limits cfg = default_limits \<and> (\<forall>k. select_type (cc_index cfg) k = Flat)"

lemma replay_returns:
  assumes "codecs_ok E" and "stored E c" and "fits E c (log_documents es)" and "steady E n c"
    and "\<forall>d \<in> set (log_documents es). length (doc_vector d) = n"
  shows "\<exists>c'. replay_wal E es c = (Inr (), c')"
  using assms(2-)
proof (induction es arbitrary: c)
  case Nil
  then show ?case by (simp add: replay_wal_def)
next
  case (Cons e es)
  have ins: "\<exists>c'. insert_internal E d c = (Inr (doc_id d), c')"
    if "stored E c" "fits E c [d]" "accepting n c" "length (doc_vector d) = n" for d and c :: "'a collection"
    using insert_internal_returns [OF that] by blast
  have a: "accepting n c" using Cons.prems(3) by (simp add: steady_def)
  have f: "fits E c (entry_documents e @ log_documents es)" using Cons.prems(2) by simp
  have "\<exists>c1. replay_entry E e c = (Inr (), c1)"
  proof (cases e)
    case (WalInsert d k)
    then show ?thesis
      using ins [OF Cons.prems(1) _ a, of d] fits_append(1) [OF f] Cons.prems(4)
      by (auto simp: ignore_result_def op_then_apply)
  next
    case (WalUpdate d k)
    obtain c1 where c1: "delete_internal E (doc_id d) c = (Inr (), c1)" "accepting n c1"
      using delete_internal_returns [of E "doc_id d" c n] a by blast
    note e1 = delete_internal_effect [OF Cons.prems(1) c1(1)]
    have "fits E c1 [d]" using fits_append(1) [OF f] e1 WalUpdate by (simp add: fits_def)
    then show ?thesis
      using ins [of c1 d] e1 c1 Cons.prems(4) WalUpdate by (auto simp: ignore_result_def op_then_apply)
  next
    case (WalDelete x k)
    then show ?thesis using delete_internal_returns [of E x c n] by auto
  qed simp
  then obtain c1 where c1: "replay_entry E e c = (Inr (), c1)" by blast
  note r = replay_entry_effect [OF assms(1) Cons.prems(1) fits_append(1) [OF f] c1]
  have "steady E n c1"
    using op_preserves_Inr [OF steadiness.keep_replay [of "[e]" n E] Cons.prems(3)] c1 Cons.prems(4)
    by (simp add: replay_wal_def op_then_apply)
  moreover have "stored E c1" "fits E c1 (log_documents es)" using r fits_append(2) [OF f] by auto
  ultimately obtain c' where "replay_wal E es c1 = (Inr (), c')" using Cons.IH Cons.prems(4) by auto
  then show ?case using c1 by (auto simp: replay_wal_def op_then_apply)
qed

lemma rebuild_vector_index_returns:
  assumes "stored E c" and "hash_order (uuid_order E)" and "index_type_of (c_vindex c) = Flat"
  shows "\<exists>c'. rebuild_vector_index E c = (Inr (), c')"
proof -
  obtain i where i: "c_vindex c = FlatIdx i" using assms(3) by (cases "c_vindex c") simp_all
  obtain j k where "fill_index E (vectors_of (map (\<lambda>x. (x, the (docs E c x))) (listed E c))) (FlatIdx i, c_draws c)
      = (Inr (), (FlatIdx j, k))"
    using fill_flat_returns by blast
  then show ?thesis
    by (simp add: rebuild_vector_index_def op_then_apply collect_documents_stored [OF assms(1,2)] i)
qed

lemma rebuild_vector_index_steady:
  assumes "rebuild_vector_index E c = (Inr (), c')" and "steady E n c"
  shows "steady E n c'"
proof -
  obtain ds where ds: "(case fill_index E (vectors_of ds) (c_vindex c, c_draws c) of
      (r, (i, k)) \<Rightarrow> (r, c\<lparr>c_vindex := i, c_draws := k\<rparr>)) = (Inr (), c')"
    using assms(1) by (auto simp: rebuild_vector_index_def op_then_eq_Inr)
  obtain r i k where "fill_index E (vectors_of ds) (c_vindex c, c_draws c) = (r, (i, k))"
    by (metis prod.exhaust)
  then have f: "fill_index E (vectors_of ds) (c_vindex c, c_draws c) = (Inr (), (i, k))"
    and c': "c' = c\<lparr>c_vindex := i, c_draws := k\<rparr>"
    using ds by simp_all
  have a: "accepting n c" using assms(2) by (simp add: steady_def)
  have "index_type_of (fst (i, k)) = Flat"
  proof (rule op_for_Inr_invariant [OF f [unfolded fill_index_def], where I = "\<lambda>s. index_type_of (fst s) = Flat"])
    show "index_type_of (fst (c_vindex c, c_draws c)) = Flat" using a by (simp add: accepting_def)
  qed (auto split: prod.splits dest: index_type_insert)
  then show ?thesis using a assms(2) by (intro steadyI [OF assms(2)]) (simp_all add: c' accepting_def steady_def)
qed

text \<open>The collection \<open>open\<close> starts from.\<close>

definition loaded ::
  "'b env \<Rightarrow> string \<Rightarrow> collection_config \<Rightarrow> nat \<Rightarrow> nat \<Rightarrow> 'b disk \<Rightarrow> doc_index \<Rightarrow> any_index option
    \<Rightarrow> collection_metadata option \<Rightarrow> nat \<Rightarrow> 'b collection" where
  "loaded E name cfg tick draw d i v mo m =
     \<lparr>c_store = store_open E (d_data d) cfg i, c_index = i,
      c_vindex = (case v of None \<Rightarrow> create_index E (cc_index cfg) (length i) | Some j \<Rightarrow> j),
      c_cache = cache_new (cc_cache cfg), c_config = cfg, c_meta = opened_metadata E name tick (length i) mo,
      c_checkpoint = checkpoint_manager_new (wal_new E (d_wal d) (m + 1)), c_saved = d_saved d,
      c_ticks = tick + 1, c_draws = draw\<rparr>"

lemma open_eq:
  assumes "wal_enabled (cc_wal cfg)" and "load_index E (d_saved d) = Inr i" and "load_metadata E (d_saved d) = Inr mo"
    and "load_vector_index E (d_saved d) = Inr v" and "load_wal_meta E (d_saved d) = Inr m"
    and "replay E m (wal_new E (d_wal d) (m + 1)) = Inr es"
  shows "open_collection E name cfg tick draw d =
    (case (if es \<noteq> [] then recover E es else finish_open E (v = None)) (loaded E name cfg tick draw d i v mo m) of
       (Inl e, c') \<Rightarrow> (Inl e, disk_of c') | (Inr _, c') \<Rightarrow> (Inr c', disk_of c'))"
  using assms by (simp add: open_collection_def Let_def opened_wal_def loaded_def)

lemma loaded_steady:
  assumes "codecs_ok E" and "flat_config_for_all cfg" and "load_metadata E (d_saved d) = Inr mo"
    and "load_vector_index E (d_saved d) = Inr v"
    and "saved_steady E n (d_saved d)" and "logged_dims E n (d_wal d)"
  shows "steady E n (loaded E name cfg tick draw d i v mo m)"
proof -
  have m: "dimension_fits n (saved_dims mo)" "\<forall>j. v = Some j \<longrightarrow> index_type_of j = Flat"
    using assms(3-5) by (auto simp: saved_steady_def)
  have "schema_version k = 1" if "mo = Some k" for k
    using assms(3) that by (auto simp: load_metadata_def fail_def split: option.splits if_splits)
  then have o: "schema_version (opened_metadata E name tick (length i) mo) = 1"
    "dimension_fits n (cm_dimensions (opened_metadata E name tick (length i) mo))"
    using m(1) by (auto simp: opened_metadata_def saved_dims_def collection_metadata_new_def update_vector_count_def
        dimension_fits_def split: option.splits)
  have "index_type_of (create_index E (cc_index cfg) k) = Flat" for k
    using assms(2) create_flat [of "cc_index cfg" k E] by (auto simp: flat_config_for_all_def)
  then have "index_type_of (case v of None \<Rightarrow> create_index E (cc_index cfg) (length i) | Some j \<Rightarrow> j) = Flat"
    using m(2) by (auto split: option.split)
  then show ?thesis
    using o assms(1,2,5) logged_dims_new [OF assms(1,6)]
    by (simp add: steady_def accepting_def loaded_def flat_config_for_all_def checkpoint_manager_new_def)
qed

text \<open>Opening returns, and what it opens is steady again.\<close>

lemma open_returns:
  assumes "codecs_ok E" and "hash_order (uuid_order E)" and "wal_enabled (cc_wal cfg)" and "flat_config_for_all cfg"
    and "recoverable E d D" and "saved_steady E n (d_saved d)" and "logged_dims E n (d_wal d)"
  shows "\<exists>c. open_collection E name cfg tick draw d = (Inr c, disk_of c) \<and> steady E n c"
proof -
  obtain s i m es where s: "rs_file s = d_data d" "store_ok s" "load_index E (d_saved d) = Inr i" "pointers_ok E s i"
    "load_wal_meta E (d_saved d) = Inr m" "replay_lines E m (d_wal d) = Inr es"
    "next_append_offset i + collection_bytes E (log_documents es) \<le> max_u64" "short_records E (log_documents es)"
    using assms(5) by (auto simp: recoverable_def)
  obtain mo v where l: "load_metadata E (d_saved d) = Inr mo" "load_vector_index E (d_saved d) = Inr v"
    using assms(6) by (auto simp: saved_steady_def)
  let ?c = "loaded E name cfg tick draw d i v mo m"
  have rp: "replay E m (wal_new E (d_wal d) (m + 1)) = Inr es" by (rule replay_wal_new [OF assms(1) s(6)])
  note st = loaded_steady [OF assms(1,4) l assms(6,7), of name tick draw i m]
  have so: "stored E ?c"
    using store_open_pointers [OF s(2,4), of cfg] s(1) by (simp add: stored_def loaded_def)
  have cache: "\<exists>k. rebuild_vector_cache E c = (Inr (), c\<lparr>c_cache := k\<rparr>) \<and> steady E n (c\<lparr>c_cache := k\<rparr>)"
    if "stored E c" "steady E n c" for c
    using rebuild_vector_cache_effect [OF that(1) assms(2)] steadiness.cache [OF that(2)] by blast
  have "\<exists>c. (if es \<noteq> [] then recover E es else finish_open E (v = None)) ?c = (Inr (), c) \<and> steady E n c"
  proof (cases "es = []")
    case True
    have "index_type_of (c_vindex ?c) = Flat" using st by (simp add: steady_def accepting_def)
    then obtain cr where cr: "rebuild_vector_index E ?c = (Inr (), cr)"
      using rebuild_vector_index_returns [OF so assms(2)] by blast
    have "\<exists>c1. (if b then rebuild_vector_index E else op_return ()) ?c = (Inr (), c1) \<and> steady E n c1" for b
      using cr rebuild_vector_index_steady [OF cr st] st by (cases b) simp_all
    then obtain c1 where c1: "(if c_index ?c \<noteq> [] \<and> v = None then rebuild_vector_index E else op_return ()) ?c = (Inr (), c1)"
      "steady E n c1"
      by blast
    have "same_documents ?c c1"
      using c1(1) rebuild_vector_index_same by (auto simp: same_documents_def split: if_splits)
    then have "stored E c1" using same_documents_docs so by blast
    then show ?thesis using cache [OF _ c1(2)] c1(1) True by (auto simp: finish_open_def op_then_apply)
  next
    case False
    have f: "fits E ?c (log_documents es)" using s(7,8) by (simp add: fits_def loaded_def store_open_def)
    have ld: "\<forall>d \<in> set (log_documents es). length (doc_vector d) = n" by (rule logged_dims_replay [OF s(6) assms(7)])
    obtain c1 where c1: "replay_wal E es ?c = (Inr (), c1)" using replay_returns [OF assms(1) so f st ld] by blast
    have "stored E c1" using replay_wal_effect [OF assms(1) so f c1] by blast
    moreover have "steady E n c1" using op_preserves_Inr [OF steadiness.keep_replay [OF ld] st c1] .
    ultimately obtain k where k: "rebuild_vector_cache E c1 = (Inr (), c1\<lparr>c_cache := k\<rparr>)" "steady E n (c1\<lparr>c_cache := k\<rparr>)"
      using cache by blast
    obtain c3 where "checkpoint E (c1\<lparr>c_cache := k\<rparr>) = (Inr (), c3)" using checkpoint_all_steps by blast
    then show ?thesis using steady_checkpoint [OF k(2)] c1 k(1) False by (simp add: recover_def op_then_apply)
  qed
  then obtain c where "(if es \<noteq> [] then recover E es else finish_open E (v = None)) ?c = (Inr (), c)" "steady E n c" by blast
  then show ?thesis by (simp add: open_eq [OF assms(3) s(3) l s(5) rp])
qed

lemma open_steady:
  assumes "codecs_ok E" and "hash_order (uuid_order E)" and "wal_enabled (cc_wal cfg)" and "flat_config_for_all cfg"
    and "recoverable E d D" and "saved_steady E n (d_saved d)" and "logged_dims E n (d_wal d)"
    and "open_collection E name cfg tick draw d = (Inr c, d')"
  shows "steady E n c"
proof -
  obtain c0 where "open_collection E name cfg tick draw d = (Inr c0, disk_of c0)" "steady E n c0"
    using open_returns [OF assms(1-7)] by blast
  then show ?thesis using assms(8) by simp
qed

section \<open>Histories of one dimension\<close>

text \<open>The histories of \<open>Recovery\<close> in which every document written has dimension \<open>n\<close>.\<close>

inductive uniform_history :: "'b env \<Rightarrow> collection_config \<Rightarrow> nat \<Rightarrow> 'b collection \<Rightarrow> doc_map \<Rightarrow> bool"
  for E cfg n where
  created: "open_collection E name cfg tick draw no_files = (Inr c, d) \<Longrightarrow> uniform_history E cfg n c Map.empty"
| returned: "uniform_history E cfg n c D \<Longrightarrow> run E cmd c = (Inr (), c') \<Longrightarrow> fits E c (written cmd D) \<Longrightarrow>
    \<forall>d \<in> set (written cmd D). loggable E d \<and> length (doc_vector d) = n \<Longrightarrow> uniform_history E cfg n c' (meaning cmd D)"
| crashed: "uniform_history E cfg n c D \<Longrightarrow> open_collection E name cfg tick draw (disk_of c) = (Inr c', d) \<Longrightarrow>
    uniform_history E cfg n c' D"

lemma uniform_is_history: "uniform_history E cfg n c D \<Longrightarrow> history E cfg c D"
  by (induction rule: uniform_history.induct) (auto intro: history.intros)

lemma steady_disk: "steady E n c \<Longrightarrow> saved_steady E n (d_saved (disk_of c)) \<and> logged_dims E n (d_wal (disk_of c))"
  by (simp add: steady_def disk_of_def)

lemma uniform_history_steady:
  assumes "uniform_history E cfg n c D" and "codecs_ok E" and "hash_order (uuid_order E)"
    and "wal_enabled (cc_wal cfg)" and "flat_config_for_all cfg"
  shows "steady E n c"
  using assms(1)
proof (induction rule: uniform_history.induct)
  case (created name tick draw c d)
  have "saved_steady E n (d_saved no_files)" "logged_dims E n (d_wal no_files)"
    by (simp_all add: no_files_def saved_steady_def load_metadata_def load_vector_index_def saved_dims_def
        dimension_fits_def logged_dims_def)
  then show ?case by (rule open_steady [OF assms(2-5) no_files_recoverable _ _ created])
next
  case (returned c D cmd c')
  have h: "stored E c" "docs E c = D"
    using history_durable [OF uniform_is_history [OF returned.hyps(1)] assms(2,4)] by simp_all
  have "steady E n (snd (run E cmd c))"
    by (rule steady_operation.keep_run [OF h(1) _ returned.IH]) (use returned.hyps(4) h(2) in simp)
  then show ?case using returned.hyps(2) by simp
next
  case (crashed c D name tick draw c' d)
  have "recoverable E (disk_of c) D"
    using history_durable [OF uniform_is_history [OF crashed.hyps(1)] assms(2,4)] durable_recoverable by metis
  then show ?case using open_steady [OF assms(2-5) _ _ _ crashed.hyps(2)] steady_disk [OF crashed.IH] by blast
qed

section \<open>A refused insertion\<close>

lemma insert_internal_rejects:
  assumes "cm_dimensions (c_meta c) = Some n" and "length (doc_vector d) \<noteq> n"
  shows "\<exists>e c'. insert_internal E d c = (Inl e, c')"
proof (cases "enforce_single (length (enc_doc E d)) c")
  case (Inr u)
  obtain r s where s: "append E (enc_doc E d) (c_store c) = (r, s)" by fastforce
  have "set_dimensions k (c_meta c) = c_meta c" for k using assms(1) by (simp add: set_dimensions_def)
  then show ?thesis
    using assms Inr s
    by (cases r)
      (simp_all add: insert_internal_def op_then_apply store_document_def store_bytes_def point_to_def fix_dimensions_def
        check_dimensions_def validate_dimensions_def get_vector_def invalid_request_def fail_def)
qed (simp add: insert_internal_def op_then_apply)

text \<open>What is on disk after it: the log has the entry, the saved files are as they were.\<close>

lemma rejected_insert_logged:
  assumes "cm_dimensions (c_meta c) = Some n" and "length (doc_vector d) \<noteq> n"
  shows "\<exists>e c'. insert_document E d c = (Inl e, c') \<and> c_saved c' = c_saved c \<and>
    wal (c_checkpoint c') = log_entry E (WalInsert d 0) (wal (c_checkpoint c))"
proof -
  let ?c = "set_wal (log_entry E (WalInsert d 0)) c"
  have "cm_dimensions (c_meta ?c) = Some n" using assms(1) by simp
  from insert_internal_rejects [OF this assms(2)]
  obtain e c' where c': "insert_internal E d ?c = (Inl e, c')" by blast
  have "wal (c_checkpoint c') = wal (c_checkpoint ?c) \<and> c_config c' = c_config ?c \<and> c_saved c' = c_saved ?c"
    using op_preserves_Inr [OF log_untouched.keep_insert_internal _ c'] by simp
  then show ?thesis using c' by (simp add: insert_document_def op_then_apply wal_log_def)
qed

definition saved_one_collection :: "uuid \<Rightarrow> blob collection" where
  "saved_one_collection x = (one_collection x)\<lparr>c_saved := \<lparr>saved_index = Some [IndexBlob [(x, \<lparr>ptr_offset = 0, ptr_length = 1\<rparr>)]],
     saved_vector_index = None, saved_metadata = Some [MetadataBlob (c_meta (one_collection x))], saved_wal_meta = None\<rparr>\<rparr>"

section \<open>Properties\<close>

text \<open>
  C13. With a flat index, no limits and vectors of one dimension nothing fails: in every state of
  every history of commands and crashes, each further command for which the data file has room
  returns, and after a crash the collection can be opened again.
\<close>

theorem operations_return:
  assumes "codecs_ok E" and "hash_order (uuid_order E)" and "wal_enabled (cc_wal cfg)" and "flat_config_for_all cfg"
    and "uniform_history E cfg n c D"
  shows "(\<forall>cmd. fits E c (written cmd D) \<and> (\<forall>d \<in> set (written cmd D). length (doc_vector d) = n) \<longrightarrow>
        (\<exists>c'. run E cmd c = (Inr (), c')))
    \<and> (\<forall>name tick draw. \<exists>c'. open_collection E name cfg tick draw (disk_of c) = (Inr c', disk_of c'))"
proof -
  have h: "stored E c" "docs E c = D" "durable E c" "append_cursor (c_store c) \<le> max_u64"
    using history_durable [OF uniform_is_history [OF assms(5)] assms(1,3)] by simp_all
  have st: "steady E n c" by (rule uniform_history_steady [OF assms(5,1-4)])
  have "recoverable E (disk_of c) D" using durable_recoverable [OF h(1,3,4)] h(2) by simp
  then have "\<exists>c'. open_collection E name cfg tick draw (disk_of c) = (Inr c', disk_of c')" for name tick draw
    using open_returns [OF assms(1-4)] steady_disk [OF st] by blast
  moreover have "\<exists>c'. run E cmd c = (Inr (), c')"
    if "fits E c (written cmd D)" "\<forall>d \<in> set (written cmd D). length (doc_vector d) = n" for cmd
    by (rule run_returns [OF assms(1) h(1), where n = n]) (use that h(2) st in \<open>simp_all add: steady_def\<close>)
  ultimately show ?thesis by blast
qed

definition flat_small_config :: collection_config where
  "flat_small_config = small_config\<lparr>cc_index := FlatIndex Cosine Auto default_search_config\<rparr>"

theorem operations_return_witness:
  "\<exists>c c' c'' d. open_collection blob_env ''c'' flat_small_config 0 0 no_files = (Inr c, d)
     \<and> run blob_env (Insert (unit_document 5)) c = (Inr (), c')
     \<and> open_collection blob_env ''c'' flat_small_config 1 0 (disk_of c') = (Inr c'', disk_of c'')
     \<and> get blob_env 5 c'' = Inr (Some (unit_document 5))"
proof -
  have f: "flat_config_for_all flat_small_config" "wal_enabled (cc_wal flat_small_config)"
    by (simp_all add: flat_config_for_all_def flat_small_config_def small_config_def default_collection_config_def
        default_wal_config_def)
  have h: "hash_order (uuid_order blob_env)" by simp
  have "saved_steady blob_env 1 (d_saved no_files)" "logged_dims blob_env 1 (d_wal no_files)"
    by (simp_all add: no_files_def saved_steady_def load_metadata_def load_vector_index_def saved_dims_def
        dimension_fits_def logged_dims_def)
  from open_returns [OF _ h f(2,1) no_files_recoverable this, of "''c''" 0 0]
  obtain c where c: "open_collection blob_env ''c'' flat_small_config 0 0 no_files = (Inr c, disk_of c)" by auto
  have u: "uniform_history blob_env flat_small_config 1 c Map.empty" by (rule uniform_history.created [OF c])
  have cur: "append_cursor (c_store c) = 0"
    using c
    by (auto simp: open_collection_def no_files_def load_index_def Let_def load_metadata_def
      load_vector_index_def flat_small_config_def small_config_def default_collection_config_def default_wal_config_def
      load_wal_meta_def opened_wal_def replay_def wal_new_def ensure_header_def store_open_def
      next_append_offset_def finish_open_def rebuild_vector_cache_def collect_documents_def hm_iter_def hm_keys_def
      op_then_apply wal_version_def replay_lines.simps(2))
  have fit: "fits blob_env c (written (Insert (unit_document 5)) Map.empty)"
    using cur by (simp add: fits_def max_u64_def)
  obtain c' where c': "run blob_env (Insert (unit_document 5)) c = (Inr (), c')"
    using operations_return [OF _ h f(2,1) u] fit by fastforce
  have u': "uniform_history blob_env flat_small_config 1 c' (meaning (Insert (unit_document 5)) Map.empty)"
    by (rule uniform_history.returned [OF u c' fit]) (simp add: loggable_def)
  obtain c'' where c'': "open_collection blob_env ''c'' flat_small_config 1 0 (disk_of c') = (Inr c'', disk_of c'')"
    using operations_return [OF _ h f(2,1) u'] by fastforce
  have "docs blob_env c'' = [5 \<mapsto> unit_document 5] \<and> stored blob_env c''"
    using history_durable [OF uniform_is_history [OF uniform_history.crashed [OF u' c'']] _ f(2)]
    by (simp add: put_doc_def)
  then show ?thesis using c c' c'' get_docs by fastforce
qed



end
