(* ===== verification/Quantization.thy ===== *)
theory Quantization
  imports Config
begin

text \<open>
  Quantized vectors, \<^verbatim>\<open>src/src/quantization/mod.rs\<close>: scalar int8 codes between the
  vector's minimum and maximum, and the block-wise product quantizer. Codes are machine words; the
  block loops, which \<^verbatim>\<open>break\<close> at the end of the vector, run over the prefix of block
  numbers before that.
\<close>

section \<open>Scalar quantization\<close>

datatype quantization_kind = KScalar | KPq

definition scalar_kind :: quantization_kind where
  "scalar_kind = KScalar"

record scalar_quantized =
  sq_values :: "8 word list"
  sq_min :: f32
  sq_max :: f32

definition vector_min :: "f32 list \<Rightarrow> f32" where
  "vector_min v = foldl fl_min (Inf False) v"

definition vector_max :: "f32 list \<Rightarrow> f32" where
  "vector_max v = foldl fl_max (Inf True) v"

definition narrow :: "f32 \<Rightarrow> f32 \<Rightarrow> bool" where
  "narrow lo hi \<longleftrightarrow> fl_lt (fl_abs (fsub hi lo)) f32_epsilon"

definition int8_of :: "f32 \<Rightarrow> 8 word" where
  "int8_of x = word_of_int (fl_to_int F32 (- 128) 127 x)"

definition encode_component :: "f32 \<Rightarrow> f32 \<Rightarrow> f32 \<Rightarrow> 8 word" where
  "encode_component lo rng v =
     int8_of (fl_clamp (fl_round F32 (fsub (fmul (fdiv (fsub v lo) rng) (f32_lit 254 1)) (f32_lit 127 1)))
       (fl_neg (f32_lit 127 1)) (f32_lit 127 1))"

definition scalar_from_f32 :: "f32 list \<Rightarrow> scalar_quantized" where
  "scalar_from_f32 v =
     (if v = [] then \<lparr>sq_values = [], sq_min = f32_zero, sq_max = f32_zero\<rparr>
      else if narrow (vector_min v) (vector_max v)
      then \<lparr>sq_values = replicate (length v) 0, sq_min = vector_min v, sq_max = vector_max v\<rparr>
      else \<lparr>sq_values = map (encode_component (vector_min v) (fsub (vector_max v) (vector_min v))) v,
            sq_min = vector_min v, sq_max = vector_max v\<rparr>)"

definition decode_component :: "f32 \<Rightarrow> f32 \<Rightarrow> 8 word \<Rightarrow> f32" where
  "decode_component lo rng q =
     fadd (fmul (fdiv (fadd (fl_of_int F32 (sint q)) (f32_lit 127 1)) (f32_lit 254 1)) rng) lo"

definition scalar_to_f32 :: "scalar_quantized \<Rightarrow> f32 list" where
  "scalar_to_f32 s =
     (if sq_values s = [] then []
      else if narrow (sq_min s) (sq_max s) then replicate (length (sq_values s)) (sq_min s)
      else map (decode_component (sq_min s) (fsub (sq_max s) (sq_min s))) (sq_values s))"

definition scalar_dim :: "scalar_quantized \<Rightarrow> nat" where
  "scalar_dim s = length (sq_values s)"

section \<open>Product quantization\<close>

record product_quantized =
  pq_codes :: "8 word list"
  block_mins :: "f32 list"
  block_maxs :: "f32 list"
  pq_dim :: nat
  pq_subquantizers :: nat

definition div_ceil :: "nat \<Rightarrow> nat \<Rightarrow> nat" where
  "div_ceil a b = (a + b - 1) div b"

definition blocks_until :: "nat \<Rightarrow> nat \<Rightarrow> nat \<Rightarrow> nat list" where
  "blocks_until dim len s = takeWhile (\<lambda>b. b * len < dim) [0..<s]"

definition block_slice :: "nat \<Rightarrow> f32 list \<Rightarrow> nat \<Rightarrow> f32 list" where
  "block_slice len v b = take (min (b * len + len) (length v) - b * len) (drop (b * len) v)"

definition block_range :: "f32 \<Rightarrow> f32 \<Rightarrow> f32" where
  "block_range lo hi = fl_max (fsub hi lo) f32_epsilon"

definition encode_code :: "f32 \<Rightarrow> f32 \<Rightarrow> f32 \<Rightarrow> 8 word" where
  "encode_code lo rng v =
     word_of_int (fl_to_int F32 0 255
       (fl_clamp (fl_round F32 (fmul (fdiv (fsub v lo) rng) (f32_lit 255 1))) f32_zero (f32_lit 255 1)))"

definition encode_block :: "f32 list \<Rightarrow> 8 word list" where
  "encode_block s = map (encode_code (vector_min s) (block_range (vector_min s) (vector_max s))) s"

definition pq_from_f32 :: "f32 list \<Rightarrow> nat \<Rightarrow> product_quantized" where
  "pq_from_f32 v subquantizers =
     (if v = [] then \<lparr>pq_codes = [], block_mins = [], block_maxs = [], pq_dim = 0, pq_subquantizers = 0\<rparr>
      else
        (let dim = length v; s = min (max subquantizers 1) dim; len = div_ceil dim s;
             slices = map (block_slice len v) (blocks_until dim len s)
         in \<lparr>pq_codes = concat (map encode_block slices), block_mins = map vector_min slices,
             block_maxs = map vector_max slices, pq_dim = dim, pq_subquantizers = s\<rparr>))"

definition corrupted :: "msg \<Rightarrow> 'a outcome" where
  "corrupted m = fail (Storage (CorruptedData m))"

definition decode_code :: "f32 \<Rightarrow> f32 \<Rightarrow> 8 word \<Rightarrow> f32" where
  "decode_code lo rng c = fadd (fmul (fdiv (f32_of_nat (unat c)) (f32_lit 255 1)) rng) lo"

text \<open>The decoder's state is the position among the codes and the values so far.\<close>

definition decode_next ::
  "product_quantized \<Rightarrow> f32 \<Rightarrow> f32 \<Rightarrow> nat \<times> f32 list \<Rightarrow> (nat \<times> f32 list) outcome" where
  "decode_next q lo rng s =
     (if fst s < length (pq_codes q)
      then Inr (fst s + 1, snd s @ [decode_code lo rng (pq_codes q ! fst s)])
      else corrupted [Txt ''PQ vector missing code at position '', Num (fst s)])"

definition decode_block ::
  "product_quantized \<Rightarrow> nat \<Rightarrow> nat \<Rightarrow> nat \<times> f32 list \<Rightarrow> (nat \<times> f32 list) outcome" where
  "decode_block q len b =
     fold_results (\<lambda>_. decode_next q (block_mins q ! b) (block_range (block_mins q ! b) (block_maxs q ! b)))
       [b * len..<min (b * len + len) (pq_dim q)]"

definition pq_try_to_f32 :: "product_quantized \<Rightarrow> f32 list outcome" where
  "pq_try_to_f32 q =
     (if pq_codes q = [] \<or> pq_subquantizers q = 0
      then (if pq_dim q = 0 then Inr []
        else corrupted [Txt ''PQ vector has no codes or subquantizers for non-empty dimension''])
      else if length (block_mins q) < pq_subquantizers q \<or> length (block_maxs q) < pq_subquantizers q
      then corrupted [Txt ''PQ vector block metadata is shorter than subquantizer count'']
      else
        (let len = div_ceil (pq_dim q) (pq_subquantizers q) in
         and_then (fold_results (decode_block q len) (blocks_until (pq_dim q) len (pq_subquantizers q)) (0, [])) (\<lambda>s.
         if length (snd s) \<noteq> pq_dim q
         then corrupted [Txt ''PQ vector decoded dimension mismatch: expected '', Num (pq_dim q),
           Txt '', got '', Num (length (snd s))]
         else Inr (snd s))))"

definition expect_decoded :: "'a outcome \<Rightarrow> 'a outcome" where
  "expect_decoded r = (case r of Inl _ \<Rightarrow> panic | Inr x \<Rightarrow> Inr x)"

definition pq_to_f32 :: "product_quantized \<Rightarrow> f32 list outcome" where
  "pq_to_f32 q = expect_decoded (pq_try_to_f32 q)"

section \<open>Either\<close>

record quantized_vector =
  qv_values :: "8 word list"
  qv_min :: f32
  qv_max :: f32
  qv_pq :: "product_quantized option"
  qv_kind :: quantization_kind

definition from_scalar :: "f32 list \<Rightarrow> quantized_vector" where
  "from_scalar v =
     (let s = scalar_from_f32 v in
      \<lparr>qv_values = sq_values s, qv_min = sq_min s, qv_max = sq_max s, qv_pq = None, qv_kind = KScalar\<rparr>)"

definition from_pq :: "f32 list \<Rightarrow> nat \<Rightarrow> quantized_vector" where
  "from_pq v s = \<lparr>qv_values = [], qv_min = f32_zero, qv_max = f32_zero, qv_pq = Some (pq_from_f32 v s), qv_kind = KPq\<rparr>"

definition quantized_from_f32 :: "f32 list \<Rightarrow> quantized_vector" where
  "quantized_from_f32 v = from_scalar v"

definition from_f32_with_config :: "f32 list \<Rightarrow> quantization_config \<Rightarrow> quantized_vector outcome" where
  "from_f32_with_config v cfg =
     (case level cfg of
        QNone \<Rightarrow> Inr (from_scalar v)
      | Int8 \<Rightarrow> Inr (from_scalar v)
      | Pq s \<Rightarrow> Inr (from_pq v s)
      | Int4 \<Rightarrow> panic
      | Float16 \<Rightarrow> panic)"

definition quantized_try_to_f32 :: "quantized_vector \<Rightarrow> f32 list outcome" where
  "quantized_try_to_f32 q =
     (case qv_kind q of
        KScalar \<Rightarrow> Inr (scalar_to_f32 \<lparr>sq_values = qv_values q, sq_min = qv_min q, sq_max = qv_max q\<rparr>)
      | KPq \<Rightarrow>
          (case qv_pq q of
             None \<Rightarrow> corrupted [Txt ''vector is marked as PQ but has no PQ payload'']
           | Some p \<Rightarrow> pq_try_to_f32 p))"

definition quantized_to_f32 :: "quantized_vector \<Rightarrow> f32 list outcome" where
  "quantized_to_f32 q = expect_decoded (quantized_try_to_f32 q)"

definition quantized_dim :: "quantized_vector \<Rightarrow> nat" where
  "quantized_dim q =
     (case qv_kind q of
        KScalar \<Rightarrow> length (qv_values q)
      | KPq \<Rightarrow> (case qv_pq q of None \<Rightarrow> length (qv_values q) | Some p \<Rightarrow> pq_dim p))"

section \<open>Blocks\<close>

lemma blocks_until_all:
  "0 < s \<Longrightarrow> (s - 1) * len < dim \<Longrightarrow> blocks_until dim len s = [0..<s]"
proof -
  assume s: "0 < s" "(s - 1) * len < dim"
  have "b * len < dim" if "b < s" for b
    by (rule le_less_trans [OF mult_le_mono1 s(2)]) (use that in simp)
  then show ?thesis by (simp add: blocks_until_def takeWhile_eq_all_conv)
qed

lemma blocks_until_short:
  "0 < s \<Longrightarrow> \<not> (s - 1) * len < dim \<Longrightarrow> length (blocks_until dim len s) < s"
proof (rule ccontr)
  assume s: "0 < s" "\<not> (s - 1) * len < dim" and l: "\<not> length (blocks_until dim len s) < s"
  have "length (blocks_until dim len s) \<le> length [0..<s]"
    unfolding blocks_until_def by (rule length_takeWhile_le)
  then have n: "length (takeWhile (\<lambda>b. b * len < dim) [0..<s]) = length [0..<s]"
    using l by (simp add: blocks_until_def)
  have "takeWhile (\<lambda>b. b * len < dim) [0..<s] = take (length [0..<s]) [0..<s]"
    by (subst takeWhile_eq_take) (simp only: n)
  then have "\<forall>b \<in> set [0..<s]. b * len < dim" by (simp add: takeWhile_eq_all_conv)
  moreover have "s - 1 \<in> set [0..<s]" using s(1) by simp
  ultimately show False using s(2) by blast
qed

lemma div_ceil_covers: "0 < s \<Longrightarrow> dim \<le> s * div_ceil dim s"
  using dividend_less_times_div [of s "dim + s - 1"] by (simp add: div_ceil_def)

text \<open>What decoding makes of one block.\<close>

definition reconstruct_block :: "f32 list \<Rightarrow> f32 list" where
  "reconstruct_block s =
     map (decode_code (vector_min s) (block_range (vector_min s) (vector_max s))) (encode_block s)"

lemma decode_run:
  assumes "pq_codes q = pre @ mid @ post" and "length xs = length mid"
  shows "fold_results (\<lambda>_. decode_next q lo rng) xs (length pre, vs)
    = Inr (length pre + length mid, vs @ map (decode_code lo rng) mid)"
  using assms
proof (induction xs arbitrary: pre mid vs)
  case (Cons x xs)
  then obtain c cs where mid: "mid = c # cs" by (cases mid) simp_all
  have "decode_next q lo rng (length pre, vs) = Inr (length (pre @ [c]), vs @ [decode_code lo rng c])"
    using Cons.prems(1) by (simp add: decode_next_def mid nth_append)
  then show ?case
    using Cons.IH [of "pre @ [c]" cs "vs @ [decode_code lo rng c]"] Cons.prems by (simp add: mid)
qed simp

lemma length_block_slice:
  "b * len < length v \<Longrightarrow> length (block_slice len v b) = min (b * len + len) (length v) - b * len"
  by (simp add: block_slice_def)

text \<open>The first \<open>k\<close> blocks, encoded and decoded.\<close>

lemma blocks_length:
  assumes "k * len - len < length v \<or> k = 0"
  shows "length (concat (map (\<lambda>b. encode_block (block_slice len v b)) [0..<k])) = min (k * len) (length v)"
  using assms
proof (induction k)
  case (Suc k)
  have lt: "k * len < length v" using Suc.prems by simp
  then have "k * len - len < length v \<or> k = 0" by (meson diff_le_self le_less_trans)
  from Suc.IH [OF this] show ?case using lt by (simp add: encode_block_def length_block_slice)
qed simp

lemma decode_blocks:
  fixes v :: "f32 list" and len :: nat
  defines "sl \<equiv> block_slice len v"
  assumes "pq_codes q = concat (map (\<lambda>b. encode_block (sl b)) [0..<s])" and "pq_dim q = length v"
    and "block_mins q = map (\<lambda>b. vector_min (sl b)) [0..<s]" and "block_maxs q = map (\<lambda>b. vector_max (sl b)) [0..<s]"
    and "0 < s" and "(s - 1) * len < length v" and "k \<le> s"
  shows "fold_results (decode_block q len) [0..<k] (0, [])
    = Inr (length (concat (map (\<lambda>b. encode_block (sl b)) [0..<k])), concat (map (\<lambda>b. reconstruct_block (sl b)) [0..<k]))"
  using assms(8)
proof (induction k)
  case (Suc k)
  let ?pre = "concat (map (\<lambda>b. encode_block (sl b)) [0..<k])"
  have k: "k < s" using Suc.prems by simp
  have lt: "k * len < length v" by (rule le_less_trans [OF mult_le_mono1 assms(7)]) (use k in simp)
  have "[0..<s] = [0..<k] @ k # [Suc k..<s]" using k upt_add_eq_append [of 0 k "s - k"] by (simp add: upt_conv_Cons)
  then have codes: "pq_codes q = ?pre @ encode_block (sl k) @ concat (map (\<lambda>b. encode_block (sl b)) [Suc k..<s])"
    by (simp add: assms(2))
  have "length [k * len..<min (k * len + len) (pq_dim q)] = length (encode_block (sl k))"
    using lt by (simp add: assms(3) encode_block_def sl_def length_block_slice)
  then have "decode_block q len k (length ?pre, concat (map (\<lambda>b. reconstruct_block (sl b)) [0..<k]))
    = Inr (length ?pre + length (encode_block (sl k)),
        concat (map (\<lambda>b. reconstruct_block (sl b)) [0..<k]) @ reconstruct_block (sl k))"
    unfolding decode_block_def reconstruct_block_def
    using decode_run [OF codes, of "[k * len..<min (k * len + len) (pq_dim q)]"] k by (simp add: assms(4,5))
  then show ?case using Suc k by (simp add: fold_results_append)
qed simp

definition effective_subquantizers :: "f32 list \<Rightarrow> nat \<Rightarrow> nat" where
  "effective_subquantizers v s = min (max s 1) (length v)"

definition block_length :: "f32 list \<Rightarrow> nat \<Rightarrow> nat" where
  "block_length v s = div_ceil (length v) (effective_subquantizers v s)"

lemma pq_fields:
  assumes "v \<noteq> []"
  shows "pq_from_f32 v s = (let bs = blocks_until (length v) (block_length v s) (effective_subquantizers v s) in
    \<lparr>pq_codes = concat (map (\<lambda>b. encode_block (block_slice (block_length v s) v b)) bs),
     block_mins = map (\<lambda>b. vector_min (block_slice (block_length v s) v b)) bs,
     block_maxs = map (\<lambda>b. vector_max (block_slice (block_length v s) v b)) bs,
     pq_dim = length v, pq_subquantizers = effective_subquantizers v s\<rparr>)"
  using assms by (simp add: pq_from_f32_def Let_def block_length_def effective_subquantizers_def comp_def)

lemma pq_decodes:
  assumes "v \<noteq> []" and "(effective_subquantizers v s - 1) * block_length v s < length v"
  shows "pq_try_to_f32 (pq_from_f32 v s) =
      Inr (concat (map (\<lambda>b. reconstruct_block (block_slice (block_length v s) v b)) [0..<effective_subquantizers v s]))
    \<and> length (concat (map (\<lambda>b. reconstruct_block (block_slice (block_length v s) v b)) [0..<effective_subquantizers v s])) = length v"
proof -
  let ?s = "effective_subquantizers v s" and ?len = "block_length v s"
  let ?q = "pq_from_f32 v s"
  have s: "0 < ?s" using assms(1) by (simp add: effective_subquantizers_def)
  have bl: "blocks_until (length v) ?len ?s = [0..<?s]" by (rule blocks_until_all [OF s assms(2)])
  have q: "pq_codes ?q = concat (map (\<lambda>b. encode_block (block_slice ?len v b)) [0..<?s])"
    "block_mins ?q = map (\<lambda>b. vector_min (block_slice ?len v b)) [0..<?s]"
    "block_maxs ?q = map (\<lambda>b. vector_max (block_slice ?len v b)) [0..<?s]"
    "pq_dim ?q = length v" "pq_subquantizers ?q = ?s"
    using pq_fields [OF assms(1), of s] by (simp_all add: Let_def bl)
  have "?s * ?len - ?len = (?s - 1) * ?len" by (simp add: diff_mult_distrib)
  then have n: "length (pq_codes ?q) = length v"
    using blocks_length [of ?s ?len v] assms(2) div_ceil_covers [OF s, of "length v"]
    by (simp add: q(1) block_length_def)
  have d: "fold_results (decode_block ?q ?len) [0..<?s] (0, [])
    = Inr (length (pq_codes ?q), concat (map (\<lambda>b. reconstruct_block (block_slice ?len v b)) [0..<?s]))"
    using decode_blocks [OF q(1,4,2,3) s assms(2), of ?s] by (simp add: q(1))
  have l: "length (concat (map (\<lambda>b. reconstruct_block (block_slice ?len v b)) [0..<?s])) = length v"
    using n by (simp add: q(1) length_concat comp_def reconstruct_block_def)
  have "pq_codes ?q \<noteq> []" using n assms(1) by auto
  then show ?thesis
    using s d l
    by (simp add: pq_try_to_f32_def q(4,5) Let_def bl flip: block_length_def) (simp add: q(2,3))
qed

lemma pq_short:
  assumes "v \<noteq> []" and "\<not> (effective_subquantizers v s - 1) * block_length v s < length v"
  shows "\<exists>m. pq_try_to_f32 (pq_from_f32 v s) = fail (Storage (CorruptedData m))"
proof -
  have s: "0 < effective_subquantizers v s" using assms(1) by (simp add: effective_subquantizers_def)
  note short = blocks_until_short [OF s assms(2)]
  have "length (block_mins (pq_from_f32 v s)) < pq_subquantizers (pq_from_f32 v s)"
    using short by (simp add: pq_fields [OF assms(1)] Let_def)
  moreover have "pq_subquantizers (pq_from_f32 v s) \<noteq> 0" "pq_dim (pq_from_f32 v s) \<noteq> 0"
    using s assms(1) by (simp_all add: pq_fields [OF assms(1)] Let_def)
  ultimately show ?thesis by (auto simp: pq_try_to_f32_def corrupted_def)
qed

section \<open>The smallest component\<close>

text \<open>A finite single-precision value.\<close>

definition f32_value :: "f32 \<Rightarrow> bool" where
  "f32_value x = (case x of Fin s m \<Rightarrow> representable 24 m \<and> m < 2 ^ 277 | _ \<Rightarrow> False)"

lemma round_zero: "0 < d \<Longrightarrow> round_to F32 s 0 d = Fin s 0"
  by (simp add: round_to_def round_mag_def round_at_def rne_def rne_pick_def pack_def F32_def nbits.simps)

lemma add_zero:
  assumes "f32_value x"
  shows "fl_eq (fadd (Fin z 0) x) x"
proof -
  obtain s m where x: "x = Fin s m" and m: "representable 24 m" "m < 2 ^ 277"
    using assms by (auto simp: f32_value_def split: float_val.splits)
  have "round_mag 24 m 1 = m" using round_mag_exact [OF m(1), of 1] by simp
  then show ?thesis
    using m(2) by (cases s) (auto simp: x round_int_def round_to_def pack_def F32_def fl_eq_def partial_cmp_def)
qed

lemma encode_minimum:
  assumes "r \<noteq> 0"
  shows "encode_component (Fin s m) (Fin t r) (Fin s m) = word_of_int (- 127)"
proof -
  have a: "fsub (Fin s m) (Fin s m) = Fin False 0" by (simp add: fl_sub_def round_int_def)
  have b: "fdiv (Fin False 0) (Fin t r) = Fin t 0" using assms by (simp add: round_zero)
  have c: "f32_lit 254 1 = Fin False (254 * 2 ^ 149)" "f32_lit 127 1 = Fin False (127 * 2 ^ 149)"
    by (simp_all add: float_eval)
  have d: "fmul (Fin t 0) (f32_lit 254 1) = Fin t 0" unfolding c by (simp add: round_zero)
  have e: "fsub (Fin t 0) (f32_lit 127 1) = Fin True (127 * 2 ^ 149)" by (cases t) (simp_all add: c float_eval)
  have f: "fl_round F32 (Fin True (127 * 2 ^ 149)) = Fin True (127 * 2 ^ 149)" by (simp add: F32_def)
  have g: "fl_clamp (Fin True (127 * 2 ^ 149)) (fl_neg (f32_lit 127 1)) (f32_lit 127 1) = Fin True (127 * 2 ^ 149)"
    by (simp add: c float_eval)
  show ?thesis unfolding encode_component_def a b d e f g by (simp add: int8_of_def F32_def)
qed

lemma decode_minimum:
  assumes "f32_value lo"
  shows "fl_eq (decode_component lo (Fin t r) (word_of_int (- 127))) lo"
proof -
  have a: "sint (word_of_int (- 127) :: 8 word) = - 127" by simp
  have b: "fadd (fl_of_int F32 (- 127)) (f32_lit 127 1) = Fin False 0" by (simp add: float_eval)
  have c: "f32_lit 254 1 = Fin False (254 * 2 ^ 149)" by (simp add: float_eval)
  have d: "fdiv (Fin False 0) (f32_lit 254 1) = Fin False 0" unfolding c by (simp add: round_zero)
  have e: "fmul (Fin False 0) (Fin t r) = Fin t 0" by (simp add: round_zero)
  show ?thesis unfolding decode_component_def a b d e by (rule add_zero [OF assms])
qed

text \<open>Division by an infinite range gives zero, and zero times that range is no number.\<close>

lemma encode_minimum_overflow:
  "encode_component (Fin s m) (Inf t) (Fin s m) = word_of_int (- 127)"
proof -
  have a: "fsub (Fin s m) (Fin s m) = Fin False 0" by (simp add: fl_sub_def round_int_def)
  have c: "f32_lit 254 1 = Fin False (254 * 2 ^ 149)" "f32_lit 127 1 = Fin False (127 * 2 ^ 149)"
    by (simp_all add: float_eval)
  have d: "fmul (fdiv (Fin False 0) (Inf t)) (f32_lit 254 1) = Fin t 0" unfolding c by (simp add: round_zero)
  have e: "fsub (Fin t 0) (f32_lit 127 1) = Fin True (127 * 2 ^ 149)" by (cases t) (simp_all add: c float_eval)
  have f: "fl_round F32 (Fin True (127 * 2 ^ 149)) = Fin True (127 * 2 ^ 149)" by (simp add: F32_def)
  have g: "fl_clamp (Fin True (127 * 2 ^ 149)) (fl_neg (f32_lit 127 1)) (f32_lit 127 1) = Fin True (127 * 2 ^ 149)"
    by (simp add: c float_eval)
  show ?thesis unfolding encode_component_def a d e f g by (simp add: int8_of_def F32_def)
qed

lemma decode_minimum_overflow: "is_nan (decode_component lo (Inf t) (word_of_int (- 127)))"
proof -
  have a: "sint (word_of_int (- 127) :: 8 word) = - 127" by simp
  have b: "fadd (fl_of_int F32 (- 127)) (f32_lit 127 1) = Fin False 0" by (simp add: float_eval)
  have c: "f32_lit 254 1 = Fin False (254 * 2 ^ 149)" by (simp add: float_eval)
  have d: "fdiv (Fin False 0) (f32_lit 254 1) = Fin False 0" unfolding c by (simp add: round_zero)
  show ?thesis unfolding decode_component_def a b d by simp
qed

lemma f32_value_cases: "f32_value x \<Longrightarrow> \<exists>s m. x = Fin s m"
  by (auto simp: f32_value_def split: float_val.splits)

lemma fl_min_either: "fl_min a b = a \<or> fl_min a b = b"
  by (simp add: fl_min_def)

lemma fold_min_member:
  assumes "\<forall>x \<in> set v. f32_value x" and "a = Inf False \<and> v \<noteq> [] \<or> f32_value a"
  shows "foldl fl_min a v \<in> set v \<union> {a} - {Inf False}"
  using assms
proof (induction v arbitrary: a)
  case (Cons x v)
  then have x: "f32_value x" and r: "\<forall>x \<in> set v. f32_value x" by simp_all
  have m: "fl_min a x = x \<or> fl_min a x = a \<and> f32_value a"
    using Cons.prems(2) f32_value_cases [OF x] by (auto simp: fl_min_def fl_lt_def partial_cmp_def)
  then have "f32_value (fl_min a x)" using x by auto
  from Cons.IH [OF r disjI2 [OF this]] m show ?case by auto
qed (auto simp: f32_value_def)

lemma vector_min_member:
  assumes "\<forall>x \<in> set v. f32_value x" and "v \<noteq> []"
  shows "vector_min v \<in> set v"
  using fold_min_member [OF assms(1), of "Inf False"] assms(2) by (auto simp: vector_min_def)

lemma wide_range: "\<not> narrow lo hi \<Longrightarrow> fsub hi lo = Fin t r \<Longrightarrow> r \<noteq> 0"
proof (rule notI)
  assume "\<not> narrow lo hi" and "fsub hi lo = Fin t r" and "r = 0"
  then have "\<not> fl_lt (Fin False 0) f32_epsilon" by (simp add: narrow_def)
  then show False by (simp add: float_eval f32_epsilon_def)
qed

lemma fold_max_number: "\<not> is_nan a \<Longrightarrow> \<not> is_nan (foldl fl_max a v)"
  by (induction v arbitrary: a) (simp_all add: fl_max_def)

lemma range_cases:
  assumes "f32_value (vector_min v)" and "\<not> narrow (vector_min v) (vector_max v)"
  obtains (overflow) t where "fsub (vector_max v) (vector_min v) = Inf t"
  | (range) t r where "fsub (vector_max v) (vector_min v) = Fin t r" "r \<noteq> 0"
proof (cases "fsub (vector_max v) (vector_min v)")
  case NaN
  have "\<not> is_nan (vector_max v)" unfolding vector_max_def by (rule fold_max_number) simp
  with NaN f32_value_cases [OF assms(1)] have False
    by (cases "vector_max v") (auto simp: fl_sub_def round_int_def round_to_def pack_def split: if_splits)
  then show thesis ..
next
  case (Inf t)
  then show thesis by (rule overflow)
next
  case (Fin t r)
  then show thesis using wide_range [OF assms(2)] range by blast
qed

lemma decode_length [simp]: "length (scalar_to_f32 (scalar_from_f32 v)) = length v"
  by (simp add: scalar_to_f32_def scalar_from_f32_def)

lemma scalar_decoded_at:
  assumes "i < length v"
  shows "scalar_to_f32 (scalar_from_f32 v) ! i =
    (if narrow (vector_min v) (vector_max v) then vector_min v
     else decode_component (vector_min v) (fsub (vector_max v) (vector_min v))
       (encode_component (vector_min v) (fsub (vector_max v) (vector_min v)) (v ! i)))"
proof -
  have "v \<noteq> []" using assms by auto
  then show ?thesis using assms by (simp add: scalar_to_f32_def scalar_from_f32_def)
qed

section \<open>Properties\<close>

text \<open>
  Scalar quantization keeps the dimension, and decodes every component that is the vector's
  minimum to that minimum; but where the range between the extremes overflows \<^verbatim>\<open>f32\<close>,
  the minimum decodes to NaN.
\<close>

theorem scalar_keeps_minimum:
  assumes "\<forall>x \<in> set v. f32_value x" and "i < length v" and "v ! i = vector_min v"
  shows "length (scalar_to_f32 (scalar_from_f32 v)) = length v
    \<and> vector_min v \<in> set v
    \<and> (if is_infinite (fsub (vector_max v) (vector_min v)) then is_nan (scalar_to_f32 (scalar_from_f32 v) ! i)
       else fl_eq (scalar_to_f32 (scalar_from_f32 v) ! i) (vector_min v))"
proof -
  let ?lo = "vector_min v" and ?hi = "vector_max v"
  have ne: "v \<noteq> []" using assms(2) by auto
  have mem: "?lo \<in> set v" by (rule vector_min_member [OF assms(1) ne])
  then have lo: "f32_value ?lo" using assms(1) by simp
  obtain s m where fin: "?lo = Fin s m" using f32_value_cases [OF lo] by blast
  note at = scalar_decoded_at [OF assms(2), unfolded assms(3)]
  have "if is_infinite (fsub ?hi ?lo) then is_nan (scalar_to_f32 (scalar_from_f32 v) ! i)
    else fl_eq (scalar_to_f32 (scalar_from_f32 v) ! i) ?lo"
  proof (cases "narrow ?lo ?hi")
    case True
    then have "\<not> is_infinite (fsub ?hi ?lo)"
      by (cases "fsub ?hi ?lo") (auto simp: narrow_def float_eval f32_epsilon_def)
    then show ?thesis using at True fin by (simp add: fl_eq_def partial_cmp_def)
  next
    case False
    from lo False show ?thesis
    proof (cases rule: range_cases)
      case (overflow t)
      then show ?thesis using at False encode_minimum_overflow [of s m t] decode_minimum_overflow [of ?lo t]
        by (simp add: fin)
    next
      case (range t r)
      then show ?thesis using at False encode_minimum [OF range(2), of s m t] decode_minimum [OF lo, of t r]
        by (simp add: fin)
    qed
  qed
  then show ?thesis using mem by simp
qed

definition least_and_greatest :: "f32 list" where
  "least_and_greatest = [Fin True ((2 ^ 24 - 1) * 2 ^ 253), Fin False ((2 ^ 24 - 1) * 2 ^ 253)]"

theorem scalar_keeps_minimum_witness:
  "is_nan (scalar_to_f32 (scalar_from_f32 least_and_greatest) ! 0)"
proof -
  have v: "\<forall>x \<in> set least_and_greatest. f32_value x"
    using representable_shift [of "2 ^ 24 - 1" 24 253] by (simp add: least_and_greatest_def f32_value_def)
  have m: "vector_min least_and_greatest = least_and_greatest ! 0"
    by (simp add: vector_min_def least_and_greatest_def float_eval)
  have x: "vector_max least_and_greatest = least_and_greatest ! 1"
    by (simp add: vector_max_def least_and_greatest_def float_eval)
  have r: "is_infinite (fsub (vector_max least_and_greatest) (vector_min least_and_greatest))"
    unfolding m x by (simp add: least_and_greatest_def float_eval)
  have l: "0 < length least_and_greatest" by (simp add: least_and_greatest_def)
  show ?thesis using scalar_keeps_minimum [OF v l m [symmetric]] r by simp
qed

text \<open>
  Product quantization of a non-empty vector decodes exactly when the last of the requested
  blocks still starts inside the vector: then decoding gives the block-wise reconstruction, of the
  vector's length. Otherwise the encoder has produced fewer blocks than it records, and decoding its
  own output is a corrupted-data error.
\<close>

theorem pq_roundtrip:
  assumes "v \<noteq> []"
  shows "if (effective_subquantizers v s - 1) * block_length v s < length v
    then \<exists>w. pq_try_to_f32 (pq_from_f32 v s) = Inr w \<and> length w = length v
      \<and> w = concat (map (\<lambda>b. reconstruct_block (block_slice (block_length v s) v b)) [0..<effective_subquantizers v s])
    else \<exists>m. pq_try_to_f32 (pq_from_f32 v s) = fail (Storage (CorruptedData m))"
  using pq_decodes [OF assms, of s] pq_short [OF assms, of s] by (simp split: if_split)

theorem pq_roundtrip_witness:
  "\<exists>m. pq_try_to_f32 (pq_from_f32 (replicate 9 f32_zero) 8) = fail (Storage (CorruptedData m))"
proof -
  have "\<not> (effective_subquantizers (replicate 9 f32_zero) 8 - 1) * block_length (replicate 9 f32_zero) 8
    < length (replicate 9 f32_zero)"
    by (simp add: effective_subquantizers_def block_length_def div_ceil_def)
  then show ?thesis using pq_roundtrip [of "replicate 9 f32_zero" 8] by simp
qed

text \<open>The shape a quantized vector has by its kind.\<close>

definition pq_well_formed :: "product_quantized \<Rightarrow> bool" where
  "pq_well_formed p \<longleftrightarrow> length (block_mins p) = length (block_maxs p) \<and>
     length (block_mins p) \<le> pq_subquantizers p \<and> pq_subquantizers p \<le> pq_dim p \<and> length (pq_codes p) = pq_dim p"

definition quantized_well_formed :: "quantized_vector \<Rightarrow> bool" where
  "quantized_well_formed q =
     (case qv_kind q of
        KScalar \<Rightarrow> qv_pq q = None
      | KPq \<Rightarrow> (case qv_pq q of Some p \<Rightarrow> pq_well_formed p \<and> qv_values q = [] | None \<Rightarrow> False))"

lemma blocks_until_prefix:
  assumes "0 < s"
  obtains k where "blocks_until dim (div_ceil dim s) s = [0..<k]" and "k \<le> s"
    and "dim \<le> k * div_ceil dim s" and "k = 0 \<or> (k - 1) * div_ceil dim s < dim"
proof -
  let ?len = "div_ceil dim s" and ?P = "\<lambda>b. b * div_ceil dim s < dim"
  define k where "k = length (takeWhile ?P [0..<s])"
  have k: "k \<le> s" using length_takeWhile_le [of ?P "[0..<s]"] by (simp add: k_def)
  have t: "takeWhile ?P [0..<s] = [0..<k]"
    using takeWhile_eq_take [of ?P "[0..<s]"] k by (simp add: take_upt flip: k_def)
  have covers: "dim \<le> k * ?len"
  proof (cases "k = s")
    case True
    then show ?thesis using div_ceil_covers [OF assms, of dim] by simp
  next
    case False
    then have "k < length [0..<s]" using k by simp
    from nth_length_takeWhile [OF this [unfolded k_def]] this show ?thesis by (simp flip: k_def)
  qed
  have last: "(k - 1) * ?len < dim" if "k \<noteq> 0"
  proof -
    have "k - 1 \<in> set (takeWhile ?P [0..<s])" using that by (simp add: t)
    then show ?thesis by (meson set_takeWhileD)
  qed
  show thesis using t k covers last by (intro that [of k]) (auto simp: blocks_until_def)
qed

lemma pq_from_well_formed: "pq_well_formed (pq_from_f32 v s) \<and> pq_dim (pq_from_f32 v s) = length v"
proof (cases "v = []")
  case True
  then show ?thesis by (simp add: pq_from_f32_def pq_well_formed_def)
next
  case False
  let ?s = "effective_subquantizers v s" and ?len = "block_length v s"
  have s: "0 < ?s" "?s \<le> length v" using False by (simp_all add: effective_subquantizers_def)
  obtain k where k: "blocks_until (length v) ?len ?s = [0..<k]" "k \<le> ?s" "length v \<le> k * ?len"
    "k = 0 \<or> (k - 1) * ?len < length v"
    using blocks_until_prefix [OF s(1), of "length v"] unfolding block_length_def by blast
  have "k * ?len - ?len < length v \<or> k = 0" using k(4) by (auto simp: diff_mult_distrib)
  from blocks_length [OF this] k(3) s k(2) show ?thesis
    by (simp add: pq_fields [OF False] Let_def k(1) pq_well_formed_def)
qed


end
