(* ===== verification/Latency.thy ===== *)
theory Latency
  imports Floats
begin

text \<open>
  Latency averages, \<^verbatim>\<open>src/src/metrics/latency.rs\<close>, \<^verbatim>\<open>locks.rs\<close> and
  \<^verbatim>\<open>embed.rs\<close>. Each kind of operation has an average in microseconds and a count, two
  atomics of the code; the arithmetic wraps at 64 bits as in a release build. A count that itself
  wraps after \<open>2 ^ 64\<close> samples is not modelled.
\<close>

section \<open>Moving averages\<close>

definition wrap64 :: "nat \<Rightarrow> nat" where
  "wrap64 n = n mod 2 ^ 64"

record moving_average =
  avg_us :: nat
  samples :: nat

definition no_samples :: moving_average where
  "no_samples = \<lparr>avg_us = 0, samples = 0\<rparr>"

definition update_moving_average :: "nat \<Rightarrow> nat \<Rightarrow> nat \<Rightarrow> nat" where
  "update_moving_average current new_value cnt =
     (if cnt \<le> 5 then wrap64 (wrap64 (current * (cnt - 1)) + new_value) div cnt
      else wrap64 (wrap64 (current * 4) + new_value) div 5)"

text \<open>The count first, then the average; the duration's microseconds are cut to 64 bits.\<close>

definition record_sample :: "nat \<Rightarrow> moving_average \<Rightarrow> moving_average" where
  "record_sample us m =
     m\<lparr>samples := samples m + 1,
       avg_us := update_moving_average (avg_us m) (wrap64 us) (samples m + 1)\<rparr>"

definition average_ms :: "moving_average \<Rightarrow> f32 option" where
  "average_ms m = (if avg_us m > 0 then Some (fdiv (fl_of_nat F32 (avg_us m)) (f32_lit 1000 1)) else None)"

section \<open>The tracker of a collection\<close>

record latency_tracker =
  insert_latency :: moving_average
  search_latency :: moving_average
  delete_latency :: moving_average
  update_latency :: moving_average
  lock_read_latency :: moving_average
  lock_write_latency :: moving_average

definition latency_tracker_new :: latency_tracker where
  "latency_tracker_new = \<lparr>insert_latency = no_samples, search_latency = no_samples,
     delete_latency = no_samples, update_latency = no_samples, lock_read_latency = no_samples,
     lock_write_latency = no_samples\<rparr>"

definition record_insert :: "nat \<Rightarrow> latency_tracker \<Rightarrow> latency_tracker" where
  "record_insert us t = t\<lparr>insert_latency := record_sample us (insert_latency t)\<rparr>"

definition record_search :: "nat \<Rightarrow> latency_tracker \<Rightarrow> latency_tracker" where
  "record_search us t = t\<lparr>search_latency := record_sample us (search_latency t)\<rparr>"

definition record_delete :: "nat \<Rightarrow> latency_tracker \<Rightarrow> latency_tracker" where
  "record_delete us t = t\<lparr>delete_latency := record_sample us (delete_latency t)\<rparr>"

definition record_update :: "nat \<Rightarrow> latency_tracker \<Rightarrow> latency_tracker" where
  "record_update us t = t\<lparr>update_latency := record_sample us (update_latency t)\<rparr>"

definition record_lock_read :: "nat \<Rightarrow> latency_tracker \<Rightarrow> latency_tracker" where
  "record_lock_read us t = t\<lparr>lock_read_latency := record_sample us (lock_read_latency t)\<rparr>"

definition record_lock_write :: "nat \<Rightarrow> latency_tracker \<Rightarrow> latency_tracker" where
  "record_lock_write us t = t\<lparr>lock_write_latency := record_sample us (lock_write_latency t)\<rparr>"

section \<open>Embedding requests\<close>

record embed_metrics =
  em_requests :: nat
  em_texts :: nat
  em_tokens :: nat
  em_latency_ns :: nat

definition no_embeddings :: embed_metrics where
  "no_embeddings = \<lparr>em_requests = 0, em_texts = 0, em_tokens = 0, em_latency_ns = 0\<rparr>"

definition record_embedding :: "nat \<Rightarrow> nat \<Rightarrow> nat \<Rightarrow> nat \<Rightarrow> embed_metrics \<Rightarrow> embed_metrics" where
  "record_embedding requests texts tokens ns m =
     \<lparr>em_requests = wrap64 (em_requests m + requests), em_texts = wrap64 (em_texts m + texts),
      em_tokens = wrap64 (em_tokens m + tokens), em_latency_ns = wrap64 (em_latency_ns m + wrap64 ns)\<rparr>"

record embed_snapshot =
  es_requests :: nat
  es_texts :: nat
  es_tokens :: nat
  es_avg_latency_ms :: "f32 option"

text \<open>The quotient of the total by the requests and by a million is taken in double precision.\<close>

definition f64_to_f32 :: "f64 \<Rightarrow> f32" where
  "f64_to_f32 x = (case x of NaN \<Rightarrow> NaN | Inf s \<Rightarrow> Inf s | Fin s m \<Rightarrow> round_to F32 s m (2 ^ (unit_bits F64 - unit_bits F32)))"

definition embed_snapshot_of :: "embed_metrics \<Rightarrow> embed_snapshot" where
  "embed_snapshot_of m =
     \<lparr>es_requests = em_requests m, es_texts = em_texts m, es_tokens = em_tokens m,
      es_avg_latency_ms =
        (if em_requests m > 0
         then Some (f64_to_f32 (fl_div F64 (fl_div F64 (fl_of_nat F64 (em_latency_ns m)) (fl_of_nat F64 (em_requests m)))
           (fl_of_nat F64 1000000)))
         else None)\<rparr>"

section \<open>Averages stay between the samples\<close>

lemma update_between:
  assumes "lo \<le> current" "current \<le> hi" "lo \<le> us" "us \<le> hi" "hi < 2 ^ 61" "0 < cnt"
  shows "lo \<le> update_moving_average current us cnt \<and> update_moving_average current us cnt \<le> hi"
proof -
  have step: "lo \<le> wrap64 (wrap64 (current * k) + us) div Suc k \<and> wrap64 (wrap64 (current * k) + us) div Suc k \<le> hi"
    if "k \<le> 4" for k
  proof -
    have a: "current * k \<le> hi * k" "lo * k \<le> current * k" using assms(1,2) by simp_all
    have "hi * k \<le> hi * 4" using that by simp
    then have "current * k \<le> hi * 4" using a(1) by (rule le_trans [rotated])
    then have "current * k + us \<le> hi * 5" using assms(4) by linarith
    also have "hi * 5 < 2 ^ 64" using assms(5) by simp
    finally have b: "current * k + us < 2 ^ 64" .
    then have w: "wrap64 (wrap64 (current * k) + us) = current * k + us" by (simp add: wrap64_def)
    have "lo * Suc k \<le> current * k + us" "current * k + us \<le> hi * Suc k" using a assms(3,4) by (simp_all only: mult_Suc_right)
    then have "lo \<le> (current * k + us) div Suc k \<and> (current * k + us) div Suc k \<le> hi"
      by (metis div_le_mono nonzero_mult_div_cancel_right nat.distinct(1))
    then show ?thesis by (simp add: w)
  qed
  show ?thesis
  proof (cases "cnt \<le> 5")
    case True
    then obtain k where "cnt = Suc k" "k \<le> 4" using assms(6) by (cases cnt) auto
    then show ?thesis using step [of k] by (simp add: update_moving_average_def)
  next
    case False
    then show ?thesis using step [of 4] by (simp add: update_moving_average_def)
  qed
qed

lemma record_between:
  assumes "\<forall>u \<in> set us. lo \<le> u \<and> u \<le> hi" "hi < 2 ^ 61" "lo \<le> avg_us m \<and> avg_us m \<le> hi"
  shows "lo \<le> avg_us (fold record_sample us m) \<and> avg_us (fold record_sample us m) \<le> hi \<and>
    samples (fold record_sample us m) = samples m + length us"
  using assms
proof (induction us arbitrary: m)
  case (Cons u us)
  have "wrap64 u = u" using Cons.prems(1,2) by (simp add: wrap64_def)
  then have "lo \<le> avg_us (record_sample u m) \<and> avg_us (record_sample u m) \<le> hi"
    using update_between [of lo "avg_us m" hi u "samples m + 1"] Cons.prems by (simp add: record_sample_def)
  from Cons.IH [OF _ Cons.prems(2) this] Cons.prems(1) show ?case by (simp add: record_sample_def)
qed simp

text \<open>
  After any number of samples, each below \<open>2 ^ 61\<close> microseconds, the moving average lies
  between the smallest and the largest of them, and every sample is counted: neither the
  integer divisions nor the switch to the exponential average can take it outside.
\<close>

theorem average_within_samples:
  assumes "us \<noteq> []" and "\<forall>u \<in> set us. u < 2 ^ 61"
  shows "Min (set us) \<le> avg_us (fold record_sample us no_samples)
    \<and> avg_us (fold record_sample us no_samples) \<le> Max (set us)
    \<and> samples (fold record_sample us no_samples) = length us"
proof -
  obtain u rest where us: "us = u # rest" using assms(1) by (cases us) simp_all
  have hi: "Max (set us) < 2 ^ 61" using assms by simp
  have u: "wrap64 u = u" using assms(2) us by (simp add: wrap64_def)
  have first: "record_sample u no_samples = \<lparr>avg_us = u, samples = 1\<rparr>"
    using u by (simp add: record_sample_def no_samples_def update_moving_average_def wrap64_def)
  have mem: "Min (set us) \<le> u" "u \<le> Max (set us)" by (simp_all add: us)
  have "\<forall>x \<in> set rest. Min (set us) \<le> x \<and> x \<le> Max (set us)" by (simp add: us)
  from record_between [OF this hi, of "\<lparr>avg_us = u, samples = 1\<rparr>"] mem show ?thesis by (simp add: us first)
qed

theorem average_within_samples_witness:
  "avg_us (fold record_sample [10, 20, 60] no_samples) \<in> {10..60}"
  using average_within_samples [of "[10, 20, 60]"] by simp

end
