(* ===== verification/Embedders.thy ===== *)
theory Embedders
  imports Latency Errors
begin

text \<open>
  The wrappers around an embedding provider: retries with exponential back-off,
  \<^verbatim>\<open>src/src/embeddings/retry.rs\<close>, and the LRU cache of
  \<^verbatim>\<open>cache.rs\<close>. A provider (an HTTP client) is a parameter, an operation on a state
  of its own; so is the table of the \<^verbatim>\<open>lru\<close> crate. Sleeping is recorded in a list.
\<close>

section \<open>The embedder interface\<close>

record embedding_response =
  embedding :: "f32 list"
  tokens :: "nat option"
  response_model :: string

type_synonym 's embedder = "string \<Rightarrow> ('s, embedding_error, embedding_response) op"

section \<open>Retrying\<close>

record retry_config =
  max_retries :: nat
  initial_delay_ms :: nat
  max_delay_ms :: nat

definition default_retry_config :: retry_config where
  "default_retry_config = \<lparr>max_retries = 3, initial_delay_ms = 1000, max_delay_ms = 30000\<rparr>"

definition is_retryable_error :: "embedding_error \<Rightarrow> bool" where
  "is_retryable_error e = embedding_is_recoverable e"

definition next_delay :: "retry_config \<Rightarrow> nat \<Rightarrow> nat" where
  "next_delay rc delay = min (wrap64 (delay * 2)) (max_delay_ms rc)"

text \<open>The loop: failures so far, the next delay; the state is the provider's and the sleeps.\<close>

function retry_loop ::
  "'s embedder \<Rightarrow> retry_config \<Rightarrow> string \<Rightarrow> nat \<Rightarrow> nat
     \<Rightarrow> ('s \<times> nat list, embedding_error, embedding_response) op" where
  "retry_loop f rc t attempts delay s =
     (case f t (fst s) of
        (Inr r, p) \<Rightarrow> (Inr r, (p, snd s))
      | (Inl e, p) \<Rightarrow>
          if \<not> is_retryable_error e \<or> attempts + 1 > max_retries rc then (Inl e, (p, snd s))
          else retry_loop f rc t (attempts + 1) (next_delay rc delay) (p, snd s @ [delay]))"
  by pat_completeness auto

termination
  by (relation "measure (\<lambda>(f, rc, t, attempts, delay, s). max_retries rc - attempts)") auto

declare retry_loop.simps [simp del]

definition retry_embed :: "'s embedder \<Rightarrow> retry_config \<Rightarrow> ('s \<times> nat list) embedder" where
  "retry_embed f rc t = retry_loop f rc t 0 (initial_delay_ms rc)"

section \<open>Caching\<close>

text \<open>\<^verbatim>\<open>LruCache::get\<close> moves the entry to the front, so it is an operation too.\<close>

record 'l lru =
  lru_get :: "string \<Rightarrow> 'l \<Rightarrow> f32 list option \<times> 'l"
  lru_put :: "string \<Rightarrow> f32 list \<Rightarrow> 'l \<Rightarrow> 'l"
  lru_new :: "nat \<Rightarrow> 'l"
  lru_clear :: "'l \<Rightarrow> 'l"
  lru_len :: "'l \<Rightarrow> nat"
  lru_cap :: "'l \<Rightarrow> nat"

definition cached_new :: "'l lru \<Rightarrow> nat \<Rightarrow> 'l" where
  "cached_new L capacity = lru_new L (if capacity = 0 then 10000 else capacity)"

definition cached_embed :: "'l lru \<Rightarrow> string \<Rightarrow> 's embedder \<Rightarrow> ('l \<times> 's) embedder" where
  "cached_embed L model f t = (\<lambda>(l, s).
     case lru_get L t l of
       (Some v, l1) \<Rightarrow> (Inr \<lparr>embedding = v, tokens = None, response_model = model\<rparr>, (l1, s))
     | (None, l1) \<Rightarrow>
         (case f t s of
            (Inl e, s1) \<Rightarrow> (Inl e, (l1, s1))
          | (Inr r, s1) \<Rightarrow> (Inr r, (lru_put L t (embedding r) l1, s1))))"

definition clear_cache :: "'l lru \<Rightarrow> 'l \<times> 's \<Rightarrow> 'l \<times> 's" where
  "clear_cache L = (\<lambda>(l, s). (lru_clear L l, s))"

record cache_stats =
  stats_size :: nat
  stats_capacity :: nat

definition cache_stats_of :: "'l lru \<Rightarrow> 'l \<times> 's \<Rightarrow> cache_stats" where
  "cache_stats_of L s = \<lparr>stats_size = lru_len L (fst s), stats_capacity = lru_cap L (fst s)\<rparr>"

definition hit_rate_estimate :: "cache_stats \<Rightarrow> f32" where
  "hit_rate_estimate c =
     (if stats_capacity c = 0 then f32_zero
      else fdiv (fl_of_nat F32 (stats_size c)) (fl_of_nat F32 (stats_capacity c)))"

section \<open>Repeated calls\<close>

text \<open>The provider's state before its \<open>k\<close>th call on a text, and what that call answers.\<close>

fun after_calls :: "'s embedder \<Rightarrow> string \<Rightarrow> nat \<Rightarrow> 's \<Rightarrow> 's" where
  "after_calls f t 0 s = s"
| "after_calls f t (Suc k) s = after_calls f t k (snd (f t s))"

definition call_answer :: "'s embedder \<Rightarrow> string \<Rightarrow> 's \<Rightarrow> nat \<Rightarrow> embedding_error + embedding_response" where
  "call_answer f t s k = fst (f t (after_calls f t k s))"

definition worth_retrying :: "embedding_error + embedding_response \<Rightarrow> bool" where
  "worth_retrying r = (case r of Inl e \<Rightarrow> embedding_is_recoverable e | Inr _ \<Rightarrow> False)"

lemma call_answer_shift: "call_answer f t (snd (f t s)) k = call_answer f t s (Suc k)"
  by (simp add: call_answer_def)

fun nth_delay :: "retry_config \<Rightarrow> nat \<Rightarrow> nat \<Rightarrow> nat" where
  "nth_delay rc d 0 = d"
| "nth_delay rc d (Suc k) = nth_delay rc (next_delay rc d) k"

lemma delays_shift: "d # map (nth_delay rc (next_delay rc d)) [0..<n] = map (nth_delay rc d) [0..<Suc n]"
  unfolding map_upt_Suc by simp

lemma retry_loop_stops:
  assumes "attempts \<le> max_retries rc"
  shows "\<exists>n \<le> max_retries rc - attempts.
    retry_loop f rc t attempts d (s, ds)
      = (call_answer f t s n, (after_calls f t (Suc n) s, ds @ map (nth_delay rc d) [0..<n])) \<and>
    (\<forall>k < n. worth_retrying (call_answer f t s k)) \<and>
    (worth_retrying (call_answer f t s n) \<longrightarrow> n = max_retries rc - attempts)"
  using assms
proof (induction "max_retries rc - attempts" arbitrary: attempts d s ds)
  case 0
  then have "retry_loop f rc t attempts d (s, ds) = (call_answer f t s 0, (snd (f t s), ds))"
    by (subst retry_loop.simps) (auto simp: call_answer_def split: prod.splits sum.splits)
  with 0 show ?case by (intro exI [of _ 0]) simp
next
  case (Suc m)
  let ?s = "snd (f t s)"
  show ?case
  proof (cases "worth_retrying (call_answer f t s 0)")
    case False
    then have "retry_loop f rc t attempts d (s, ds) = (call_answer f t s 0, (?s, ds))"
      by (subst retry_loop.simps) (auto simp: call_answer_def worth_retrying_def is_retryable_error_def
          split: prod.splits sum.splits)
    with False show ?thesis by (intro exI [of _ 0]) simp
  next
    case True
    have a: "m = max_retries rc - (attempts + 1)" "attempts + 1 \<le> max_retries rc" using Suc.hyps(2) by simp_all
    have step: "retry_loop f rc t attempts d (s, ds)
        = retry_loop f rc t (attempts + 1) (next_delay rc d) (?s, ds @ [d])"
      using True a(2) by (subst retry_loop.simps)
        (auto simp: call_answer_def worth_retrying_def is_retryable_error_def split: prod.splits sum.splits)
    obtain n where n: "n \<le> m"
      "retry_loop f rc t (attempts + 1) (next_delay rc d) (?s, ds @ [d])
        = (call_answer f t ?s n, (after_calls f t (Suc n) ?s, (ds @ [d]) @ map (nth_delay rc (next_delay rc d)) [0..<n]))"
      "\<forall>k < n. worth_retrying (call_answer f t ?s k)" "worth_retrying (call_answer f t ?s n) \<longrightarrow> n = m"
      using Suc.hyps(1) [OF a, of "next_delay rc d" ?s "ds @ [d]"] a(1) by auto
    have "\<forall>k < Suc n. worth_retrying (call_answer f t s k)"
      using n(3) True by (auto simp: call_answer_shift less_Suc_eq_0_disj)
    then show ?thesis
      using n step Suc.hyps(2) delays_shift [of d rc n]
      by (intro exI [of _ "Suc n"]) (auto simp: call_answer_shift)
  qed
qed

lemma doubling_delay:
  assumes "d \<le> max_delay_ms rc" "max_delay_ms rc < 2 ^ 63"
  shows "nth_delay rc d k = min (d * 2 ^ k) (max_delay_ms rc)"
  using assms(1)
proof (induction k arbitrary: d)
  case (Suc k)
  have n: "next_delay rc d = min (d * 2) (max_delay_ms rc)"
    using Suc.prems assms(2) by (simp add: next_delay_def wrap64_def)
  have "min (min (d * 2) m * 2 ^ k) m = min (d * 2 * 2 ^ k) m" for m :: nat
  proof (cases "d * 2 \<le> m")
    case False
    have "m \<le> m * 2 ^ k" "m * 2 ^ k \<le> d * 2 * 2 ^ k" using False by simp_all
    then have "m \<le> d * 2 * 2 ^ k" by (rule le_trans)
    with \<open>m \<le> m * 2 ^ k\<close> False show ?thesis by simp
  qed simp
  then show ?case using Suc.IH [of "next_delay rc d"] by (simp add: n mult.assoc)
qed simp

text \<open>
  The retrying embedder calls the provider until it answers, fails for good or has failed
  \<open>max_retries\<close> times after the first call, and returns that call's answer: it always
  terminates, makes at most \<open>max_retries + 1\<close> calls, repeats only recoverable errors, and
  sleeps \<open>initial * 2 ^ k\<close> milliseconds after the \<open>k\<close>th failure, capped at the maximal delay.
\<close>

theorem retry_exact:
  assumes "initial_delay_ms rc \<le> max_delay_ms rc" and "max_delay_ms rc < 2 ^ 63"
  shows "\<exists>n \<le> max_retries rc.
    retry_embed f rc t (s, []) = (call_answer f t s n,
      (after_calls f t (Suc n) s, map (\<lambda>k. min (initial_delay_ms rc * 2 ^ k) (max_delay_ms rc)) [0..<n])) \<and>
    (\<forall>k < n. worth_retrying (call_answer f t s k)) \<and>
    (worth_retrying (call_answer f t s n) \<longrightarrow> n = max_retries rc)"
proof -
  have "nth_delay rc (initial_delay_ms rc) = (\<lambda>k. min (initial_delay_ms rc * 2 ^ k) (max_delay_ms rc))"
    by (rule ext) (rule doubling_delay [OF assms])
  then show ?thesis
    using retry_loop_stops [of 0 rc f t "initial_delay_ms rc" s "[]"] by (simp add: retry_embed_def)
qed

theorem retry_exact_witness:
  "\<exists>n \<le> 3. retry_embed (\<lambda>t s. (Inl RateLimitExceeded, s + 1)) default_retry_config ''a'' (0 :: nat, [])
    = (Inl RateLimitExceeded, (Suc n, map (\<lambda>k. min (1000 * 2 ^ k) 30000) [0..<n]))"
proof -
  have a: "after_calls (\<lambda>t s. (Inl RateLimitExceeded, Suc s)) t k (s :: nat) = s + k" for t k s
    by (induction k arbitrary: s) simp_all
  show ?thesis
    using retry_exact [of default_retry_config "\<lambda>t s. (Inl RateLimitExceeded, s + 1)" "''a''" "0 :: nat"]
    by (auto simp: default_retry_config_def call_answer_def a)
qed

section \<open>Answers through the wrappers\<close>

text \<open>
  What the \<^verbatim>\<open>lru\<close> crate documents, with \<open>view\<close> the entries held: a lookup finds what is
  held and holds nothing new, a put holds its value and may drop others.
\<close>

definition lru_ok :: "'l lru \<Rightarrow> ('l \<Rightarrow> string \<Rightarrow> f32 list option) \<Rightarrow> bool" where
  "lru_ok L view \<longleftrightarrow>
     (\<forall>t l. fst (lru_get L t l) = view l t \<and> view (snd (lru_get L t l)) = view l) \<and>
     (\<forall>t v l u. view (lru_put L t v l) u \<in> {None, if u = t then Some v else view l u}) \<and>
     (\<forall>n u. view (lru_new L n) u = None)"

text \<open>A provider that, when it answers, answers with the vector of the text, whatever its state.\<close>

definition answers :: "(string \<Rightarrow> f32 list) \<Rightarrow> ('s \<Rightarrow> bool) \<Rightarrow> 's embedder \<Rightarrow> bool" where
  "answers ans I f \<longleftrightarrow>
     (\<forall>t s. I s \<longrightarrow> I (snd (f t s)) \<and> (\<forall>r. fst (f t s) = Inr r \<longrightarrow> embedding r = ans t))"

lemma after_calls_inv: "answers ans I f \<Longrightarrow> I s \<Longrightarrow> I (after_calls f t k s)"
  by (induction k arbitrary: s) (auto simp: answers_def)

lemma retry_answers: "answers ans I f \<Longrightarrow> answers ans (\<lambda>s. I (fst s)) (retry_embed f rc)"
  unfolding answers_def [of ans "\<lambda>s. I (fst s)"]
proof (intro allI impI)
  fix t and s :: "'a \<times> nat list" assume f: "answers ans I f" and i: "I (fst s)"
  obtain n where n: "retry_embed f rc t s = (call_answer f t (fst s) n,
      (after_calls f t (Suc n) (fst s), snd s @ map (nth_delay rc (initial_delay_ms rc)) [0..<n]))"
    using retry_loop_stops [of 0 rc f t "initial_delay_ms rc" "fst s" "snd s"] by (auto simp: retry_embed_def)
  have "I (after_calls f t n (fst s))" "I (after_calls f t (Suc n) (fst s))"
    using after_calls_inv [OF f i] by blast+
  then show "I (fst (snd (retry_embed f rc t s))) \<and> (\<forall>r. fst (retry_embed f rc t s) = Inr r \<longrightarrow> embedding r = ans t)"
    using f by (simp add: n call_answer_def) (auto simp: answers_def)
qed

lemma cached_answers:
  fixes L :: "'l lru" and f :: "'s embedder"
  assumes "lru_ok L view" and "answers ans I f"
  shows "answers ans (\<lambda>(l, s). I s \<and> (\<forall>t v. view l t = Some v \<longrightarrow> v = ans t)) (cached_embed L model f)"
  unfolding answers_def
proof (intro allI impI)
  fix t and ls :: "'l \<times> 's"
  obtain l s where ls: "ls = (l, s)" by (cases ls)
  assume "case ls of (l, s) \<Rightarrow> I s \<and> (\<forall>t v. view l t = Some v \<longrightarrow> v = ans t)"
  then have i: "I s" "\<And>t v. view l t = Some v \<Longrightarrow> v = ans t" by (simp_all add: ls)
  have get: "fst (lru_get L t l) = view l t" "view (snd (lru_get L t l)) = view l"
    using assms(1) by (simp_all add: lru_ok_def)
  have put: "view (lru_put L t v m) u \<in> {None, if u = t then Some v else view m u}" for v m u
    using assms(1) unfolding lru_ok_def by blast
  have f: "I (snd (f t s))" "\<And>r. fst (f t s) = Inr r \<Longrightarrow> embedding r = ans t"
    using assms(2) i(1) by (simp_all add: answers_def)
  show "(case snd (cached_embed L model f t ls) of (l, s) \<Rightarrow> I s \<and> (\<forall>t v. view l t = Some v \<longrightarrow> v = ans t))
    \<and> (\<forall>r. fst (cached_embed L model f t ls) = Inr r \<longrightarrow> embedding r = ans t)"
  proof (cases "view l t")
    case (Some v)
    then obtain l1 where "lru_get L t l = (Some v, l1)" "view l1 = view l" using get by (metis prod.collapse)
    then show ?thesis using i Some by (simp add: ls cached_embed_def)
  next
    case None
    then obtain l1 where l1: "lru_get L t l = (None, l1)" "view l1 = view l" using get by (metis prod.collapse)
    show ?thesis
    proof (cases "f t s")
      case (Pair r s1)
      then show ?thesis
      proof (cases r)
        case (Inl e)
        then show ?thesis using Pair i f l1 by (simp add: ls cached_embed_def)
      next
        case (Inr x)
        have x: "embedding x = ans t" using f(2) Pair Inr by simp
        have "v = ans u" if "view (lru_put L t (ans t) l1) u = Some v" for u v
          using put [of "ans t" l1 u] that i(2) [of u v] by (auto simp: l1(2) split: if_splits)
        then show ?thesis using Pair Inr i f l1 x by (simp add: ls cached_embed_def)
      qed
    qed
  qed
qed

lemma cached_hit:
  assumes "lru_ok L view" and "view l t = Some v"
  shows "retry_embed (cached_embed L model f) rc t ((l, s), ds)
    = (Inr \<lparr>embedding = v, tokens = None, response_model = model\<rparr>, ((snd (lru_get L t l), s), ds))"
proof -
  obtain l1 where "lru_get L t l = (Some v, l1)" using assms(1,2) unfolding lru_ok_def by (metis prod.collapse)
  then show ?thesis by (simp add: retry_embed_def retry_loop.simps cached_embed_def)
qed


definition one_entry_lru :: "(string \<times> f32 list) option lru" where
  "one_entry_lru = \<lparr>lru_get = (\<lambda>t l. (case l of Some (u, v) \<Rightarrow> if u = t then Some v else None | None \<Rightarrow> None, l)),
     lru_put = (\<lambda>t v l. Some (t, v)), lru_new = (\<lambda>n. None), lru_clear = (\<lambda>l. None),
     lru_len = (\<lambda>l. if l = None then 0 else 1), lru_cap = (\<lambda>l. 1)\<rparr>"

definition one_entry_view :: "(string \<times> f32 list) option \<Rightarrow> string \<Rightarrow> f32 list option" where
  "one_entry_view l t = (case l of Some (u, v) \<Rightarrow> if u = t then Some v else None | None \<Rightarrow> None)"

lemma one_entry_lru_ok: "lru_ok one_entry_lru one_entry_view"
  by (auto simp: lru_ok_def one_entry_lru_def one_entry_view_def split: option.splits)


end
