(* ===== verification/Server.thy ===== *)
theory Server
  imports Maintenance Crash Duplicates Embedders
begin

text \<open>
  The state the services share, \<^verbatim>\<open>AppState\<close> of
  \<^verbatim>\<open>src/src/runtime/state.rs\<close>, and the collection manager,
  \<^verbatim>\<open>src/src/collections/manager.rs\<close>. Requests run one after the other; a
  collection is on disk or loaded, and a request holds its write lock by name. The locks of
  parking\_lot are not reentrant, so taking one the thread holds, or one a thread blocked for ever
  holds, is the outcome \<open>Deadlock\<close>. Logging through tracing, and warming the page cache,
  change nothing and are left out.
\<close>

section \<open>State\<close>

datatype halt = Stopped fault | Deadlock

datatype rebuild_state = Running | Completed | Failed_rebuild

record rebuild_job =
  job_status :: rebuild_state
  started_at :: nat
  finished_at :: "nat option"
  job_error :: "msg option"
  elapsed_ms :: "nat option"

text \<open>
  What the server takes from outside: the collection's environment, the layout of memory, UUIDs and
  their text, Unicode, the order of its hash table, free disk space, measured durations in
  nanoseconds, the configuration it reloads, the provider's answer to its \<open>n\<close>th call, and
  rayon's choice among errors.
\<close>

record 'b host =
  base :: "'b env"
  layout :: memory_layout
  parse_uuid :: "string \<Rightarrow> uuid option"
  show_uuid :: "uuid \<Rightarrow> string"
  new_uuid :: "nat \<Rightarrow> uuid"
  alphanumeric :: "nat \<Rightarrow> bool"
  chars_of :: "string \<Rightarrow> nat list"
  lowercase :: "string \<Rightarrow> string"
  name_order :: "string list \<Rightarrow> string list"
  disk_free :: "nat \<Rightarrow> nat"
  disk_total :: nat
  elapsed_ns :: "nat \<Rightarrow> nat"
  load_app_config :: "nat \<Rightarrow> app_config"
  embed_call :: "(nat \<Rightarrow> string \<Rightarrow> embedding_error + embedding_response) option"
  pick_fault :: "fault list \<Rightarrow> fault"

record 'b server =
  loaded :: "(string, 'b collection) hmap"
  trackers :: "(string, latency_tracker) hmap"
  disks :: "(string, 'b disk) hmap"
  app_conf :: app_config
  shutting_down :: bool
  read_only :: bool
  embed_metrics_of :: embed_metrics
  rebuild_jobs :: "(string, rebuild_job) hmap"
  rebuild_tasks :: "(string \<times> nat) list"
  config_last_reload :: nat
  disk_min_free_bytes :: "nat option"
  disk_readonly_on_low_space :: bool
  locked :: "string list"
  ticks :: nat
  draws :: nat
  uuids :: nat
  laps :: nat
  probes :: nat
  reloads :: nat
  embed_calls :: nat

type_synonym ('b, 'a) service = "('b server, halt, 'a) op"

definition lift :: "'a outcome \<Rightarrow> halt + 'a" where
  "lift r = (case r of Inl e \<Rightarrow> Inl (Stopped e) | Inr x \<Rightarrow> Inr x)"

definition give :: "'a outcome \<Rightarrow> ('b, 'a) service" where
  "give r = (\<lambda>s. (lift r, s))"

definition reject :: "server_error \<Rightarrow> ('b, 'a) service" where
  "reject e = give (fail (Server e))"

definition unavailable :: "string \<Rightarrow> ('b, 'a) service" where
  "unavailable t = reject (ServiceUnavailable [Txt t])"

text \<open>\<^verbatim>\<open>AppState::new\<close>, over the collections on disk.\<close>

definition app_state_new ::
  "'b host \<Rightarrow> (string, 'b disk) hmap \<Rightarrow> app_config \<Rightarrow> nat option \<Rightarrow> bool \<Rightarrow> 'b server" where
  "app_state_new H ds cfg min_free readonly_on_low =
     \<lparr>loaded = [], trackers = [], disks = ds, app_conf = cfg, shutting_down = False, read_only = False,
      embed_metrics_of = no_embeddings, rebuild_jobs = [], rebuild_tasks = [],
      config_last_reload = now_secs (base H) 0, disk_min_free_bytes = min_free,
      disk_readonly_on_low_space = readonly_on_low, locked = [], ticks = 1, draws = 0, uuids = 0,
      laps = 0, probes = 0, reloads = 0, embed_calls = 0\<rparr>"

section \<open>Clocks and trackers\<close>

text \<open>A duration measured with \<^verbatim>\<open>Instant::elapsed\<close>.\<close>

definition lap :: "'b host \<Rightarrow> ('b, nat) service" where
  "lap H = (\<lambda>s. (Inr (elapsed_ns H (laps s)), s\<lparr>laps := laps s + 1\<rparr>))"

definition micros :: "nat \<Rightarrow> nat" where
  "micros ns = ns div 1000"

definition millis :: "nat \<Rightarrow> nat" where
  "millis ns = ns div 1000000"

definition latency_ms :: "nat \<Rightarrow> f32 option" where
  "latency_ms ns = Some (fl_of_nat F32 (millis ns))"

definition server_clock :: "'b host \<Rightarrow> ('b, nat) service" where
  "server_clock H = (\<lambda>s. (Inr (now_secs (base H) (ticks s)), s\<lparr>ticks := ticks s + 1\<rparr>))"

definition draw_uuid :: "'b host \<Rightarrow> ('b, uuid) service" where
  "draw_uuid H = (\<lambda>s. (Inr (new_uuid H (uuids s)), s\<lparr>uuids := uuids s + 1\<rparr>))"

definition track :: "string \<Rightarrow> (latency_tracker \<Rightarrow> latency_tracker) \<Rightarrow> ('b, unit) service" where
  "track n f = op_modify (\<lambda>s.
     case hm_get (trackers s) n of
       None \<Rightarrow> s
     | Some t \<Rightarrow> s\<lparr>trackers := hm_insert n (f t) (trackers s)\<rparr>)"

section \<open>Collections and their locks\<close>

text \<open>The clock and the random source are the process's own: an operation continues from there.\<close>

definition on_collection :: "string \<Rightarrow> ('b, 'a) collection_op \<Rightarrow> ('b, 'a) service" where
  "on_collection n m = (\<lambda>s.
     case hm_get (loaded s) n of
       None \<Rightarrow> (Inl (Stopped Panicked), s)
     | Some c \<Rightarrow>
         (case m (c\<lparr>c_ticks := ticks s, c_draws := draws s\<rparr>) of
            (r, c') \<Rightarrow> (lift r, s\<lparr>loaded := hm_insert n c' (loaded s), ticks := c_ticks c', draws := c_draws c'\<rparr>)))"

definition view :: "string \<Rightarrow> ('b collection \<Rightarrow> 'a outcome) \<Rightarrow> ('b, 'a) service" where
  "view n f = (\<lambda>s.
     case hm_get (loaded s) n of
       None \<Rightarrow> (Inl (Stopped Panicked), s)
     | Some c \<Rightarrow> (lift (f c), s))"

text \<open>
  A guard is dropped when the handler returns, also with an error; a handler that never returns
  keeps it.
\<close>

definition release :: "string \<Rightarrow> ('b, 'a) service \<Rightarrow> ('b, 'a) service" where
  "release n m = (\<lambda>s.
     case m s of
       (Inl Deadlock, s') \<Rightarrow> (Inl Deadlock, s')
     | (r, s') \<Rightarrow> (r, s'\<lparr>locked := remove1 n (locked s')\<rparr>))"

definition acquire :: "string \<Rightarrow> ('b, unit) service" where
  "acquire n = (\<lambda>s. if n \<in> set (locked s) then (Inl Deadlock, s) else (Inr (), s))"

definition write_locked :: "'b host \<Rightarrow> string \<Rightarrow> ('b, 'a) service \<Rightarrow> ('b, 'a) service" where
  "write_locked H n m =
     op_then (acquire n) (\<lambda>_.
     op_then (op_modify (\<lambda>s. s\<lparr>locked := n # locked s\<rparr>)) (\<lambda>_.
     release n
       (op_then (lap H) (\<lambda>ns.
        op_then (track n (record_lock_write (micros ns))) (\<lambda>_. m)))))"

definition read_locked :: "'b host \<Rightarrow> string \<Rightarrow> ('b, 'a) service \<Rightarrow> ('b, 'a) service" where
  "read_locked H n m =
     op_then (acquire n) (\<lambda>_.
     op_then (lap H) (\<lambda>ns.
     op_then (track n (record_lock_read (micros ns))) (\<lambda>_. m)))"

section \<open>The collection manager\<close>

definition open_and_register :: "'b host \<Rightarrow> string \<Rightarrow> ('b, unit) service" where
  "open_and_register H n = (\<lambda>s.
     case open_collection (base H) n (to_collection_config (app_conf s)) (ticks s) (draws s)
         (case hm_get (disks s) n of None \<Rightarrow> no_files | Some d \<Rightarrow> d) of
       (Inl e, d) \<Rightarrow> (Inl (Stopped e), s\<lparr>disks := hm_insert n d (disks s)\<rparr>)
     | (Inr c, _) \<Rightarrow> (Inr (), s\<lparr>loaded := hm_insert n c (loaded s),
           trackers := hm_insert n latency_tracker_new (trackers s), disks := hm_remove n (disks s),
           ticks := c_ticks c, draws := c_draws c\<rparr>))"

definition get_existing :: "'b host \<Rightarrow> string \<Rightarrow> ('b, unit) service" where
  "get_existing H n = (\<lambda>s.
     if hm_contains (loaded s) n then (Inr (), s)
     else if \<not> hm_contains (disks s) n then reject (NotFound [Txt ''Collection not found'']) s
     else open_and_register H n s)"

definition get_or_create :: "'b host \<Rightarrow> string \<Rightarrow> ('b, unit) service" where
  "get_or_create H n = (\<lambda>s.
     if hm_contains (loaded s) n then (Inr (), s) else open_and_register H n s)"

text \<open>Dropping the handle leaves the files; the lock goes with it.\<close>

definition remove_collection :: "string \<Rightarrow> ('b, bool) service" where
  "remove_collection n = (\<lambda>s.
     case hm_get (loaded s) n of
       None \<Rightarrow> (Inr False, s\<lparr>trackers := hm_remove n (trackers s)\<rparr>)
     | Some c \<Rightarrow> (Inr True, s\<lparr>trackers := hm_remove n (trackers s), loaded := hm_remove n (loaded s),
         disks := hm_insert n (disk_of c) (disks s), locked := removeAll n (locked s)\<rparr>))"

definition loaded_names :: "'b host \<Rightarrow> 'b server \<Rightarrow> string list" where
  "loaded_names H s = hm_iter (name_order H) (loaded s)"

section \<open>Shared operations\<close>

definition get_existing_collection :: "'b host \<Rightarrow> string \<Rightarrow> ('b, unit) service" where
  "get_existing_collection H n = (\<lambda>s.
     if shutting_down s then unavailable ''Server is shutting down'' s else get_existing H n s)"

definition get_or_create_collection :: "'b host \<Rightarrow> string \<Rightarrow> ('b, unit) service" where
  "get_or_create_collection H n = (\<lambda>s.
     if shutting_down s then unavailable ''Server is shutting down'' s else get_or_create H n s)"

definition checkpoint_all :: "'b host \<Rightarrow> ('b, unit) service" where
  "checkpoint_all H = (\<lambda>s.
     op_for (\<lambda>n. op_then (acquire n) (\<lambda>_.
         op_then (on_collection n (checkpoint (base H))) (\<lambda>_. on_collection n flush)))
       (loaded_names H s) s)"

definition reload_config :: "'b host \<Rightarrow> ('b, app_config) service" where
  "reload_config H =
     op_then (op_modify (\<lambda>s. s\<lparr>app_conf := load_app_config H (reloads s), reloads := reloads s + 1\<rparr>)) (\<lambda>_.
     op_then (server_clock H) (\<lambda>now.
     op_then (op_modify (\<lambda>s. s\<lparr>config_last_reload := now\<rparr>)) (\<lambda>_.
     (\<lambda>s. (Inr (app_conf s), s)))))"

definition initiate_shutdown :: "('b, unit) service" where
  "initiate_shutdown = op_modify (\<lambda>s. s\<lparr>shutting_down := True\<rparr>)"

definition disk_free_bytes :: "'b host \<Rightarrow> ('b, nat) service" where
  "disk_free_bytes H = (\<lambda>s. (Inr (disk_free H (probes s)), s\<lparr>probes := probes s + 1\<rparr>))"

definition note_low_space :: "nat \<Rightarrow> nat \<Rightarrow> ('b, unit) service" where
  "note_low_space min_free free = (\<lambda>s.
     if free < min_free \<and> disk_readonly_on_low_space s
     then unavailable ''Low disk space; write operations disabled'' (s\<lparr>read_only := True\<rparr>)
     else (Inr (), s))"

definition ensure_write_allowed :: "'b host \<Rightarrow> ('b, unit) service" where
  "ensure_write_allowed H = (\<lambda>s.
     if shutting_down s then unavailable ''Server is shutting down'' s
     else if read_only s then unavailable ''Server is in read-only mode due to low disk space'' s
     else
       (case disk_min_free_bytes s of
          None \<Rightarrow> (Inr (), s)
        | Some min_free \<Rightarrow> op_then (disk_free_bytes H) (note_low_space min_free) s))"

section \<open>The cache budget\<close>

definition cache_usage_bytes :: "'b host \<Rightarrow> 'b collection \<Rightarrow> nat" where
  "cache_usage_bytes H c = cache_memory_usage_bytes (layout H) (c_cache c)"

definition metadata_cache_usage_bytes :: "'b host \<Rightarrow> 'b collection \<Rightarrow> nat" where
  "metadata_cache_usage_bytes H c = metadata_usage_bytes (layout H) (c_cache c)"

text \<open>Clearing returns the bytes it frees.\<close>

definition clear_metadata_cache :: "'b host \<Rightarrow> ('b, nat) collection_op" where
  "clear_metadata_cache H = (\<lambda>c.
     (Inr (metadata_cache_usage_bytes H c), c\<lparr>c_cache := clear_metadata (c_cache c)\<rparr>))"

definition usage_of :: "'b host \<Rightarrow> string \<Rightarrow> ('b, nat \<times> nat) service" where
  "usage_of H n =
     op_then (acquire n) (\<lambda>_.
     view n (\<lambda>c. Inr (cache_usage_bytes H c, metadata_cache_usage_bytes H c)))"

fun usages :: "'b host \<Rightarrow> string list \<Rightarrow> ('b, nat \<times> (string \<times> nat) list) service" where
  "usages H [] = op_return (0, [])"
| "usages H (n # ns) =
     op_then (usage_of H n) (\<lambda>(used, meta).
     op_then (usages H ns) (\<lambda>(rest, entries).
     op_return (sat_add used rest, (n, meta) # entries)))"

definition larger_metadata :: "string \<times> nat \<Rightarrow> string \<times> nat \<Rightarrow> ordering" where
  "larger_metadata a b = (if snd a > snd b then Less else if snd a < snd b then Greater else Equal)"

fun evict_until :: "'b host \<Rightarrow> nat \<Rightarrow> nat \<Rightarrow> (string \<times> nat) list \<Rightarrow> ('b, unit) service" where
  "evict_until H limit used [] = op_return ()"
| "evict_until H limit used ((n, meta) # rest) =
     (if used \<le> limit \<or> meta = 0 then op_return ()
      else
        op_then (acquire n) (\<lambda>_.
        op_then (on_collection n (clear_metadata_cache H)) (\<lambda>freed.
        evict_until H limit (used - freed) rest)))"

definition enforce_cache_budget :: "'b host \<Rightarrow> ('b, unit) service" where
  "enforce_cache_budget H = (\<lambda>s.
     if \<not> cache_enabled (app_cache (app_conf s)) then (Inr (), s)
     else
       (case cache_max_bytes (app_cache (app_conf s)) of
          None \<Rightarrow> (Inr (), s)
        | Some limit \<Rightarrow>
            op_then (usages H (loaded_names H s)) (\<lambda>(used, entries).
            if used > limit then evict_until H limit used (sort_by larger_metadata entries)
            else op_return ()) s))"

end
