(* ===== verification/Json.thy ===== *)
theory Json
  imports Metadata
begin

text \<open>
  Metadata in requests and responses, \<^verbatim>\<open>src/src/server/helpers.rs\<close>. A number
  of serde\_json is an unsigned or a negative integer of 64 bits or a finite double; the tables the
  loops run over are hash maps, so the order of their entries does not matter.
\<close>

datatype json =
    JNull
  | JBool bool
  | JInt int
  | JFloat f64
  | JString string
  | JArray "json list"
  | JObject "(string \<times> json) list"

type_synonym json_map = "(string, json) hmap"

definition as_i64 :: "int \<Rightarrow> int option" where
  "as_i64 i = (if - (2 ^ 63) \<le> i \<and> i < 2 ^ 63 then Some i else None)"

text \<open>The value an entry becomes, or nothing where the loop continues.\<close>

fun metadata_value_of :: "json \<Rightarrow> metadata_value option" where
  "metadata_value_of (JString s) = Some (MString s)"
| "metadata_value_of (JInt i) =
     (case as_i64 i of Some n \<Rightarrow> Some (MInteger n) | None \<Rightarrow> Some (MFloat (fl_of_int F64 i)))"
| "metadata_value_of (JFloat f) = Some (MFloat f)"
| "metadata_value_of (JBool b) = Some (MBoolean b)"
| "metadata_value_of JNull = Some MNull"
| "metadata_value_of (JArray _) = None"
| "metadata_value_of (JObject _) = None"

fun insert_json :: "string \<times> json \<Rightarrow> metadata \<Rightarrow> metadata" where
  "insert_json (k, v) m = (case metadata_value_of v of None \<Rightarrow> m | Some x \<Rightarrow> hm_insert k x m)"

definition json_to_metadata :: "json_map \<Rightarrow> metadata" where
  "json_to_metadata j = fold insert_json j []"

text \<open>\<^verbatim>\<open>json!\<close> of a double that is not finite is null.\<close>

definition json_of_float :: "f64 \<Rightarrow> json" where
  "json_of_float f = (if is_finite f then JFloat f else JNull)"

fun json_of_item :: "metadata_value \<Rightarrow> json" where
  "json_of_item (MString s) = JString s"
| "json_of_item (MInteger i) = JInt i"
| "json_of_item (MFloat f) = json_of_float f"
| "json_of_item (MBoolean b) = JBool b"
| "json_of_item MNull = JNull"
| "json_of_item (MArray _) = JNull"

fun json_of_value :: "metadata_value \<Rightarrow> json" where
  "json_of_value (MArray vs) = JArray (map json_of_item vs)"
| "json_of_value v = json_of_item v"

definition metadata_to_json :: "metadata \<Rightarrow> json_map" where
  "metadata_to_json m = map (\<lambda>(k, v). (k, json_of_value v)) m"

section \<open>Properties\<close>

lemma value_round_trip:
  "metadata_value_of (json_of_value v) =
     (case v of MArray _ \<Rightarrow> None
      | MFloat f \<Rightarrow> Some (if is_finite f then v else MNull)
      | MInteger i \<Rightarrow> Some (if as_i64 i = Some i then v else MFloat (fl_of_int F64 i))
      | _ \<Rightarrow> Some v)"
  by (cases v) (simp_all add: json_of_float_def as_i64_def)

lemma json_to_metadata_get:
  assumes "hm_ok j"
  shows "hm_get (fold insert_json j m) k =
    (case hm_get j k of
       None \<Rightarrow> hm_get m k
     | Some v \<Rightarrow> (case metadata_value_of v of None \<Rightarrow> hm_get m k | Some x \<Rightarrow> Some x))"
  using assms
proof (induction j arbitrary: m)
  case (Cons p j)
  obtain l v where p: "p = (l, v)" by (cases p)
  have ok: "hm_ok j" and new: "hm_get j l = None"
    using Cons.prems by (auto simp: hm_ok_def hm_keys_def hm_get_def p map_of_eq_None_iff)
  show ?case
    using Cons.IH [OF ok, of "insert_json p m"] new by (auto simp: p hm_get_def split: option.split) (simp_all flip: hm_get_def)
qed simp

lemma metadata_to_json_get [simp]: "hm_get (metadata_to_json m) k = map_option json_of_value (hm_get m k)"
  by (induction m) (auto simp: metadata_to_json_def hm_get_def)

lemma metadata_to_json_ok [simp]: "hm_ok (metadata_to_json m) = hm_ok m"
  by (simp add: metadata_to_json_def hm_ok_def hm_keys_def comp_def case_prod_beta)



end
