(* ===== verification/Services.thy ===== *)
theory Services
  imports Server Json
begin

text \<open>
  The services on vectors, \<^verbatim>\<open>src/src/services/vector.rs\<close> and
  \<^verbatim>\<open>search.rs\<close>, with the request and response types of
  \<^verbatim>\<open>src/src/server/types/\<close>: one definition per handler, its guards in the order of the
  code. Logging is left out, and with it the request id and the slow query threshold.
\<close>

section \<open>Requests and responses\<close>

record insert_request =
  ir_vector :: "f32 list option"
  ir_vectors :: "f32 list list option"
  ir_text :: "string option"
  ir_texts :: "string list option"
  ir_metadata :: json_map
  ir_metadata_list :: "json_map list"
  ir_normalize :: bool

datatype insert_results =
    InsertedOne string "f32 option"
  | InsertedMany "string list" nat "f32 option"

record vector_response =
  vr_id :: string
  vr_vector :: "f32 list"
  vr_text :: string
  vr_metadata :: json_map

record list_query =
  lq_limit :: nat
  lq_offset :: nat

definition default_list_query :: list_query where
  "default_list_query = \<lparr>lq_limit = 100, lq_offset = 0\<rparr>"

datatype delete_results =
    DeletedOne bool "f32 option"
  | DeletedMany nat "f32 option"

record overrides =
  o_metric :: "string option"
  o_ef :: "nat option"
  o_nprobe :: "nat option"
  o_overfetch :: "nat option"
  o_preset :: "string option"

record search_request = overrides +
  sr_vector :: "f32 list option"
  sr_vectors :: "f32 list list option"
  sr_k :: nat

record range_request = overrides +
  rr_vector :: "f32 list"
  rr_min_score :: f32
  rr_k :: nat

definition default_k :: nat where
  "default_k = 10"

record hit_response =
  hr_id :: string
  hr_score :: f32
  hr_text :: string
  hr_metadata :: json_map

record search_response =
  results :: "hit_response list"
  search_latency_ms :: "f32 option"

datatype search_results =
    FoundOne search_response
  | FoundMany "hit_response list list" "f32 option"

record upsert_request =
  ur_id :: "string option"
  ur_vector :: "f32 list"
  ur_text :: string
  ur_metadata :: json_map
  ur_normalize :: bool

record upsert_response =
  up_id :: string
  up_created :: bool
  up_latency_ms :: "f32 option"

section \<open>Pieces\<close>

definition max_batch_size :: nat where
  "max_batch_size = 10000"

definition invalid :: "string \<Rightarrow> 'a outcome" where
  "invalid t = fail (Server (InvalidRequest [Txt t]))"

definition ensure_available :: "('b, unit) service" where
  "ensure_available = (\<lambda>s.
     if shutting_down s then unavailable ''Server is shutting down'' s else (Inr (), s))"

definition valid_name :: "'b host \<Rightarrow> string \<Rightarrow> unit outcome" where
  "valid_name H n = validate_collection_name (alphanumeric H) 95 45 (chars_of H) n"

definition parse_id :: "'b host \<Rightarrow> string \<Rightarrow> uuid outcome" where
  "parse_id H t = (case parse_uuid H t of None \<Rightarrow> invalid ''Invalid UUID'' | Some x \<Rightarrow> Inr x)"

definition required :: "string \<Rightarrow> 'a option \<Rightarrow> 'a outcome" where
  "required t x = (case x of None \<Rightarrow> invalid t | Some y \<Rightarrow> Inr y)"

text \<open>\<^verbatim>\<open>Document::with_metadata\<close> draws the id.\<close>

definition document_with_metadata ::
  "'b host \<Rightarrow> f32 list \<Rightarrow> string \<Rightarrow> metadata \<Rightarrow> ('b, document) service" where
  "document_with_metadata H v t m =
     op_then (draw_uuid H) (\<lambda>x.
     op_return \<lparr>doc_id = x, doc_vector = v, doc_text = t, doc_metadata = m\<rparr>)"

text \<open>What \<^verbatim>\<open>build_single_entry\<close> and \<^verbatim>\<open>build_batch_entries\<close> check, then the
  documents they build.\<close>

definition single_parts :: "insert_request \<Rightarrow> (f32 list \<times> string \<times> metadata) outcome" where
  "single_parts r =
     and_then (required ''text is required for single insert'' (ir_text r)) (\<lambda>t.
     and_then (validate_text t) (\<lambda>_.
     and_then (required ''vector is required for single insert'' (ir_vector r)) (\<lambda>v.
     and_then (validate_vector v) (\<lambda>_.
     Inr (if ir_normalize r then normalize_vector v else v, t, json_to_metadata (ir_metadata r))))))"

definition build_single_entry :: "'b host \<Rightarrow> insert_request \<Rightarrow> ('b, document) service" where
  "build_single_entry H r =
     op_then (give (single_parts r)) (\<lambda>(v, t, m). document_with_metadata H v t m)"

definition batch_parts :: "insert_request \<Rightarrow> (f32 list \<times> string \<times> metadata) list outcome" where
  "batch_parts r =
     and_then (required ''vectors are required for batch insert'' (ir_vectors r)) (\<lambda>vs.
     and_then (required ''texts are required for batch insert'' (ir_texts r)) (\<lambda>ts.
     and_then (validate_batch_size (length vs) max_batch_size ''Insert'') (\<lambda>_.
     and_then (if length vs \<noteq> length ts then invalid ''vectors and texts length mismatch'' else Inr ()) (\<lambda>_.
     and_then (validate_vectors vs) (\<lambda>_.
     and_then (fold_results (\<lambda>t _. validate_text t) ts ()) (\<lambda>_.
     Inr (map (\<lambda>i.
         (if ir_normalize r then normalize_vector (vs ! i) else vs ! i, ts ! i,
          if i < length (ir_metadata_list r) then json_to_metadata (ir_metadata_list r ! i) else json_to_metadata []))
       [0..<length vs])))))))"

fun build_documents :: "'b host \<Rightarrow> (f32 list \<times> string \<times> metadata) list \<Rightarrow> ('b, document list) service" where
  "build_documents H [] = op_return []"
| "build_documents H ((v, t, m) # ps) =
     op_then (document_with_metadata H v t m) (\<lambda>d.
     op_then (build_documents H ps) (\<lambda>ds.
     op_return (d # ds)))"

definition build_batch_entries :: "'b host \<Rightarrow> insert_request \<Rightarrow> ('b, document list) service" where
  "build_batch_entries H r = op_then (give (batch_parts r)) (build_documents H)"

section \<open>Inserting\<close>

text \<open>Under the write lock; the budget is enforced before the guard is dropped.\<close>

definition finish_insert :: "'b host \<Rightarrow> string \<Rightarrow> (nat \<Rightarrow> insert_results) \<Rightarrow> ('b, insert_results) service" where
  "finish_insert H n answer =
     op_then (lap H) (\<lambda>ns.
     op_then (track n (record_insert (micros ns))) (\<lambda>_.
     op_then (enforce_cache_budget H) (\<lambda>_.
     op_return (answer ns))))"

definition insert_single :: "'b host \<Rightarrow> string \<Rightarrow> insert_request \<Rightarrow> ('b, insert_results) service" where
  "insert_single H n r =
     op_then (build_single_entry H r) (\<lambda>d.
     op_then (on_collection n (insert_document (base H) d)) (\<lambda>x.
     finish_insert H n (\<lambda>ns. InsertedOne (show_uuid H x) (latency_ms ns))))"

definition insert_many :: "'b host \<Rightarrow> string \<Rightarrow> insert_request \<Rightarrow> ('b, insert_results) service" where
  "insert_many H n r =
     op_then (build_batch_entries H r) (\<lambda>ds.
     op_then (on_collection n (insert_batch (base H) ds)) (\<lambda>xs.
     finish_insert H n (\<lambda>ns. InsertedMany (map (show_uuid H) xs)
       (case ir_texts r of Some ts \<Rightarrow> length ts | None \<Rightarrow> 0) (latency_ms ns))))"

definition insert_locked :: "'b host \<Rightarrow> string \<Rightarrow> insert_request \<Rightarrow> ('b, insert_results) service" where
  "insert_locked H n r =
     (case (ir_vector r, ir_vectors r) of
        (Some _, None) \<Rightarrow> insert_single H n r
      | (None, Some _) \<Rightarrow> insert_many H n r
      | (Some _, Some _) \<Rightarrow> give (invalid ''Provide either vector or vectors, not both'')
      | (None, None) \<Rightarrow> give (invalid ''No vectors provided''))"

definition insert_vector :: "'b host \<Rightarrow> string \<Rightarrow> insert_request \<Rightarrow> ('b, insert_results) service" where
  "insert_vector H n r =
     op_then ensure_available (\<lambda>_.
     op_then (ensure_write_allowed H) (\<lambda>_.
     op_then (give (valid_name H n)) (\<lambda>_.
     op_then (get_or_create_collection H n) (\<lambda>_.
     write_locked H n (insert_locked H n r)))))"

section \<open>Reading\<close>

definition vector_response_of :: "'b host \<Rightarrow> document \<Rightarrow> vector_response outcome" where
  "vector_response_of H d =
     and_then (try_get_vector d) (\<lambda>v.
     Inr \<lparr>vr_id = show_uuid H (doc_id d), vr_vector = v, vr_text = doc_text d,
          vr_metadata = metadata_to_json (doc_metadata d)\<rparr>)"

definition get_vector_service :: "'b host \<Rightarrow> string \<Rightarrow> string \<Rightarrow> ('b, vector_response) service" where
  "get_vector_service H n t =
     op_then ensure_available (\<lambda>_.
     op_then (get_existing_collection H n) (\<lambda>_.
     op_then (give (parse_id H t)) (\<lambda>x.
     read_locked H n
       (op_then (view n (get (base H) x)) (\<lambda>r.
        give (case r of
            None \<Rightarrow> fail (Server (NotFound [Txt ''Vector not found'']))
          | Some d \<Rightarrow> vector_response_of H d))))))"

definition list_vectors :: "'b host \<Rightarrow> string \<Rightarrow> list_query \<Rightarrow> ('b, vector_response list) service" where
  "list_vectors H n q =
     op_then ensure_available (\<lambda>_.
     op_then (get_existing_collection H n) (\<lambda>_.
     read_locked H n
       (view n (\<lambda>c.
        and_then (get_all (base H) c) (\<lambda>ds.
        collect_results (vector_response_of H) (take (lq_limit q) (drop (lq_offset q) ds)))))))"

section \<open>Deleting\<close>

definition finish_delete :: "'b host \<Rightarrow> string \<Rightarrow> (nat \<Rightarrow> delete_results) \<Rightarrow> ('b, delete_results) service" where
  "finish_delete H n answer =
     op_then (lap H) (\<lambda>ns.
     op_then (track n (record_delete (micros ns))) (\<lambda>_.
     op_return (answer ns)))"

definition delete_vector :: "'b host \<Rightarrow> string \<Rightarrow> string \<Rightarrow> ('b, delete_results) service" where
  "delete_vector H n t =
     op_then ensure_available (\<lambda>_.
     op_then (ensure_write_allowed H) (\<lambda>_.
     op_then (get_existing_collection H n) (\<lambda>_.
     op_then (give (parse_id H t)) (\<lambda>x.
     write_locked H n
       (op_then (on_collection n (delete_document (base H) x)) (\<lambda>deleted.
        finish_delete H n (\<lambda>ns. DeletedOne deleted (latency_ms ns))))))))"

definition delete_vectors :: "'b host \<Rightarrow> string \<Rightarrow> string list \<Rightarrow> ('b, delete_results) service" where
  "delete_vectors H n ts =
     op_then ensure_available (\<lambda>_.
     op_then (ensure_write_allowed H) (\<lambda>_.
     op_then (give (valid_name H n)) (\<lambda>_.
     op_then (give (validate_batch_size (length ts) max_batch_size ''Delete'')) (\<lambda>_.
     op_then (get_existing_collection H n) (\<lambda>_.
     op_then (give (collect_results (\<lambda>t. case parse_uuid H t of
         None \<Rightarrow> invalid (''Invalid UUID: '' @ t) | Some x \<Rightarrow> Inr x) ts)) (\<lambda>xs.
     write_locked H n
       (op_then (on_collection n (delete_batch (base H) xs)) (\<lambda>count.
        finish_delete H n (\<lambda>ns. DeletedMany count (latency_ms ns))))))))))"

section \<open>Searching\<close>

definition quoted :: "string \<Rightarrow> string" where
  "quoted t = CHR 0x27 # t @ [CHR 0x27]"

definition parse_metric :: "string option \<Rightarrow> metric outcome" where
  "parse_metric m =
     (case m of
        None \<Rightarrow> Inr Cosine
      | Some t \<Rightarrow>
          if t = ''cosine'' then Inr Cosine
          else if t = ''euclidean'' then Inr Euclidean
          else if t = ''dot'' \<or> t = ''dot_product'' then Inr DotProduct
          else fail (Server (InvalidRequest [Txt (''Unknown metric '' @ quoted t @ ''. Expected cosine, euclidean, dot, or dot_product'')])))"

definition apply_preset :: "'b host \<Rightarrow> string option \<Rightarrow> search_config \<Rightarrow> search_config outcome" where
  "apply_preset H preset cfg =
     (case preset of
        None \<Rightarrow> Inr cfg
      | Some p \<Rightarrow>
          if lowercase H p = ''fast'' then Inr (cfg\<lparr>ef := Some 50, nprobe := Some 1\<rparr>)
          else if lowercase H p = ''high'' then Inr (cfg\<lparr>ef := Some 400, nprobe := Some 20\<rparr>)
          else fail (Server (InvalidRequest [Txt (''Unknown search preset '' @ quoted (lowercase H p) @ ''. Expected fast or high'')])))"

definition apply_search_overrides ::
  "'b host \<Rightarrow> search_config \<Rightarrow> 'o overrides_scheme \<Rightarrow> search_config outcome" where
  "apply_search_overrides H cfg r =
     and_then (apply_preset H (o_preset r) cfg) (\<lambda>c.
     Inr (let c1 = (case o_ef r of Some n \<Rightarrow> c\<lparr>ef := Some n\<rparr> | None \<Rightarrow> c);
              c2 = (case o_nprobe r of Some n \<Rightarrow> c1\<lparr>nprobe := Some n\<rparr> | None \<Rightarrow> c1)
          in (case o_overfetch r of Some n \<Rightarrow> c2\<lparr>filter_overfetch := max n 1\<rparr> | None \<Rightarrow> c2)))"

definition hit_to_response :: "'b host \<Rightarrow> hit \<Rightarrow> hit_response" where
  "hit_to_response H h =
     \<lparr>hr_id = show_uuid H (hit_id h), hr_score = hit_score h, hr_text = hit_text h,
      hr_metadata = metadata_to_json (hit_metadata h)\<rparr>"

definition request_params ::
  "'b collection \<Rightarrow> 'o overrides_scheme \<Rightarrow> search_config \<Rightarrow> search_params" where
  "request_params c r cfg =
     \<lparr>sp_mode = cc_execution (c_config c), sp_filter = None, sp_overfetch = o_overfetch r, sp_config = Some cfg\<rparr>"

text \<open>The metric and the search settings of a request.\<close>

definition search_settings ::
  "'b host \<Rightarrow> string \<Rightarrow> 'o overrides_scheme \<Rightarrow> ('b, metric \<times> search_config) service" where
  "search_settings H n r =
     op_then (give (parse_metric (o_metric r))) (\<lambda>metric.
     op_then (view n (\<lambda>c. apply_search_overrides H (cc_search (c_config c)) r)) (\<lambda>cfg.
     op_return (metric, cfg)))"

text \<open>Runs a search, and records how long it took.\<close>

definition timed_search :: "'b host \<Rightarrow> string \<Rightarrow> ('b collection \<Rightarrow> 'a outcome) \<Rightarrow> ('b, 'a \<times> f32 option) service" where
  "timed_search H n f =
     op_then (view n f) (\<lambda>hits.
     op_then (lap H) (\<lambda>ns.
     op_then (track n (record_search (micros ns))) (\<lambda>_.
     op_return (hits, latency_ms ns))))"

definition search_one_vector ::
  "'b host \<Rightarrow> string \<Rightarrow> f32 list \<Rightarrow> nat \<Rightarrow> metric \<Rightarrow> search_config \<Rightarrow> 'o overrides_scheme
    \<Rightarrow> ('b, hit list \<times> f32 option) service" where
  "search_one_vector H n q k metric cfg r =
     timed_search H n (\<lambda>c. collection_search (base H) q k metric (request_params c r cfg) c)"

definition search_vectors :: "'b host \<Rightarrow> string \<Rightarrow> search_request \<Rightarrow> ('b, search_results) service" where
  "search_vectors H n r =
     op_then ensure_available (\<lambda>_.
     op_then (give (valid_name H n)) (\<lambda>_.
     op_then (get_existing_collection H n) (\<lambda>_.
     read_locked H n
       (op_then (search_settings H n r) (\<lambda>(metric, cfg).
        case (sr_vector r, sr_vectors r) of
          (Some q, None) \<Rightarrow>
            op_then (give (validate_vector q)) (\<lambda>_.
            op_then (search_one_vector H n q (sr_k r) metric cfg r) (\<lambda>(hits, ms).
            op_return (FoundOne \<lparr>results = map (hit_to_response H) hits, search_latency_ms = ms\<rparr>)))
        | (None, Some qs) \<Rightarrow>
            op_then (give (validate_batch_size (length qs) max_batch_size ''Search'')) (\<lambda>_.
            op_then (give (validate_vectors qs)) (\<lambda>_.
            op_then (timed_search H n (\<lambda>c.
              search_batch_collection (base H) (pick_fault H) qs (sr_k r) metric (request_params c r cfg) c)) (\<lambda>(hits, ms).
            op_return (FoundMany (map (map (hit_to_response H)) hits) ms))))
        | (Some _, Some _) \<Rightarrow> give (invalid ''Provide either vector or vectors, not both'')
        | (None, None) \<Rightarrow> give (invalid ''No search vector(s) provided''))))))"

definition range_search_vectors :: "'b host \<Rightarrow> string \<Rightarrow> range_request \<Rightarrow> ('b, search_response) service" where
  "range_search_vectors H n r =
     op_then ensure_available (\<lambda>_.
     op_then (give (valid_name H n)) (\<lambda>_.
     op_then (give (validate_vector (rr_vector r))) (\<lambda>_.
     op_then (get_existing_collection H n) (\<lambda>_.
     read_locked H n
       (op_then (search_settings H n r) (\<lambda>(metric, cfg).
        op_then (search_one_vector H n (rr_vector r) (rr_k r) metric cfg r) (\<lambda>(hits, ms).
        op_return \<lparr>results = map (hit_to_response H) (filter (\<lambda>h. fl_ge (hit_score h) (rr_min_score r)) hits),
          search_latency_ms = ms\<rparr>)))))))"

section \<open>Upserting\<close>

definition chosen_id :: "'b host \<Rightarrow> string option \<Rightarrow> ('b, uuid) service" where
  "chosen_id H t = (case t of None \<Rightarrow> draw_uuid H | Some t \<Rightarrow> give (parse_id H t))"

definition finish_upsert :: "'b host \<Rightarrow> string \<Rightarrow> uuid \<Rightarrow> bool \<Rightarrow> ('b, upsert_response) service" where
  "finish_upsert H n x exists =
     op_then (lap H) (\<lambda>ns.
     op_then (track n (if exists then record_update (micros ns) else record_insert (micros ns))) (\<lambda>_.
     op_then (enforce_cache_budget H) (\<lambda>_.
     op_return \<lparr>up_id = show_uuid H x, up_created = (\<not> exists), up_latency_ms = latency_ms ns\<rparr>)))"

definition upsert_locked :: "'b host \<Rightarrow> string \<Rightarrow> upsert_request \<Rightarrow> ('b, upsert_response) service" where
  "upsert_locked H n r =
     op_then (chosen_id H (ur_id r)) (\<lambda>x.
     op_then (view n (\<lambda>c. and_then (get (base H) x c) (\<lambda>d. Inr (d \<noteq> None)))) (\<lambda>exists.
     op_then (document_with_metadata H
       (if ur_normalize r then normalize_vector (ur_vector r) else ur_vector r) (ur_text r)
       (json_to_metadata (ur_metadata r))) (\<lambda>d.
     op_then (on_collection n (upsert (base H) (d\<lparr>doc_id := x\<rparr>))) (\<lambda>_.
     finish_upsert H n x exists))))"

definition upsert_vector :: "'b host \<Rightarrow> string \<Rightarrow> upsert_request \<Rightarrow> ('b, upsert_response) service" where
  "upsert_vector H n r =
     op_then ensure_available (\<lambda>_.
     op_then (ensure_write_allowed H) (\<lambda>_.
     op_then (give (valid_name H n)) (\<lambda>_.
     op_then (give (validate_text (ur_text r))) (\<lambda>_.
     op_then (give (validate_vector (ur_vector r))) (\<lambda>_.
     op_then (get_or_create_collection H n) (\<lambda>_.
     write_locked H n (upsert_locked H n r)))))))"

end
