(* ===== verification/Services_Collections.thy ===== *)
theory Services_Collections
  imports Services
begin

text \<open>
  The services on collections, \<^verbatim>\<open>src/src/services/collection.rs\<close>, the embedding services,
  \<^verbatim>\<open>embedding.rs\<close>, and administration, \<^verbatim>\<open>admin.rs\<close>. A rebuild of an index is
  a task queued behind the response; running it is an operation of its own. A task whose collection
  has been deleted in the meantime works on a handle nobody else has: it is not modelled, it drops.
\<close>

section \<open>Collections\<close>

record collection_info =
  ci_name :: string
  ci_count :: nat
  ci_created_at :: nat
  ci_updated_at :: nat
  ci_dimensions :: "nat option"

definition collection_info_of :: "string \<Rightarrow> 'b collection \<Rightarrow> collection_info" where
  "collection_info_of n c =
     \<lparr>ci_name = n, ci_count = collection_count c, ci_created_at = created_at (c_meta c),
      ci_updated_at = updated_at (c_meta c), ci_dimensions = cm_dimensions (c_meta c)\<rparr>"

fun each_collection :: "'b host \<Rightarrow> (string \<Rightarrow> 'b collection \<Rightarrow> 'a) \<Rightarrow> string list \<Rightarrow> ('b, 'a list) service" where
  "each_collection H f [] = op_return []"
| "each_collection H f (n # ns) =
     op_then (read_locked H n (view n (\<lambda>c. Inr (f n c)))) (\<lambda>x.
     op_then (each_collection H f ns) (\<lambda>xs.
     op_return (x # xs)))"

definition list_collections :: "'b host \<Rightarrow> ('b, collection_info list) service" where
  "list_collections H =
     op_then ensure_available (\<lambda>_. \<lambda>s. each_collection H collection_info_of (loaded_names H s) s)"

definition create_collection :: "'b host \<Rightarrow> string \<Rightarrow> ('b, collection_info) service" where
  "create_collection H n =
     op_then ensure_available (\<lambda>_.
     op_then (give (valid_name H n)) (\<lambda>_.
     op_then (get_or_create_collection H n) (\<lambda>_.
     read_locked H n (view n (\<lambda>c. Inr (collection_info_of n c))))))"

text \<open>A read of an existing collection, as several services do.\<close>

definition read_collection :: "'b host \<Rightarrow> string \<Rightarrow> ('b collection \<Rightarrow> 'a outcome) \<Rightarrow> ('b, 'a) service" where
  "read_collection H n f =
     op_then ensure_available (\<lambda>_.
     op_then (get_existing_collection H n) (\<lambda>_.
     read_locked H n (view n f)))"

definition get_collection :: "'b host \<Rightarrow> string \<Rightarrow> ('b, collection_info) service" where
  "get_collection H n = read_collection H n (\<lambda>c. Inr (collection_info_of n c))"

definition count_collection :: "'b host \<Rightarrow> string \<Rightarrow> ('b, nat) service" where
  "count_collection H n = read_collection H n (\<lambda>c. Inr (collection_count c))"

definition index_stats_service :: "'b host \<Rightarrow> string \<Rightarrow> ('b, index_stats) service" where
  "index_stats_service H n = read_collection H n (\<lambda>c. Inr (index_stats_of (base H) (c_vindex c)))"

text \<open>All the files of the collection go, and a rebuild still queued for it.\<close>

definition remove_files :: "string \<Rightarrow> ('b, unit) service" where
  "remove_files n = op_modify (\<lambda>s. s\<lparr>disks := hm_remove n (disks s),
     rebuild_tasks := filter (\<lambda>t. fst t \<noteq> n) (rebuild_tasks s)\<rparr>)"

definition delete_collection :: "'b host \<Rightarrow> string \<Rightarrow> ('b, bool) service" where
  "delete_collection H n =
     op_then ensure_available (\<lambda>_.
     op_then (remove_collection n) (\<lambda>existed.
     op_then (if existed then remove_files n else op_return ()) (\<lambda>_.
     op_return existed)))"

section \<open>Maintenance\<close>

definition set_job :: "string \<Rightarrow> rebuild_job \<Rightarrow> ('b, unit) service" where
  "set_job n j = op_modify (\<lambda>s. s\<lparr>rebuild_jobs := hm_insert n j (rebuild_jobs s)\<rparr>)"

definition rebuild_index_service :: "'b host \<Rightarrow> string \<Rightarrow> ('b, unit) service" where
  "rebuild_index_service H n =
     op_then ensure_available (\<lambda>_.
     op_then (get_existing_collection H n) (\<lambda>_.
     op_then (server_clock H) (\<lambda>now.
     op_then (set_job n \<lparr>job_status = Running, started_at = now, finished_at = None, job_error = None,
       elapsed_ms = None\<rparr>) (\<lambda>_.
     op_modify (\<lambda>s. s\<lparr>rebuild_tasks := rebuild_tasks s @ [(n, now)]\<rparr>)))))"

definition finished_job :: "nat \<Rightarrow> nat \<Rightarrow> nat \<Rightarrow> fault + unit \<Rightarrow> rebuild_job" where
  "finished_job start finish ns r =
     \<lparr>job_status = (case r of Inl _ \<Rightarrow> Failed_rebuild | Inr _ \<Rightarrow> Completed), started_at = start,
      finished_at = Some finish,
      job_error = (case r of Inl (Failed e) \<Rightarrow> Some (display e) | _ \<Rightarrow> None),
      elapsed_ms = Some (millis ns)\<rparr>"

text \<open>The task: a panic ends it without a word, so the job stays as it is.\<close>

definition attempt :: "('b, 'a) collection_op \<Rightarrow> ('b, fault + 'a) collection_op" where
  "attempt m = (\<lambda>c. case m c of
       (Inl Panicked, c') \<Rightarrow> (Inl Panicked, c')
     | (r, c') \<Rightarrow> (Inr r, c'))"

definition run_rebuild_task :: "'b host \<Rightarrow> string \<Rightarrow> nat \<Rightarrow> ('b, unit) service" where
  "run_rebuild_task H n start =
     op_then (acquire n) (\<lambda>_.
     op_then (on_collection n (attempt (rebuild_index (base H)))) (\<lambda>r.
     op_then (server_clock H) (\<lambda>finish.
     op_then (lap H) (\<lambda>ns.
     set_job n (finished_job start finish ns r)))))"

text \<open>The runtime takes the first task off the queue and runs it.\<close>

definition next_task :: "'b host \<Rightarrow> ('b, unit) service" where
  "next_task H = (\<lambda>s.
     case rebuild_tasks s of
       [] \<Rightarrow> (Inr (), s)
     | (n, start) # rest \<Rightarrow> run_rebuild_task H n start (s\<lparr>rebuild_tasks := rest\<rparr>))"

definition rebuild_index_status :: "string \<Rightarrow> ('b, rebuild_job) service" where
  "rebuild_index_status n =
     op_then ensure_available (\<lambda>_. \<lambda>s.
     case hm_get (rebuild_jobs s) n of
       None \<Rightarrow> reject (NotFound [Txt ''No rebuild job found for this collection'']) s
     | Some j \<Rightarrow> (Inr j, s))"

definition compact_collection :: "'b host \<Rightarrow> string \<Rightarrow> ('b, f32 option) service" where
  "compact_collection H n =
     op_then ensure_available (\<lambda>_.
     op_then (get_existing_collection H n) (\<lambda>_.
     op_then (acquire n) (\<lambda>_.
     op_then (on_collection n (compact (base H))) (\<lambda>_.
     op_then (lap H) (\<lambda>ns.
     op_return (latency_ms ns))))))"

record duplicate_request =
  dr_metric :: "string option"
  dr_threshold :: f32
  dr_limit :: "nat option"
  dr_k :: "nat option"
  dr_ef :: "nat option"
  dr_nprobe :: "nat option"

definition default_dup_threshold :: f32 where
  "default_dup_threshold = f32_lit 95 100"

record duplicate_pair =
  pair_a :: string
  pair_b :: string
  pair_score :: f32

definition find_duplicates_service :: "'b host \<Rightarrow> string \<Rightarrow> duplicate_request \<Rightarrow> ('b, duplicate_pair list) service" where
  "find_duplicates_service H n r =
     op_then ensure_available (\<lambda>_.
     op_then (get_existing_collection H n) (\<lambda>_.
     read_locked H n
       (op_then (give (parse_metric (dr_metric r))) (\<lambda>metric.
        op_then (view n (\<lambda>c. find_duplicates (base H) c metric (dr_threshold r) (dr_limit r) (dr_k r) (dr_ef r) (dr_nprobe r))) (\<lambda>hits.
        op_return (map (\<lambda>h. \<lparr>pair_a = show_uuid H (id_a h), pair_b = show_uuid H (id_b h), pair_score = dup_score h\<rparr>) hits))))))"

section \<open>Embedding\<close>

record embed_request =
  er_text :: "string option"
  er_texts :: "string list option"
  er_metadata :: json_map
  er_metadata_list :: "json_map list"

datatype embed_results =
    EmbeddedOne string "f32 list" "nat option"
  | EmbeddedMany "string list" "f32 list list" "nat option"

text \<open>The provider is called before the lock is taken.\<close>

definition call_embedder :: "'b host \<Rightarrow> string \<Rightarrow> ('b, embedding_response) service" where
  "call_embedder H t = (\<lambda>s.
     case embed_call H of
       None \<Rightarrow> unavailable ''Embedding service not configured'' s
     | Some f \<Rightarrow> (lift (case f (embed_calls s) t of Inl e \<Rightarrow> fail (Embedding e) | Inr r \<Rightarrow> Inr r),
         s\<lparr>embed_calls := embed_calls s + 1\<rparr>))"

definition embedder_configured :: "'b host \<Rightarrow> ('b, unit) service" where
  "embedder_configured H =
     (case embed_call H of None \<Rightarrow> unavailable ''Embedding service not configured'' | Some _ \<Rightarrow> op_return ())"

definition record_embed :: "nat \<Rightarrow> nat \<Rightarrow> nat \<Rightarrow> ('b, unit) service" where
  "record_embed texts toks ns = op_modify (\<lambda>s. s\<lparr>embed_metrics_of := record_embedding 1 texts toks ns (embed_metrics_of s)\<rparr>)"

definition token_count :: "embedding_response \<Rightarrow> nat" where
  "token_count r = (case tokens r of None \<Rightarrow> 0 | Some n \<Rightarrow> n)"

definition embed_one :: "'b host \<Rightarrow> string \<Rightarrow> embed_request \<Rightarrow> string \<Rightarrow> ('b, embed_results) service" where
  "embed_one H n r t =
     op_then (call_embedder H t) (\<lambda>e.
     op_then (lap H) (\<lambda>ns.
     write_locked H n
       (op_then (document_with_metadata H (embedding e) t (json_to_metadata (er_metadata r))) (\<lambda>d.
        op_then (on_collection n (insert_document (base H) d)) (\<lambda>x.
        op_then (enforce_cache_budget H) (\<lambda>_.
        op_then (record_embed 1 (token_count e) ns) (\<lambda>_.
        op_return (EmbeddedOne (show_uuid H x) (embedding e) (tokens e)))))))))"

text \<open>The \<^verbatim>\<open>u32\<close> token total saturates.\<close>

definition add_tokens :: "nat \<Rightarrow> nat \<Rightarrow> nat" where
  "add_tokens a b = min (a + b) (2 ^ 32 - 1)"

fun embed_all :: "'b host \<Rightarrow> json_map list \<Rightarrow> nat \<Rightarrow> nat \<Rightarrow> string list \<Rightarrow> ('b, document list \<times> nat) service" where
  "embed_all H ms i toks [] = op_return ([], toks)"
| "embed_all H ms i toks (t # ts) =
     op_then (call_embedder H t) (\<lambda>e.
     op_then (document_with_metadata H (embedding e) t (json_to_metadata (if i < length ms then ms ! i else []))) (\<lambda>d.
     op_then (embed_all H ms (i + 1) (case tokens e of None \<Rightarrow> toks | Some k \<Rightarrow> add_tokens toks k) ts) (\<lambda>(ds, sum).
     op_return (d # ds, sum))))"

definition embed_many :: "'b host \<Rightarrow> string \<Rightarrow> embed_request \<Rightarrow> string list \<Rightarrow> ('b, embed_results) service" where
  "embed_many H n r ts =
     op_then (give (if ts = [] then invalid ''texts cannot be empty'' else Inr ())) (\<lambda>_.
     op_then (embed_all H (er_metadata_list r) 0 0 ts) (\<lambda>(ds, toks).
     write_locked H n
       (op_then (on_collection n (insert_batch (base H) ds)) (\<lambda>xs.
        op_then (enforce_cache_budget H) (\<lambda>_.
        op_then (lap H) (\<lambda>ns.
        op_then (record_embed (length xs) toks ns) (\<lambda>_.
        op_return (EmbeddedMany (map (show_uuid H) xs) (map doc_vector ds)
          (if toks > 0 then Some toks else None)))))))))"

definition embed_text :: "'b host \<Rightarrow> string \<Rightarrow> embed_request \<Rightarrow> ('b, embed_results) service" where
  "embed_text H n r =
     op_then ensure_available (\<lambda>_.
     op_then (ensure_write_allowed H) (\<lambda>_.
     op_then (get_or_create_collection H n) (\<lambda>_.
     op_then (embedder_configured H) (\<lambda>_.
     case (er_text r, er_texts r) of
       (Some t, None) \<Rightarrow> embed_one H n r t
     | (None, Some ts) \<Rightarrow> embed_many H n r ts
     | (Some _, Some _) \<Rightarrow> give (invalid ''Provide either text or texts, not both'')
     | (None, None) \<Rightarrow> give (invalid ''No text provided'')))))"

record text_search_request = overrides +
  ts_query :: string
  ts_k :: nat

definition search_by_text :: "'b host \<Rightarrow> string \<Rightarrow> text_search_request \<Rightarrow> ('b, search_response) service" where
  "search_by_text H n r =
     op_then ensure_available (\<lambda>_.
     op_then (get_existing_collection H n) (\<lambda>_.
     op_then (embedder_configured H) (\<lambda>_.
     op_then (call_embedder H (ts_query r)) (\<lambda>e.
     op_then (lap H) (\<lambda>ns.
     op_then (record_embed 1 (token_count e) ns) (\<lambda>_.
     op_then (give (parse_metric (o_metric r))) (\<lambda>metric.
     op_then (acquire n) (\<lambda>_.
     op_then (view n (\<lambda>c. apply_search_overrides H (cc_search (c_config c)) r)) (\<lambda>cfg.
     read_locked H n
       (op_then (search_one_vector H n (embedding e) (ts_k r) metric cfg r) (\<lambda>(hits, ms).
        op_return \<lparr>results = map (hit_to_response H) hits, search_latency_ms = ms\<rparr>)))))))))))"

section \<open>Administration\<close>

definition embeddings_available :: "'b host \<Rightarrow> bool" where
  "embeddings_available H = (embed_call H \<noteq> None)"

definition config_status :: "('b, app_config \<times> nat) service" where
  "config_status = op_then ensure_available (\<lambda>_. \<lambda>s. (Inr (app_conf s, config_last_reload s), s))"

definition reload_config_service :: "'b host \<Rightarrow> ('b, app_config \<times> nat) service" where
  "reload_config_service H =
     op_then ensure_available (\<lambda>_.
     op_then (reload_config H) (\<lambda>cfg. \<lambda>s.
     (Inr (cfg, config_last_reload s), s)))"

text \<open>
  The figures of one collection with those of its log; the estimate of its memory is left out, since
  it rests on the capacities of hash tables.
\<close>

record collection_metrics =
  mt_name :: string
  mt_count :: nat
  mt_index_type :: index_type
  mt_latencies :: "f32 option \<times> f32 option \<times> f32 option \<times> f32 option"
  mt_overfetch :: nat
  mt_ef_search :: "nat option"
  mt_nprobe :: "nat option"
  mt_last_checkpoint :: "nat option"
  mt_checkpoint_age :: "nat option"
  mt_wal_size :: "nat option"

text \<open>Against the clock, and nothing if the clock is behind.\<close>

definition checkpoint_age :: "'b host \<Rightarrow> 'b collection \<Rightarrow> ('b, nat option) service" where
  "checkpoint_age H c =
     (case last_checkpoint_ts (c_checkpoint c) of
        None \<Rightarrow> op_return None
      | Some t \<Rightarrow> op_then (server_clock H) (\<lambda>now. op_return (if t \<le> now then Some (now - t) else None)))"

text \<open>What a handler answers from a collection and the age of its checkpoint.\<close>

definition with_age ::
  "'b host \<Rightarrow> string \<Rightarrow> ('b collection \<Rightarrow> nat option \<Rightarrow> 'a) \<Rightarrow> ('b, 'a) service" where
  "with_age H n f =
     op_then (view n Inr) (\<lambda>c.
     op_then (checkpoint_age H c) (\<lambda>age.
     op_return (f c age)))"

text \<open>The log has one line per entry and a newline after each; without a log there is no file.\<close>

definition wal_size :: "'b list list \<Rightarrow> nat option" where
  "wal_size ls = (if ls = [] then None else Some (sum_list (map (\<lambda>l. length l + 1) ls)))"

definition tracker_averages :: "latency_tracker option \<Rightarrow> f32 option \<times> f32 option \<times> f32 option \<times> f32 option" where
  "tracker_averages t =
     (case t of
        None \<Rightarrow> (None, None, None, None)
      | Some t \<Rightarrow> (average_ms (insert_latency t), average_ms (search_latency t),
          average_ms (lock_read_latency t), average_ms (lock_write_latency t)))"

fun configured_ef :: "index_config \<Rightarrow> nat option" where
  "configured_ef (HnswIndex m m_max ef_c ef_s ml metric mode search) = Some ef_s"
| "configured_ef _ = None"

fun configured_nprobe :: "index_config \<Rightarrow> nat option" where
  "configured_nprobe (IvfIndex clusters n_probe iterations metric mode search) = Some n_probe"
| "configured_nprobe _ = None"

definition metrics_of ::
  "(string, latency_tracker) hmap \<Rightarrow> string \<Rightarrow> 'b collection \<Rightarrow> nat option \<Rightarrow> collection_metrics" where
  "metrics_of ts n c age =
     (let cfg = cc_index (c_config c) in
      \<lparr>mt_name = n, mt_count = collection_count c, mt_index_type = index_type_of (c_vindex c),
       mt_latencies = tracker_averages (hm_get ts n),
       mt_overfetch = filter_overfetch (search_config_of cfg),
       mt_ef_search = configured_ef cfg, mt_nprobe = configured_nprobe cfg,
       mt_last_checkpoint = last_checkpoint_ts (c_checkpoint c), mt_checkpoint_age = age,
       mt_wal_size = wal_size (wal_lines (wal (c_checkpoint c)))\<rparr>)"

fun each_metrics :: "'b host \<Rightarrow> string list \<Rightarrow> ('b, collection_metrics list) service" where
  "each_metrics H [] = op_return []"
| "each_metrics H (n # ns) =
     op_then (read_locked H n (\<lambda>s. with_age H n (metrics_of (trackers s) n) s)) (\<lambda>m.
     op_then (each_metrics H ns) (\<lambda>ms.
     op_return (m # ms)))"

record metrics_response =
  mr_total_collections :: nat
  mr_total_vectors :: nat
  mr_collections :: "collection_metrics list"
  mr_app_config :: app_config
  mr_embedding :: embed_snapshot

definition metrics :: "'b host \<Rightarrow> ('b, metrics_response) service" where
  "metrics H = (\<lambda>s.
     op_then (each_metrics H (loaded_names H s)) (\<lambda>ms. \<lambda>t.
     (Inr \<lparr>mr_total_collections = length (loaded t), mr_total_vectors = sum_list (map mt_count ms),
        mr_collections = ms, mr_app_config = app_conf t, mr_embedding = embed_snapshot_of (embed_metrics_of t)\<rparr>, t)) s)"

section \<open>Readiness\<close>

record collection_health =
  ch_name :: string
  ch_loaded :: bool
  ch_count :: "nat option"
  ch_index_type :: "index_type option"
  ch_last_checkpoint :: "nat option"
  ch_checkpoint_age :: "nat option"
  ch_wal_size :: "nat option"
  ch_schema_version :: "nat option"
  ch_integrity_ok :: bool
  ch_error :: "string option"

text \<open>The files of a collection beside its data file, those that exist, all with extension \<open>db\<close>.\<close>

definition side_files :: "'b disk \<Rightarrow> string list" where
  "side_files d =
     (if saved_index (d_saved d) = None then [] else [''.index.db'']) @
     (if saved_metadata (d_saved d) = None then [] else [''.metadata.db'']) @
     (if saved_vector_index (d_saved d) = None then [] else [''.vecindex.db'']) @
     (if d_wal d = [] then [] else [''.wal.db''])"

definition files_of :: "string \<Rightarrow> 'b disk \<Rightarrow> string list" where
  "files_of n d = (n @ ''.db'') # map (\<lambda>suffix. n @ ''.db'' @ suffix) (side_files d)"

definition db_files :: "'b host \<Rightarrow> 'b server \<Rightarrow> string list" where
  "db_files H s =
     name_order H (concat (map (\<lambda>(n, c). files_of n (disk_of c)) (loaded s))
       @ concat (map (\<lambda>(n, d). files_of n d) (disks s)))"

text \<open>\<^verbatim>\<open>Path::file_stem\<close> of a name that ends in \<open>.db\<close>.\<close>

definition file_stem :: "string \<Rightarrow> string" where
  "file_stem f = take (length f - 3) f"

definition health_of :: "string \<Rightarrow> 'b collection \<Rightarrow> nat option \<Rightarrow> collection_health" where
  "health_of n c age =
     \<lparr>ch_name = n, ch_loaded = True, ch_count = Some (collection_count c),
      ch_index_type = Some (index_type_of (c_vindex c)),
      ch_last_checkpoint = last_checkpoint_ts (c_checkpoint c), ch_checkpoint_age = age,
      ch_wal_size = wal_size (wal_lines (wal (c_checkpoint c))),
      ch_schema_version = Some (schema_version (c_meta c)), ch_integrity_ok = True, ch_error = None\<rparr>"

definition not_loaded :: "string \<Rightarrow> collection_health" where
  "not_loaded n =
     \<lparr>ch_name = n, ch_loaded = False, ch_count = None, ch_index_type = None, ch_last_checkpoint = None,
      ch_checkpoint_age = None, ch_wal_size = None, ch_schema_version = None, ch_integrity_ok = False,
      ch_error = Some ''not loaded''\<rparr>"

fun each_health :: "'b host \<Rightarrow> string list \<Rightarrow> ('b, collection_health list) service" where
  "each_health H [] = op_return []"
| "each_health H (n # ns) =
     op_then (read_locked H n (with_age H n (health_of n))) (\<lambda>h.
     op_then (each_health H ns) (\<lambda>hs.
     op_return (h # hs)))"

record readyz_response =
  rz_ok :: bool
  rz_total_collections :: nat
  rz_loaded_collections :: nat
  rz_total_vectors :: nat
  rz_disk_total :: nat
  rz_disk_available :: nat
  rz_collections :: "collection_health list"

text \<open>The answer, from the health of the loaded collections; the names on disk come from the directory.\<close>

definition readyz_answer :: "'b host \<Rightarrow> collection_health list \<Rightarrow> 'b server \<Rightarrow> nat \<Rightarrow> readyz_response" where
  "readyz_answer H hs s free =
     (let cs = hs @ map not_loaded (filter (\<lambda>n. \<not> hm_contains (loaded s) n) (map file_stem (db_files H s))) in
      \<lparr>rz_ok = list_all (\<lambda>c. ch_integrity_ok c \<and> ch_loaded c) cs, rz_total_collections = length cs,
       rz_loaded_collections = length (loaded s),
       rz_total_vectors = sum_list (map (\<lambda>c. case ch_count c of Some k \<Rightarrow> k | None \<Rightarrow> 0) hs),
       rz_disk_total = disk_total H, rz_disk_available = free, rz_collections = cs\<rparr>)"

definition readyz :: "'b host \<Rightarrow> ('b, readyz_response) service" where
  "readyz H =
     op_then ensure_available (\<lambda>_. \<lambda>s.
     op_then (each_health H (loaded_names H s)) (\<lambda>hs.
     op_then (disk_free_bytes H) (\<lambda>free. \<lambda>t.
     (Inr (readyz_answer H hs t free), t))) s)"

end
