(* ===== verification/Service_Frame.thy ===== *)
theory Service_Frame
  imports Services_Collections
begin

text \<open>
  The requests as one family, and invariants of the server. An invariant says which assignments to
  the shared state it tolerates, and for which collections; the locale \<open>server_invariant\<close> lifts
  that to every request, whatever its outcome.
\<close>

section \<open>Requests\<close>

datatype request =
    InsertVectors string insert_request
  | GetVector string string
  | ListVectors string list_query
  | DeleteVector string string
  | DeleteVectors string "string list"
  | SearchVectors string search_request
  | RangeSearch string range_request
  | UpsertVector string upsert_request
  | ListCollections
  | CreateCollection string
  | GetCollection string
  | CountCollection string
  | IndexStats string
  | DeleteCollection string
  | RebuildIndex string
  | RebuildStatus string
  | RunTask
  | CompactCollection string
  | FindDuplicates string duplicate_request
  | EmbedText string embed_request
  | SearchByText string text_search_request
  | Metrics
  | Readyz
  | ConfigStatus
  | ReloadConfig
  | Shutdown
  | CheckpointAll

definition ignore :: "('b, 'a) service \<Rightarrow> ('b, unit) service" where
  "ignore m = op_then m (\<lambda>_. op_return ())"

fun serve :: "'b host \<Rightarrow> request \<Rightarrow> ('b, unit) service" where
  "serve H (InsertVectors n r) = ignore (insert_vector H n r)"
| "serve H (GetVector n t) = ignore (get_vector_service H n t)"
| "serve H (ListVectors n q) = ignore (list_vectors H n q)"
| "serve H (DeleteVector n t) = ignore (delete_vector H n t)"
| "serve H (DeleteVectors n ts) = ignore (delete_vectors H n ts)"
| "serve H (SearchVectors n r) = ignore (search_vectors H n r)"
| "serve H (RangeSearch n r) = ignore (range_search_vectors H n r)"
| "serve H (UpsertVector n r) = ignore (upsert_vector H n r)"
| "serve H ListCollections = ignore (list_collections H)"
| "serve H (CreateCollection n) = ignore (create_collection H n)"
| "serve H (GetCollection n) = ignore (get_collection H n)"
| "serve H (CountCollection n) = ignore (count_collection H n)"
| "serve H (IndexStats n) = ignore (index_stats_service H n)"
| "serve H (DeleteCollection n) = ignore (delete_collection H n)"
| "serve H (RebuildIndex n) = rebuild_index_service H n"
| "serve H (RebuildStatus n) = ignore (rebuild_index_status n)"
| "serve H RunTask = next_task H"
| "serve H (CompactCollection n) = ignore (compact_collection H n)"
| "serve H (FindDuplicates n r) = ignore (find_duplicates_service H n r)"
| "serve H (EmbedText n r) = ignore (embed_text H n r)"
| "serve H (SearchByText n r) = ignore (search_by_text H n r)"
| "serve H Metrics = ignore (metrics H)"
| "serve H Readyz = ignore (readyz H)"
| "serve H ConfigStatus = ignore config_status"
| "serve H ReloadConfig = ignore (reload_config_service H)"
| "serve H Shutdown = initiate_shutdown"
| "serve H CheckpointAll = checkpoint_all H"

text \<open>The collections a request is about.\<close>

fun touches :: "request \<Rightarrow> 'b server \<Rightarrow> string set" where
  "touches (InsertVectors n _) s = {n}"
| "touches (GetVector n _) s = {n}"
| "touches (ListVectors n _) s = {n}"
| "touches (DeleteVector n _) s = {n}"
| "touches (DeleteVectors n _) s = {n}"
| "touches (SearchVectors n _) s = {n}"
| "touches (RangeSearch n _) s = {n}"
| "touches (UpsertVector n _) s = {n}"
| "touches (CreateCollection n) s = {n}"
| "touches (GetCollection n) s = {n}"
| "touches (CountCollection n) s = {n}"
| "touches (IndexStats n) s = {n}"
| "touches (DeleteCollection n) s = {n}"
| "touches (RebuildIndex n) s = {n}"
| "touches RunTask s = fst ` set (take 1 (rebuild_tasks s))"
| "touches (CompactCollection n) s = {n}"
| "touches (FindDuplicates n _) s = {n}"
| "touches (EmbedText n _) s = {n}"
| "touches (SearchByText n _) s = {n}"
| "touches CheckpointAll s = UNIV"
| "touches _ s = {}"

section \<open>What an invariant tolerates\<close>

locale server_invariant =
  fixes H :: "'b host" and N :: "string set" and inv :: "'b server \<Rightarrow> bool"
  assumes counters:
      "inv s \<Longrightarrow> inv (s\<lparr>ticks := i\<rparr>)" "inv s \<Longrightarrow> inv (s\<lparr>draws := i\<rparr>)" "inv s \<Longrightarrow> inv (s\<lparr>uuids := i\<rparr>)"
      "inv s \<Longrightarrow> inv (s\<lparr>laps := i\<rparr>)" "inv s \<Longrightarrow> inv (s\<lparr>probes := i\<rparr>)" "inv s \<Longrightarrow> inv (s\<lparr>embed_calls := i\<rparr>)"
      "inv s \<Longrightarrow> inv (s\<lparr>app_conf := load_app_config H i\<rparr>)" "inv s \<Longrightarrow> inv (s\<lparr>reloads := i\<rparr>)"
      "inv s \<Longrightarrow> inv (s\<lparr>config_last_reload := i\<rparr>)" "inv s \<Longrightarrow> inv (s\<lparr>locked := ls\<rparr>)"
      "inv s \<Longrightarrow> inv (s\<lparr>rebuild_jobs := js\<rparr>)" "inv s \<Longrightarrow> inv (s\<lparr>rebuild_tasks := ts\<rparr>)"
      "inv s \<Longrightarrow> inv (s\<lparr>embed_metrics_of := em\<rparr>)"
    and tracked: "inv s \<Longrightarrow> hm_get (trackers s) n = Some t \<Longrightarrow> inv (s\<lparr>trackers := hm_insert n t' (trackers s)\<rparr>)"
    and closing: "inv s \<Longrightarrow> inv (s\<lparr>read_only := True\<rparr>)" "inv s \<Longrightarrow> inv (s\<lparr>shutting_down := True\<rparr>)"
    and changed: "inv s \<Longrightarrow> n \<in> N \<Longrightarrow> hm_get (loaded s) n = Some c \<Longrightarrow> inv (s\<lparr>loaded := hm_insert n c' (loaded s)\<rparr>)"
    and cleared: "inv s \<Longrightarrow> hm_get (loaded s) n = Some c \<Longrightarrow>
      inv (s\<lparr>loaded := hm_insert n (c\<lparr>c_ticks := i, c_draws := j, c_cache := clear_metadata (c_cache c)\<rparr>) (loaded s)\<rparr>)"
    and opened: "inv s \<Longrightarrow> n \<in> N \<Longrightarrow> hm_get (loaded s) n = None \<Longrightarrow>
      inv (s\<lparr>loaded := hm_insert n c (loaded s), trackers := hm_insert n t (trackers s), disks := hm_remove n (disks s)\<rparr>)"
    and not_opened: "inv s \<Longrightarrow> n \<in> N \<Longrightarrow> hm_get (loaded s) n = None \<Longrightarrow> inv (s\<lparr>disks := hm_insert n d (disks s)\<rparr>)"
    and dropped: "inv s \<Longrightarrow> n \<in> N \<Longrightarrow> hm_get (loaded s) n = Some c \<Longrightarrow>
      inv (s\<lparr>trackers := hm_remove n (trackers s), loaded := hm_remove n (loaded s), disks := hm_insert n d (disks s)\<rparr>)"
    and forgotten: "inv s \<Longrightarrow> n \<in> N \<Longrightarrow> hm_get (loaded s) n = None \<Longrightarrow> inv (s\<lparr>trackers := hm_remove n (trackers s)\<rparr>)"
    and erased: "inv s \<Longrightarrow> n \<in> N \<Longrightarrow> inv (s\<lparr>disks := hm_remove n (disks s)\<rparr>)"
begin

text \<open>The pieces, in the order the services use them.\<close>

lemma keep_pieces:
  "op_preserves inv (give r)" "op_preserves inv (reject e)" "op_preserves inv (unavailable t)"
  "op_preserves inv (lap H)" "op_preserves inv (server_clock H)" "op_preserves inv (draw_uuid H)"
  "op_preserves inv (acquire n)" "op_preserves inv ensure_available" "op_preserves inv (view n f)"
  "op_preserves inv (disk_free_bytes H)" "op_preserves inv (set_job n j)" "op_preserves inv (record_embed a b c)"
  "op_preserves inv (call_embedder H t)" "op_preserves inv (embedder_configured H)"
  by (auto simp: op_preserves_def give_def reject_def unavailable_def lap_def server_clock_def draw_uuid_def
      acquire_def ensure_available_def view_def disk_free_bytes_def set_job_def record_embed_def call_embedder_def
      embedder_configured_def op_modify_def op_return_def counters split: option.split)

lemma keep_track: "op_preserves inv (track n f)"
  by (auto simp: op_preserves_def track_def op_modify_def tracked split: option.split)

lemma keep_note_low_space: "op_preserves inv (note_low_space a b)"
  unfolding note_low_space_def by (auto simp: op_preserves_def unavailable_def reject_def give_def closing)

lemma keep_write_allowed: "op_preserves inv (ensure_write_allowed H)"
proof -
  have "op_preserves inv (op_then (disk_free_bytes H) (note_low_space m))" for m
    by (intro op_preserves_then keep_pieces keep_note_low_space)
  then show ?thesis
    unfolding ensure_write_allowed_def
    by (auto simp: op_preserves_def unavailable_def reject_def give_def split: option.split)
qed

lemma keep_release: "op_preserves inv m \<Longrightarrow> op_preserves inv (release n m)"
  unfolding op_preserves_def release_def
  by (auto simp: counters split: prod.split sum.split halt.split)

lemma keep_write_locked: "op_preserves inv m \<Longrightarrow> op_preserves inv (write_locked H n m)"
  unfolding write_locked_def
  by (intro op_preserves_then keep_pieces keep_release keep_track op_preserves_modify counters) assumption+

lemma keep_read_locked: "op_preserves inv m \<Longrightarrow> op_preserves inv (read_locked H n m)"
  unfolding read_locked_def by (intro op_preserves_then keep_pieces keep_track)

lemma keep_on_collection:
  assumes "n \<in> N"
  shows "op_preserves inv (on_collection n m)"
proof (rule op_preservesI)
  fix s assume i: "inv s"
  show "inv (snd (on_collection n m s))"
  proof (cases "hm_get (loaded s) n")
    case (Some c)
    have "inv (s\<lparr>loaded := hm_insert n c' (loaded s), ticks := a, draws := b\<rparr>)" for c' a b
      by (intro counters changed [OF i assms Some])
    then show ?thesis by (simp add: on_collection_def Some split: prod.split)
  qed (simp add: on_collection_def i)
qed

lemma keep_clear: "op_preserves inv (on_collection n (clear_metadata_cache H))"
proof (rule op_preservesI)
  fix s assume i: "inv s"
  show "inv (snd (on_collection n (clear_metadata_cache H) s))"
  proof (cases "hm_get (loaded s) n")
    case (Some c)
    then show ?thesis
      using cleared [OF i Some, where i = "ticks s" and j = "draws s"] by (simp add: on_collection_def clear_metadata_cache_def lift_def)
  qed (simp add: on_collection_def i)
qed

lemma keep_usages: "op_preserves inv (usages H ns)"
proof (induction ns)
  case (Cons n ns)
  then show ?case
    unfolding usages.simps usage_of_def
    by (intro op_preserves_then keep_pieces) (auto intro!: op_preserves_then split: prod.split)
qed simp

lemma keep_evict_until: "op_preserves inv (evict_until H limit used es)"
proof (induction es arbitrary: used)
  case (Cons e es)
  obtain n m where e: "e = (n, m)" by (cases e)
  have "op_preserves inv (op_then (acquire n) (\<lambda>_. op_then (on_collection n (clear_metadata_cache H)) (\<lambda>freed.
      evict_until H limit (used - freed) es)))"
    by (intro op_preserves_then keep_pieces keep_clear Cons.IH)
  then show ?case by (simp add: e)
qed simp

lemma keep_budget: "op_preserves inv (enforce_cache_budget H)"
proof (rule op_preservesI)
  fix s assume i: "inv s"
  have "op_preserves inv (op_then (usages H (loaded_names H s)) (\<lambda>(used, entries).
      if used > limit then evict_until H limit used (sort_by larger_metadata entries) else op_return ()))" for limit
    by (intro op_preserves_then keep_usages) (auto simp: keep_evict_until split: prod.split)
  from op_preservesD [OF this i] show "inv (snd (enforce_cache_budget H s))"
    by (simp add: enforce_cache_budget_def i split: option.split)
qed

lemma keep_open:
  assumes "n \<in> N" and "inv s" and "hm_get (loaded s) n = None"
  shows "inv (snd (open_and_register H n s))"
proof -
  obtain r d where o: "open_collection (base H) n (to_collection_config (app_conf s)) (ticks s) (draws s)
      (case hm_get (disks s) n of None \<Rightarrow> no_files | Some d \<Rightarrow> d) = (r, d)" by fastforce
  show ?thesis
  proof (cases r)
    case (Inl e)
    then show ?thesis using not_opened [OF assms(2,1,3)] o by (simp add: open_and_register_def)
  next
    case (Inr c)
    have "inv (s\<lparr>loaded := hm_insert n c (loaded s), trackers := hm_insert n latency_tracker_new (trackers s),
        disks := hm_remove n (disks s), ticks := c_ticks c, draws := c_draws c\<rparr>)"
      by (intro counters opened [OF assms(2,1,3)])
    then show ?thesis using o Inr by (simp add: open_and_register_def)
  qed
qed

lemma keep_get_collection:
  assumes "n \<in> N"
  shows "op_preserves inv (get_existing_collection H n)" "op_preserves inv (get_or_create_collection H n)"
  by (auto simp: op_preserves_def get_existing_collection_def get_or_create_collection_def unavailable_def reject_def
      give_def get_existing_def get_or_create_def hm_contains_iff intro: keep_open [OF assms])

lemma keep_documents: "op_preserves inv (document_with_metadata H v t m)" "op_preserves inv (build_documents H ps)"
proof -
  show d: "op_preserves inv (document_with_metadata H v t m)" for v t m
    unfolding document_with_metadata_def by (intro op_preserves_then keep_pieces op_preserves_return)
  show "op_preserves inv (build_documents H ps)"
    by (induction ps) (auto intro!: op_preserves_then d)
qed

lemmas keep_steps = op_preserves_then op_preserves_return keep_pieces keep_track keep_write_allowed keep_write_locked
  keep_read_locked keep_on_collection keep_budget keep_get_collection keep_documents op_preserves_modify

lemma keep_insert_vector: "n \<in> N \<Longrightarrow> op_preserves inv (insert_vector H n r)"
  unfolding insert_vector_def insert_locked_def insert_single_def insert_many_def finish_insert_def build_single_entry_def build_batch_entries_def
  by (intro keep_steps) (auto intro!: keep_steps split: option.split)

lemma keep_search_settings: "op_preserves inv (search_settings H n r)"
  unfolding search_settings_def by (intro keep_steps)

lemma keep_timed_search: "op_preserves inv (timed_search H n f)"
  unfolding timed_search_def by (intro keep_steps)

lemma keep_reads:
  assumes "n \<in> N"
  shows "op_preserves inv (get_vector_service H n t)" "op_preserves inv (list_vectors H n q)"
    "op_preserves inv (search_vectors H n sr)" "op_preserves inv (range_search_vectors H n rr)"
    "op_preserves inv (create_collection H n)" "op_preserves inv (read_collection H n f)"
    "op_preserves inv (find_duplicates_service H n dr)"
  unfolding get_vector_service_def list_vectors_def search_vectors_def range_search_vectors_def create_collection_def
    read_collection_def find_duplicates_service_def search_one_vector_def
  using assms
  by (auto intro!: keep_steps keep_search_settings keep_timed_search split: option.split prod.split)

lemma keep_writes:
  assumes "n \<in> N"
  shows "op_preserves inv (delete_vector H n t)" "op_preserves inv (delete_vectors H n ts)"
    "op_preserves inv (upsert_vector H n r)" "op_preserves inv (compact_collection H n)"
  unfolding delete_vector_def delete_vectors_def upsert_vector_def upsert_locked_def chosen_id_def
    compact_collection_def finish_delete_def finish_upsert_def
  using assms by (auto intro!: keep_steps split: option.split)

lemma keep_embed_all: "op_preserves inv (embed_all H ms i toks ts)"
  by (induction ts arbitrary: i toks) (auto intro!: keep_steps split: prod.split)

lemma keep_embedding:
  assumes "n \<in> N"
  shows "op_preserves inv (embed_text H n r)" "op_preserves inv (search_by_text H n q)"
  unfolding embed_text_def embed_one_def embed_many_def search_by_text_def search_one_vector_def
  using assms by (auto intro!: keep_steps keep_embed_all keep_timed_search split: option.split prod.split)

lemma keep_delete_collection:
  assumes "n \<in> N"
  shows "op_preserves inv (delete_collection H n)"
proof -
  have "op_preserves inv (remove_collection n)"
  proof (rule op_preservesI)
    fix s assume i: "inv s"
    show "inv (snd (remove_collection n s))"
    proof (cases "hm_get (loaded s) n")
      case None
      then show ?thesis using forgotten [OF i assms None] by (simp add: remove_collection_def)
    next
      case (Some c)
      have "inv (s\<lparr>trackers := hm_remove n (trackers s), loaded := hm_remove n (loaded s),
          disks := hm_insert n (disk_of c) (disks s), locked := removeAll n (locked s)\<rparr>)"
        by (intro counters dropped [OF i assms Some])
      then show ?thesis by (simp add: remove_collection_def Some)
    qed
  qed
  moreover have "op_preserves inv (remove_files n)"
    unfolding remove_files_def by (intro op_preserves_modify counters erased assms)
  ultimately show ?thesis unfolding delete_collection_def by (auto intro!: keep_steps)
qed

lemma keep_with_age: "op_preserves inv (with_age H n f)"
  unfolding with_age_def checkpoint_age_def by (auto intro!: keep_steps split: option.split)

lemma keep_each:
  "op_preserves inv (each_collection H f ns)" "op_preserves inv (each_metrics H ns)" "op_preserves inv (each_health H ns)"
proof -
  show "op_preserves inv (each_collection H f ns)" by (induction ns) (auto intro!: keep_steps)
  have v: "op_preserves inv (\<lambda>s. with_age H n (g s) s)" for n and g :: "'b server \<Rightarrow> 'b collection \<Rightarrow> nat option \<Rightarrow> 'c"
    by (rule op_preservesI) (rule op_preservesD [OF keep_with_age])
  show "op_preserves inv (each_health H ns)"
    by (induction ns) (auto intro!: op_preserves_then op_preserves_return keep_read_locked keep_with_age)
  show "op_preserves inv (each_metrics H ns)"
    by (induction ns) (auto intro!: op_preserves_then op_preserves_return keep_read_locked v)
qed

lemma keep_admin:
  "op_preserves inv (list_collections H)" "op_preserves inv (metrics H)" "op_preserves inv (readyz H)"
  "op_preserves inv config_status" "op_preserves inv (reload_config_service H)" "op_preserves inv initiate_shutdown"
  "op_preserves inv (rebuild_index_status n)"
proof -
  have at: "op_preserves inv (\<lambda>s. m s s)" if "\<And>s. op_preserves inv (m s)" for m :: "'b server \<Rightarrow> ('b, 'c) service"
    by (rule op_preservesI) (rule op_preservesD [OF that])
  have answer: "op_preserves inv (\<lambda>s. (r s, s))" for r :: "'b server \<Rightarrow> halt + 'c"
    by (simp add: op_preserves_def)
  show "op_preserves inv (list_collections H)"
    unfolding list_collections_def by (rule op_preserves_then, rule keep_pieces, rule at, rule keep_each)
  show "op_preserves inv (metrics H)"
    unfolding metrics_def by (rule at, rule op_preserves_then, rule keep_each, rule answer)
  show "op_preserves inv (readyz H)"
    unfolding readyz_def
    by (rule op_preserves_then, rule keep_pieces, rule at, rule op_preserves_then, rule keep_each,
        rule op_preserves_then, rule keep_pieces, rule answer)
  show "op_preserves inv config_status" unfolding config_status_def
    by (rule op_preserves_then, rule keep_pieces, rule answer)
  have "op_preserves inv (op_modify (\<lambda>s. s\<lparr>app_conf := load_app_config H (reloads s), reloads := reloads s + 1\<rparr>))"
    by (intro op_preserves_modify counters)
  then show "op_preserves inv (reload_config_service H)"
    unfolding reload_config_service_def reload_config_def
    by (intro op_preserves_then keep_pieces answer op_preserves_modify counters)
  show "op_preserves inv initiate_shutdown" unfolding initiate_shutdown_def by (intro op_preserves_modify closing)
  show "op_preserves inv (rebuild_index_status n)"
    unfolding rebuild_index_status_def
    by (rule op_preserves_then, rule keep_pieces, rule op_preservesI)
      (auto simp: reject_def give_def split: option.split)
qed

lemma keep_rebuild:
  assumes "n \<in> N"
  shows "op_preserves inv (rebuild_index_service H n)" "op_preserves inv (run_rebuild_task H n start)"
  unfolding rebuild_index_service_def run_rebuild_task_def using assms by (auto intro!: keep_steps counters)

lemma keep_ignore: "op_preserves inv m \<Longrightarrow> op_preserves inv (ignore m)"
  unfolding ignore_def by (intro op_preserves_then op_preserves_return)

lemma keep_serve:
  assumes "inv s" and "touches req s \<subseteq> N"
  shows "inv (snd (serve H req s))"
proof -
  have r: "inv (snd (m s))" if "op_preserves inv m" for m :: "('b, 'c) service"
    using op_preservesD [OF that assms(1)] .
  show ?thesis
  proof (cases req)
    case RunTask
    show ?thesis
    proof (cases "rebuild_tasks s")
      case Nil
      then show ?thesis using assms(1) by (simp add: RunTask next_task_def)
    next
      case (Cons t ts)
      obtain n start where t: "t = (n, start)" by (cases t)
      have "n \<in> N" using assms(2) by (simp add: RunTask Cons t)
      then have "inv (snd (run_rebuild_task H n start (s\<lparr>rebuild_tasks := ts\<rparr>)))"
        by (intro op_preservesD [OF keep_rebuild(2)] counters assms(1))
      then show ?thesis by (simp add: RunTask next_task_def Cons t)
    qed
  next
    case CheckpointAll
    then have "\<And>n. n \<in> N" using assms(2) by auto
    then have "op_preserves inv (op_for (\<lambda>n. op_then (acquire n) (\<lambda>_.
        op_then (on_collection n (checkpoint (base H))) (\<lambda>_. on_collection n flush))) ns)" for ns
      by (intro op_preserves_for keep_steps)
    from op_preservesD [OF this assms(1)] show ?thesis by (simp add: CheckpointAll checkpoint_all_def)
  qed (use assms(2) in \<open>auto intro!: r keep_ignore keep_insert_vector keep_reads keep_writes keep_embedding keep_delete_collection
      keep_admin keep_rebuild simp: get_collection_def count_collection_def index_stats_service_def\<close>)
qed

end

section \<open>Invariants of the server\<close>

definition served :: "'b host \<Rightarrow> request list \<Rightarrow> 'b server \<Rightarrow> 'b server" where
  "served H reqs s = fold (\<lambda>req s. snd (serve H req s)) reqs s"

lemma served_keeps: "(\<And>req s. P s \<Longrightarrow> P (snd (serve H req s))) \<Longrightarrow> P s \<Longrightarrow> P (served H reqs s)"
  unfolding served_def by (induction reqs arbitrary: s) simp_all

text \<open>The tables agree: a collection is loaded, with a tracker, or on disk only.\<close>

definition registry_ok :: "'b server \<Rightarrow> bool" where
  "registry_ok s \<longleftrightarrow> hm_ok (loaded s) \<and> hm_ok (trackers s) \<and> hm_ok (disks s) \<and>
     set (hm_keys (trackers s)) = set (hm_keys (loaded s)) \<and>
     set (hm_keys (loaded s)) \<inter> set (hm_keys (disks s)) = {}"

interpretation registry: server_invariant H UNIV registry_ok for H :: "'b host"
  by unfold_locales (auto simp: registry_ok_def hm_keys_get dest: hm_get_key)

text \<open>
  What a request on another collection must leave alone: the collection up to its cached metadata,
  which the budget of the caches may clear, and its files.
\<close>

definition core :: "'b collection \<Rightarrow> 'b collection" where
  "core c = c\<lparr>c_cache := clear_metadata (c_cache c), c_ticks := 0, c_draws := 0\<rparr>"

definition part_of :: "string \<Rightarrow> 'b server \<Rightarrow> 'b collection option \<times> 'b disk option" where
  "part_of n s = (map_option core (hm_get (loaded s) n), hm_get (disks s) n)"

interpretation isolation: server_invariant H "- {n}" "\<lambda>s. part_of n s = x" for H :: "'b host" and n x
  by unfold_locales (auto simp: part_of_def core_def clear_metadata_def)

interpretation latch: server_invariant H UNIV "\<lambda>s. read_only s \<or> shutting_down s" for H :: "'b host"
  by unfold_locales auto

section \<open>Properties\<close>

text \<open>
  C10. In every state a started server reaches by any sequence of requests, failing ones included,
  the tables of the manager agree: every loaded collection has a latency tracker and no tracker is
  left over, and no collection is both loaded and on disk only.
\<close>

theorem registry_consistent:
  assumes "hm_ok ds"
  shows "registry_ok (served H reqs (app_state_new H ds cfg min_free readonly))"
proof (rule served_keeps)
  show "registry_ok (app_state_new H ds cfg min_free readonly)"
    using assms by (simp add: registry_ok_def app_state_new_def hm_keys_def)
  show "registry_ok (snd (serve H req s))" if "registry_ok s" for req s
    by (rule registry.keep_serve [OF that]) simp
qed


fun is_write :: "request \<Rightarrow> bool" where
  "is_write (InsertVectors _ _) = True"
| "is_write (DeleteVector _ _) = True"
| "is_write (DeleteVectors _ _) = True"
| "is_write (UpsertVector _ _) = True"
| "is_write (EmbedText _ _) = True"
| "is_write _ = False"

definition low_space :: "'b host \<Rightarrow> 'b server \<Rightarrow> bool" where
  "low_space H s \<longleftrightarrow> disk_readonly_on_low_space s \<and>
     (case disk_min_free_bytes s of None \<Rightarrow> False | Some m \<Rightarrow> disk_free H (probes s) < m)"

lemma write_refused:
  assumes "read_only s \<or> shutting_down s \<or> low_space H s"
  shows "\<exists>m s'. ensure_write_allowed H s = (Inl (Stopped (Failed (Server (ServiceUnavailable m)))), s')
    \<and> loaded s' = loaded s \<and> disks s' = disks s \<and> (read_only s' \<or> shutting_down s')"
  using assms
  by (auto simp: ensure_write_allowed_def unavailable_def reject_def give_def lift_def fail_def low_space_def
      note_low_space_def disk_free_bytes_def op_then_def split: option.splits)

text \<open>
  C11. Writes are refused with status 503 while the server shuts down, is read-only or finds the disk
  below its limit, and then nothing is changed; and once refused, every later write is refused
  too, whatever requests come in between: nothing ends the read-only mode.
\<close>

theorem writes_refused:
  assumes "is_write req" and "read_only s \<or> shutting_down s \<or> low_space H s"
  shows "\<exists>m s'. serve H req s = (Inl (Stopped (Failed (Server (ServiceUnavailable m)))), s')
    \<and> status_code (Server (ServiceUnavailable m)) = 503 \<and> loaded s' = loaded s \<and> disks s' = disks s
    \<and> (\<forall>reqs. read_only (served H reqs s') \<or> shutting_down (served H reqs s'))"
proof (cases "shutting_down s")
  case True
  have l: "read_only (served H reqs s) \<or> shutting_down (served H reqs s)" for reqs
    using served_keeps [of "\<lambda>s. read_only s \<or> shutting_down s", OF latch.keep_serve, of s] True by simp
  have "\<exists>m. serve H req s = (Inl (Stopped (Failed (Server (ServiceUnavailable m)))), s)"
    using assms(1) True
    by (cases req) (simp_all add: ignore_def insert_vector_def delete_vector_def delete_vectors_def upsert_vector_def
      embed_text_def op_then_def ensure_available_def unavailable_def reject_def give_def lift_def fail_def)
  then show ?thesis using l by auto
next
  case False
  then have a: "ensure_available s = (Inr (), s)" by (simp add: ensure_available_def)
  obtain m s' where w: "ensure_write_allowed H s = (Inl (Stopped (Failed (Server (ServiceUnavailable m)))), s')"
    "loaded s' = loaded s" "disks s' = disks s" "read_only s' \<or> shutting_down s'"
    using write_refused [OF assms(2)] by blast
  have l: "read_only (served H reqs s') \<or> shutting_down (served H reqs s')" for reqs
    using served_keeps [of "\<lambda>s. read_only s \<or> shutting_down s", OF latch.keep_serve, of s'] w(4) by simp
  have "serve H req s = (Inl (Stopped (Failed (Server (ServiceUnavailable m)))), s')"
    using assms(1)
    by (cases req) (simp_all add: ignore_def insert_vector_def delete_vector_def delete_vectors_def upsert_vector_def
      embed_text_def op_then_def a w(1))
  then show ?thesis using w l by simp
qed

end
