(* ===== verification/Service_Spec.thy ===== *)
theory Service_Spec
  imports Service_Frame
begin

text \<open>
  What the server promises: a map of documents for every name, whether its collection is loaded, on
  disk or not there yet. Requests that answer move the named map as the command they stand for does;
  loading a collection, the budget of the caches and a restart move none.
\<close>

section \<open>The contents of a server\<close>

definition good :: "'b env \<Rightarrow> 'b collection \<Rightarrow> doc_map \<Rightarrow> bool" where
  "good E c D \<longleftrightarrow> stored E c \<and> docs E c = D \<and> durable E c \<and> append_cursor (c_store c) \<le> max_u64"

definition contents :: "'b host \<Rightarrow> 'b server \<Rightarrow> string \<Rightarrow> doc_map \<Rightarrow> bool" where
  "contents H s n D \<longleftrightarrow>
     (case hm_get (loaded s) n of
        Some c \<Rightarrow> good (base H) c D
      | None \<Rightarrow>
          (case hm_get (disks s) n of
             Some d \<Rightarrow> recoverable (base H) d D
           | None \<Rightarrow> D = Map.empty))"

lemma good_eq:
  "c_store c' = c_store c \<Longrightarrow> c_index c' = c_index c \<Longrightarrow> c_checkpoint c' = c_checkpoint c \<Longrightarrow> c_saved c' = c_saved c \<Longrightarrow>
   c_config c' = c_config c \<Longrightarrow> good E c' D = good E c D"
  by (simp add: good_def stored_def docs_def durable_def logged_def)

lemma good_clock [simp]:
  "good E (c\<lparr>c_ticks := i, c_draws := j\<rparr>) D = good E c D"
  "good E (c\<lparr>c_ticks := i, c_draws := j, c_cache := k\<rparr>) D = good E c D"
  by (rule good_eq; simp)+

lemma contents_eq:
  "hm_get (loaded s') n = hm_get (loaded s) n \<Longrightarrow> hm_get (disks s') n = hm_get (disks s) n \<Longrightarrow> contents H s' n = contents H s n"
  by (rule ext) (simp add: contents_def split: option.split)

interpretation contents_frame: server_invariant H "- {n}" "\<lambda>s. contents H s n D" for H :: "'b host" and n D
  by unfold_locales (auto simp: contents_def split: if_splits option.splits)

lemma good_run:
  assumes "codecs_ok E" and "good E c D" and "fits E c (written cmd D)" and "\<forall>d \<in> set (written cmd D). loggable E d"
    and "run E cmd c = (Inr (), c')"
  shows "good E c' (meaning cmd D)"
proof -
  have "advances E c (written cmd D) (meaning cmd D) c'"
    using advances_run [OF assms(1), of c cmd c'] assms(2-5) by (simp add: good_def)
  then show ?thesis using assms(2-4) by (auto simp: advances_def good_def fits_def)
qed

text \<open>An operation on a loaded collection that is a command.\<close>

lemma contents_on_collection:
  assumes "codecs_ok (base H)" and "contents H s n D" and "hm_get (loaded s) n = Some c"
    and "fits (base H) c (written cmd D)" and "\<forall>d \<in> set (written cmd D). loggable (base H) d"
    and "on_collection n (run (base H) cmd) s = (Inr (), s')"
  shows "contents H s' n (meaning cmd D)"
proof -
  let ?c = "c\<lparr>c_ticks := ticks s, c_draws := draws s\<rparr>"
  obtain c' where run: "run (base H) cmd ?c = (Inr (), c')"
    and s': "s' = s\<lparr>loaded := hm_insert n c' (loaded s), ticks := c_ticks c', draws := c_draws c'\<rparr>"
    using assms(3,6) by (auto simp: on_collection_def lift_def split: prod.splits sum.splits)
  have "good (base H) ?c D" using assms(2,3) by (simp add: contents_def)
  moreover have "fits (base H) ?c (written cmd D)" using assms(4) by (simp add: fits_def)
  ultimately have "good (base H) c' (meaning cmd D)" using good_run [OF assms(1)] assms(5) run by blast
  then show ?thesis by (simp add: s' contents_def)
qed

text \<open>Loading a collection recovers it.\<close>

lemma contents_open:
  assumes "codecs_ok (base H)" and "wal_enabled (app_wal (app_conf s))" and "contents H s n D"
    and "hm_get (loaded s) n = None" and "open_and_register H n s = (Inr u, s')"
  shows "contents H s' n D \<and> hm_get (loaded s') n \<noteq> None"
proof -
  let ?d = "case hm_get (disks s) n of None \<Rightarrow> no_files | Some d \<Rightarrow> d"
  obtain c d where o: "open_collection (base H) n (to_collection_config (app_conf s)) (ticks s) (draws s) ?d = (Inr c, d)"
    and s': "s' = s\<lparr>loaded := hm_insert n c (loaded s), trackers := hm_insert n latency_tracker_new (trackers s),
      disks := hm_remove n (disks s), ticks := c_ticks c, draws := c_draws c\<rparr>"
    using assms(5) by (auto simp: open_and_register_def split: prod.splits sum.splits)
  have "recoverable (base H) ?d D"
    using assms(3,4) no_files_recoverable by (auto simp: contents_def split: option.splits)
  from open_recovers [OF assms(1) _ this o] have "good (base H) c D"
    using assms(2) by (simp add: good_def to_collection_config_def)
  then show ?thesis by (simp add: s' contents_def)
qed

section \<open>Entering a collection\<close>

text \<open>The state in which a handler runs under the write lock.\<close>

definition entered :: "'b host \<Rightarrow> string \<Rightarrow> 'b server \<Rightarrow> 'b server" where
  "entered H n s =
     snd (track n (record_lock_write (micros (elapsed_ns H (laps s)))) (s\<lparr>locked := n # locked s, laps := laps s + 1\<rparr>))"

lemma entered_simps [simp]:
  "loaded (entered H n s) = loaded s" "disks (entered H n s) = disks s" "uuids (entered H n s) = uuids s"
  "app_conf (entered H n s) = app_conf s" "locked (entered H n s) = n # locked s"
  "shutting_down (entered H n s) = shutting_down s" "ticks (entered H n s) = ticks s" "draws (entered H n s) = draws s"
  by (simp_all add: entered_def track_def split: option.split)

lemma write_locked_eq:
  "write_locked H n m s = (if n \<in> set (locked s) then (Inl Deadlock, s) else release n m (entered H n s))"
  by (simp add: write_locked_def acquire_def op_then_def release_def lap_def entered_def track_def op_modify_def
      split: option.split)

lemma write_locked_Inr:
  assumes "write_locked H n m s = (Inr x, s')"
  shows "\<exists>t. n \<notin> set (locked s) \<and> m (entered H n s) = (Inr x, t) \<and> s' = t\<lparr>locked := remove1 n (locked t)\<rparr>"
proof -
  have "n \<notin> set (locked s)" "release n m (entered H n s) = (Inr x, s')"
    using assms by (simp_all add: write_locked_eq split: if_splits)
  then show ?thesis by (auto simp: release_def split: prod.splits sum.splits halt.splits)
qed

lemma write_allowed_state: "ensure_write_allowed H s = (Inr u, s') \<Longrightarrow> \<exists>p. s' = s\<lparr>probes := p\<rparr>"
proof (induction "disk_min_free_bytes s")
  case None
  then have "s' = s\<lparr>probes := probes s\<rparr>"
    by (auto simp: ensure_write_allowed_def unavailable_def reject_def give_def lift_def fail_def split: if_splits)
  then show ?case ..
next
  case (Some m)
  then have "s' = s\<lparr>probes := probes s + 1\<rparr>"
    by (auto simp: ensure_write_allowed_def unavailable_def reject_def give_def lift_def fail_def disk_free_bytes_def
        note_low_space_def op_then_def split: if_splits option.splits)
  then show ?case ..
qed

lemma give_Inr [simp]: "give r s = (Inr x, s') \<longleftrightarrow> r = Inr x \<and> s' = s"
  by (auto simp: give_def lift_def split: sum.splits)

lemma ensure_available_Inr [simp]: "ensure_available s = (Inr u, s') \<longleftrightarrow> \<not> shutting_down s \<and> s' = s"
  by (auto simp: ensure_available_def unavailable_def reject_def give_def lift_def fail_def)

lemma get_loaded [simp]:
  assumes "hm_get (loaded s) n = Some c"
  shows "get_existing_collection H n s = (Inr u, s') \<longleftrightarrow> \<not> shutting_down s \<and> s' = s"
    and "get_or_create_collection H n s = (Inr u, s') \<longleftrightarrow> \<not> shutting_down s \<and> s' = s"
  using assms by (auto simp: get_existing_collection_def get_or_create_collection_def get_existing_def get_or_create_def
      hm_contains_iff unavailable_def reject_def give_def lift_def fail_def)

section \<open>Requests as commands\<close>

fun documents_from :: "'b host \<Rightarrow> nat \<Rightarrow> (f32 list \<times> string \<times> metadata) list \<Rightarrow> document list" where
  "documents_from H k [] = []"
| "documents_from H k ((v, t, m) # ps) =
     \<lparr>doc_id = new_uuid H k, doc_vector = v, doc_text = t, doc_metadata = m\<rparr> # documents_from H (k + 1) ps"

definition id_or_new :: "'b host \<Rightarrow> nat \<Rightarrow> string option \<Rightarrow> uuid option" where
  "id_or_new H k t = (case t of None \<Rightarrow> Some (new_uuid H k) | Some t \<Rightarrow> parse_uuid H t)"

definition upserted :: "upsert_request \<Rightarrow> uuid \<Rightarrow> document" where
  "upserted r x = \<lparr>doc_id = x,
     doc_vector = (if ur_normalize r then normalize_vector (ur_vector r) else ur_vector r),
     doc_text = ur_text r, doc_metadata = json_to_metadata (ur_metadata r)\<rparr>"

text \<open>The command a request stands for, with the random source at position \<open>k\<close>.\<close>

fun command_of :: "'b host \<Rightarrow> nat \<Rightarrow> request \<Rightarrow> (string \<times> command) option" where
  "command_of H k (InsertVectors n r) =
     (case (ir_vector r, ir_vectors r) of
        (Some _, None) \<Rightarrow>
          (case single_parts r of
             Inr p \<Rightarrow> Some (n, Insert (hd (documents_from H k [p])))
           | Inl _ \<Rightarrow> None)
      | (None, Some _) \<Rightarrow>
          (case batch_parts r of Inr ps \<Rightarrow> Some (n, InsertBatch (documents_from H k ps)) | Inl _ \<Rightarrow> None)
      | _ \<Rightarrow> None)"
| "command_of H k (UpsertVector n r) = map_option (\<lambda>x. (n, Upsert (upserted r x))) (id_or_new H k (ur_id r))"
| "command_of H k (DeleteVector n t) = map_option (\<lambda>x. (n, Delete x)) (parse_uuid H t)"
| "command_of H k (DeleteVectors n ts) =
     (case collect_results (\<lambda>t. case parse_uuid H t of None \<Rightarrow> Inl () | Some x \<Rightarrow> Inr x) ts of
        Inr xs \<Rightarrow> Some (n, DeleteBatch xs)
      | Inl _ \<Rightarrow> None)"
| "command_of H k _ = None"

lemma build_documents_eq:
  "build_documents H ps s = (Inr (documents_from H (uuids s) ps), s\<lparr>uuids := uuids s + length ps\<rparr>)"
proof (induction ps arbitrary: s)
  case (Cons p ps)
  obtain v t m where "p = (v, t, m)" by (cases p) auto
  then show ?case using Cons by (simp add: op_then_def document_with_metadata_def draw_uuid_def)
qed simp

text \<open>The handler runs the command on its collection, and what follows leaves the contents alone.\<close>

definition stands_for :: "'b host \<Rightarrow> string \<Rightarrow> command \<Rightarrow> 'b server \<Rightarrow> 'b server \<Rightarrow> bool" where
  "stands_for H n cmd s s' \<longleftrightarrow>
     (\<exists>s1 s2. loaded s1 = loaded s \<and> disks s1 = disks s \<and> on_collection n (run (base H) cmd) s1 = (Inr (), s2) \<and>
        (\<forall>D. contents H s2 n D \<longrightarrow> contents H s' n D))"

lemma on_collection_ignore:
  "on_collection n m s = (Inr x, s') \<Longrightarrow> on_collection n (ignore_result m) s = (Inr (), s')"
  by (auto simp: on_collection_def ignore_result_def op_then_def lift_def split: option.splits prod.splits sum.splits)

lemma stands_forI:
  assumes "loaded s1 = loaded s" and "disks s1 = disks s" and "run (base H) cmd = ignore_result m"
    and "on_collection n m s1 = (Inr x, s2)" and "k s2 = (Inr y, s3)" and "\<And>D. op_preserves (\<lambda>s. contents H s n D) k"
    and "loaded s' = loaded s3" and "disks s' = disks s3"
  shows "stands_for H n cmd s s'"
proof -
  have "contents H s' n D" if "contents H s2 n D" for D
  proof -
    have "contents H s3 n D" by (rule op_preserves_Inr [OF assms(6) that assms(5)])
    then show ?thesis using contents_eq [of s' n s3 H] assms(7,8) by simp
  qed
  then show ?thesis
    unfolding stands_for_def using assms(1-3) on_collection_ignore [OF assms(4)] by (metis (no_types, lifting))
qed

text \<open>What a handler that answered has been through, up to its lock.\<close>

lemma write_entered:
  assumes "op_then ensure_available (\<lambda>_. op_then (ensure_write_allowed H) (\<lambda>_. m)) s = (Inr y, s')"
  shows "\<not> shutting_down s \<and> (\<exists>p. m (s\<lparr>probes := p\<rparr>) = (Inr y, s'))"
proof -
  have open_: "\<not> shutting_down s" and w: "op_then (ensure_write_allowed H) (\<lambda>_. m) s = (Inr y, s')"
    using assms by (auto simp: op_then_eq_Inr)
  obtain u s0 where "ensure_write_allowed H s = (Inr u, s0)" "m s0 = (Inr y, s')"
    using w unfolding op_then_eq_Inr by blast
  then show ?thesis using open_ write_allowed_state by blast
qed

lemma insert_entered:
  assumes "insert_vector H n r s = (Inr y, s')" and "hm_get (loaded s) n = Some c"
  obtains p t where "insert_locked H n r (entered H n (s\<lparr>probes := p\<rparr>)) = (Inr y, t)"
    and "s' = t\<lparr>locked := remove1 n (locked t)\<rparr>" and "n \<notin> set (locked s)" and "\<not> shutting_down s"
proof -
  obtain p where p: "op_then (give (valid_name H n)) (\<lambda>_. op_then (get_or_create_collection H n) (\<lambda>_.
      write_locked H n (insert_locked H n r))) (s\<lparr>probes := p\<rparr>) = (Inr y, s')" and o: "\<not> shutting_down s"
    using write_entered [of H _ s y s'] assms(1) unfolding insert_vector_def by blast
  then have "write_locked H n (insert_locked H n r) (s\<lparr>probes := p\<rparr>) = (Inr y, s')"
    using assms(2) by (auto simp: op_then_eq_Inr)
  from write_locked_Inr [OF this] show thesis using that o by auto
qed

lemma keep_finish:
  "op_preserves (\<lambda>s. contents H s n D) (finish_insert H m answer)"
  "op_preserves (\<lambda>s. contents H s n D) (finish_delete H m answer')"
  "op_preserves (\<lambda>s. contents H s n D) (finish_upsert H m x exists)"
  unfolding finish_insert_def finish_delete_def finish_upsert_def by (intro contents_frame.keep_steps)+

text \<open>The parts of a single insert that answered.\<close>

lemma single_insert_run:
  assumes "insert_vector H n r s = (Inr y, s')" and "hm_get (loaded s) n = Some c" and "ir_vector r = Some v"
  obtains q d s1 x s2 t where "single_parts r = Inr q" and "d = hd (documents_from H (uuids s) [q])"
    and "loaded s1 = loaded s" and "disks s1 = disks s" and "ir_vectors r = None"
    and "on_collection n (insert_document (base H) d) s1 = (Inr x, s2)"
    and "finish_insert H n (\<lambda>ns. InsertedOne (show_uuid H x) (latency_ms ns)) s2 = (Inr y, t)"
    and "s' = t\<lparr>locked := remove1 n (locked t)\<rparr>"
proof -
  obtain p t where t: "insert_locked H n r (entered H n (s\<lparr>probes := p\<rparr>)) = (Inr y, t)" "s' = t\<lparr>locked := remove1 n (locked t)\<rparr>"
    by (rule insert_entered [OF assms(1,2)])
  let ?s = "entered H n (s\<lparr>probes := p\<rparr>)"
  have i: "insert_single H n r ?s = (Inr y, t)" and vs: "ir_vectors r = None"
    using t(1) assms(3) by (auto simp: insert_locked_def invalid_def fail_def split: option.splits)
  obtain d s1 x s2 where d: "build_single_entry H r ?s = (Inr d, s1)"
    and x: "on_collection n (insert_document (base H) d) s1 = (Inr x, s2)"
    and f: "finish_insert H n (\<lambda>ns. InsertedOne (show_uuid H x) (latency_ms ns)) s2 = (Inr y, t)"
    using i unfolding insert_single_def op_then_eq_Inr by blast
  obtain q where "single_parts r = Inr q" "d = hd (documents_from H (uuids s) [q])" "loaded s1 = loaded s" "disks s1 = disks s"
    using d by (auto simp: build_single_entry_def op_then_eq_Inr document_with_metadata_def draw_uuid_def)
  then show thesis using that vs x f t(2) by blast
qed

lemma insert_stands_for:
  assumes "insert_vector H n r s = (Inr y, s')" and "hm_get (loaded s) n = Some c"
  shows "\<exists>cmd. command_of H (uuids s) (InsertVectors n r) = Some (n, cmd) \<and> stands_for H n cmd s s'"
proof (cases "ir_vector r")
  case (Some v)
  obtain q d s1 x s2 t where q: "single_parts r = Inr q" "d = hd (documents_from H (uuids s) [q])"
    "loaded s1 = loaded s" "disks s1 = disks s" "ir_vectors r = None"
    and x: "on_collection n (insert_document (base H) d) s1 = (Inr x, s2)"
    and f: "finish_insert H n (\<lambda>ns. InsertedOne (show_uuid H x) (latency_ms ns)) s2 = (Inr y, t)"
    and s': "s' = t\<lparr>locked := remove1 n (locked t)\<rparr>"
    by (rule single_insert_run [OF assms Some])
  have "stands_for H n (Insert d) s s'"
    by (rule stands_forI [OF q(3,4) _ x f keep_finish(1)]) (simp_all add: s')
  then show ?thesis by (simp add: Some q(1,2,5))
next
  case None
  obtain p t where t: "insert_locked H n r (entered H n (s\<lparr>probes := p\<rparr>)) = (Inr y, t)" "s' = t\<lparr>locked := remove1 n (locked t)\<rparr>"
    by (rule insert_entered [OF assms])
  let ?s = "entered H n (s\<lparr>probes := p\<rparr>)"
    obtain vs where vs: "ir_vectors r = Some vs" and i: "insert_many H n r ?s = (Inr y, t)"
      using t(1) None by (auto simp: insert_locked_def invalid_def fail_def split: option.splits)
    obtain ds s1 xs s2 where d: "build_batch_entries H r ?s = (Inr ds, s1)"
      and x: "on_collection n (insert_batch (base H) ds) s1 = (Inr xs, s2)"
      and f: "finish_insert H n (\<lambda>ns. InsertedMany (map (show_uuid H) xs)
       (case ir_texts r of Some ts \<Rightarrow> length ts | None \<Rightarrow> 0) (latency_ms ns)) s2 = (Inr y, t)"
      using i unfolding insert_many_def op_then_eq_Inr by blast
    obtain qs where q: "batch_parts r = Inr qs" "ds = documents_from H (uuids s) qs" "loaded s1 = loaded s" "disks s1 = disks s"
      using d by (auto simp: build_batch_entries_def op_then_eq_Inr build_documents_eq)
    have "stands_for H n (InsertBatch ds) s s'"
      by (rule stands_forI [OF q(3,4) _ x f keep_finish(1)]) (simp_all add: t(2))
    then show ?thesis by (simp add: None vs q(1,2))
qed

lemma parse_id_Inr [simp]: "parse_id H t = Inr x \<longleftrightarrow> parse_uuid H t = Some x"
  by (auto simp: parse_id_def invalid_def fail_def split: option.split)

lemma delete_stands_for:
  assumes "delete_vector H n t s = (Inr y, s')" and "hm_get (loaded s) n = Some c"
  shows "\<exists>cmd. command_of H (uuids s) (DeleteVector n t) = Some (n, cmd) \<and> stands_for H n cmd s s'"
proof -
  obtain p where p: "op_then (get_existing_collection H n) (\<lambda>_. op_then (give (parse_id H t)) (\<lambda>x. write_locked H n
       (op_then (on_collection n (delete_document (base H) x)) (\<lambda>deleted.
        finish_delete H n (\<lambda>ns. DeletedOne deleted (latency_ms ns)))))) (s\<lparr>probes := p\<rparr>) = (Inr y, s')"
    using write_entered [of H _ s y s'] assms(1) unfolding delete_vector_def by blast
  obtain x where x: "parse_uuid H t = Some x" and w: "write_locked H n
       (op_then (on_collection n (delete_document (base H) x)) (\<lambda>deleted.
        finish_delete H n (\<lambda>ns. DeletedOne deleted (latency_ms ns)))) (s\<lparr>probes := p\<rparr>) = (Inr y, s')"
    using p assms(2) by (auto simp: op_then_eq_Inr)
  obtain u b s2 where o: "on_collection n (delete_document (base H) x) (entered H n (s\<lparr>probes := p\<rparr>)) = (Inr b, s2)"
    and f: "finish_delete H n (\<lambda>ns. DeletedOne b (latency_ms ns)) s2 = (Inr y, u)" and s': "s' = u\<lparr>locked := remove1 n (locked u)\<rparr>"
    using write_locked_Inr [OF w] unfolding op_then_eq_Inr by blast
  have "stands_for H n (Delete x) s s'"
    by (rule stands_forI [OF _ _ _ o f keep_finish(2)]) (simp_all add: s')
  then show ?thesis by (simp add: x)
qed

lemma parse_all:
  assumes "collect_results (\<lambda>t. case parse_uuid H t of None \<Rightarrow> invalid (f t) | Some x \<Rightarrow> Inr x) ts = Inr xs"
  shows "collect_results (\<lambda>t. case parse_uuid H t of None \<Rightarrow> Inl () | Some x \<Rightarrow> Inr x) ts = Inr xs"
  using assms unfolding collect_results_Inr_iff
  by (rule list_all2_mono) (auto simp: invalid_def fail_def split: option.splits)

lemma delete_many_stands_for:
  assumes "delete_vectors H n ts s = (Inr y, s')" and "hm_get (loaded s) n = Some c"
  shows "\<exists>cmd. command_of H (uuids s) (DeleteVectors n ts) = Some (n, cmd) \<and> stands_for H n cmd s s'"
proof -
  let ?body = "\<lambda>xs. op_then (on_collection n (delete_batch (base H) xs)) (\<lambda>count.
        finish_delete H n (\<lambda>ns. DeletedMany count (latency_ms ns)))"
  obtain p where p: "op_then (give (valid_name H n)) (\<lambda>_.
     op_then (give (validate_batch_size (length ts) max_batch_size ''Delete'')) (\<lambda>_.
     op_then (get_existing_collection H n) (\<lambda>_.
     op_then (give (collect_results (\<lambda>t. case parse_uuid H t of
         None \<Rightarrow> invalid (''Invalid UUID: '' @ t) | Some x \<Rightarrow> Inr x) ts)) (\<lambda>xs.
     write_locked H n (?body xs))))) (s\<lparr>probes := p\<rparr>) = (Inr y, s')"
    using write_entered [of H _ s y s'] assms(1) unfolding delete_vectors_def by blast
  obtain xs where xs: "collect_results (\<lambda>t. case parse_uuid H t of
         None \<Rightarrow> invalid (''Invalid UUID: '' @ t) | Some x \<Rightarrow> Inr x) ts = Inr xs"
    and w: "write_locked H n (?body xs) (s\<lparr>probes := p\<rparr>) = (Inr y, s')"
    using p assms(2) by (auto simp: op_then_eq_Inr)
  obtain u b s2 where o: "on_collection n (delete_batch (base H) xs) (entered H n (s\<lparr>probes := p\<rparr>)) = (Inr b, s2)"
    and f: "finish_delete H n (\<lambda>ns. DeletedMany b (latency_ms ns)) s2 = (Inr y, u)" and s': "s' = u\<lparr>locked := remove1 n (locked u)\<rparr>"
    using write_locked_Inr [OF w] unfolding op_then_eq_Inr by blast
  have "stands_for H n (DeleteBatch xs) s s'"
    by (rule stands_forI [OF _ _ _ o f keep_finish(2)]) (simp_all add: s')
  then show ?thesis by (simp add: parse_all [OF xs])
qed

lemma upsert_stands_for:
  assumes "upsert_vector H n r s = (Inr y, s')" and "hm_get (loaded s) n = Some c"
  shows "\<exists>cmd. command_of H (uuids s) (UpsertVector n r) = Some (n, cmd) \<and> stands_for H n cmd s s'"
proof -
  obtain p where p: "op_then (give (valid_name H n)) (\<lambda>_. op_then (give (validate_text (ur_text r))) (\<lambda>_.
     op_then (give (validate_vector (ur_vector r))) (\<lambda>_. op_then (get_or_create_collection H n) (\<lambda>_.
     write_locked H n (upsert_locked H n r))))) (s\<lparr>probes := p\<rparr>) = (Inr y, s')"
    using write_entered [of H _ s y s'] assms(1) unfolding upsert_vector_def by blast
  have w: "write_locked H n (upsert_locked H n r) (s\<lparr>probes := p\<rparr>) = (Inr y, s')"
    using p assms(2) by (auto simp: op_then_eq_Inr)
  let ?s = "entered H n (s\<lparr>probes := p\<rparr>)"
  obtain t where t: "upsert_locked H n r ?s = (Inr y, t)" "s' = t\<lparr>locked := remove1 n (locked t)\<rparr>"
    using write_locked_Inr [OF w] by blast
  obtain x s1 e s2 d s3 z s4 where x: "chosen_id H (ur_id r) ?s = (Inr x, s1)"
    and e: "view n (\<lambda>c. and_then (get (base H) x c) (\<lambda>d. Inr (d \<noteq> None))) s1 = (Inr e, s2)"
    and d: "document_with_metadata H (if ur_normalize r then normalize_vector (ur_vector r) else ur_vector r) (ur_text r)
       (json_to_metadata (ur_metadata r)) s2 = (Inr d, s3)"
    and o: "on_collection n (upsert (base H) (d\<lparr>doc_id := x\<rparr>)) s3 = (Inr z, s4)"
    and f: "finish_upsert H n x e s4 = (Inr y, t)"
    using t(1) unfolding upsert_locked_def op_then_eq_Inr by blast
  have s2: "s2 = s1" using e by (auto simp: view_def split: option.splits)
  have 1: "id_or_new H (uuids s) (ur_id r) = Some x" "loaded s1 = loaded s" "disks s1 = disks s"
    using x by (auto simp: chosen_id_def id_or_new_def draw_uuid_def split: option.splits)
  have 3: "d\<lparr>doc_id := x\<rparr> = upserted r x" "loaded s3 = loaded s" "disks s3 = disks s"
    using d 1(2,3) by (auto simp: document_with_metadata_def draw_uuid_def op_then_eq_Inr upserted_def s2)
  have "stands_for H n (Upsert (upserted r x)) s s'"
    by (rule stands_forI [OF 3(2,3) _ o [unfolded 3(1)] f keep_finish(3)]) (simp_all add: t(2))
  then show ?thesis by (simp add: 1(1))
qed

lemma ignore_Inr: "ignore m s = (Inr u, s') \<longleftrightarrow> (\<exists>x. m s = (Inr x, s'))"
  by (auto simp: ignore_def op_then_eq_Inr)

lemma serve_stands_for:
  assumes "serve H req s = (Inr (), s')" and "command_of H (uuids s) req = Some (n, cmd)" and "hm_get (loaded s) n = Some c"
  shows "stands_for H n cmd s s'"
proof (cases req)
  case (InsertVectors m r)
  then have "m = n" using assms(2) by (auto split: option.splits sum.splits)
  then show ?thesis using insert_stands_for [of H n r s _ s'] assms by (force simp: InsertVectors ignore_Inr)
next
  case (UpsertVector m r)
  then show ?thesis using upsert_stands_for [of H n r s _ s'] assms by (force simp: ignore_Inr)
next
  case (DeleteVector m t)
  then show ?thesis using delete_stands_for [of H n t s _ s'] assms by (force simp: ignore_Inr)
next
  case (DeleteVectors m ts)
  then have "m = n" using assms(2) by (auto split: sum.splits)
  then show ?thesis using delete_many_stands_for [of H n ts s _ s'] assms by (force simp: DeleteVectors ignore_Inr)
qed (use assms(2) in simp_all)

section \<open>Restarting\<close>

text \<open>A crash or an exit of the process: what was loaded is on disk, with the files as they are.\<close>

definition restarted :: "'b host \<Rightarrow> 'b server \<Rightarrow> 'b server" where
  "restarted H s = app_state_new H
     (fold (\<lambda>(n, c) ds. hm_insert n (disk_of c) ds) (loaded s) (disks s))
     (app_conf s) (disk_min_free_bytes s) (disk_readonly_on_low_space s)"

lemma restarted_disks:
  assumes "hm_ok (loaded s)"
  shows "hm_get (disks (restarted H s)) n =
    (case hm_get (loaded s) n of Some c \<Rightarrow> Some (disk_of c) | None \<Rightarrow> hm_get (disks s) n)"
proof -
  have "hm_get (fold (\<lambda>(n, c) ds. hm_insert n (disk_of c) ds) cs ds) n =
      (case hm_get cs n of Some c \<Rightarrow> Some (disk_of c) | None \<Rightarrow> hm_get ds n)" if "hm_ok cs" for cs ds
    using that
  proof (induction cs arbitrary: ds)
    case (Cons p cs)
    obtain m c where p: "p = (m, c)" by (cases p)
    have ok: "hm_ok cs" and new: "hm_get cs m = None"
      using Cons.prems by (auto simp: hm_ok_def hm_keys_def hm_get_def p map_of_eq_None_iff)
    show ?case
      using Cons.IH [OF ok] new by (auto simp: p hm_get_def split: option.split)
  qed simp
  from this [OF assms] show ?thesis by (simp add: restarted_def app_state_new_def)
qed

lemma contents_restarted:
  assumes "registry_ok s" and "contents H s n D"
  shows "contents H (restarted H s) n D"
proof -
  have "hm_get (loaded (restarted H s)) n = None" by (simp add: restarted_def app_state_new_def)
  then show ?thesis
    using assms restarted_disks [of s H n] durable_recoverable [of "base H"]
    by (auto simp: contents_def registry_ok_def good_def split: option.splits)
qed

section \<open>Reading back\<close>

text \<open>A handler touches neither the locks of others, nor the configuration, nor the shutdown flag.\<close>

definition held :: "string list \<Rightarrow> app_config \<Rightarrow> bool \<Rightarrow> 'b server \<Rightarrow> bool" where
  "held ls cfg down s \<longleftrightarrow> locked s = ls \<and> app_conf s = cfg \<and> shutting_down s = down"

lemma held_pieces:
  "op_preserves (held ls cfg b) (lap H)" "op_preserves (held ls cfg b) (track n f)" "op_preserves (held ls cfg b) (give r)"
  "op_preserves (held ls cfg b) (on_collection n m)" "op_preserves (held ls cfg b) (document_with_metadata H v t md)"
  "op_preserves (held ls cfg b) (acquire n)" "op_preserves (held ls cfg b) (view n g)"
  "op_preserves (held ls cfg b) (build_documents H ps)" "op_preserves (held ls cfg b) (draw_uuid H)"
  "op_preserves (held ls cfg b) ensure_available"
  by (auto simp: op_preserves_def held_def lap_def track_def give_def on_collection_def document_with_metadata_def
      draw_uuid_def op_then_def acquire_def view_def op_modify_def build_documents_eq ensure_available_def unavailable_def
      reject_def split: option.split prod.split)

lemma held_write_allowed: "op_preserves (held ls cfg b) (ensure_write_allowed H)"
  by (auto simp: op_preserves_def held_def ensure_write_allowed_def unavailable_def reject_def give_def op_then_def
      disk_free_bytes_def note_low_space_def split: option.split)

lemma held_get_collection:
  "op_preserves (held ls cfg b) (get_existing_collection H n)" "op_preserves (held ls cfg b) (get_or_create_collection H n)"
  by (auto simp: op_preserves_def held_def get_existing_collection_def get_or_create_collection_def get_existing_def
      get_or_create_def open_and_register_def unavailable_def reject_def give_def split: prod.split sum.split)

lemma held_budget: "op_preserves (held ls cfg b) (enforce_cache_budget H)"
proof -
  have u: "op_preserves (held ls cfg b) (usages H ns)" for ns
    by (induction ns) (auto intro!: op_preserves_then held_pieces simp: usage_of_def)
  have v: "op_preserves (held ls cfg b) (evict_until H limit used es)" for limit used es
  proof (induction es arbitrary: used)
    case (Cons e es)
    have "op_preserves (held ls cfg b) (op_then (acquire (fst e)) (\<lambda>_. op_then (on_collection (fst e) (clear_metadata_cache H)) (\<lambda>freed.
        evict_until H limit (used - freed) es)))"
      by (intro op_preserves_then held_pieces Cons.IH)
    then show ?case by (cases e) simp
  qed simp
  show ?thesis
  proof (rule op_preservesI)
    fix s :: "'a server" assume i: "held ls cfg b s"
    have "op_preserves (held ls cfg b) (op_then (usages H (loaded_names H s)) (\<lambda>(used, entries).
        if used > limit then evict_until H limit used (sort_by larger_metadata entries) else op_return ()))" for limit
      by (intro op_preserves_then u) (auto simp: v split: prod.split)
    from op_preservesD [OF this i] show "held ls cfg b (snd (enforce_cache_budget H s))"
      by (simp add: enforce_cache_budget_def i split: option.split)
  qed
qed

lemmas held_steps = op_preserves_then op_preserves_return held_pieces held_write_allowed held_get_collection held_budget

lemma held_insert: "op_preserves (held ls cfg b) (insert_locked H n r)"
  unfolding insert_locked_def insert_single_def insert_many_def build_single_entry_def build_batch_entries_def finish_insert_def
  by (auto intro!: held_steps split: option.split prod.split)

text \<open>An insert that answered leaves its collection loaded and free.\<close>

lemma insert_leaves_free:
  assumes "insert_vector H n r s = (Inr y, s')" and "hm_get (loaded s) n = Some c"
  shows "n \<notin> set (locked s') \<and> \<not> shutting_down s'"
proof -
  obtain p t where t: "insert_locked H n r (entered H n (s\<lparr>probes := p\<rparr>)) = (Inr y, t)"
    "s' = t\<lparr>locked := remove1 n (locked t)\<rparr>" "n \<notin> set (locked s)" "\<not> shutting_down s"
    by (rule insert_entered [OF assms])
  have "held (n # locked s) (app_conf s) False (entered H n (s\<lparr>probes := p\<rparr>))" using t(4) by (simp add: held_def)
  from op_preserves_Inr [OF held_insert this t(1)] show ?thesis using t(2,3) by (simp add: held_def)
qed

lemma keep_loaded: "op_preserves (\<lambda>s. hm_get (loaded s) n \<noteq> None) (on_collection m f)"
  by (auto simp: op_preserves_def on_collection_def split: option.split prod.split)

interpretation staying: server_invariant H "- {n}" "\<lambda>s. hm_get (loaded s) n \<noteq> None" for H :: "'b host" and n
  by unfold_locales (auto split: if_splits)

lemma op_then_resultE: "op_then m f s = (Inr y, t) \<Longrightarrow> (\<And>x u. f x u = (Inr y, t) \<Longrightarrow> P) \<Longrightarrow> P"
  by (auto simp: op_then_eq_Inr)

lemma insert_document_id:
  assumes "insert_document E d c = (Inr x, c')"
  shows "x = doc_id d"
proof -
  have i: "y = doc_id d" if "insert_internal E d c = (Inr y, c')" for y c c'
    using that unfolding insert_internal_def by (elim op_then_resultE) simp
  obtain c1 y c2 where "insert_internal E d c1 = (Inr y, c2)" "op_then (track_operation E) (\<lambda>_. op_return y) c2 = (Inr x, c')"
    using assms unfolding insert_document_def op_then_eq_Inr by blast
  then show ?thesis using i by (auto elim: op_then_resultE)
qed

lemma single_parts_Inr:
  assumes "single_parts r = Inr q" and "ir_text r = Some t" and "ir_vector r = Some v"
  shows "q = (if ir_normalize r then normalize_vector v else v, t, json_to_metadata (ir_metadata r))"
  using assms by (simp add: single_parts_def required_def and_then_eq_Inr)

definition answer_for :: "'b host \<Rightarrow> document option \<Rightarrow> vector_response outcome" where
  "answer_for H d =
     (case d of None \<Rightarrow> fail (Server (NotFound [Txt ''Vector not found''])) | Some d \<Rightarrow> vector_response_of H d)"

lemma get_answers:
  assumes "contents H s n D" and "hm_get (loaded s) n = Some c" and "n \<notin> set (locked s)" and "\<not> shutting_down s"
    and "parse_uuid H t = Some x"
  shows "fst (get_vector_service H n t s) = lift (answer_for H (D x))"
proof -
  have "stored (base H) c" "docs (base H) c = D" using assms(1,2) by (simp_all add: contents_def good_def)
  then have g: "get (base H) x c = Inr (D x)" using get_docs by metis
  have e: "get_existing_collection H n s = (Inr (), s)" "ensure_available s = (Inr (), s)"
    using assms(2,4) by simp_all
  obtain s1 where r: "read_locked H n m s = m s1" "loaded s1 = loaded s" for m :: "('a, vector_response) service"
    using assms(3) by (auto simp: read_locked_def acquire_def op_then_def lap_def track_def op_modify_def split: option.split)
  have p: "give (parse_id H t) s = (Inr x, s)" using assms(5) by simp
  have "get_vector_service H n t s = read_locked H n (op_then (view n (get (base H) x)) (\<lambda>r.
        give (case r of
            None \<Rightarrow> fail (Server (NotFound [Txt ''Vector not found'']))
          | Some d \<Rightarrow> vector_response_of H d))) s"
    by (simp add: get_vector_service_def op_then_Inr [where m = ensure_available, OF e(2)]
        op_then_Inr [where m = "get_existing_collection H n", OF e(1)] op_then_Inr [where m = "give (parse_id H t)", OF p])
  then show ?thesis
    by (simp add: r op_then_def view_def assms(2) g lift_def give_def answer_for_def)
qed

section \<open>A small server\<close>

text \<open>A host over the blob environment: ids are written in unary, every character may name.\<close>

definition blob_host :: "blob host" where
  "blob_host = \<lparr>base = blob_env,
     layout = \<lparr>text_capacity = length, array_capacity = length, value_size = 24\<rparr>,
     parse_uuid = (\<lambda>t. Some (of_nat (length t))), show_uuid = (\<lambda>x. replicate (unat x) CHR ''x''),
     new_uuid = (\<lambda>k. 5), alphanumeric = (\<lambda>_. True), chars_of = map of_char, lowercase = (\<lambda>t. t),
     name_order = (\<lambda>ns. ns), disk_free = (\<lambda>_. 0), disk_total = 0, elapsed_ns = (\<lambda>_. 0),
     load_app_config = (\<lambda>_. default_app_config), embed_call = None, pick_fault = hd\<rparr>"

lemma blob_host_simps [simp]:
  "base blob_host = blob_env" "parse_uuid blob_host t = Some (of_nat (length t))"
  "show_uuid blob_host x = replicate (unat x) CHR ''x''" "new_uuid blob_host k = 5" "name_order blob_host = (\<lambda>ns. ns)"
  "alphanumeric blob_host k = True" "chars_of blob_host = map of_char" "disk_free blob_host k = 0"
  "elapsed_ns blob_host k = 0"
  by (simp_all add: blob_host_def)

definition one_server :: "blob collection \<Rightarrow> cache_config \<Rightarrow> blob server" where
  "one_server c k = (app_state_new blob_host [] (default_app_config\<lparr>app_cache := k\<rparr>) None True)
     \<lparr>loaded := [(''c'', c)], trackers := [(''c'', latency_tracker_new)]\<rparr>"

lemma one_server_simps [simp]:
  "loaded (one_server c k) = [(''c'', c)]" "disks (one_server c k) = []" "locked (one_server c k) = []"
  "shutting_down (one_server c k) = False" "read_only (one_server c k) = False" "uuids (one_server c k) = 0"
  "disk_min_free_bytes (one_server c k) = None" "app_cache (app_conf (one_server c k)) = k"
  by (simp_all add: one_server_def app_state_new_def)

lemma one_server_registry [simp]: "registry_ok (one_server c k)"
  by (simp add: registry_ok_def one_server_def app_state_new_def hm_ok_def hm_keys_def)

definition unit_request :: insert_request where
  "unit_request = \<lparr>ir_vector = Some [f32_one], ir_vectors = None, ir_text = Some ''t'', ir_texts = None,
     ir_metadata = [], ir_metadata_list = [], ir_normalize = False\<rparr>"

lemma unit_request_parts: "single_parts unit_request = Inr ([f32_one], ''t'', [])"
  by (simp add: single_parts_def unit_request_def required_def validate_text_def validate_vector_def f32_one_def
      json_to_metadata_def)

lemma unit_request_command:
  "command_of blob_host 0 (InsertVectors ''c'' unit_request) = Some (''c'', Insert (unit_document 5))"
  using unit_request_parts by (simp add: unit_request_def unit_document_def)

text \<open>A fresh collection, as opened on the small configuration.\<close>

definition fresh :: "blob collection \<Rightarrow> bool" where
  "fresh c \<longleftrightarrow> rs_file (c_store c) = [] \<and> append_cursor (c_store c) = 0 \<and> rs_mmap (c_store c) = Some 0 \<and>
     c_config c = small_config \<and> (\<exists>i. c_vindex c = FlatIdx i) \<and> cm_dimensions (c_meta c) = None \<and> good blob_env c Map.empty"

lemma fresh_exists: "\<exists>c. fresh c"
proof -
  obtain c d where c: "open_collection blob_env ''c'' small_config 0 0 no_files = (Inr c, d)"
    "rs_file (c_store c) = []" "append_cursor (c_store c) = 0" "rs_mmap (c_store c) = Some 0"
    "c_config c = small_config" "\<exists>i. c_vindex c = FlatIdx i" "cm_dimensions (c_meta c) = None"
    using open_small by blast
  have "wal_enabled (cc_wal small_config)"
    by (simp add: small_config_def default_collection_config_def default_wal_config_def)
  then have "good blob_env c Map.empty"
    using open_recovers [OF codecs_ok_blob_env(1) _ no_files_recoverable c(1)] by (simp add: good_def)
  then show ?thesis using c by (auto simp: fresh_def)
qed

lemma fresh_contents: "fresh c \<Longrightarrow> contents blob_host (one_server c k) ''c'' Map.empty"
  by (simp add: contents_def hm_get_def fresh_def)

lemma fresh_fits: "fresh c \<Longrightarrow> fits blob_env c [unit_document 5] \<and> loggable blob_env (unit_document 5)"
  by (simp add: fits_def fresh_def max_u64_def loggable_def collection_bytes_def short_records_def)

lemma fresh_insert:
  assumes "fresh c"
  shows "\<exists>c'. insert_document blob_env (unit_document 5) (c\<lparr>c_ticks := i, c_draws := j\<rparr>) = (Inr 5, c')"
  using assms by (auto simp: fresh_def small_config_def default_collection_config_def intro!: insert_first)

text \<open>The single insert runs up to the budget of the caches.\<close>

lemma one_server_insert:
  assumes "fresh c"
  shows "\<exists>c' s1. insert_vector blob_host ''c'' unit_request (one_server c k)
      = release ''c'' (op_then (enforce_cache_budget blob_host) (\<lambda>_. op_return (InsertedOne (show_uuid blob_host 5) (latency_ms 0)))) s1
    \<and> locked s1 = [''c''] \<and> app_cache (app_conf s1) = k \<and> loaded s1 = [(''c'', c')] \<and> \<not> shutting_down s1"
proof -
  let ?s = "entered blob_host ''c'' (one_server c k)"
  have v: "valid_name blob_host ''c'' = Inr ()" by (simp add: valid_name_def validate_collection_name_def)
  have g: "hm_get (loaded (one_server c k)) ''c'' = Some c" by (simp add: hm_get_def)
  obtain c' where c': "insert_document blob_env (unit_document 5) (c\<lparr>c_ticks := ticks ?s, c_draws := draws ?s\<rparr>) = (Inr 5, c')"
    using fresh_insert [OF assms] by blast
  have e: "ensure_available (one_server c k) = (Inr (), one_server c k)"
    "ensure_write_allowed blob_host (one_server c k) = (Inr (), one_server c k)"
    "give (valid_name blob_host ''c'') (one_server c k) = (Inr (), one_server c k)"
    "get_or_create_collection blob_host ''c'' (one_server c k) = (Inr (), one_server c k)"
    using g by (simp_all add: v ensure_write_allowed_def)
  have i: "insert_vector blob_host ''c'' unit_request (one_server c k) = release ''c'' (insert_locked blob_host ''c'' unit_request) ?s"
    by (simp add: insert_vector_def op_then_def e write_locked_eq)
  have d: "build_single_entry blob_host unit_request ?s = (Inr (unit_document 5), ?s\<lparr>uuids := 1\<rparr>)"
    by (simp add: build_single_entry_def op_then_def give_def lift_def unit_request_parts document_with_metadata_def
        draw_uuid_def unit_document_def)
  let ?after = "?s\<lparr>uuids := 1, loaded := [(''c'', c')], ticks := c_ticks c', draws := c_draws c'\<rparr>"
  have o: "on_collection ''c'' (insert_document blob_env (unit_document 5)) (?s\<lparr>uuids := 1\<rparr>) = (Inr 5, ?after)"
  proof -
    have "hm_get (loaded (?s\<lparr>uuids := 1\<rparr>)) ''c'' = Some c" by (simp add: hm_get_def)
    then show ?thesis using c' by (simp add: on_collection_def lift_def) (simp add: hm_insert_def)
  qed
  let ?later = "snd (track ''c'' (record_insert (micros 0)) (?after\<lparr>laps := laps ?after + 1\<rparr>))"
  have ran: "insert_locked blob_host ''c'' unit_request ?s
      = op_then (enforce_cache_budget blob_host) (\<lambda>_. op_return (InsertedOne (show_uuid blob_host 5) (latency_ms 0))) ?later"
  proof -
    have "insert_locked blob_host ''c'' unit_request = insert_single blob_host ''c'' unit_request"
      by (simp add: insert_locked_def unit_request_def)
    moreover have "insert_single blob_host ''c'' unit_request ?s
        = finish_insert blob_host ''c'' (\<lambda>ns. InsertedOne (show_uuid blob_host 5) (latency_ms ns)) ?after"
      by (simp only: insert_single_def op_then_def d o blob_host_simps(1) prod.case sum.case)
    moreover have "finish_insert blob_host ''c'' (\<lambda>ns. InsertedOne (show_uuid blob_host 5) (latency_ms ns)) ?after
        = op_then (enforce_cache_budget blob_host) (\<lambda>_. op_return (InsertedOne (show_uuid blob_host 5) (latency_ms 0))) ?later"
    proof -
      have l: "lap blob_host ?after = (Inr 0, ?after\<lparr>laps := laps ?after + 1\<rparr>)" by (simp add: lap_def)
      have t: "track ''c'' (record_insert (micros 0)) (?after\<lparr>laps := laps ?after + 1\<rparr>) = (Inr (), ?later)"
        by (simp add: track_def)
      show ?thesis
        by (simp only: finish_insert_def op_then_Inr [where m = "lap blob_host", OF l]
            op_then_Inr [where m = "track ''c'' (record_insert (micros 0))", OF t])
    qed
    ultimately show ?thesis by simp
  qed
  have "locked ?later = [''c'']" "app_cache (app_conf ?later) = k" "loaded ?later = [(''c'', c')]" "\<not> shutting_down ?later"
    by (simp_all add: track_def split: option.split)
  moreover have "insert_vector blob_host ''c'' unit_request (one_server c k) = release ''c'' (op_then (enforce_cache_budget blob_host)
      (\<lambda>_. op_return (InsertedOne (show_uuid blob_host 5) (latency_ms 0)))) ?later"
    unfolding i release_def by (simp only: ran)
  ultimately show ?thesis by (intro exI conjI)
qed

section \<open>Properties\<close>


text \<open>
  C6. What was inserted is read back: after a single insert that answered, asking for the id in the
  answer returns the text of the request, its vector (normalized if so requested) and its metadata as
  JSON carries it.
\<close>

theorem inserted_is_read_back:
  assumes "codecs_ok (base H)" and "contents H s n D" and "hm_get (loaded s) n = Some c"
    and "ir_vector r = Some v" and "ir_text r = Some text" and "\<forall>x. parse_uuid H (show_uuid H x) = Some x"
    and "\<forall>d. command_of H (uuids s) (InsertVectors n r) = Some (n, Insert d) \<longrightarrow> fits (base H) c [d] \<and> loggable (base H) d"
    and "insert_vector H n r s = (Inr (InsertedOne t ms), s')"
  shows "fst (get_vector_service H n t s') = Inr \<lparr>vr_id = t,
    vr_vector = (if ir_normalize r then normalize_vector v else v), vr_text = text,
    vr_metadata = metadata_to_json (json_to_metadata (ir_metadata r))\<rparr>"
proof -
  obtain q d s1 x s2 u where q: "single_parts r = Inr q" "d = hd (documents_from H (uuids s) [q])"
    "loaded s1 = loaded s" "disks s1 = disks s" "ir_vectors r = None"
    and o: "on_collection n (insert_document (base H) d) s1 = (Inr x, s2)"
    and f: "finish_insert H n (\<lambda>ns. InsertedOne (show_uuid H x) (latency_ms ns)) s2 = (Inr (InsertedOne t ms), u)"
    and s': "s' = u\<lparr>locked := remove1 n (locked u)\<rparr>"
    by (rule single_insert_run [OF assms(8,3,4)])
  have qv: "q = (if ir_normalize r then normalize_vector v else v, text, json_to_metadata (ir_metadata r))"
    by (rule single_parts_Inr [OF q(1) assms(5,4)])
  have cmd: "command_of H (uuids s) (InsertVectors n r) = Some (n, Insert d)"
    by (simp add: assms(4) q(1,2,5))
  have x: "x = doc_id d"
    using o assms(3) q(3) insert_document_id by (auto simp: on_collection_def lift_def split: prod.splits sum.splits)
  have t: "t = show_uuid H x" using f by (auto simp: finish_insert_def op_then_eq_Inr)
  have st: "stands_for H n (Insert d) s s'"
    by (rule stands_forI [OF q(3,4) _ o f keep_finish(1)]) (simp_all add: s')
  obtain s3 s4 where r: "loaded s3 = loaded s" "disks s3 = disks s" "on_collection n (run (base H) (Insert d)) s3 = (Inr (), s4)"
    "\<And>D. contents H s4 n D \<Longrightarrow> contents H s' n D" using st unfolding stands_for_def by blast
  have "contents H s3 n D" using assms(2) contents_eq [of s3 n s H] r(1,2) by simp
  then have "contents H s4 n (meaning (Insert d) D)"
    by (rule contents_on_collection [OF assms(1) _ _ _ _ r(3)]) (use r(1) assms(3,7) cmd in auto)
  then have D: "contents H s' n (put_doc d D)" using r(4) by simp
  have "hm_get (loaded s2) n \<noteq> None"
    using op_preserves_Inr [OF keep_loaded _ o] assms(3) q(3) by simp
  moreover have "op_preserves (\<lambda>s. hm_get (loaded s) n \<noteq> None) (finish_insert H n answer)" for answer
    unfolding finish_insert_def by (intro staying.keep_steps)
  ultimately have "hm_get (loaded u) n \<noteq> None" using op_preserves_Inr [of "\<lambda>s. hm_get (loaded s) n \<noteq> None"] f by blast
  then obtain c' where c': "hm_get (loaded s') n = Some c'" by (auto simp: s')
  from get_answers [OF D c' _ _ assms(6) [rule_format, of x]] insert_leaves_free [OF assms(8,3)]
  show ?thesis
    by (simp add: t answer_for_def put_doc_def x q(2) qv vector_response_of_def try_get_vector_def get_vector_def lift_def)
qed


theorem inserted_is_read_back_witness:
  "\<exists>c s' t. insert_vector blob_host ''c'' unit_request (one_server c default_cache_config) = (Inr (InsertedOne t (latency_ms 0)), s')
     \<and> (\<exists>r. fst (get_vector_service blob_host ''c'' t s') = Inr r \<and> vr_vector r = [f32_one] \<and> vr_text r = ''t'')"
proof -
  obtain c where c: "fresh c" using fresh_exists by blast
  let ?s = "one_server c default_cache_config"
  obtain t s' where i: "insert_vector blob_host ''c'' unit_request ?s = (Inr (InsertedOne t (latency_ms 0)), s')"
    using one_server_insert [OF c, of default_cache_config]
    by (auto simp: release_def op_then_def enforce_cache_budget_def default_cache_config_def)
  have g: "hm_get (loaded ?s) ''c'' = Some c" by (simp add: hm_get_def)
  have p: "\<forall>x. parse_uuid blob_host (show_uuid blob_host x) = Some x" by simp
  have f: "\<forall>d. command_of blob_host (uuids ?s) (InsertVectors ''c'' unit_request) = Some (''c'', Insert d) \<longrightarrow>
      fits (base blob_host) c [d] \<and> loggable (base blob_host) d"
    using fresh_fits [OF c] unit_request_command by simp
  have v: "ir_vector unit_request = Some [f32_one]" "ir_text unit_request = Some ''t''" by (simp_all add: unit_request_def)
  have "fst (get_vector_service blob_host ''c'' t s') = Inr \<lparr>vr_id = t,
      vr_vector = (if ir_normalize unit_request then normalize_vector [f32_one] else [f32_one]), vr_text = ''t'',
      vr_metadata = metadata_to_json (json_to_metadata (ir_metadata unit_request))\<rparr>"
    using inserted_is_read_back [OF _ fresh_contents [OF c] g v p f i] by simp
  then have "\<exists>r. fst (get_vector_service blob_host ''c'' t s') = Inr r \<and> vr_vector r = [f32_one] \<and> vr_text r = ''t''"
    by (auto simp: unit_request_def)
  then show ?thesis using i by blast
qed

section \<open>Witnesses of the properties of all requests\<close>

theorem registry_consistent_witness:
  "hm_ok ([] :: (string, blob disk) hmap) \<and>
   registry_ok (served blob_host [CreateCollection ''c'', DeleteCollection ''c'', Metrics]
     (app_state_new blob_host [] default_app_config None True))"
  using registry_consistent [of "[]" blob_host] by (simp add: hm_ok_def hm_keys_def)


theorem writes_refused_witness:
  "\<exists>c m s'. fresh c \<and> serve blob_host (InsertVectors ''c'' unit_request) (one_server c default_cache_config\<lparr>read_only := True\<rparr>)
       = (Inl (Stopped (Failed (Server (ServiceUnavailable m)))), s') \<and> loaded s' = [(''c'', c)]
     \<and> (read_only (served blob_host [ReloadConfig] s') \<or> shutting_down (served blob_host [ReloadConfig] s'))"
proof -
  obtain c where c: "fresh c" using fresh_exists by blast
  let ?s = "one_server c default_cache_config\<lparr>read_only := True\<rparr>"
  have w: "is_write (InsertVectors ''c'' unit_request)" "read_only ?s \<or> shutting_down ?s \<or> low_space blob_host ?s" by simp_all
  obtain m s' where "serve blob_host (InsertVectors ''c'' unit_request) ?s = (Inl (Stopped (Failed (Server (ServiceUnavailable m)))), s')"
    "loaded s' = loaded ?s" "\<forall>reqs. read_only (served blob_host reqs s') \<or> shutting_down (served blob_host reqs s')"
    using writes_refused [OF w] by blast
  then show ?thesis using c by (intro exI [of _ c] exI [of _ m] exI [of _ s']) (simp del: serve.simps)
qed

end
