(* ===== verification/Service_Limits.thy ===== *)
theory Service_Limits
  imports Service_Spec
begin

text \<open>
  Where the services do not do what their callers expect: the budget of the caches is enforced while
  the handler holds a write lock, and readiness counts the files beside a collection as collections;
  and the life of a rebuild job.
\<close>

section \<open>Locks that are not released\<close>

lemma usages_free: "usages H ns s = (Inr u, s') \<Longrightarrow> s' = s \<and> set ns \<inter> set (locked s) = {}"
proof (induction ns arbitrary: u s')
  case (Cons n ns)
  obtain a b s1 where 1: "usage_of H n s = (Inr (a, b), s1)" and 2: "op_then (usages H ns) (\<lambda>(rest, entries).
      op_return (sat_add a rest, (n, b) # entries)) s1 = (Inr u, s')"
    using Cons.prems by (auto simp: op_then_eq_Inr)
  have f: "n \<notin> set (locked s)" "s1 = s"
    using 1 by (auto simp: usage_of_def op_then_eq_Inr acquire_def view_def split: if_splits option.splits)
  obtain v s2 where "usages H ns s = (Inr v, s2)" "s' = s2" using 2 f by (auto simp: op_then_eq_Inr)
  then show ?case using Cons.IH f(1) by auto
qed simp

text \<open>The budget, once configured, returns only when no loaded collection is locked.\<close>

definition budget_set :: "app_config \<Rightarrow> bool" where
  "budget_set cfg \<longleftrightarrow> cache_enabled (app_cache cfg) \<and> cache_max_bytes (app_cache cfg) \<noteq> None"

lemma budget_needs_locks:
  assumes "budget_set (app_conf s)" and "hash_order (name_order H)" and "hm_get (loaded s) n \<noteq> None"
    and "enforce_cache_budget H s = (Inr u, s')"
  shows "n \<notin> set (locked s)"
proof -
  obtain limit where "cache_max_bytes (app_cache (app_conf s)) = Some limit" using assms(1) by (auto simp: budget_set_def)
  then have "op_then (usages H (loaded_names H s)) (\<lambda>(used, entries).
      if used > limit then evict_until H limit used (sort_by larger_metadata entries) else op_return ()) s = (Inr u, s')"
    using assms(1,4) by (simp add: enforce_cache_budget_def budget_set_def)
  then obtain v s1 where "usages H (loaded_names H s) s = (Inr v, s1)" unfolding op_then_eq_Inr by blast
  from usages_free [OF this] have "n \<notin> set (locked s)" if "n \<in> set (loaded_names H s)" using that by blast
  moreover have "n \<in> set (loaded_names H s)"
    using assms(2,3) by (auto simp: loaded_names_def set_hm_iter dest: hm_get_key)
  ultimately show ?thesis by blast
qed

lemma get_or_create_loads:
  "get_or_create_collection H n s = (Inr u, s') \<Longrightarrow> hm_get (loaded s') n \<noteq> None"
  by (auto simp: get_or_create_collection_def get_or_create_def open_and_register_def unavailable_def reject_def
      give_def lift_def fail_def hm_contains_iff split: if_splits prod.splits sum.splits)

text \<open>The state of a handler that runs on its collection under the lock, with a budget set.\<close>

definition under_lock :: "string \<Rightarrow> app_config \<Rightarrow> 'b server \<Rightarrow> bool" where
  "under_lock n cfg s \<longleftrightarrow> n \<in> set (locked s) \<and> app_conf s = cfg \<and> hm_get (loaded s) n \<noteq> None"

lemma under_lockI:
  assumes "\<And>ls cfg b. op_preserves (held ls cfg b) m" and "op_preserves (\<lambda>s. hm_get (loaded s) n \<noteq> None) m"
    and "under_lock n cfg s" and "m s = (Inr x, t)"
  shows "under_lock n cfg t"
proof -
  have "held (locked s) (app_conf s) (shutting_down s) t"
    by (rule op_preserves_Inr [OF assms(1) _ assms(4)]) (simp add: held_def)
  moreover have "hm_get (loaded t) n \<noteq> None"
    by (rule op_preserves_Inr [OF assms(2) _ assms(4)]) (use assms(3) in \<open>simp add: under_lock_def\<close>)
  ultimately show ?thesis using assms(3) by (simp add: held_def under_lock_def)
qed

lemma finish_blocked:
  assumes "budget_set cfg" and "hash_order (name_order H)" and "under_lock n cfg s"
  shows "finish_insert H n answer s \<noteq> (Inr y, t)" and "finish_upsert H n x exists s \<noteq> (Inr z, t)"
proof -
  have "under_lock n cfg s2" if "lap H s = (Inr ns, s1)" "track n f s1 = (Inr u, s2)" for ns s1 f u s2
    using that assms(3) by (auto simp: lap_def track_def under_lock_def split: option.splits)
  then have no: False if "lap H s = (Inr ns, s1)" "track n f s1 = (Inr u, s2)" "enforce_cache_budget H s2 = (Inr v, s3)"
    for ns s1 f u s2 v s3
    using budget_needs_locks [OF _ assms(2) _ that(3), of n] that(1,2) assms(1) by (auto simp: under_lock_def)
  show "finish_insert H n answer s \<noteq> (Inr y, t)"
    unfolding finish_insert_def op_then_eq_Inr using no by blast
  show "finish_upsert H n x exists s \<noteq> (Inr z, t)"
    unfolding finish_upsert_def op_then_eq_Inr using no by blast
qed

lemma insert_locked_blocked:
  assumes "budget_set cfg" and "hash_order (name_order H)" and "under_lock n cfg s"
  shows "insert_locked H n r s \<noteq> (Inr y, t)"
proof
  assume i: "insert_locked H n r s = (Inr y, t)"
  have step: "under_lock n cfg s2" if "on_collection n m s1 = (Inr x, s2)" "under_lock n cfg s1" for m x s1 s2
    by (rule under_lockI [where m = "on_collection n m", OF held_pieces(4) keep_loaded that(2,1)])
  have "insert_single H n r s = (Inr y, t) \<or> insert_many H n r s = (Inr y, t)"
    using i by (auto simp: insert_locked_def invalid_def fail_def split: option.splits)
  then show False
  proof
    assume "insert_single H n r s = (Inr y, t)"
    then obtain d s1 x s2 where d: "build_single_entry H r s = (Inr d, s1)" "on_collection n (insert_document (base H) d) s1 = (Inr x, s2)"
      "finish_insert H n (\<lambda>ns. InsertedOne (show_uuid H x) (latency_ms ns)) s2 = (Inr y, t)"
      unfolding insert_single_def op_then_eq_Inr by blast
    have "under_lock n cfg s1"
      by (rule under_lockI [where m = "build_single_entry H r", OF _ _ assms(3) d(1)]; unfold build_single_entry_def)
        (auto intro!: held_steps staying.keep_steps simp del: not_None_eq split: prod.split)
    then show False using step [OF d(2)] finish_blocked(1) [OF assms(1,2)] d(3) by blast
  next
    assume "insert_many H n r s = (Inr y, t)"
    then obtain d s1 x s2 where d: "build_batch_entries H r s = (Inr d, s1)" "on_collection n (insert_batch (base H) d) s1 = (Inr x, s2)"
      "finish_insert H n (\<lambda>ns. InsertedMany (map (show_uuid H) x)
         (case ir_texts r of Some ts \<Rightarrow> length ts | None \<Rightarrow> 0) (latency_ms ns)) s2 = (Inr y, t)"
      unfolding insert_many_def op_then_eq_Inr by blast
    have "under_lock n cfg s1"
      by (rule under_lockI [where m = "build_batch_entries H r", OF _ _ assms(3) d(1)]; unfold build_batch_entries_def)
        (auto intro!: held_steps staying.keep_steps simp del: not_None_eq)
    then show False using step [OF d(2)] finish_blocked(1) [OF assms(1,2)] d(3) by blast
  qed
qed

lemma upsert_locked_blocked:
  assumes "budget_set cfg" and "hash_order (name_order H)" and "under_lock n cfg s"
  shows "upsert_locked H n r s \<noteq> (Inr y, t)"
proof
  assume i: "upsert_locked H n r s = (Inr y, t)"
  let ?f = "op_then (chosen_id H (ur_id r)) (\<lambda>x.
     op_then (view n (\<lambda>c. and_then (get (base H) x c) (\<lambda>d. Inr (d \<noteq> None)))) (\<lambda>exists.
     op_then (document_with_metadata H
       (if ur_normalize r then normalize_vector (ur_vector r) else ur_vector r) (ur_text r)
       (json_to_metadata (ur_metadata r))) (\<lambda>d.
     op_then (on_collection n (upsert (base H) (d\<lparr>doc_id := x\<rparr>))) (\<lambda>_.
     op_return (x, exists)))))"
  have "\<exists>x e u. ?f s = (Inr (x, e), u) \<and> finish_upsert H n x e u = (Inr y, t)"
    using i unfolding upsert_locked_def op_then_eq_Inr by (fastforce simp: op_then_eq_Inr)
  then obtain x e u where f: "?f s = (Inr (x, e), u)" "finish_upsert H n x e u = (Inr y, t)" by blast
  have "under_lock n cfg u"
    by (rule under_lockI [where m = ?f, OF _ _ assms(3) f(1)])
      (auto intro!: held_steps staying.keep_steps keep_loaded simp: chosen_id_def simp del: not_None_eq split: option.split)
  then show False using finish_blocked(2) [OF assms(1,2)] f(2) by blast
qed

section \<open>Waiting for ever\<close>

text \<open>A collection whose lock is held by a thread that will not come back.\<close>

definition barred :: "string \<Rightarrow> 'b server \<Rightarrow> bool" where
  "barred n s \<longleftrightarrow> n \<in> set (locked s) \<and> hm_get (loaded s) n \<noteq> None"

definition never_answers :: "string \<Rightarrow> ('b, 'a) service \<Rightarrow> bool" where
  "never_answers n m \<longleftrightarrow> (\<forall>s x t. barred n s \<longrightarrow> m s \<noteq> (Inr x, t))"

lemma never_answersD: "never_answers n m \<Longrightarrow> barred n s \<Longrightarrow> m s \<noteq> (Inr x, t)"
  by (simp add: never_answers_def)

lemma never_answers_acquire: "never_answers n (acquire n)"
  by (simp add: never_answers_def barred_def acquire_def)

lemma never_answers_first: "never_answers n m \<Longrightarrow> never_answers n (op_then m k)"
  unfolding never_answers_def op_then_eq_Inr by blast

lemma never_answers_later:
  "op_preserves (barred n) m \<Longrightarrow> (\<And>x. never_answers n (k x)) \<Longrightarrow> never_answers n (op_then m k)"
  unfolding never_answers_def op_then_eq_Inr by (metis op_preserves_Inr)

lemma never_answers_locked: "never_answers n (write_locked H n m)" "never_answers n (read_locked H n m)"
  unfolding write_locked_def read_locked_def by (rule never_answers_first [OF never_answers_acquire])+

lemma never_answers_give: "never_answers n (give (invalid t))"
  by (simp add: never_answers_def invalid_def fail_def)

lemma barred_keeps:
  fixes m :: "('b, 'a) service"
  assumes "\<And>ls cfg b. op_preserves (held ls cfg b) m" and "op_preserves (\<lambda>s. hm_get (loaded s) n \<noteq> None) m"
  shows "op_preserves (barred n) m"
proof (rule op_preservesI)
  fix s :: "'b server" assume i: "barred n s"
  have "held (locked s) (app_conf s) (shutting_down s) (snd (m s))"
    by (rule op_preservesD [OF assms(1)]) (simp add: held_def)
  moreover have "hm_get (loaded (snd (m s))) n \<noteq> None"
    by (rule op_preservesD [OF assms(2)]) (use i in \<open>simp add: barred_def\<close>)
  ultimately show "barred n (snd (m s))" using i by (simp add: barred_def held_def)
qed

lemma keep_loaded_get:
  "op_preserves (\<lambda>s. hm_get (loaded s) n \<noteq> None) (get_existing_collection H n)"
  "op_preserves (\<lambda>s. hm_get (loaded s) n \<noteq> None) (get_or_create_collection H n)"
  by (auto simp: op_preserves_def get_existing_collection_def get_or_create_collection_def get_existing_def
      get_or_create_def hm_contains_iff unavailable_def reject_def give_def)

lemma held_embedder:
  "op_preserves (held ls cfg b) (call_embedder H t)" "op_preserves (held ls cfg b) (embedder_configured H)"
  "op_preserves (held ls cfg b) (record_embed i j k)" "op_preserves (held ls cfg b) (embed_all H ms i toks ts)"
proof -
  show c: "op_preserves (held ls cfg b) (call_embedder H t)" for t
    by (auto simp: op_preserves_def held_def call_embedder_def unavailable_def reject_def give_def split: option.split)
  show "op_preserves (held ls cfg b) (embedder_configured H)"
    by (auto simp: op_preserves_def held_def embedder_configured_def unavailable_def reject_def give_def op_return_def split: option.split)
  show "op_preserves (held ls cfg b) (record_embed i j k)" by (simp add: op_preserves_def held_def record_embed_def)
  show "op_preserves (held ls cfg b) (embed_all H ms i toks ts)"
    by (induction ts arbitrary: i toks) (auto intro!: held_steps c split: prod.split)
qed

lemma barred_pieces:
  "op_preserves (barred n) ensure_available" "op_preserves (barred n) (ensure_write_allowed H)"
  "op_preserves (barred n) (give r)" "op_preserves (barred n) (get_existing_collection H n)"
  "op_preserves (barred n) (get_or_create_collection H n)" "op_preserves (barred n) (embedder_configured H)"
  "op_preserves (barred n) (call_embedder H t)" "op_preserves (barred n) (lap H)"
  "op_preserves (barred n) (record_embed i j k)" "op_preserves (barred n) (embed_all H ms l toks ts)"
  by (rule barred_keeps; (rule held_pieces held_write_allowed held_get_collection held_embedder
      staying.keep_pieces staying.keep_write_allowed keep_loaded_get staying.keep_embed_all))+

fun waits_for :: "string \<Rightarrow> request \<Rightarrow> bool" where
  "waits_for n (InsertVectors m _) = (m = n)"
| "waits_for n (GetVector m _) = (m = n)"
| "waits_for n (ListVectors m _) = (m = n)"
| "waits_for n (DeleteVector m _) = (m = n)"
| "waits_for n (DeleteVectors m _) = (m = n)"
| "waits_for n (SearchVectors m _) = (m = n)"
| "waits_for n (RangeSearch m _) = (m = n)"
| "waits_for n (UpsertVector m _) = (m = n)"
| "waits_for n (CreateCollection m) = (m = n)"
| "waits_for n (GetCollection m) = (m = n)"
| "waits_for n (CountCollection m) = (m = n)"
| "waits_for n (IndexStats m) = (m = n)"
| "waits_for n (CompactCollection m) = (m = n)"
| "waits_for n (FindDuplicates m _) = (m = n)"
| "waits_for n (EmbedText m _) = (m = n)"
| "waits_for n (SearchByText m _) = (m = n)"
| "waits_for n _ = False"

lemmas never_answers_steps = never_answers_later never_answers_locked never_answers_give barred_pieces
  never_answers_first [OF never_answers_acquire]

lemma never_answers_embed: "never_answers n (embed_text H n r)"
  unfolding embed_text_def embed_one_def embed_many_def
  by (auto intro!: never_answers_steps split: option.split prod.split)

lemma never_answers_requests:
  "never_answers n (insert_vector H n r)" "never_answers n (get_vector_service H n t)" "never_answers n (list_vectors H n q)"
  "never_answers n (delete_vector H n t)" "never_answers n (delete_vectors H n ts)" "never_answers n (search_vectors H n sr)"
  "never_answers n (range_search_vectors H n rr)" "never_answers n (upsert_vector H n u)" "never_answers n (create_collection H n)"
  "never_answers n (read_collection H n f)" "never_answers n (compact_collection H n)" "never_answers n (find_duplicates_service H n d)"
  "never_answers n (search_by_text H n st)"
  unfolding insert_vector_def get_vector_service_def list_vectors_def delete_vector_def delete_vectors_def search_vectors_def
    range_search_vectors_def upsert_vector_def create_collection_def read_collection_def compact_collection_def
    find_duplicates_service_def search_by_text_def
  by (intro never_answers_steps)+

lemma waits_never_answers:
  fixes H :: "'b host"
  assumes "waits_for n req"
  shows "never_answers n (serve H req)"
proof -
  have i: "never_answers n (ignore m)" if "never_answers n m" for m :: "('b, 'c) service"
    unfolding ignore_def by (rule never_answers_first [OF that])
  show ?thesis
    using assms by (cases req) (auto simp: get_collection_def count_collection_def index_stats_service_def
        intro!: i never_answers_requests never_answers_embed)
qed

text \<open>A handler that blocks keeps the lock it has.\<close>

lemma write_locked_stuck:
  assumes "write_locked H n m s = (Inl Deadlock, s')" and "n \<notin> set (locked s)" and "hm_get (loaded s) n \<noteq> None"
    and "\<And>ls cfg b. op_preserves (held ls cfg b) m" and "op_preserves (\<lambda>s. hm_get (loaded s) n \<noteq> None) m"
  shows "barred n s'"
proof -
  have "release n m (entered H n s) = (Inl Deadlock, s')" using assms(1,2) by (simp add: write_locked_eq)
  then have m: "m (entered H n s) = (Inl Deadlock, s')"
    by (auto simp: release_def split: prod.splits sum.splits halt.splits)
  have "barred n (entered H n s)" using assms(3) by (simp add: barred_def)
  from op_preserves_Inr [OF barred_keeps [OF assms(4,5)] this m] show ?thesis .
qed

lemma held_upsert: "op_preserves (held ls cfg b) (upsert_locked H n r)"
  unfolding upsert_locked_def finish_upsert_def chosen_id_def
  by (auto intro!: held_steps split: option.split)

lemma handlers_keep_loaded:
  "op_preserves (\<lambda>s. hm_get (loaded s) n \<noteq> None) (insert_locked H n r)"
  "op_preserves (\<lambda>s. hm_get (loaded s) n \<noteq> None) (upsert_locked H n u)"
  unfolding insert_locked_def insert_single_def insert_many_def build_single_entry_def build_batch_entries_def finish_insert_def
    upsert_locked_def finish_upsert_def chosen_id_def
  by (auto intro!: staying.keep_steps keep_loaded simp del: not_None_eq split: option.split)

text \<open>What a writing handler has been through before its lock; none of it blocks.\<close>

lemma prelude_no_deadlock:
  "ensure_available s \<noteq> (Inl Deadlock, t)" "ensure_write_allowed H s \<noteq> (Inl Deadlock, t)"
  "give r s \<noteq> (Inl Deadlock, t)" "get_or_create_collection H n s \<noteq> (Inl Deadlock, t)"
  by (auto simp: ensure_available_def ensure_write_allowed_def disk_free_bytes_def note_low_space_def op_then_def
      get_or_create_collection_def get_or_create_def open_and_register_def unavailable_def reject_def give_def lift_def
      split: option.splits sum.splits prod.splits if_splits)

definition reaches :: "'b host \<Rightarrow> string \<Rightarrow> ('b, 'a) service \<Rightarrow> 'b server \<Rightarrow> halt + 'a \<Rightarrow> 'b server \<Rightarrow> bool" where
  "reaches H n m s r s' \<longleftrightarrow>
     (\<exists>u. locked u = locked s \<and> app_conf u = app_conf s \<and> hm_get (loaded u) n \<noteq> None \<and> write_locked H n m u = (r, s'))"

lemma reaches_lock:
  assumes "op_then (get_or_create_collection H n) (\<lambda>_. write_locked H n m) s = (r, s')"
    and "r = Inl Deadlock \<or> (\<exists>y. r = Inr y)"
  shows "reaches H n m s r s'"
proof -
  have "\<exists>x u. get_or_create_collection H n s = (Inr x, u) \<and> write_locked H n m u = (r, s')"
    using assms by (auto simp: op_then_eq_Inl op_then_eq_Inr prelude_no_deadlock)
  then obtain x u where u: "get_or_create_collection H n s = (Inr x, u)" "write_locked H n m u = (r, s')" by blast
  have "held (locked s) (app_conf s) (shutting_down s) u"
    by (rule op_preserves_Inr [OF held_get_collection(2) _ u(1)]) (simp add: held_def)
  then show ?thesis using get_or_create_loads [OF u(1)] u(2) unfolding reaches_def held_def by blast
qed

lemma guards_pass:
  assumes "op_then ensure_available (\<lambda>_. op_then (ensure_write_allowed H) (\<lambda>_. m)) s = (r, s')"
    and "r = Inl Deadlock \<or> (\<exists>y. r = Inr y)"
  shows "\<exists>p. m (s\<lparr>probes := p\<rparr>) = (r, s')"
proof -
  have "\<exists>u. ensure_write_allowed H s = (Inr (), u) \<and> m u = (r, s')"
    using assms by (auto simp: op_then_eq_Inl op_then_eq_Inr prelude_no_deadlock)
  then show ?thesis using write_allowed_state by blast
qed

lemma checked: "op_then (give x) (\<lambda>_. m) s = (r, s') \<Longrightarrow> r = Inl Deadlock \<or> (\<exists>y. r = Inr y) \<Longrightarrow> m s = (r, s')"
  by (auto simp: op_then_eq_Inl op_then_eq_Inr prelude_no_deadlock)

lemma writers_reach:
  assumes "r = Inl Deadlock \<or> (\<exists>y. r = Inr y)"
  shows "insert_vector H n ir s = (r, s') \<Longrightarrow> reaches H n (insert_locked H n ir) s r s'"
    and "upsert_vector H n ur s = (q, s') \<Longrightarrow> q = Inl Deadlock \<or> (\<exists>y. q = Inr y) \<Longrightarrow> reaches H n (upsert_locked H n ur) s q s'"
proof -
  have p: "reaches H n m (s\<lparr>probes := p\<rparr>) r' s' = reaches H n m s r' s'" for m :: "('a, 'c) service" and p r'
    by (simp add: reaches_def)
  have q: "reaches H n m (s\<lparr>probes := p\<rparr>) r' s' = reaches H n m s r' s'" for m :: "('a, 'd) service" and p r'
    by (simp add: reaches_def)
  show "reaches H n (insert_locked H n ir) s r s'" if "insert_vector H n ir s = (r, s')"
    using guards_pass [OF that [unfolded insert_vector_def] assms] checked [OF _ assms] reaches_lock [OF _ assms] p
    by (metis reaches_def)
  show "reaches H n (upsert_locked H n ur) s q s'" if "upsert_vector H n ur s = (q, s')" "q = Inl Deadlock \<or> (\<exists>y. q = Inr y)"
    using guards_pass [OF that(1) [unfolded upsert_vector_def] that(2)] checked [OF _ that(2)] reaches_lock [OF _ that(2)] q
    by (metis reaches_def)
qed

lemma reaches_outcome:
  assumes "reaches H n m s r s'" and "\<And>t y t'. under_lock n (app_conf s) t \<Longrightarrow> m t \<noteq> (Inr y, t')"
    and "\<And>ls cfg b. op_preserves (held ls cfg b) m" and "op_preserves (\<lambda>s. hm_get (loaded s) n \<noteq> None) m"
    and "n \<notin> set (locked s)"
  shows "r \<noteq> Inr y" and "r = Inl Deadlock \<Longrightarrow> barred n s'"
proof -
  obtain u where u: "locked u = locked s" "app_conf u = app_conf s" "hm_get (loaded u) n \<noteq> None" "write_locked H n m u = (r, s')"
    using assms(1) unfolding reaches_def by blast
  have "under_lock n (app_conf s) (entered H n u)" using u(2,3) by (simp add: under_lock_def)
  then show "r \<noteq> Inr y" using write_locked_Inr [of H n m u y s'] u(4) assms(2) by blast
  show "barred n s'" if "r = Inl Deadlock"
    by (rule write_locked_stuck [where m = m, OF _ _ u(3) assms(3,4)]) (use u(1,4) assms(5) that in auto)
qed

lemma writes_never_answer:
  fixes H :: "'b host"
  assumes "budget_set (app_conf s)" and "hash_order (name_order H)"
  shows "insert_vector H n r s \<noteq> (Inr y, t)" and "upsert_vector H n u s \<noteq> (Inr z, t)"
proof -
  have run: "\<exists>u v. under_lock n (app_conf s) u \<and> m u = (Inr y, v)" if r: "reaches H n m s (Inr y) t"
    for m :: "('b, 'c) service" and y t
  proof -
    obtain u where u: "app_conf u = app_conf s" "hm_get (loaded u) n \<noteq> None" "write_locked H n m u = (Inr y, t)"
      using r unfolding reaches_def by blast
    have "under_lock n (app_conf s) (entered H n u)" using u(1,2) by (simp add: under_lock_def)
    then show ?thesis using write_locked_Inr [OF u(3)] by blast
  qed
  show "insert_vector H n r s \<noteq> (Inr y, t)"
  proof
    assume "insert_vector H n r s = (Inr y, t)"
    then have "reaches H n (insert_locked H n r) s (Inr y) t" by (rule writers_reach(1) [rotated]) blast
    from run [OF this] show False using insert_locked_blocked [OF assms] by blast
  qed
  show "upsert_vector H n u s \<noteq> (Inr z, t)"
  proof
    assume "upsert_vector H n u s = (Inr z, t)"
    then have "reaches H n (upsert_locked H n u) s (Inr z) t" by (rule writers_reach(2) [OF disjI1 [OF refl]]) blast
    from run [OF this] show False using upsert_locked_blocked [OF assms] by blast
  qed
qed

lemma ignore_Inr_iff: "fst (ignore m s) = Inr () \<longleftrightarrow> (\<exists>x t. m s = (Inr x, t))"
  by (auto simp: ignore_def op_then_def split: prod.split sum.split)

lemma writers_never_answer:
  assumes "budget_set (app_conf s)" and "hash_order (name_order H)"
    and "(\<exists>r. req = InsertVectors n r) \<or> (\<exists>r. req = UpsertVector n r)"
  shows "fst (serve H req s) \<noteq> Inr ()"
  using assms(3)
proof (elim disjE exE)
  fix r assume "req = InsertVectors n r"
  then show ?thesis using writes_never_answer(1) [OF assms(1,2)] by (simp add: ignore_Inr_iff)
next
  fix r assume "req = UpsertVector n r"
  then show ?thesis using writes_never_answer(2) [OF assms(1,2)] by (simp add: ignore_Inr_iff)
qed

lemma stuck_answer:
  assumes "barred n s'" and "waits_for n req"
  shows "fst (serve H req s') \<noteq> Inr ()"
  using waits_never_answers [OF assms(2), of H] assms(1) unfolding never_answers_def by (metis prod.collapse)

section \<open>Properties\<close>

text \<open>
  C24. With a budget configured for the caches no insert and no upsert ever answers with success: a
  handler that gets as far as the budget, after the documents are written, waits for the read lock of
  the collection whose write lock it holds itself. From then on the lock is held for good, and no
  request on that collection gets an answer any more.
\<close>

theorem budget_blocks_writes:
  assumes "hash_order (name_order H)" and "budget_set (app_conf s)" and "n \<notin> set (locked s)"
    and "(\<exists>r. req = InsertVectors n r) \<or> (\<exists>r. req = UpsertVector n r)" and "serve H req s = (res, s')"
  shows "res \<noteq> Inr () \<and>
    (res = Inl Deadlock \<longrightarrow> (\<forall>later. waits_for n later \<longrightarrow> fst (serve H later s') \<noteq> Inr ()))"
proof -
  have "res \<noteq> Inr () \<and> (res = Inl Deadlock \<longrightarrow> barred n s')"
    using assms(4)
  proof (elim disjE exE)
    fix r assume "req = InsertVectors n r"
    then have o: "ignore (insert_vector H n r) s = (res, s')" using assms(5) by simp
    then obtain q where i: "insert_vector H n r s = (q, s')" "res = Inl Deadlock \<Longrightarrow> q = Inl Deadlock"
      "res = Inr () \<Longrightarrow> \<exists>y. q = Inr y" by (auto simp: ignore_def op_then_def split: prod.splits sum.splits)
    have "q \<noteq> Inr y \<and> (q = Inl Deadlock \<longrightarrow> barred n s')" if "q = Inl Deadlock \<or> (\<exists>y. q = Inr y)" for y
      using reaches_outcome [OF writers_reach(1) [OF that i(1)] insert_locked_blocked [OF assms(2,1)] held_insert
          handlers_keep_loaded(1) assms(3)] by blast
    then show ?thesis using i(2,3) by blast
  next
    fix r assume "req = UpsertVector n r"
    then have o: "ignore (upsert_vector H n r) s = (res, s')" using assms(5) by simp
    then obtain q where i: "upsert_vector H n r s = (q, s')" "res = Inl Deadlock \<Longrightarrow> q = Inl Deadlock"
      "res = Inr () \<Longrightarrow> \<exists>y. q = Inr y" by (auto simp: ignore_def op_then_def split: prod.splits sum.splits)
    have "q \<noteq> Inr y \<and> (q = Inl Deadlock \<longrightarrow> barred n s')" if "q = Inl Deadlock \<or> (\<exists>y. q = Inr y)" for y
      using reaches_outcome [OF writers_reach(2) [OF disjI1 [OF refl] i(1) that] upsert_locked_blocked [OF assms(2,1)] held_upsert
          handlers_keep_loaded(2) assms(3)] by blast
    then show ?thesis using i(2,3) by blast
  qed
  then show ?thesis using stuck_answer by blast
qed

theorem budget_blocks_writes_witness:
  "\<exists>c s'. serve blob_host (InsertVectors ''c'' unit_request) (one_server c (default_cache_config\<lparr>cache_max_bytes := Some 1000\<rparr>))
       = (Inl Deadlock, s') \<and> (\<exists>c'. loaded s' = [(''c'', c')])
     \<and> fst (serve blob_host (CountCollection ''c'') s') \<noteq> Inr ()"
proof -
  obtain c where c: "fresh c" using fresh_exists by blast
  let ?k = "default_cache_config\<lparr>cache_max_bytes := Some 1000\<rparr>"
  obtain c' s1 where i: "insert_vector blob_host ''c'' unit_request (one_server c ?k)
      = release ''c'' (op_then (enforce_cache_budget blob_host) (\<lambda>_. op_return (InsertedOne (show_uuid blob_host 5) (latency_ms 0)))) s1"
    and s1: "locked s1 = [''c'']" "app_cache (app_conf s1) = ?k" "loaded s1 = [(''c'', c')]"
    using one_server_insert [OF c, of ?k] by blast
  have b: "enforce_cache_budget blob_host s1 = (Inl Deadlock, s1)"
    using s1 by (simp add: enforce_cache_budget_def default_cache_config_def loaded_names_def hm_iter_def hm_keys_def
        op_then_def usage_of_def acquire_def)
  have "serve blob_host (InsertVectors ''c'' unit_request) (one_server c ?k) = (Inl Deadlock, s1)"
    by (simp add: ignore_def op_then_def i release_def b)
  moreover have "\<forall>later. waits_for ''c'' later \<longrightarrow> fst (serve blob_host later s1) \<noteq> Inr ()"
    using budget_blocks_writes [OF _ _ _ _ calculation, of "''c''"]
    by (simp add: budget_set_def default_cache_config_def hash_order_def)
  then have "fst (serve blob_host (CountCollection ''c'') s1) \<noteq> Inr ()"
    using waits_for.simps(11) [of "''c''" "''c''"] by blast
  ultimately show ?thesis using s1(3) by blast
qed

lemma with_age_frame: "with_age H n f s = (Inr x, t) \<Longrightarrow> loaded t = loaded s"
  by (auto simp: with_age_def op_then_eq_Inr view_def checkpoint_age_def server_clock_def split: option.splits)

lemma each_health_frame: "each_health H ns s = (Inr xs, t) \<Longrightarrow> loaded t = loaded s \<and> length xs = length ns"
proof (induction ns arbitrary: s xs)
  case (Cons n ns)
  obtain x s1 ys where 1: "read_locked H n (with_age H n (health_of n)) s = (Inr x, s1)"
    and 2: "each_health H ns s1 = (Inr ys, t)" "xs = x # ys"
    using Cons.prems by (auto simp: op_then_eq_Inr)
  have "loaded s1 = loaded s"
    using 1 by (auto simp: read_locked_def op_then_eq_Inr acquire_def lap_def track_def dest!: with_age_frame
        split: if_splits option.splits)
  then show ?case using Cons.IH [OF 2(1)] 2(2) by simp
qed simp

lemma set_hash_order: "hash_order ord \<Longrightarrow> set (ord xs) = set xs"
  unfolding hash_order_def by (metis set_mset_mset)

lemma side_file_stem: "suffix \<in> set (side_files d) \<Longrightarrow> CHR ''.'' \<in> set (file_stem (n @ ''.db'' @ suffix))"
  by (auto simp: side_files_def file_stem_def split: if_splits)


lemma open_small_logs:
  "\<exists>c d. open_collection blob_env ''c'' small_config 0 0 no_files = (Inr c, d) \<and> wal_lines (wal (c_checkpoint c)) \<noteq> []"
  by (simp add: open_collection_def no_files_def load_index_def Let_def load_metadata_def
      load_vector_index_def small_config_def default_collection_config_def default_wal_config_def
      load_wal_meta_def opened_wal_def replay_def wal_new_def ensure_header_def store_open_def
      initial_size_def default_memory_config_def ensure_file_size_def next_append_offset_def
      finish_open_def rebuild_vector_cache_def collect_documents_def hm_iter_def hm_keys_def
      op_then_apply create_index_def default_index_config_def default_auto_index_def
      opened_metadata_def collection_metadata_new_def wal_version_def replay_lines.simps(2) checkpoint_manager_new_def)


section \<open>Rebuild jobs\<close>

lemma attempt_fault: "attempt m c = (Inr (Inl e), c') \<Longrightarrow> e \<noteq> Panicked"
  by (auto simp: attempt_def split: prod.splits sum.splits fault.splits)

definition settled :: "rebuild_job \<Rightarrow> nat \<Rightarrow> bool" where
  "settled job now \<longleftrightarrow> started_at job = now \<and> finished_at job \<noteq> None \<and>
     (job_status job = Completed \<and> job_error job = None \<or> job_status job = Failed_rebuild \<and> job_error job \<noteq> None)"

lemma finished_settled: "e \<noteq> Inl Panicked \<Longrightarrow> settled (finished_job start finish ns e) start"
  by (auto simp: settled_def finished_job_def split: sum.split fault.split)

lemma rebuild_task_run:
  assumes "run_rebuild_task H n start s = (r, t)"
  shows "rebuild_tasks t = rebuild_tasks s \<and>
    (case r of
       Inr _ \<Rightarrow> \<exists>job. hm_get (rebuild_jobs t) n = Some job \<and> settled job start
     | Inl _ \<Rightarrow> rebuild_jobs t = rebuild_jobs s)"
proof (cases "acquire n s")
  case (Pair a s1)
  then have s1: "s1 = s" by (simp add: acquire_def split: if_splits)
  show ?thesis
  proof (cases a)
    case (Inl e)
    then show ?thesis using assms Pair s1 by (auto simp: run_rebuild_task_def op_then_def)
  next
    case (Inr u)
    obtain b s2 where o: "on_collection n (attempt (rebuild_index (base H))) s = (b, s2)" by fastforce
    have s2: "rebuild_tasks s2 = rebuild_tasks s" "rebuild_jobs s2 = rebuild_jobs s"
      using o by (auto simp: on_collection_def split: option.splits prod.splits)
    show ?thesis
    proof (cases b)
      case (Inl e)
      then show ?thesis using assms Pair Inr s1 o s2 by (auto simp: run_rebuild_task_def op_then_def)
    next
      case (Inr e)
      have "e \<noteq> Inl Panicked"
        using o Inr attempt_fault by (fastforce simp: on_collection_def lift_def split: option.splits prod.splits sum.splits)
      then show ?thesis using assms Pair \<open>a = Inr u\<close> Inr s1 o s2 finished_settled
        by (auto simp: run_rebuild_task_def op_then_def server_clock_def lap_def set_job_def)
    qed
  qed
qed



end
