(* ===== verification/Service_Liveness.thy ===== *)
theory Service_Liveness
  imports Service_Limits
begin

text \<open>
  Without a byte budget for the caches no handler ever waits for ever: every request, in every
  order, comes back, with an answer or an error, and leaves no lock behind. Together with
  \<open>budget_blocks_writes\<close> this places the only deadlock of the services.
\<close>

section \<open>Calm operations\<close>

text \<open>An operation that, started with the locks \<open>ls\<close> and no budget, comes back with the same locks.\<close>

definition at_rest :: "string list \<Rightarrow> 'b server \<Rightarrow> bool" where
  "at_rest ls s \<longleftrightarrow> locked s = ls \<and> \<not> budget_set (app_conf s)"

definition calm :: "string list \<Rightarrow> ('b, 'a) service \<Rightarrow> bool" where
  "calm ls m \<longleftrightarrow> (\<forall>s. at_rest ls s \<longrightarrow> fst (m s) \<noteq> Inl Deadlock \<and> at_rest ls (snd (m s)))"

lemma calmI: "(\<And>s. at_rest ls s \<Longrightarrow> fst (m s) \<noteq> Inl Deadlock \<and> at_rest ls (snd (m s))) \<Longrightarrow> calm ls m"
  by (simp add: calm_def)

lemma calmD: "calm ls m \<Longrightarrow> at_rest ls s \<Longrightarrow> fst (m s) \<noteq> Inl Deadlock \<and> at_rest ls (snd (m s))"
  by (simp add: calm_def)

lemma calm_return: "calm ls (op_return x)"
  by (simp add: calm_def)

lemma calm_then:
  assumes "calm ls m" and "\<And>x. calm ls (k x)"
  shows "calm ls (op_then m k)"
proof (rule calmI)
  fix s :: "'a server" assume r: "at_rest ls s"
  obtain y t where m: "m s = (y, t)" by fastforce
  have "y \<noteq> Inl Deadlock" and t: "at_rest ls t" using calmD [OF assms(1) r] m by simp_all
  then show "fst (op_then m k s) \<noteq> Inl Deadlock \<and> at_rest ls (snd (op_then m k s))"
    using calmD [OF assms(2) t] m by (cases y) (simp_all add: op_then_def)
qed

lemma calm_modify: "(\<And>s. at_rest ls s \<Longrightarrow> at_rest ls (f s)) \<Longrightarrow> calm ls (op_modify f)"
  by (simp add: calm_def)

lemma calm_Pair [simp]: "r \<noteq> Inl Deadlock \<Longrightarrow> calm ls (Pair r)"
  by (simp add: calm_def)

lemma calm_at: "(\<And>s. calm ls (m s)) \<Longrightarrow> calm ls (\<lambda>s. m s s)"
  by (simp add: calm_def)

lemma calm_answer: "(\<And>s. r s \<noteq> Inl Deadlock) \<Longrightarrow> calm ls (\<lambda>s. (r s, s))"
  by (simp add: calm_def)

lemma calm_for: "(\<And>x. calm ls (f x)) \<Longrightarrow> calm ls (op_for f xs)"
  by (induction xs) (auto intro: calm_return calm_then)

lemma lift_no_deadlock [simp]: "lift r \<noteq> Inl Deadlock"
  by (simp add: lift_def split: sum.split)

lemma calm_pieces:
  "calm ls (give r)" "calm ls (reject e)" "calm ls (unavailable t)" "calm ls (lap H)" "calm ls (server_clock H)"
  "calm ls (draw_uuid H)" "calm ls (track n f)" "calm ls ensure_available" "calm ls (view n g)"
  "calm ls (disk_free_bytes H)" "calm ls (set_job n j)" "calm ls (record_embed a b c)" "calm ls (call_embedder H t)"
  "calm ls (embedder_configured H)" "calm ls (note_low_space i k)" "calm ls (remove_files n)" "calm ls initiate_shutdown"
  "calm ls (on_collection n m)" "calm ls (get_existing_collection H n)" "calm ls (get_or_create_collection H n)"
  by (auto simp: calm_def at_rest_def give_def reject_def unavailable_def lap_def server_clock_def draw_uuid_def track_def
      ensure_available_def view_def disk_free_bytes_def set_job_def record_embed_def call_embedder_def
      embedder_configured_def note_low_space_def remove_files_def initiate_shutdown_def on_collection_def
      get_existing_collection_def get_or_create_collection_def get_existing_def get_or_create_def open_and_register_def
      split: option.split prod.split sum.split)

lemma calm_acquire: "n \<notin> set ls \<Longrightarrow> calm ls (acquire n)"
  by (auto simp: calm_def at_rest_def acquire_def)

lemma calm_write_allowed: "calm ls (ensure_write_allowed H)"
proof -
  have "calm ls (op_then (disk_free_bytes H) (note_low_space m))" for m
    by (intro calm_then calm_pieces)
  then show ?thesis
    using calm_pieces(3) [of ls] unfolding ensure_write_allowed_def
    by (auto simp: calm_def split: option.split)
qed

lemma calm_budget: "calm ls (enforce_cache_budget H)"
  by (auto simp: calm_def at_rest_def enforce_cache_budget_def budget_set_def split: option.split)

text \<open>A lock that is free is taken and given back.\<close>

lemma calm_release:
  assumes "calm (n # ls) m" and "at_rest (n # ls) s"
  shows "fst (release n m s) \<noteq> Inl Deadlock \<and> at_rest ls (snd (release n m s))"
proof -
  obtain y t where m: "m s = (y, t)" by fastforce
  have "y \<noteq> Inl Deadlock" "at_rest (n # ls) t" using calmD [OF assms] m by simp_all
  then have "release n m s = (y, t\<lparr>locked := ls\<rparr>)" "\<not> budget_set (app_conf t)"
    by (auto simp: release_def m at_rest_def split: sum.split halt.split)
  then show ?thesis using \<open>y \<noteq> Inl Deadlock\<close> by (simp add: at_rest_def)
qed

lemma calm_write_locked:
  assumes "n \<notin> set ls" and "calm (n # ls) m"
  shows "calm ls (write_locked H n m)"
proof (rule calmI)
  fix s :: "'a server" assume r: "at_rest ls s"
  have "calm (n # ls) (op_then (lap H) (\<lambda>ns. op_then (track n (record_lock_write (micros ns))) (\<lambda>_. m)))"
    by (intro calm_then calm_pieces assms(2))
  moreover have "at_rest (n # ls) (s\<lparr>locked := n # locked s\<rparr>)" using r by (simp add: at_rest_def)
  moreover have "write_locked H n m s
      = release n (op_then (lap H) (\<lambda>ns. op_then (track n (record_lock_write (micros ns))) (\<lambda>_. m))) (s\<lparr>locked := n # locked s\<rparr>)"
    using r assms(1) by (simp add: write_locked_def op_then_def acquire_def at_rest_def)
  ultimately show "fst (write_locked H n m s) \<noteq> Inl Deadlock \<and> at_rest ls (snd (write_locked H n m s))"
    using calm_release by metis
qed

lemma calm_read_locked: "n \<notin> set ls \<Longrightarrow> calm ls m \<Longrightarrow> calm ls (read_locked H n m)"
  unfolding read_locked_def by (intro calm_then calm_pieces calm_acquire)

lemmas calm_steps = calm_then calm_return calm_pieces calm_write_allowed calm_budget calm_write_locked calm_read_locked
  calm_acquire calm_modify

lemma calm_documents: "calm ls (document_with_metadata H v t m)" "calm ls (build_documents H ps)"
proof -
  show d: "calm ls (document_with_metadata H v t m)" for v t m
    unfolding document_with_metadata_def by (intro calm_steps)
  show "calm ls (build_documents H ps)"
    by (induction ps) (auto intro!: calm_then calm_return d)
qed

section \<open>The services\<close>

lemma calm_writes:
  "calm [] (insert_vector H n r)" "calm [] (upsert_vector H n u)" "calm [] (delete_vector H n t)"
  "calm [] (delete_vectors H n ts)" "calm [] (compact_collection H n)"
  unfolding insert_vector_def insert_locked_def insert_single_def insert_many_def finish_insert_def build_single_entry_def
    build_batch_entries_def upsert_vector_def upsert_locked_def chosen_id_def finish_upsert_def delete_vector_def
    delete_vectors_def finish_delete_def compact_collection_def
  by (auto intro!: calm_steps calm_documents split: option.split)

lemma calm_searching:
  "calm ls (search_settings H n r)" "calm ls (timed_search H n f)" "calm ls (search_one_vector H n q k metric cfg r)"
  unfolding search_one_vector_def search_settings_def timed_search_def by (auto intro!: calm_steps)

lemma calm_reads:
  "calm [] (get_vector_service H n t)" "calm [] (list_vectors H n q)" "calm [] (search_vectors H n sr)"
  "calm [] (range_search_vectors H n rr)" "calm [] (create_collection H n)" "calm [] (read_collection H n f)"
  "calm [] (find_duplicates_service H n dr)"
  unfolding get_vector_service_def list_vectors_def search_vectors_def range_search_vectors_def create_collection_def
    read_collection_def find_duplicates_service_def
  by (auto intro!: calm_steps calm_searching split: option.split prod.split)

lemma calm_embed_all: "calm ls (embed_all H ms i toks ts)"
  by (induction ts arbitrary: i toks) (auto intro!: calm_steps calm_documents split: prod.split)

lemma calm_embedding: "calm [] (embed_text H n r)" "calm [] (search_by_text H n q)"
  unfolding embed_text_def embed_one_def embed_many_def search_by_text_def
  by (auto intro!: calm_steps calm_documents calm_embed_all calm_searching split: option.split prod.split)

lemma calm_delete_collection: "calm [] (delete_collection H n)"
proof -
  have "calm [] (remove_collection n)"
    by (auto simp: calm_def at_rest_def remove_collection_def split: option.split)
  then show ?thesis unfolding delete_collection_def by (auto intro!: calm_steps)
qed

lemma calm_with_age: "calm ls (with_age H n f)"
  unfolding with_age_def checkpoint_age_def by (auto intro!: calm_steps split: option.split)

lemma calm_each:
  "calm [] (each_collection H f ns)" "calm [] (each_metrics H ns)" "calm [] (each_health H ns)"
proof -
  show "calm [] (each_collection H f ns)" by (induction ns) (auto intro!: calm_steps)
  show "calm [] (each_health H ns)" by (induction ns) (auto intro!: calm_steps calm_with_age)
  have "calm [] (\<lambda>s. with_age H n (metrics_of (trackers s) n) s)" for n
    by (rule calm_at) (rule calm_with_age)
  then show "calm [] (each_metrics H ns)" by (induction ns) (auto intro!: calm_then calm_return calm_read_locked)
qed

lemma calm_admin:
  "calm [] (list_collections H)" "calm [] (metrics H)" "calm [] (readyz H)" "calm [] config_status"
  "calm [] (rebuild_index_status n)" "calm [] (rebuild_index_service H n)" "calm [] (run_rebuild_task H n start)"
  "calm [] (checkpoint_all H)"
proof -
  show "calm [] (list_collections H)"
    unfolding list_collections_def by (rule calm_then, rule calm_pieces, rule calm_at, rule calm_each)
  show "calm [] (metrics H)"
    unfolding metrics_def by (rule calm_at, rule calm_then, rule calm_each, rule calm_answer, simp)
  show "calm [] (readyz H)"
    unfolding readyz_def
    by (rule calm_then, rule calm_pieces, rule calm_at, rule calm_then, rule calm_each, rule calm_then, rule calm_pieces,
        rule calm_answer, simp)
  show "calm [] config_status"
    unfolding config_status_def by (rule calm_then, rule calm_pieces, rule calm_answer, simp)
  show "calm [] (rebuild_index_status n)"
    unfolding rebuild_index_status_def
    by (rule calm_then, rule calm_pieces) (auto simp: calm_def reject_def give_def split: option.split)
  show "calm [] (rebuild_index_service H n)"
    unfolding rebuild_index_service_def by (auto intro!: calm_steps simp: at_rest_def)
  show "calm [] (run_rebuild_task H n start)"
    unfolding run_rebuild_task_def by (auto intro!: calm_steps)
  show "calm [] (checkpoint_all H)"
    unfolding checkpoint_all_def
    by (rule calm_at, rule calm_for, rule calm_then, rule calm_acquire, simp, rule calm_then, rule calm_pieces, rule calm_pieces)
qed

lemma calm_next_task: "calm [] (next_task H)"
proof (rule calmI)
  fix s :: "'a server" assume r: "at_rest [] s"
  show "fst (next_task H s) \<noteq> Inl Deadlock \<and> at_rest [] (snd (next_task H s))"
  proof (cases "rebuild_tasks s")
    case Nil
    then show ?thesis using r by (simp add: next_task_def)
  next
    case (Cons t ts)
    then show ?thesis
      using calmD [OF calm_admin(7), of "s\<lparr>rebuild_tasks := ts\<rparr>"] r by (simp add: next_task_def at_rest_def split: prod.split)
  qed
qed

lemma calm_reload:
  assumes "\<And>k. \<not> budget_set (load_app_config H k)"
  shows "calm ls (reload_config_service H)"
  unfolding reload_config_service_def reload_config_def
  by (rule calm_then, rule calm_pieces, rule calm_then, rule calm_then, rule calm_modify, simp add: at_rest_def assms,
      rule calm_then, rule calm_pieces, rule calm_then, rule calm_modify, simp add: at_rest_def, rule calm_answer, simp,
      rule calm_answer, simp)

lemma calm_ignore: "calm ls m \<Longrightarrow> calm ls (ignore m)"
  unfolding ignore_def by (intro calm_then calm_return)

lemma calm_read_services:
  "calm [] (get_collection H n)" "calm [] (count_collection H n)" "calm [] (index_stats_service H n)"
  unfolding get_collection_def count_collection_def index_stats_service_def by (rule calm_reads)+

lemmas calm_ignored = calm_writes [THEN calm_ignore] calm_reads [THEN calm_ignore] calm_read_services [THEN calm_ignore]
  calm_embedding [THEN calm_ignore] calm_delete_collection [THEN calm_ignore] calm_admin [THEN calm_ignore]

lemma calm_serve:
  fixes H :: "'b host"
  assumes "\<And>k. \<not> budget_set (load_app_config H k)"
  shows "calm [] (serve H req)"
proof -
  have "calm [] (ignore (reload_config_service H))" by (rule calm_ignore, rule calm_reload, rule assms)
  then show ?thesis
    by (cases req; simp only: serve.simps) (rule calm_ignored calm_admin calm_next_task calm_pieces)+
qed

lemma served_at_rest:
  fixes H :: "'b host"
  assumes "\<And>k. \<not> budget_set (load_app_config H k)" and "at_rest [] s"
  shows "at_rest [] (served H reqs s)"
  using assms(2) by (rule served_keeps [where P = "at_rest []", rotated]) (simp add: calmD [OF calm_serve [OF assms(1)]])

section \<open>Properties\<close>

text \<open>
  C7. A server whose configuration never sets a byte budget for the caches answers every request:
  after any sequence of requests, failing ones, reloads, rebuild tasks and checkpoints included, no
  lock is held and the next request, whatever it is, comes back with a result or an error.
\<close>

theorem every_request_answered:
  assumes "\<forall>k. \<not> budget_set (load_app_config H k)" and "\<not> budget_set cfg"
  shows "locked (served H reqs (app_state_new H ds cfg min_free readonly)) = [] \<and>
    fst (serve H req (served H reqs (app_state_new H ds cfg min_free readonly))) \<noteq> Inl Deadlock"
proof -
  have n: "\<not> budget_set (load_app_config H k)" for k using assms(1) by blast
  have "at_rest [] (app_state_new H ds cfg min_free readonly)" using assms(2) by (simp add: at_rest_def app_state_new_def)
  from served_at_rest [OF n this] have "at_rest [] (served H reqs (app_state_new H ds cfg min_free readonly))" .
  then show ?thesis using calmD [OF calm_serve [OF n]] by (simp add: at_rest_def)
qed

lemma default_has_no_budget: "\<not> budget_set default_app_config"
  by (simp add: budget_set_def default_app_config_def default_cache_config_def)

text \<open>The defaults, which have no budget.\<close>

theorem every_request_answered_witness:
  "fst (serve (blob_host\<lparr>load_app_config := (\<lambda>_. default_app_config)\<rparr>) (InsertVectors ''c'' unit_request)
     (served (blob_host\<lparr>load_app_config := (\<lambda>_. default_app_config)\<rparr>) [CreateCollection ''c'', ReloadConfig, CheckpointAll]
       (app_state_new (blob_host\<lparr>load_app_config := (\<lambda>_. default_app_config)\<rparr>) [] default_app_config None True))) \<noteq> Inl Deadlock"
  by (rule conjunct2 [OF every_request_answered]) (simp_all add: default_has_no_budget)

end
