(* ===== verification/Http.thy ===== *)
theory Http
  imports Service_Liveness
begin

text \<open>
  The HTTP interface: the routes of \<^verbatim>\<open>src/src/server/routes.rs\<close>, the handlers of
  \<^verbatim>\<open>src/src/server/handlers/\<close> and the request id of
  \<^verbatim>\<open>request_id.rs\<close>. Axum and tower are modelled by their documented behaviour: a path
  is matched segment by segment, extractors run in the order of the handler's arguments, a layer wraps
  the routes and the fallback that are there when it is added. The readers serde generates for the
  requests, percent decoding and the files of the dashboard are parameters; the bodies of the
  answers are kept as values. Headers are those this program adds.
\<close>

section \<open>Requests and answers\<close>

datatype http_method = GET | HEAD | POST | DELETE | OPTIONS | Other_method string

record http_request =
  hq_method :: http_method
  hq_path :: string
  hq_query :: "string option"
  hq_content_type :: "string option"
  hq_body :: string

datatype payload =
    Health_body string string
  | Version_body string "string option"
  | Readyz_body readyz_response
  | Metrics_body metrics_response
  | Collections_body "collection_info list"
  | Collection_body collection_info
  | Deleted_body bool
  | Count_body nat
  | Index_stats_body index_stats
  | Rebuild_body bool "f32 option"
  | Rebuild_status_body rebuild_job
  | Duplicates_body "duplicate_pair list"
  | Config_body app_config nat
  | Insert_body insert_results
  | Vector_body vector_response
  | Vectors_body "vector_response list"
  | Delete_results_body delete_results
  | Search_results_body search_results
  | Search_body search_response
  | Upsert_body upsert_response
  | Embed_body embed_results
  | Error_body error_response
  | Rejected_body string
  | No_body

record http_response =
  hr_status :: nat
  hr_headers :: "(string \<times> string) list"
  hr_payload :: payload

text \<open>A handler that panics takes its connection with it; one that waits for ever never answers.\<close>

datatype http_answer = Answered http_response | Dropped | Unanswered

record rejection =
  rej_status :: nat
  rej_text :: string

type_synonym 'a reader = "string \<Rightarrow> rejection + 'a"

record wire =
  percent_decode :: "string \<Rightarrow> string option"
  is_json :: "string \<Rightarrow> bool"
  read_create :: "string reader"
  read_duplicates :: "duplicate_request reader"
  read_insert :: "insert_request reader"
  read_delete :: "string list reader"
  read_search :: "search_request reader"
  read_upsert :: "upsert_request reader"
  read_range :: "range_request reader"
  read_embed :: "embed_request reader"
  read_text_search :: "text_search_request reader"
  read_list_query :: "string option \<Rightarrow> rejection + list_query"
  dashboard :: "http_request \<Rightarrow> http_response"
  git_commit :: "string option"

section \<open>Routes\<close>

datatype segment = Lit string | Param

datatype endpoint =
    At_health | At_health_embeddings | At_readyz | At_metrics | At_version
  | At_list_collections | At_create_collection | At_get_collection | At_delete_collection
  | At_count | At_index_stats | At_rebuild | At_rebuild_status | At_compact | At_duplicates
  | At_config | At_reload
  | At_list_vectors | At_insert | At_delete_vectors | At_get_vector | At_delete_vector
  | At_upsert | At_search | At_range | At_embed | At_text_search

definition of_collection :: "string list \<Rightarrow> segment list" where
  "of_collection ts = [Lit ''collections'', Param] @ map Lit ts"

definition api_router :: "(segment list \<times> http_method \<times> endpoint) list" where
  "api_router =
    [([Lit ''health''], GET, At_health),
     ([Lit ''health'', Lit ''embeddings''], GET, At_health_embeddings),
     ([Lit ''readyz''], GET, At_readyz),
     ([Lit ''metrics''], GET, At_metrics),
     ([Lit ''version''], GET, At_version),
     ([Lit ''collections''], GET, At_list_collections),
     ([Lit ''collections''], POST, At_create_collection),
     (of_collection [], GET, At_get_collection),
     (of_collection [], DELETE, At_delete_collection),
     (of_collection [''count''], GET, At_count),
     (of_collection [''index'', ''stats''], GET, At_index_stats),
     (of_collection [''index'', ''rebuild''], POST, At_rebuild),
     (of_collection [''index'', ''rebuild'', ''status''], GET, At_rebuild_status),
     (of_collection [''compact''], POST, At_compact),
     (of_collection [''duplicates''], POST, At_duplicates),
     ([Lit ''config''], GET, At_config),
     ([Lit ''config'', Lit ''reload''], POST, At_reload),
     (of_collection [''vectors''], GET, At_list_vectors),
     (of_collection [''vectors''], POST, At_insert),
     (of_collection [''vectors''], DELETE, At_delete_vectors),
     (of_collection [''vectors''] @ [Param], GET, At_get_vector),
     (of_collection [''vectors''] @ [Param], DELETE, At_delete_vector),
     (of_collection [''upsert''], POST, At_upsert),
     (of_collection [''search''], POST, At_search),
     (of_collection [''search'', ''range''], POST, At_range),
     (of_collection [''embed''], POST, At_embed),
     (of_collection [''search'', ''text''], POST, At_text_search)]"

definition nest :: "string list \<Rightarrow> (segment list \<times> http_method \<times> endpoint) list \<Rightarrow> (segment list \<times> http_method \<times> endpoint) list" where
  "nest prefix routes = map (\<lambda>(ps, m, e). (map Lit prefix @ ps, m, e)) routes"

definition all_routes :: "(segment list \<times> http_method \<times> endpoint) list" where
  "all_routes = nest [''api''] api_router @ nest [''api'', ''v1''] api_router"

fun split_slash :: "string \<Rightarrow> string list" where
  "split_slash [] = [[]]"
| "split_slash (c # cs) =
     (if c = CHR ''/'' then [] # split_slash cs
      else
        (case split_slash cs of
           x # xs \<Rightarrow> (c # x) # xs
         | [] \<Rightarrow> [[c]]))"

definition path_segments :: "string \<Rightarrow> string list" where
  "path_segments p = (case p of c # cs \<Rightarrow> if c = CHR ''/'' then split_slash cs else [] | [] \<Rightarrow> [])"

text \<open>A parameter takes a whole segment, never an empty one.\<close>

fun match_segments :: "segment list \<Rightarrow> string list \<Rightarrow> string list option" where
  "match_segments [] [] = Some []"
| "match_segments (Lit t # ps) (x # xs) = (if t = x then match_segments ps xs else None)"
| "match_segments (Param # ps) (x # xs) = (if x = [] then None else map_option ((#) x) (match_segments ps xs))"
| "match_segments _ _ = None"

datatype route = Route endpoint "string list" | Wrong_method | No_route

text \<open>\<^verbatim>\<open>get\<close> routes serve \<^verbatim>\<open>HEAD\<close> too.\<close>

definition serves_method :: "http_method \<Rightarrow> http_method \<Rightarrow> bool" where
  "serves_method route_method m \<longleftrightarrow> m = route_method \<or> m = HEAD \<and> route_method = GET"

definition find_route :: "http_method \<Rightarrow> string list \<Rightarrow> route" where
  "find_route m xs =
     (case filter (\<lambda>(ps, _). match_segments ps xs \<noteq> None) all_routes of
        [] \<Rightarrow> No_route
      | rows \<Rightarrow>
          (case List.find (\<lambda>(_, m', _). serves_method m' m) rows of
             None \<Rightarrow> Wrong_method
           | Some (ps, _, e) \<Rightarrow> Route e (case match_segments ps xs of Some args \<Rightarrow> args | None \<Rightarrow> [])))"

section \<open>Extractors\<close>

definition body_limit :: nat where
  "body_limit = 100 * 1024 * 1024"

definition json_body :: "wire \<Rightarrow> 'a reader \<Rightarrow> http_request \<Rightarrow> rejection + 'a" where
  "json_body W read q =
     (case hq_content_type q of
        None \<Rightarrow> Inl \<lparr>rej_status = 415, rej_text = ''Expected request with `Content-Type: application/json`''\<rparr>
      | Some t \<Rightarrow>
          if \<not> is_json W t
          then Inl \<lparr>rej_status = 415, rej_text = ''Expected request with `Content-Type: application/json`''\<rparr>
          else if body_limit < length (hq_body q)
          then Inl \<lparr>rej_status = 413, rej_text = ''Failed to buffer the request body: length limit exceeded''\<rparr>
          else read (hq_body q))"

definition path_params :: "wire \<Rightarrow> string list \<Rightarrow> rejection + string list" where
  "path_params W args =
     collect_results (\<lambda>t. case percent_decode W t of
         None \<Rightarrow> Inl \<lparr>rej_status = 400, rej_text = ''Invalid URL: Invalid UTF-8 in path parameter''\<rparr>
       | Some u \<Rightarrow> Inr u) args"

definition plain :: "nat \<Rightarrow> payload \<Rightarrow> http_response" where
  "plain status p = \<lparr>hr_status = status, hr_headers = [], hr_payload = p\<rparr>"

definition reject_request :: "rejection \<Rightarrow> http_response" where
  "reject_request r = plain (rej_status r) (Rejected_body (rej_text r))"

type_synonym 'b handler = "'b server \<Rightarrow> http_answer \<times> 'b server"

definition answer_now :: "http_response \<Rightarrow> 'b handler" where
  "answer_now r s = (Answered r, s)"

text \<open>What a handler needs of the request; a rejection answers at once.\<close>

definition extracted :: "rejection + 'a \<Rightarrow> ('a \<Rightarrow> 'b handler) \<Rightarrow> 'b handler" where
  "extracted x h = (case x of Inl r \<Rightarrow> answer_now (reject_request r) | Inr y \<Rightarrow> h y)"

text \<open>\<^verbatim>\<open>Result<Json<T>>\<close> as a response.\<close>

definition respond :: "('a \<Rightarrow> payload) \<Rightarrow> ('b, 'a) service \<Rightarrow> 'b handler" where
  "respond body m = (\<lambda>s.
     case m s of
       (Inr x, s') \<Rightarrow> (Answered (plain 200 (body x)), s')
     | (Inl (Stopped (Failed e)), s') \<Rightarrow> (Answered (plain (resp_status (into_response e)) (Error_body (into_response e))), s')
     | (Inl (Stopped Panicked), s') \<Rightarrow> (Dropped, s')
     | (Inl Deadlock, s') \<Rightarrow> (Unanswered, s'))"

definition with_collection :: "wire \<Rightarrow> string list \<Rightarrow> (string \<Rightarrow> 'b handler) \<Rightarrow> 'b handler" where
  "with_collection W args h = extracted (path_params W args) (\<lambda>ts. h (hd ts))"

definition with_vector :: "wire \<Rightarrow> string list \<Rightarrow> (string \<Rightarrow> string \<Rightarrow> 'b handler) \<Rightarrow> 'b handler" where
  "with_vector W args h = extracted (path_params W args) (\<lambda>ts. h (hd ts) (hd (tl ts)))"

section \<open>Handlers\<close>

definition health :: "'b handler" where
  "health = answer_now (plain 200 (Health_body ''ok'' ''0.2.0''))"

definition health_embeddings :: "'b host \<Rightarrow> 'b handler" where
  "health_embeddings H = answer_now (plain (if embeddings_available H then 200 else 503) No_body)"

definition version :: "wire \<Rightarrow> 'b handler" where
  "version W = answer_now (plain 200 (Version_body ''0.2.0'' (git_commit W)))"

definition readyz_handler :: "'b host \<Rightarrow> 'b handler" where
  "readyz_handler H = respond Readyz_body (readyz H)"

definition metrics_handler :: "'b host \<Rightarrow> 'b handler" where
  "metrics_handler H = respond Metrics_body (metrics H)"

definition list_collections_handler :: "'b host \<Rightarrow> 'b handler" where
  "list_collections_handler H = respond Collections_body (list_collections H)"

definition create_collection_handler :: "wire \<Rightarrow> 'b host \<Rightarrow> http_request \<Rightarrow> 'b handler" where
  "create_collection_handler W H q =
     extracted (json_body W (read_create W) q) (\<lambda>n. respond Collection_body (create_collection H n))"

definition get_collection_handler :: "wire \<Rightarrow> 'b host \<Rightarrow> string list \<Rightarrow> 'b handler" where
  "get_collection_handler W H args = with_collection W args (\<lambda>n. respond Collection_body (get_collection H n))"

definition delete_collection_handler :: "wire \<Rightarrow> 'b host \<Rightarrow> string list \<Rightarrow> 'b handler" where
  "delete_collection_handler W H args = with_collection W args (\<lambda>n. respond Deleted_body (delete_collection H n))"

definition collection_count_handler :: "wire \<Rightarrow> 'b host \<Rightarrow> string list \<Rightarrow> 'b handler" where
  "collection_count_handler W H args = with_collection W args (\<lambda>n. respond Count_body (count_collection H n))"

definition index_stats_handler :: "wire \<Rightarrow> 'b host \<Rightarrow> string list \<Rightarrow> 'b handler" where
  "index_stats_handler W H args = with_collection W args (\<lambda>n. respond Index_stats_body (index_stats_service H n))"

definition rebuild_index_handler :: "wire \<Rightarrow> 'b host \<Rightarrow> string list \<Rightarrow> 'b handler" where
  "rebuild_index_handler W H args =
     with_collection W args (\<lambda>n. respond (\<lambda>_. Rebuild_body True None) (rebuild_index_service H n))"

definition rebuild_index_status_handler :: "wire \<Rightarrow> string list \<Rightarrow> 'b handler" where
  "rebuild_index_status_handler W args = with_collection W args (\<lambda>n. respond Rebuild_status_body (rebuild_index_status n))"

definition compact_collection_handler :: "wire \<Rightarrow> 'b host \<Rightarrow> string list \<Rightarrow> 'b handler" where
  "compact_collection_handler W H args =
     with_collection W args (\<lambda>n. respond (Rebuild_body True) (compact_collection H n))"

definition find_duplicates_handler :: "wire \<Rightarrow> 'b host \<Rightarrow> http_request \<Rightarrow> string list \<Rightarrow> 'b handler" where
  "find_duplicates_handler W H q args =
     with_collection W args (\<lambda>n. extracted (json_body W (read_duplicates W) q) (\<lambda>r.
     respond Duplicates_body (find_duplicates_service H n r)))"

definition config_status_handler :: "'b handler" where
  "config_status_handler = respond (\<lambda>(cfg, t). Config_body cfg t) config_status"

definition reload_config_handler :: "'b host \<Rightarrow> 'b handler" where
  "reload_config_handler H = respond (\<lambda>(cfg, t). Config_body cfg t) (reload_config_service H)"

definition insert_vector_handler :: "wire \<Rightarrow> 'b host \<Rightarrow> http_request \<Rightarrow> string list \<Rightarrow> 'b handler" where
  "insert_vector_handler W H q args =
     with_collection W args (\<lambda>n. extracted (json_body W (read_insert W) q) (\<lambda>r.
     respond Insert_body (insert_vector H n r)))"

definition get_vector_handler :: "wire \<Rightarrow> 'b host \<Rightarrow> string list \<Rightarrow> 'b handler" where
  "get_vector_handler W H args = with_vector W args (\<lambda>n t. respond Vector_body (get_vector_service H n t))"

definition list_vectors_handler :: "wire \<Rightarrow> 'b host \<Rightarrow> http_request \<Rightarrow> string list \<Rightarrow> 'b handler" where
  "list_vectors_handler W H q args =
     with_collection W args (\<lambda>n. extracted (read_list_query W (hq_query q)) (\<lambda>r.
     respond Vectors_body (list_vectors H n r)))"

definition delete_vector_handler :: "wire \<Rightarrow> 'b host \<Rightarrow> string list \<Rightarrow> 'b handler" where
  "delete_vector_handler W H args = with_vector W args (\<lambda>n t. respond Delete_results_body (delete_vector H n t))"

definition delete_vectors_handler :: "wire \<Rightarrow> 'b host \<Rightarrow> http_request \<Rightarrow> string list \<Rightarrow> 'b handler" where
  "delete_vectors_handler W H q args =
     with_collection W args (\<lambda>n. extracted (json_body W (read_delete W) q) (\<lambda>ts.
     respond Delete_results_body (delete_vectors H n ts)))"

definition search_vectors_handler :: "wire \<Rightarrow> 'b host \<Rightarrow> http_request \<Rightarrow> string list \<Rightarrow> 'b handler" where
  "search_vectors_handler W H q args =
     with_collection W args (\<lambda>n. extracted (json_body W (read_search W) q) (\<lambda>r.
     respond Search_results_body (search_vectors H n r)))"

definition upsert_vector_handler :: "wire \<Rightarrow> 'b host \<Rightarrow> http_request \<Rightarrow> string list \<Rightarrow> 'b handler" where
  "upsert_vector_handler W H q args =
     with_collection W args (\<lambda>n. extracted (json_body W (read_upsert W) q) (\<lambda>r.
     respond Upsert_body (upsert_vector H n r)))"

definition range_search_handler :: "wire \<Rightarrow> 'b host \<Rightarrow> http_request \<Rightarrow> string list \<Rightarrow> 'b handler" where
  "range_search_handler W H q args =
     with_collection W args (\<lambda>n. extracted (json_body W (read_range W) q) (\<lambda>r.
     respond Search_body (range_search_vectors H n r)))"

definition embed_text_handler :: "wire \<Rightarrow> 'b host \<Rightarrow> http_request \<Rightarrow> string list \<Rightarrow> 'b handler" where
  "embed_text_handler W H q args =
     with_collection W args (\<lambda>n. extracted (json_body W (read_embed W) q) (\<lambda>r.
     respond Embed_body (embed_text H n r)))"

definition search_by_text_handler :: "wire \<Rightarrow> 'b host \<Rightarrow> http_request \<Rightarrow> string list \<Rightarrow> 'b handler" where
  "search_by_text_handler W H q args =
     with_collection W args (\<lambda>n. extracted (json_body W (read_text_search W) q) (\<lambda>r.
     respond Search_body (search_by_text H n r)))"

fun handle :: "wire \<Rightarrow> 'b host \<Rightarrow> http_request \<Rightarrow> string list \<Rightarrow> endpoint \<Rightarrow> 'b handler" where
  "handle W H q args At_health = health"
| "handle W H q args At_health_embeddings = health_embeddings H"
| "handle W H q args At_readyz = readyz_handler H"
| "handle W H q args At_metrics = metrics_handler H"
| "handle W H q args At_version = version W"
| "handle W H q args At_list_collections = list_collections_handler H"
| "handle W H q args At_create_collection = create_collection_handler W H q"
| "handle W H q args At_get_collection = get_collection_handler W H args"
| "handle W H q args At_delete_collection = delete_collection_handler W H args"
| "handle W H q args At_count = collection_count_handler W H args"
| "handle W H q args At_index_stats = index_stats_handler W H args"
| "handle W H q args At_rebuild = rebuild_index_handler W H args"
| "handle W H q args At_rebuild_status = rebuild_index_status_handler W args"
| "handle W H q args At_compact = compact_collection_handler W H args"
| "handle W H q args At_duplicates = find_duplicates_handler W H q args"
| "handle W H q args At_config = config_status_handler"
| "handle W H q args At_reload = reload_config_handler H"
| "handle W H q args At_list_vectors = list_vectors_handler W H q args"
| "handle W H q args At_insert = insert_vector_handler W H q args"
| "handle W H q args At_delete_vectors = delete_vectors_handler W H q args"
| "handle W H q args At_get_vector = get_vector_handler W H args"
| "handle W H q args At_delete_vector = delete_vector_handler W H args"
| "handle W H q args At_upsert = upsert_vector_handler W H q args"
| "handle W H q args At_search = search_vectors_handler W H q args"
| "handle W H q args At_range = range_search_handler W H q args"
| "handle W H q args At_embed = embed_text_handler W H q args"
| "handle W H q args At_text_search = search_by_text_handler W H q args"

section \<open>The router\<close>

fun on_answer :: "(http_response \<Rightarrow> http_response) \<Rightarrow> http_answer \<Rightarrow> http_answer" where
  "on_answer f (Answered r) = Answered (f r)"
| "on_answer f a = a"

definition layer :: "(http_response \<Rightarrow> http_response) \<Rightarrow> 'b handler \<Rightarrow> 'b handler" where
  "layer f h = (\<lambda>s. case h s of (a, s') \<Rightarrow> (on_answer f a, s'))"

definition add_header :: "string \<Rightarrow> string \<Rightarrow> http_response \<Rightarrow> http_response" where
  "add_header name v r = r\<lparr>hr_headers := hr_headers r @ [(name, v)]\<rparr>"

definition header_if_not_present :: "string \<Rightarrow> string \<Rightarrow> http_response \<Rightarrow> http_response" where
  "header_if_not_present name v r = (if name \<in> fst ` set (hr_headers r) then r else add_header name v r)"

text \<open>CORS answers every \<^verbatim>\<open>OPTIONS\<close> request itself.\<close>

definition cors :: "http_method \<Rightarrow> 'b handler \<Rightarrow> 'b handler" where
  "cors m h =
     layer (add_header ''access-control-allow-origin'' ''*'')
       (if m = OPTIONS
        then answer_now (add_header ''access-control-allow-headers'' ''*''
          (add_header ''access-control-allow-methods'' ''*'' (plain 200 No_body)))
        else h)"

definition set_header :: "string \<Rightarrow> string \<Rightarrow> http_response \<Rightarrow> http_response" where
  "set_header name v r = r\<lparr>hr_headers := filter (\<lambda>h. fst h \<noteq> name) (hr_headers r) @ [(name, v)]\<rparr>"

definition assign_request_id :: "string \<Rightarrow> 'b handler \<Rightarrow> 'b handler" where
  "assign_request_id rid h = layer (set_header ''x-request-id'' rid) h"

definition without_body :: "http_response \<Rightarrow> http_response" where
  "without_body r = r\<lparr>hr_payload := No_body\<rparr>"

definition routed :: "wire \<Rightarrow> 'b host \<Rightarrow> http_request \<Rightarrow> route \<Rightarrow> 'b handler" where
  "routed W H q r =
     (case r of
        Route e args \<Rightarrow> layer (if hq_method q = HEAD then without_body else (\<lambda>x. x)) (handle W H q args e)
      | _ \<Rightarrow> answer_now (plain 405 No_body))"

text \<open>
  The layers go round the routes; the dashboard is the fallback, set after the layers, so they do
  not go round it. \<open>rid\<close> is the fresh request id.
\<close>

definition create_router :: "wire \<Rightarrow> 'b host \<Rightarrow> string \<Rightarrow> http_request \<Rightarrow> 'b handler" where
  "create_router W H rid q =
     (case find_route (hq_method q) (path_segments (hq_path q)) of
        No_route \<Rightarrow> answer_now (dashboard W q)
      | r \<Rightarrow>
          layer (header_if_not_present ''x-frame-options'' ''DENY'')
            (layer (header_if_not_present ''x-content-type-options'' ''nosniff'')
              (layer (header_if_not_present ''x-api-version'' ''v1'')
                (assign_request_id rid
                  (cors (hq_method q) (routed W H q r))))))"

section \<open>Routing\<close>

text \<open>Two patterns that some path matches both.\<close>

fun overlap :: "segment list \<Rightarrow> segment list \<Rightarrow> bool" where
  "overlap [] [] = True"
| "overlap (Lit a # ps) (Lit b # qs) = (a = b \<and> overlap ps qs)"
| "overlap (Lit a # ps) (Param # qs) = (a \<noteq> [] \<and> overlap ps qs)"
| "overlap (Param # ps) (Lit b # qs) = (b \<noteq> [] \<and> overlap ps qs)"
| "overlap (Param # ps) (Param # qs) = overlap ps qs"
| "overlap _ _ = False"

lemma match_Cons:
  "match_segments (p # ps) xs = Some a \<longleftrightarrow> (\<exists>x ys b. xs = x # ys \<and> match_segments ps ys = Some b \<and>
     (case p of Lit t \<Rightarrow> t = x \<and> a = b | Param \<Rightarrow> x \<noteq> [] \<and> a = x # b))"
  by (cases p; cases xs) auto

lemma match_Nil: "match_segments [] xs = Some a \<longleftrightarrow> xs = [] \<and> a = []"
  by (cases xs) auto

lemma both_match: "match_segments ps xs = Some a \<Longrightarrow> match_segments qs xs = Some b \<Longrightarrow> overlap ps qs"
proof (induction ps arbitrary: qs xs a b)
  case Nil
  then show ?case by (cases qs) (auto simp: match_Nil match_Cons)
next
  case (Cons p ps)
  then obtain x ys c where xs: "xs = x # ys" "match_segments ps ys = Some c" "case p of Lit t \<Rightarrow> t = x | Param \<Rightarrow> x \<noteq> []"
    by (cases p) (auto simp: match_Cons)
  then obtain q qs' d where qs: "qs = q # qs'" "match_segments qs' ys = Some d" "case q of Lit t \<Rightarrow> t = x | Param \<Rightarrow> x \<noteq> []"
    using Cons.prems(2) by (cases qs; cases "hd qs") (auto simp: match_Nil match_Cons)
  have "overlap ps qs'" by (rule Cons.IH [OF xs(2) qs(2)])
  then show ?case using xs(3) qs(1,3) by (cases p; cases q) auto
qed

lemma routes_disjoint:
  "list_all (\<lambda>(ps, m, e). list_all (\<lambda>(qs, n, f). overlap ps qs \<longrightarrow> ps = qs \<and> (m = n \<longrightarrow> e = f)) all_routes) all_routes"
  by code_simp

lemma route_methods: "list_all (\<lambda>(ps, m, e). m = GET \<or> m = POST \<or> m = DELETE) all_routes"
  by code_simp

lemma routes_agree:
  assumes "(ps, m, e) \<in> set all_routes" "match_segments ps xs = Some a"
    and "(qs, n, f) \<in> set all_routes" "match_segments qs xs = Some b"
  shows "ps = qs \<and> (m = n \<longrightarrow> e = f)"
  using routes_disjoint both_match [OF assms(2,4)] assms(1,3) unfolding list_all_iff by fast

lemma find_some: "List.find P xs = Some x \<Longrightarrow> x \<in> set xs \<and> P x"
  by (induction xs) (auto split: if_splits)

lemma find_none: "List.find P xs = None \<longleftrightarrow> (\<forall>x \<in> set xs. \<not> P x)"
  by (induction xs) auto

lemma find_route_sound:
  assumes "find_route m xs = Route e args"
  shows "\<exists>ps n. (ps, n, e) \<in> set all_routes \<and> match_segments ps xs = Some args \<and> serves_method n m"
proof -
  obtain ps n where f: "List.find (\<lambda>(_, m', _). serves_method m' m) (filter (\<lambda>(ps, _). match_segments ps xs \<noteq> None) all_routes)
      = Some (ps, n, e)" and a: "args = (case match_segments ps xs of Some args \<Rightarrow> args | None \<Rightarrow> [])"
    using assms by (auto simp: find_route_def split: list.splits option.splits)
  from find_some [OF f] a have "(ps, n, e) \<in> set all_routes \<and> match_segments ps xs = Some args \<and> serves_method n m" by auto
  then show ?thesis by blast
qed

lemma same_method: "(ps, n, e) \<in> set all_routes \<Longrightarrow> (qs, k, f) \<in> set all_routes \<Longrightarrow> serves_method n m \<Longrightarrow> serves_method k m \<Longrightarrow> n = k"
  using route_methods by (auto simp: list_all_iff serves_method_def)

lemma find_route_complete:
  assumes "(ps, n, e) \<in> set all_routes" and "match_segments ps xs = Some args" and "serves_method n m"
  shows "find_route m xs = Route e args"
proof -
  let ?rows = "filter (\<lambda>(ps, _). match_segments ps xs \<noteq> None) all_routes"
  have r: "(ps, n, e) \<in> set ?rows" using assms by simp
  then obtain row rows where rows: "?rows = row # rows" by (metis list.exhaust list.set_intros(1) in_set_conv_decomp append_is_Nil_conv list.distinct(1))
  obtain qs k f where f: "List.find (\<lambda>(_, m', _). serves_method m' m) ?rows = Some (qs, k, f)"
    using r assms(3) find_none [of "\<lambda>(_, m', _). serves_method m' m" ?rows] by (cases "List.find (\<lambda>(_, m', _). serves_method m' m) ?rows") auto
  obtain b where q: "(qs, k, f) \<in> set all_routes" "match_segments qs xs = Some b" "serves_method k m"
    using find_some [OF f] by auto
  have "qs = ps" "f = e"
    using routes_agree [OF assms(1,2) q(1,2)] same_method [OF assms(1) q(1) assms(3) q(3)] by auto
  then show ?thesis using f q(2) assms(2) unfolding find_route_def rows by simp
qed

section \<open>What a request asks for\<close>

definition ask :: "rejection + 'a \<Rightarrow> ('a \<Rightarrow> request option) \<Rightarrow> request option" where
  "ask x f = (case x of Inl _ \<Rightarrow> None | Inr y \<Rightarrow> f y)"

text \<open>The request to the services that a routed HTTP request stands for, if it gets that far.\<close>

fun asked_at :: "wire \<Rightarrow> http_request \<Rightarrow> string list \<Rightarrow> endpoint \<Rightarrow> request option" where
  "asked_at W q args At_health = None"
| "asked_at W q args At_health_embeddings = None"
| "asked_at W q args At_version = None"
| "asked_at W q args At_readyz = Some Readyz"
| "asked_at W q args At_metrics = Some Metrics"
| "asked_at W q args At_list_collections = Some ListCollections"
| "asked_at W q args At_create_collection = ask (json_body W (read_create W) q) (\<lambda>n. Some (CreateCollection n))"
| "asked_at W q args At_config = Some ConfigStatus"
| "asked_at W q args At_reload = Some ReloadConfig"
| "asked_at W q args e = ask (path_params W args) (\<lambda>ts.
     let n = hd ts; t = hd (tl ts) in
     (case e of
        At_get_collection \<Rightarrow> Some (GetCollection n)
      | At_delete_collection \<Rightarrow> Some (DeleteCollection n)
      | At_count \<Rightarrow> Some (CountCollection n)
      | At_index_stats \<Rightarrow> Some (IndexStats n)
      | At_rebuild \<Rightarrow> Some (RebuildIndex n)
      | At_rebuild_status \<Rightarrow> Some (RebuildStatus n)
      | At_compact \<Rightarrow> Some (CompactCollection n)
      | At_duplicates \<Rightarrow> ask (json_body W (read_duplicates W) q) (\<lambda>r. Some (FindDuplicates n r))
      | At_list_vectors \<Rightarrow> ask (read_list_query W (hq_query q)) (\<lambda>r. Some (ListVectors n r))
      | At_insert \<Rightarrow> ask (json_body W (read_insert W) q) (\<lambda>r. Some (InsertVectors n r))
      | At_delete_vectors \<Rightarrow> ask (json_body W (read_delete W) q) (\<lambda>r. Some (DeleteVectors n r))
      | At_get_vector \<Rightarrow> Some (GetVector n t)
      | At_delete_vector \<Rightarrow> Some (DeleteVector n t)
      | At_upsert \<Rightarrow> ask (json_body W (read_upsert W) q) (\<lambda>r. Some (UpsertVector n r))
      | At_search \<Rightarrow> ask (json_body W (read_search W) q) (\<lambda>r. Some (SearchVectors n r))
      | At_range \<Rightarrow> ask (json_body W (read_range W) q) (\<lambda>r. Some (RangeSearch n r))
      | At_embed \<Rightarrow> ask (json_body W (read_embed W) q) (\<lambda>r. Some (EmbedText n r))
      | At_text_search \<Rightarrow> ask (json_body W (read_text_search W) q) (\<lambda>r. Some (SearchByText n r))
      | _ \<Rightarrow> None))"

definition asked :: "wire \<Rightarrow> http_request \<Rightarrow> request option" where
  "asked W q =
     (case find_route (hq_method q) (path_segments (hq_path q)) of
        Route e args \<Rightarrow> asked_at W q args e
      | _ \<Rightarrow> None)"

text \<open>The answer for each way a service can end.\<close>

fun answered_as :: "halt + unit \<Rightarrow> http_answer \<Rightarrow> bool" where
  "answered_as (Inr ()) a = (\<exists>r. a = Answered r \<and> hr_status r = 200)"
| "answered_as (Inl (Stopped (Failed e))) a = (\<exists>r. a = Answered r \<and> hr_status r = status_code e)"
| "answered_as (Inl (Stopped Panicked)) a = (a = Dropped)"
| "answered_as (Inl Deadlock) a = (a = Unanswered)"

text \<open>A handler that passes a service's outcome and state on.\<close>

definition passes_on :: "('b, unit) service \<Rightarrow> 'b handler \<Rightarrow> bool" where
  "passes_on m h \<longleftrightarrow> (\<forall>s. answered_as (fst (m s)) (fst (h s)) \<and> snd (h s) = snd (m s))"

lemma status_of_response: "resp_status (into_response e) = status_code e"
  by (cases e) simp_all

lemma respond_passes_on: "passes_on (ignore m) (respond f m)"
  by (auto simp: passes_on_def ignore_def op_then_def respond_def plain_def status_of_response
      split: prod.split sum.split halt.split fault.split)

lemma ignore_unit: "ignore m = (m :: ('b, unit) service)"
  by (rule ext) (auto simp: ignore_def op_then_def split: prod.split sum.split)

lemma answered_layer: "(\<And>r. hr_status (f r) = hr_status r) \<Longrightarrow> answered_as x a \<Longrightarrow> answered_as x (on_answer f a)"
  by (cases "(x, a)" rule: answered_as.cases) auto

lemma layer_passes_on: "(\<And>r. hr_status (f r) = hr_status r) \<Longrightarrow> passes_on m h \<Longrightarrow> passes_on m (layer f h)"
  using answered_layer [of f] by (simp add: passes_on_def layer_def split: prod.split) (metis fst_conv snd_conv)

definition only_answers :: "'b handler \<Rightarrow> bool" where
  "only_answers h \<longleftrightarrow> (\<forall>s. snd (h s) = s \<and> (\<exists>r. fst (h s) = Answered r))"

lemma only_answers_now: "only_answers (answer_now r)"
  by (simp add: only_answers_def answer_now_def)

lemma layer_only_answers: "only_answers h \<Longrightarrow> only_answers (layer f h)"
  unfolding only_answers_def layer_def by (simp split: prod.split) (metis fst_conv snd_conv on_answer.simps(1))

text \<open>Either the request is answered without the services, or they are asked once.\<close>

definition implements :: "'b host \<Rightarrow> request option \<Rightarrow> 'b handler \<Rightarrow> bool" where
  "implements H x h \<longleftrightarrow> (case x of None \<Rightarrow> only_answers h | Some req \<Rightarrow> passes_on (serve H req) h)"

lemma implements_layer: "(\<And>r. hr_status (f r) = hr_status r) \<Longrightarrow> implements H x h \<Longrightarrow> implements H x (layer f h)"
  by (auto simp: implements_def layer_only_answers layer_passes_on split: option.splits)

lemma implements_extracted: "(\<And>y. implements H (f y) (h y)) \<Longrightarrow> implements H (ask x f) (extracted x h)"
  by (auto simp: extracted_def ask_def implements_def only_answers_now split: sum.split)

lemma implements_respond:
  "serve H req = ignore m \<Longrightarrow> implements H (Some req) (respond f m)"
  by (simp add: implements_def respond_passes_on)

lemma implements_rebuild: "implements H (Some (RebuildIndex n)) (respond f (rebuild_index_service H n))"
  by (rule implements_respond) (simp add: ignore_unit)

lemma implements_now: "implements H None (answer_now r)"
  by (simp add: implements_def only_answers_now)

lemma handle_implements: "implements H (asked_at W q args e) (handle W H q args e)"
  by (cases e; simp only: handle.simps asked_at.simps Let_def endpoint.case health_def health_embeddings_def version_def
      readyz_handler_def metrics_handler_def list_collections_handler_def create_collection_handler_def
      get_collection_handler_def delete_collection_handler_def collection_count_handler_def index_stats_handler_def
      rebuild_index_handler_def rebuild_index_status_handler_def compact_collection_handler_def find_duplicates_handler_def
      config_status_handler_def reload_config_handler_def insert_vector_handler_def get_vector_handler_def
      list_vectors_handler_def delete_vector_handler_def delete_vectors_handler_def search_vectors_handler_def
      upsert_vector_handler_def range_search_handler_def embed_text_handler_def search_by_text_handler_def
      with_collection_def with_vector_def)
    (rule implements_now | rule implements_rebuild | (rule implements_respond, rule serve.simps) | rule implements_extracted)+

section \<open>Properties\<close>

text \<open>
  C2. The HTTP interface adds nothing to the services and loses nothing of them: a request is either
  answered at once, with the state untouched, or asks the services exactly once, leaves the state
  they leave, and is answered with status 200 if they succeed, with the status of the error if they
  fail, by a dropped connection if they panic, and not at all if they block.
\<close>

theorem http_implements_services:
  "case asked W q of
     None \<Rightarrow> snd (create_router W H rid q s) = s \<and> (\<exists>r. fst (create_router W H rid q s) = Answered r)
   | Some req \<Rightarrow> snd (create_router W H rid q s) = snd (serve H req s) \<and>
       answered_as (fst (serve H req s)) (fst (create_router W H rid q s))"
proof -
  let ?r = "find_route (hq_method q) (path_segments (hq_path q))"
  have status [simp]: "hr_status (header_if_not_present n v r) = hr_status r" "hr_status (set_header n v r) = hr_status r"
    "hr_status (add_header n v r) = hr_status r" "hr_status (without_body r) = hr_status r" for n v r
    by (simp_all add: header_if_not_present_def set_header_def add_header_def without_body_def)
  have routed: "implements H (asked W q) (routed W H q ?r)" if "?r \<noteq> No_route"
    using that by (auto simp: asked_def routed_def intro!: implements_layer handle_implements implements_now split: route.split)
  have "asked W q = None" if "hq_method q = OPTIONS"
  proof -
    have "?r \<noteq> Route e args" for e args
      using find_route_sound [of "hq_method q"] that route_methods by (fastforce simp: list_all_iff serves_method_def)
    then show ?thesis by (simp add: asked_def split: route.split)
  qed
  then have "implements H (asked W q) (cors (hq_method q) (routed W H q ?r))" if "?r \<noteq> No_route"
    using routed [OF that] by (auto simp: cors_def intro!: implements_layer implements_now)
  then have "implements H (asked W q) (create_router W H rid q)"
    unfolding create_router_def assign_request_id_def
    by (cases ?r) (auto simp: asked_def intro!: implements_layer implements_now)
  then show ?thesis by (auto simp: implements_def only_answers_def passes_on_def split: option.splits)
qed


text \<open>
  C31. Every answer to a path of the API carries the request id, the version, the security headers and
  the origin header of CORS; every other path gets the dashboard's own response, which has none of
  them, since the fallback is outside the layers.
\<close>

theorem api_responses_marked:
  assumes "fst (create_router W H rid q s) = Answered r"
  shows "if find_route (hq_method q) (path_segments (hq_path q)) = No_route then r = dashboard W q
    else (''x-request-id'', rid) \<in> set (hr_headers r) \<and> (''access-control-allow-origin'', ''*'') \<in> set (hr_headers r) \<and>
      {''x-api-version'', ''x-content-type-options'', ''x-frame-options''} \<subseteq> fst ` set (hr_headers r)"
proof (cases "find_route (hq_method q) (path_segments (hq_path q)) = No_route")
  case True
  then show ?thesis using assms by (simp add: create_router_def answer_now_def)
next
  case False
  let ?h = "cors (hq_method q) (routed W H q (find_route (hq_method q) (path_segments (hq_path q))))"
  have "create_router W H rid q
      = layer (header_if_not_present ''x-frame-options'' ''DENY'')
            (layer (header_if_not_present ''x-content-type-options'' ''nosniff'')
              (layer (header_if_not_present ''x-api-version'' ''v1'') (assign_request_id rid ?h)))"
    using False by (simp add: create_router_def split: route.split)
  moreover obtain a t where h: "?h s = (a, t)" by fastforce
  ultimately obtain b where b: "a = Answered b" and r: "r = header_if_not_present ''x-frame-options'' ''DENY''
      (header_if_not_present ''x-content-type-options'' ''nosniff''
        (header_if_not_present ''x-api-version'' ''v1'' (set_header ''x-request-id'' rid b)))"
    using assms by (cases a) (auto simp: layer_def assign_request_id_def)
  have "(''access-control-allow-origin'', ''*'') \<in> set (hr_headers b)"
    using h b by (auto simp: cors_def layer_def add_header_def split: prod.splits elim!: on_answer.elims)
  then show ?thesis
    using False r by (auto simp: header_if_not_present_def set_header_def add_header_def)
qed

definition no_wire :: wire where
  "no_wire = \<lparr>percent_decode = Some, is_json = (\<lambda>t. t = ''application/json''), read_create = Inr,
     read_duplicates = (\<lambda>_. Inl \<lparr>rej_status = 422, rej_text = []\<rparr>), read_insert = (\<lambda>_. Inr unit_request),
     read_delete = (\<lambda>t. Inr [t]), read_search = (\<lambda>_. Inl \<lparr>rej_status = 422, rej_text = []\<rparr>),
     read_upsert = (\<lambda>_. Inl \<lparr>rej_status = 422, rej_text = []\<rparr>), read_range = (\<lambda>_. Inl \<lparr>rej_status = 422, rej_text = []\<rparr>),
     read_embed = (\<lambda>_. Inl \<lparr>rej_status = 422, rej_text = []\<rparr>), read_text_search = (\<lambda>_. Inl \<lparr>rej_status = 422, rej_text = []\<rparr>),
     read_list_query = (\<lambda>_. Inr default_list_query), dashboard = (\<lambda>_. plain 404 No_body), git_commit = None\<rparr>"

definition http_get :: "string \<Rightarrow> http_request" where
  "http_get p = \<lparr>hq_method = GET, hq_path = p, hq_query = None, hq_content_type = None, hq_body = []\<rparr>"

lemma health_route: "find_route GET (path_segments ''/api/health'') = Route At_health []"
  by (rule find_route_complete [where ps = "[Lit ''api'', Lit ''health'']" and n = GET])
    (simp_all add: all_routes_def nest_def api_router_def path_segments_def serves_method_def)

theorem api_responses_marked_witness:
  "\<exists>r. fst (create_router no_wire blob_host ''r1'' (http_get ''/api/health'') (app_state_new blob_host [] default_app_config None True)) = Answered r
     \<and> (''x-request-id'', ''r1'') \<in> set (hr_headers r)"
proof -
  let ?s = "app_state_new blob_host [] default_app_config None True"
  have "\<exists>r. fst (create_router no_wire blob_host ''r1'' (http_get ''/api/health'') ?s) = Answered r"
    by (simp add: create_router_def http_get_def health_route layer_def assign_request_id_def cors_def routed_def health_def
        answer_now_def)
  then obtain r where r: "fst (create_router no_wire blob_host ''r1'' (http_get ''/api/health'') ?s) = Answered r" by blast
  then show ?thesis using api_responses_marked [OF r] by (auto simp: http_get_def health_route)
qed

text \<open>The requests that carry a JSON body.\<close>

fun carries_body :: "request \<Rightarrow> bool" where
  "carries_body (CreateCollection _) = True"
| "carries_body (FindDuplicates _ _) = True"
| "carries_body (InsertVectors _ _) = True"
| "carries_body (DeleteVectors _ _) = True"
| "carries_body (UpsertVector _ _) = True"
| "carries_body (SearchVectors _ _) = True"
| "carries_body (RangeSearch _ _) = True"
| "carries_body (EmbedText _ _) = True"
| "carries_body (SearchByText _ _) = True"
| "carries_body _ = False"

lemma json_body_bound: "json_body W read q = Inr x \<Longrightarrow> length (hq_body q) \<le> body_limit \<and> (\<exists>t. hq_content_type q = Some t \<and> is_json W t)"
  by (auto simp: json_body_def split: option.splits if_splits)


definition http_insert :: http_request where
  "http_insert = \<lparr>hq_method = POST, hq_path = ''/api/v1/collections/c/vectors'', hq_query = None,
     hq_content_type = Some ''application/json'', hq_body = ''{}''\<rparr>"

lemma insert_route: "find_route POST (path_segments (hq_path http_insert)) = Route At_insert [''c'']"
  by (rule find_route_complete [where n = POST
        and ps = "[Lit ''api'', Lit ''v1'', Lit ''collections'', Param, Lit ''vectors'']"])
    (simp_all add: all_routes_def nest_def api_router_def of_collection_def http_insert_def path_segments_def serves_method_def)


end
