(* ===== verification/Env_Config.thy ===== *)
theory Env_Config
  imports Config Latency Hnsw_Index Json "HOL-Library.Sublist"
begin

text \<open>
  Configuration at start-up: the environment overrides of \<^verbatim>\<open>src/src/config/app.rs\<close>
  (\<^verbatim>\<open>apply_env_overrides\<close>, with the parsers it calls) and
  \<^verbatim>\<open>src/src/config/loader.rs\<close>. Every override is a setting; they are applied in
  the order of the code, and the first one that does not parse ends the program. Leaving the process
  with an error message is the left summand.
\<close>

section \<open>The process\<close>

text \<open>
  The machine, the environment variables, Unicode lowercase, Rust's parser of \<^verbatim>\<open>f32\<close>, the
  files with the text of an I/O error, and the parsers serde generates for the configuration.
\<close>

record process = platform +
  var :: "string \<Rightarrow> string option"
  to_lowercase :: "string \<Rightarrow> string"
  read_f32 :: "string \<Rightarrow> f32 option"
  read_file :: "string \<Rightarrow> string + string"
  parse_yaml :: "string \<Rightarrow> string + app_config"
  parse_json :: "string \<Rightarrow> string + app_config"

type_synonym 'a fallible = "string + 'a"

section \<open>Parsing values\<close>

definition in_quotes :: "string \<Rightarrow> string" where
  "in_quotes t = CHR 0x27 # t @ [CHR 0x27]"

definition bad_value :: "string \<Rightarrow> string \<Rightarrow> string" where
  "bad_value name v = ''Invalid '' @ name @ '' value '' @ in_quotes v"

definition digit :: "char \<Rightarrow> nat option" where
  "digit c = (let n = of_char c :: nat in if 48 \<le> n \<and> n \<le> 57 then Some (n - 48) else None)"

fun digits_value :: "nat \<Rightarrow> string \<Rightarrow> nat option" where
  "digits_value acc [] = Some acc"
| "digits_value acc (c # cs) =
     (case digit c of None \<Rightarrow> None | Some d \<Rightarrow> digits_value (10 * acc + d) cs)"

text \<open>\<^verbatim>\<open>str::parse\<close> of an unsigned integer: a plus sign is allowed, no digits and overflow are errors.\<close>

definition without_plus :: "string \<Rightarrow> string" where
  "without_plus t = (case t of c # cs \<Rightarrow> if c = CHR ''+'' then cs else t | [] \<Rightarrow> [])"

definition parse_unsigned :: "nat \<Rightarrow> string \<Rightarrow> nat option" where
  "parse_unsigned bits t =
     (if without_plus t = [] then None
      else
        (case digits_value 0 (without_plus t) of
           None \<Rightarrow> None
         | Some n \<Rightarrow> if n < 2 ^ bits then Some n else None))"

definition parse_env :: "(string \<Rightarrow> 'a option) \<Rightarrow> string \<Rightarrow> string \<Rightarrow> 'a fallible" where
  "parse_env p name v = (case p v of None \<Rightarrow> Inl (bad_value name v) | Some x \<Rightarrow> Inr x)"

definition parse_bool_env :: "'p process_scheme \<Rightarrow> string \<Rightarrow> string \<Rightarrow> bool fallible" where
  "parse_bool_env P name v =
     (let t = to_lowercase P v in
      if t \<in> set [''1'', ''true'', ''yes'', ''on''] then Inr True
      else if t \<in> set [''0'', ''false'', ''no'', ''off''] then Inr False
      else Inl (bad_value name v))"

definition parse_hardware_profile :: "'p process_scheme \<Rightarrow> string \<Rightarrow> hardware_profile fallible" where
  "parse_hardware_profile P v =
     (let t = to_lowercase P v in
      if t = ''auto'' then Inr Profile_Auto
      else if t = ''cpu-only'' \<or> t = ''cpu'' then Inr CpuOnly
      else if t = ''gpu'' then Inr Profile_Gpu
      else if t = ''8gb'' \<or> t = ''memory-8gb'' then Inr Memory8Gb
      else if t = ''16gb'' \<or> t = ''memory-16gb'' then Inr Memory16Gb
      else if t = ''32gb'' \<or> t = ''memory-32gb'' then Inr Memory32Gb
      else Inl (''Invalid HARDWARE_PROFILE '' @ in_quotes v))"

definition parse_quantization_stage :: "'p process_scheme \<Rightarrow> string \<Rightarrow> quantization_stage fallible" where
  "parse_quantization_stage P v =
     (let t = to_lowercase P v in
      if t = ''disabled'' \<or> t = ''none'' then Inr Stage_Disabled
      else if t = ''storage'' then Inr Stage_Storage
      else if t = ''index'' then Inr Stage_Index
      else if t \<in> set [''query-pre-search'', ''query_pre_search'', ''pre-search'', ''pre''] then Inr QueryPreSearch
      else if t \<in> set [''result-post-search'', ''result_post_search'', ''post-search'', ''post''] then Inr ResultPostSearch
      else Inl (''Invalid QUANTIZATION_STAGE '' @ in_quotes v))"

definition parse_log_level :: "'p process_scheme \<Rightarrow> string \<Rightarrow> log_level fallible" where
  "parse_log_level P v =
     (let t = to_lowercase P v in
      if t = ''error'' then Inr Error
      else if t = ''warn'' then Inr Warn
      else if t = ''info'' then Inr Info
      else if t = ''debug'' then Inr Debug
      else if t = ''trace'' then Inr Trace
      else Inl (''Invalid LOG_LEVEL '' @ in_quotes v))"

definition parse_execution_mode :: "'p process_scheme \<Rightarrow> string \<Rightarrow> execution_mode fallible" where
  "parse_execution_mode P v =
     (let t = to_lowercase P v in
      if t = ''simd'' then Inr Simd
      else if t = ''scalar'' then Inr Scalar
      else if t = ''gpu'' then Inr Gpu
      else if t = ''parallel'' then Inr Parallel
      else if t = ''binary'' then Inr Binary
      else if t = ''jit'' then Inr Jit
      else Inl (''Invalid EXECUTION_MODE '' @ in_quotes v))"

definition parse_index_type :: "'p process_scheme \<Rightarrow> search_config \<Rightarrow> string \<Rightarrow> index_config fallible" where
  "parse_index_type P s v =
     (let t = to_lowercase P v in
      if t = ''flat'' then Inr (FlatIndex Cosine Auto s)
      else if t = ''hnsw'' then Inr (HnswIndex 16 32 200 200 (layer_multiplier P 16) Cosine Auto s)
      else if t = ''ivf'' then Inr (IvfIndex 256 8 20 Cosine Auto s)
      else Inl (''Invalid INDEX_TYPE '' @ in_quotes v))"

section \<open>Settings\<close>

type_synonym 'a setting = "'a \<Rightarrow> 'a fallible"

text \<open>A variable that is set changes the configuration by its parsed value.\<close>

definition on_var :: "'p process_scheme \<Rightarrow> string \<Rightarrow> (string \<Rightarrow> 'v fallible) \<Rightarrow> ('v \<Rightarrow> 'a \<Rightarrow> 'a) \<Rightarrow> 'a setting" where
  "on_var P name parse f a =
     (case var P name of
        None \<Rightarrow> Inr a
      | Some v \<Rightarrow> and_then (parse v) (\<lambda>x. Inr (f x a)))"

definition on_size :: "'p process_scheme \<Rightarrow> string \<Rightarrow> (nat \<Rightarrow> 'a \<Rightarrow> 'a) \<Rightarrow> 'a setting" where
  "on_size P name = on_var P name (parse_env (parse_unsigned 64) name)"

definition on_flag :: "'p process_scheme \<Rightarrow> string \<Rightarrow> (bool \<Rightarrow> 'a \<Rightarrow> 'a) \<Rightarrow> 'a setting" where
  "on_flag P name = on_var P name (parse_bool_env P name)"

abbreviation all_settings :: "'a setting list \<Rightarrow> 'a setting" where
  "all_settings ss \<equiv> fold_results (\<lambda>s. s) ss"

definition index_type_setting :: "'p process_scheme \<Rightarrow> app_config setting" where
  "index_type_setting P a =
     on_var P ''INDEX_TYPE'' (parse_index_type P (app_search a)) (\<lambda>i. app_index_update (\<lambda>_. i)) a"

text \<open>The settings of automatic selection; whether any was set is kept beside them.\<close>

definition auto_size ::
  "'p process_scheme \<Rightarrow> string \<Rightarrow> (nat \<Rightarrow> auto_index_config \<Rightarrow> auto_index_config)
    \<Rightarrow> (auto_index_config \<times> bool) setting" where
  "auto_size P name f = on_size P name (\<lambda>n (auto, changed). (f n auto, True))"

definition auto_settings :: "'p process_scheme \<Rightarrow> (auto_index_config \<times> bool) setting list" where
  "auto_settings P =
    [auto_size P ''INDEX_AUTO_FLAT_MAX_VECTORS'' (\<lambda>n. flat_max_vectors_update (\<lambda>_. n)),
     auto_size P ''INDEX_AUTO_IVF_MAX_VECTORS'' (\<lambda>n. ivf_max_vectors_update (\<lambda>_. n)),
     auto_size P ''INDEX_AUTO_IVF_NUM_CLUSTERS'' (\<lambda>n. ivf_num_clusters_update (\<lambda>_. Some n)),
     auto_size P ''INDEX_AUTO_IVF_NUM_PROBES'' (\<lambda>n. ivf_num_probes_update (\<lambda>_. Some n)),
     auto_size P ''INDEX_AUTO_IVF_MAX_ITERATIONS'' (\<lambda>n. ivf_max_iterations_update (\<lambda>_. n)),
     auto_size P ''INDEX_AUTO_HNSW_M'' (\<lambda>n. hnsw_m_update (\<lambda>_. n)),
     auto_size P ''INDEX_AUTO_HNSW_EF_CONSTRUCTION'' (\<lambda>n. hnsw_ef_construction_update (\<lambda>_. n)),
     auto_size P ''INDEX_AUTO_HNSW_EF_SEARCH'' (\<lambda>n. hnsw_ef_search_update (\<lambda>_. n))]"

fun is_auto :: "index_config \<Rightarrow> bool" where
  "is_auto (AutoIndex _ _ _ _) = True"
| "is_auto _ = False"

definition auto_index_setting :: "'p process_scheme \<Rightarrow> app_config setting" where
  "auto_index_setting P a =
     (if \<not> is_auto (app_index a) then Inr a
      else
        and_then (all_settings (auto_settings P) (auto_config (app_index a), False)) (\<lambda>(auto, changed).
        Inr (if changed
             then a\<lparr>app_index := (case get_metric_and_mode (app_index a) of (metric, mode) \<Rightarrow>
                 AutoIndex metric mode (search_config_of (app_index a)) auto)\<rparr>
             else a)))"

definition set_cpu_threads :: "nat \<Rightarrow> app_config \<Rightarrow> app_config" where
  "set_cpu_threads n a =
     a\<lparr>app_hardware := (app_hardware a)\<lparr>cpu_threads := Some n\<rparr>,
       app_parallelism := with_num_threads n (app_parallelism a)\<rparr>"

definition hardware_settings :: "'p process_scheme \<Rightarrow> app_config setting list" where
  "hardware_settings P =
    [on_var P ''HARDWARE_PROFILE'' (parse_hardware_profile P)
       (\<lambda>p a. apply_hardware_profile (a\<lparr>app_hardware := (app_hardware a)\<lparr>profile := p\<rparr>\<rparr>)),
     on_flag P ''HARDWARE_GPU_ENABLED'' (\<lambda>b. app_hardware_update (gpu_enabled_update (\<lambda>_. b))),
     on_size P ''HARDWARE_CPU_THREADS'' set_cpu_threads,
     on_size P ''HARDWARE_MEMORY_BUDGET_BYTES'' (\<lambda>n. app_hardware_update (memory_budget_bytes_update (\<lambda>_. Some n)))]"

text \<open>The product of megabytes wraps in a release build.\<close>

definition wal_memory_settings :: "'p process_scheme \<Rightarrow> app_config setting list" where
  "wal_memory_settings P =
    [on_flag P ''WAL_ENABLED'' (\<lambda>b. app_wal_update (wal_enabled_update (\<lambda>_. b))),
     on_size P ''WAL_CHECKPOINT_FREQUENCY'' (\<lambda>n. app_wal_update (checkpoint_frequency_update (\<lambda>_. max n 1))),
     on_size P ''WAL_CHECKPOINT_INTERVAL_SECS'' (\<lambda>n. app_wal_update (checkpoint_interval_secs_update (\<lambda>_. Some (max n 1)))),
     on_flag P ''MEMORY_USE_MMAP'' (\<lambda>b. app_memory_update (use_mmap_update (\<lambda>_. b))),
     on_size P ''MEMORY_INITIAL_MMAP_MB'' (\<lambda>n. app_memory_update (initial_mmap_size_update (\<lambda>_. wrap64 (n * 1024 * 1024))))]"

definition execution_settings :: "'p process_scheme \<Rightarrow> app_config setting list" where
  "execution_settings P =
    [on_flag P ''PARALLEL_SEARCH'' (\<lambda>b. app_parallelism_update (parallel_search_update (\<lambda>_. b))),
     on_size P ''NUM_THREADS'' (\<lambda>n. app_parallelism_update (with_num_threads n)),
     on_var P ''EXECUTION_MODE'' (parse_execution_mode P) (\<lambda>m. app_execution_update (\<lambda>_. m))]"

text \<open>The older name is read only when the newer one is not set; errors name the newer one.\<close>

definition overfetch_name :: "'p process_scheme \<Rightarrow> string" where
  "overfetch_name P =
     (if var P ''SEARCH_FILTER_OVERFETCH'' = None then ''SEARCH_FILTER_EXPANSION'' else ''SEARCH_FILTER_OVERFETCH'')"

definition search_settings_env :: "'p process_scheme \<Rightarrow> app_config setting list" where
  "search_settings_env P =
    [on_var P (overfetch_name P) (parse_env (parse_unsigned 64) ''SEARCH_FILTER_OVERFETCH'')
       (\<lambda>n. app_search_update (filter_overfetch_update (\<lambda>_. max n 1))),
     on_size P ''SEARCH_LATENCY_BUDGET_MS'' (\<lambda>n. app_search_update (budget_update (latency_budget_ms_update (\<lambda>_. Some n)))),
     on_var P ''SEARCH_RECALL_TARGET'' (parse_env (read_f32 P) ''SEARCH_RECALL_TARGET'')
       (\<lambda>r. app_search_update (budget_update (recall_target_update (\<lambda>_. Some r)))),
     on_flag P ''SEARCH_ADAPTIVE_ENABLED'' (\<lambda>b. app_search_update (adaptive_update (adaptive_enabled_update (\<lambda>_. b))))]"

definition quantization_settings :: "'p process_scheme \<Rightarrow> app_config setting list" where
  "quantization_settings P =
    [on_var P ''QUANTIZATION_STAGE'' (parse_quantization_stage P) (\<lambda>t. app_quantization_update (stage_update (\<lambda>_. t))),
     on_flag P ''QUANTIZATION_PRESERVE_RAW'' (\<lambda>b. app_quantization_update (preserve_raw_vectors_update (\<lambda>_. b))),
     on_flag P ''QUANTIZATION_STORAGE_ENABLED'' (\<lambda>b. app_quantization_update (storage_enabled_update (\<lambda>_. b))),
     on_flag P ''QUANTIZATION_INDEX_ENABLED'' (\<lambda>b. app_quantization_update (index_enabled_update (\<lambda>_. b))),
     on_flag P ''QUANTIZATION_QUERY_ENABLED'' (\<lambda>b. app_quantization_update (query_enabled_update (\<lambda>_. b))),
     on_flag P ''QUANTIZATION_RESULT_ENABLED'' (\<lambda>b. app_quantization_update (result_enabled_update (\<lambda>_. b)))]"

definition limit_settings :: "'p process_scheme \<Rightarrow> app_config setting list" where
  "limit_settings P =
    [on_size P ''LIMIT_MAX_VECTORS'' (\<lambda>n. app_limits_update (max_vectors_update (\<lambda>_. Some n))),
     on_size P ''LIMIT_MAX_BYTES'' (\<lambda>n. app_limits_update (max_bytes_update (\<lambda>_. Some n))),
     on_size P ''LIMIT_MAX_VECTOR_BYTES'' (\<lambda>n. app_limits_update (max_vector_bytes_update (\<lambda>_. Some n)))]"

definition cache_settings :: "'p process_scheme \<Rightarrow> app_config setting list" where
  "cache_settings P =
    [on_flag P ''CACHE_ENABLED'' (\<lambda>b. app_cache_update (cache_enabled_update (\<lambda>_. b))),
     on_size P ''CACHE_MAX_SIZE'' (\<lambda>n. app_cache_update (max_size_update (\<lambda>_. n))),
     on_size P ''CACHE_TTL_SECONDS'' (\<lambda>n. app_cache_update (ttl_seconds_update (\<lambda>_. Some n))),
     on_size P ''CACHE_MAX_BYTES'' (\<lambda>n. app_cache_update (cache_max_bytes_update (\<lambda>_. Some n)))]"

definition logging_settings :: "'p process_scheme \<Rightarrow> app_config setting list" where
  "logging_settings P =
    [on_var P ''LOG_LEVEL'' (parse_log_level P) (\<lambda>l. app_logging_update (log_level_update (\<lambda>_. l))),
     on_flag P ''LOG_SEARCH'' (\<lambda>b. app_logging_update (log_search_update (\<lambda>_. b))),
     on_flag P ''LOG_INDEXING'' (\<lambda>b. app_logging_update (log_indexing_update (\<lambda>_. b))),
     on_flag P ''LOG_WRITES'' (\<lambda>b. app_logging_update (log_writes_update (\<lambda>_. b))),
     on_flag P ''LOG_INFERENCE'' (\<lambda>b. app_logging_update (log_inference_update (\<lambda>_. b)))]"

definition env_settings :: "'p process_scheme \<Rightarrow> app_config setting list" where
  "env_settings P =
     [index_type_setting P, auto_index_setting P] @ hardware_settings P @ wal_memory_settings P @
     execution_settings P @ search_settings_env P @ quantization_settings P @ limit_settings P @
     cache_settings P @ logging_settings P"

definition apply_env_overrides :: "'p process_scheme \<Rightarrow> app_config setting" where
  "apply_env_overrides P = all_settings (env_settings P)"

text \<open>\<^verbatim>\<open>from_env\<close> panics on a bad override.\<close>

definition from_env :: "'p process_scheme \<Rightarrow> app_config outcome" where
  "from_env P = (case apply_env_overrides P default_app_config of Inl _ \<Rightarrow> Inl Panicked | Inr a \<Rightarrow> Inr a)"

section \<open>Loading\<close>

text \<open>Each message is printed before the process exits with code 1.\<close>

definition exit_with :: "string \<Rightarrow> 'a fallible \<Rightarrow> 'a fallible" where
  "exit_with lead r = (case r of Inl e \<Rightarrow> Inl (lead @ e) | Inr x \<Rightarrow> Inr x)"

definition load_from_file :: "'p process_scheme \<Rightarrow> app_config option fallible" where
  "load_from_file P =
     (case var P ''CONFIG_FILE'' of
        None \<Rightarrow> Inr None
      | Some path \<Rightarrow>
          and_then (exit_with (''failed to read CONFIG_FILE '' @ in_quotes path @ '': '') (read_file P path)) (\<lambda>data.
          if suffix ''.yaml'' path \<or> suffix ''.yml'' path
          then exit_with (''failed to parse YAML CONFIG_FILE '' @ in_quotes path @ '': '')
            (and_then (parse_yaml P data) (\<lambda>cfg. Inr (Some cfg)))
          else if suffix ''.json'' path
          then exit_with (''failed to parse JSON CONFIG_FILE '' @ in_quotes path @ '': '')
            (and_then (parse_json P data) (\<lambda>cfg. Inr (Some cfg)))
          else Inl (''unsupported CONFIG_FILE extension for '' @ in_quotes path @
            '', expected .yaml, .yml, or .json'')))"

definition load_app_config_from :: "'p process_scheme \<Rightarrow> app_config fallible" where
  "load_app_config_from P =
     and_then (exit_with ''Invalid configuration file: '' (load_from_file P)) (\<lambda>file.
     and_then (exit_with ''Invalid environment configuration: ''
       (apply_env_overrides P (case file of Some cfg \<Rightarrow> cfg | None \<Rightarrow> default_app_config))) (\<lambda>cfg.
     and_then (exit_with ''Invalid configuration: '' (validate cfg)) (\<lambda>_.
     Inr cfg)))"

record embedding_config =
  ec_provider :: string
  ec_model :: string
  ec_api_key :: "string option"
  ec_base_url :: "string option"
  ec_options :: json
  ec_timeout :: "nat option"

definition default_embedding_config :: embedding_config where
  "default_embedding_config = \<lparr>ec_provider = ''openai'', ec_model = ''text-embedding-3-small'',
     ec_api_key = None, ec_base_url = None, ec_options = JObject [], ec_timeout = None\<rparr>"

record runtime_config =
  rt_app :: app_config
  rt_port :: nat
  rt_data_dir :: string
  rt_slow_query_ms :: nat
  rt_embedding :: "embedding_config option"
  rt_disk_min_free_bytes :: "nat option"
  rt_disk_readonly_on_low_space :: bool

text \<open>\<^verbatim>\<open>PathBuf::push\<close> of a relative name, on Unix.\<close>

definition path_push :: "string \<Rightarrow> string \<Rightarrow> string" where
  "path_push p x = (if p = [] \<or> last p = CHR ''/'' then p @ x else p @ CHR ''/'' # x)"

definition default_data_dir :: "'p process_scheme \<Rightarrow> string" where
  "default_data_dir P =
     path_push
       (case var P ''HOME'' of
          Some h \<Rightarrow> h
        | None \<Rightarrow> (case var P ''USERPROFILE'' of Some h \<Rightarrow> h | None \<Rightarrow> ''.''))
       ''.piramid''"

definition parse_optional_env :: "'p process_scheme \<Rightarrow> nat \<Rightarrow> string \<Rightarrow> nat option fallible" where
  "parse_optional_env P bits name =
     (case var P name of
        None \<Rightarrow> Inr None
      | Some v \<Rightarrow> exit_with ''Invalid environment configuration: ''
          (and_then (parse_env (parse_unsigned bits) name v) (\<lambda>n. Inr (Some n))))"

definition parse_env_or_default :: "'p process_scheme \<Rightarrow> nat \<Rightarrow> string \<Rightarrow> nat \<Rightarrow> nat fallible" where
  "parse_env_or_default P bits name d =
     and_then (parse_optional_env P bits name) (\<lambda>n. Inr (case n of Some k \<Rightarrow> k | None \<Rightarrow> d))"

definition default_model :: "string \<Rightarrow> string" where
  "default_model provider = (if provider = ''ollama'' then ''nomic-embed-text'' else ''text-embedding-3-small'')"

definition embedding_config_from :: "'p process_scheme \<Rightarrow> nat option \<Rightarrow> embedding_config option" where
  "embedding_config_from P timeout =
     map_option (\<lambda>provider.
       \<lparr>ec_provider = provider,
        ec_model = (case var P ''EMBEDDING_MODEL'' of Some m \<Rightarrow> m | None \<Rightarrow> default_model provider),
        ec_api_key = var P ''OPENAI_API_KEY'', ec_base_url = var P ''EMBEDDING_BASE_URL'',
        ec_options = JObject [], ec_timeout = timeout\<rparr>)
       (var P ''EMBEDDING_PROVIDER'')"

definition load_runtime_config :: "'p process_scheme \<Rightarrow> runtime_config fallible" where
  "load_runtime_config P =
     and_then (load_app_config_from P) (\<lambda>app.
     and_then (parse_env_or_default P 16 ''PORT'' 6333) (\<lambda>port.
     and_then (parse_env_or_default P 128 ''SLOW_QUERY_MS''
       (case slow_query_ms (app_logging app) of Some n \<Rightarrow> n | None \<Rightarrow> 500)) (\<lambda>slow.
     and_then (parse_optional_env P 64 ''EMBEDDING_TIMEOUT_SECS'') (\<lambda>timeout.
     and_then (parse_optional_env P 64 ''DISK_MIN_FREE_BYTES'') (\<lambda>min_free.
     and_then (case var P ''DISK_READONLY_ON_LOW_SPACE'' of
         None \<Rightarrow> Inr True
       | Some v \<Rightarrow> exit_with ''Invalid environment configuration: ''
           (parse_bool_env P ''DISK_READONLY_ON_LOW_SPACE'' v)) (\<lambda>readonly.
     Inr \<lparr>rt_app = app, rt_port = port,
          rt_data_dir = (case var P ''DATA_DIR'' of Some d \<Rightarrow> d | None \<Rightarrow> default_data_dir P),
          rt_slow_query_ms = slow, rt_embedding = embedding_config_from P timeout,
          rt_disk_min_free_bytes = min_free, rt_disk_readonly_on_low_space = readonly\<rparr>))))))"

section \<open>Settings that do not touch a field\<close>

definition keeps :: "('a \<Rightarrow> 'f) \<Rightarrow> 'a setting \<Rightarrow> bool" where
  "keeps f m \<longleftrightarrow> (\<forall>a b. m a = Inr b \<longrightarrow> f b = f a)"

lemma keepsD: "keeps f m \<Longrightarrow> m a = Inr b \<Longrightarrow> f b = f a"
  by (simp add: keeps_def)

lemma keeps_on_var: "(\<And>x a. f (g x a) = f a) \<Longrightarrow> keeps f (on_var P n p g)"
  by (auto simp: keeps_def on_var_def and_then_eq_Inr split: option.splits)

lemma keeps_on_size: "(\<And>x a. f (g x a) = f a) \<Longrightarrow> keeps f (on_size P n g)"
  and keeps_on_flag: "(\<And>x a. f (h x a) = f a) \<Longrightarrow> keeps f (on_flag P n h)"
  by (simp_all add: on_size_def on_flag_def keeps_on_var)

lemma keeps_all:
  assumes "all_settings ss a = Inr b" and "list_all (keeps f) ss"
  shows "f b = f a"
  by (rule fold_results_invariant [OF assms(1), where P = "\<lambda>c. f c = f a"])
    (use assms(2) in \<open>auto simp: list_all_iff keeps_def\<close>)

text \<open>A variable that is set decides a field that no later setting touches.\<close>

lemma setting_wins:
  assumes "all_settings (before @ on_var P n p g # after) a = Inr b" and "var P n = Some v"
    and "list_all (keeps f) after"
  shows "\<exists>x c. p v = Inr x \<and> f b = f (g x c)"
proof -
  obtain c d where 1: "on_var P n p g c = Inr d" and 2: "all_settings after d = Inr b"
    using assms(1) by (auto simp: fold_results_append and_then_eq_Inr)
  from 1 assms(2) obtain x where "p v = Inr x" "d = g x c"
    by (auto simp: on_var_def and_then_eq_Inr)
  then show ?thesis using keeps_all [OF 2 assms(3)] by auto
qed

lemmas keeps_rules = keeps_on_var keeps_on_size keeps_on_flag

lemma search_keeps:
  "list_all (keeps app_execution) (search_settings_env P)" "list_all (keeps app_cache) (search_settings_env P)"
  "list_all (keeps app_parallelism) (search_settings_env P)" "list_all (keeps app_hardware) (search_settings_env P)"
  by (simp_all add: search_settings_env_def keeps_rules)

lemma quantization_keeps:
  "list_all (keeps app_execution) (quantization_settings P)" "list_all (keeps app_cache) (quantization_settings P)"
  "list_all (keeps app_parallelism) (quantization_settings P)" "list_all (keeps app_hardware) (quantization_settings P)"
  by (simp_all add: quantization_settings_def keeps_rules)

lemma limit_keeps:
  "list_all (keeps app_execution) (limit_settings P)" "list_all (keeps app_cache) (limit_settings P)"
  "list_all (keeps app_parallelism) (limit_settings P)" "list_all (keeps app_hardware) (limit_settings P)"
  by (simp_all add: limit_settings_def keeps_rules)

lemma logging_keeps:
  "list_all (keeps app_execution) (logging_settings P)" "list_all (keeps app_cache) (logging_settings P)"
  "list_all (keeps app_parallelism) (logging_settings P)" "list_all (keeps app_hardware) (logging_settings P)"
  by (simp_all add: logging_settings_def keeps_rules)

lemma cache_keeps:
  "list_all (keeps app_execution) (cache_settings P)" "list_all (keeps app_parallelism) (cache_settings P)"
  "list_all (keeps app_hardware) (cache_settings P)"
  by (simp_all add: cache_settings_def keeps_rules)

lemma wal_memory_keeps:
  "list_all (keeps app_hardware) (wal_memory_settings P)" "list_all (keeps app_cache) (wal_memory_settings P)"
  by (simp_all add: wal_memory_settings_def keeps_rules)

lemma execution_keeps:
  "list_all (keeps app_hardware) (execution_settings P)" "list_all (keeps app_cache) (execution_settings P)"
  by (simp_all add: execution_settings_def keeps_rules)

lemmas group_keeps = search_keeps quantization_keeps limit_keeps logging_keeps cache_keeps wal_memory_keeps execution_keeps

lemma setting_wins_in:
  assumes "apply_env_overrides P a = Inr b" and "env_settings P = before @ on_var P n p g # after" and "var P n = Some v"
    and "list_all (keeps f) after"
  shows "\<exists>x c. p v = Inr x \<and> f b = f (g x c)"
  using setting_wins [of before P n p g after a b v f] assms by (simp add: apply_env_overrides_def)

lemma parse_env_Inr: "parse_env p n v = Inr x \<longleftrightarrow> p v = Some x"
  by (simp add: parse_env_def split: option.split)

lemma execution_wins:
  assumes "apply_env_overrides P a = Inr b" and "var P ''EXECUTION_MODE'' = Some v"
  shows "parse_execution_mode P v = Inr (app_execution b)"
proof -
  let ?before = "[index_type_setting P, auto_index_setting P] @ hardware_settings P @ wal_memory_settings P @ take 2 (execution_settings P)"
  let ?after = "search_settings_env P @ quantization_settings P @ limit_settings P @ cache_settings P @ logging_settings P"
  have "env_settings P = ?before @ on_var P ''EXECUTION_MODE'' (parse_execution_mode P) (\<lambda>m. app_execution_update (\<lambda>_. m)) # ?after"
    by (simp add: env_settings_def execution_settings_def)
  from setting_wins_in [OF assms(1) this assms(2), of app_execution] show ?thesis by (simp add: group_keeps)
qed

lemma threads_win:
  assumes "apply_env_overrides P a = Inr b" and "var P ''NUM_THREADS'' = Some v"
  shows "\<exists>n. parse_unsigned 64 v = Some n \<and> app_parallelism b = \<lparr>par_mode = Fixed n, parallel_search = n > 1\<rparr>"
proof -
  let ?before = "[index_type_setting P, auto_index_setting P] @ hardware_settings P @ wal_memory_settings P @ take 1 (execution_settings P)"
  let ?after = "drop 2 (execution_settings P) @
    search_settings_env P @ quantization_settings P @ limit_settings P @ cache_settings P @ logging_settings P"
  have e: "env_settings P = ?before @ on_var P ''NUM_THREADS'' (parse_env (parse_unsigned 64) ''NUM_THREADS'')
      (\<lambda>n. app_parallelism_update (with_num_threads n)) # ?after"
    by (simp add: env_settings_def execution_settings_def on_size_def)
  have "list_all (keeps app_parallelism) (drop 2 (execution_settings P))"
    by (simp add: execution_settings_def keeps_rules)
  then show ?thesis
    using setting_wins_in [OF assms(1) e assms(2), of app_parallelism]
    by (auto simp: group_keeps parse_env_Inr with_num_threads_def)
qed

lemma memory_budget_wins:
  assumes "apply_env_overrides P a = Inr b" and "var P ''HARDWARE_MEMORY_BUDGET_BYTES'' = Some v"
  shows "memory_budget_bytes (app_hardware b) = parse_unsigned 64 v \<and> parse_unsigned 64 v \<noteq> None"
proof -
  let ?before = "[index_type_setting P, auto_index_setting P] @ take 3 (hardware_settings P)"
  let ?after = "wal_memory_settings P @ execution_settings P @
    search_settings_env P @ quantization_settings P @ limit_settings P @ cache_settings P @ logging_settings P"
  have "env_settings P = ?before @ on_var P ''HARDWARE_MEMORY_BUDGET_BYTES'' (parse_env (parse_unsigned 64) ''HARDWARE_MEMORY_BUDGET_BYTES'')
      (\<lambda>n. app_hardware_update (memory_budget_bytes_update (\<lambda>_. Some n))) # ?after"
    by (simp add: env_settings_def hardware_settings_def on_size_def)
  from setting_wins_in [OF assms(1) this assms(2), of app_hardware]
  show ?thesis by (auto simp: group_keeps parse_env_Inr)
qed

lemma cache_budget_wins:
  assumes "apply_env_overrides P a = Inr b" and "var P ''CACHE_MAX_BYTES'' = Some v"
  shows "cache_max_bytes (app_cache b) = parse_unsigned 64 v \<and> parse_unsigned 64 v \<noteq> None"
proof -
  let ?before = "[index_type_setting P, auto_index_setting P] @ hardware_settings P @ wal_memory_settings P @ execution_settings P @
    search_settings_env P @ quantization_settings P @ limit_settings P @ take 3 (cache_settings P)"
  have "env_settings P = ?before @ on_var P ''CACHE_MAX_BYTES'' (parse_env (parse_unsigned 64) ''CACHE_MAX_BYTES'')
      (\<lambda>n. app_cache_update (cache_max_bytes_update (\<lambda>_. Some n))) # logging_settings P"
    by (simp add: env_settings_def cache_settings_def on_size_def)
  from setting_wins_in [OF assms(1) this assms(2), of app_cache]
  show ?thesis by (auto simp: group_keeps parse_env_Inr)
qed

text \<open>With a budget in the configuration the overrides can only change it; the cache stays enabled unless its variable says otherwise.\<close>

lemma cache_stays_enabled:
  assumes "apply_env_overrides P a = Inr b" and "cache_enabled (app_cache a)" and "var P ''CACHE_ENABLED'' = None"
  shows "cache_enabled (app_cache b)"
proof -
  let ?f = "\<lambda>a. cache_enabled (app_cache a)"
  have f: "keeps ?f m" if "keeps app_cache m" for m :: "app_config setting" using that by (simp add: keeps_def)
  have "?f (apply_hardware_profile c) = ?f c" for c
    by (simp add: apply_hardware_profile_def Let_def split: hardware_profile.split)
  then have "list_all (keeps ?f) (hardware_settings P)"
    by (simp add: hardware_settings_def keeps_rules set_cpu_threads_def)
  moreover have "keeps ?f (index_type_setting P)" "keeps ?f (auto_index_setting P)"
    by (auto simp: keeps_def index_type_setting_def auto_index_setting_def on_var_def and_then_eq_Inr split: option.splits if_splits)
  moreover have "list_all (keeps ?f) (cache_settings P)"
    using assms(3) by (simp add: cache_settings_def keeps_rules) (simp add: keeps_def on_flag_def on_var_def)
  ultimately have "list_all (keeps ?f) (env_settings P)"
    using group_keeps [of P] by (auto simp: env_settings_def list_all_iff intro: f)
  from keeps_all [OF assms(1) [unfolded apply_env_overrides_def] this] assms(2) show ?thesis by simp
qed

section \<open>Properties\<close>

text \<open>
  C1. The more specific variable wins: whatever the file and \<^verbatim>\<open>HARDWARE_PROFILE\<close> say, the
  execution mode, the memory budget, the byte budget of the caches and the number of threads are
  those of their own variables when these are set; and the number of threads also overrules
  \<^verbatim>\<open>PARALLEL_SEARCH\<close>.
\<close>

theorem specific_variables_win:
  assumes "apply_env_overrides P a = Inr b"
  shows "(\<forall>v. var P ''EXECUTION_MODE'' = Some v \<longrightarrow> parse_execution_mode P v = Inr (app_execution b)) \<and>
    (\<forall>v. var P ''HARDWARE_MEMORY_BUDGET_BYTES'' = Some v \<longrightarrow>
       memory_budget_bytes (app_hardware b) = parse_unsigned 64 v \<and> parse_unsigned 64 v \<noteq> None) \<and>
    (\<forall>v. var P ''CACHE_MAX_BYTES'' = Some v \<longrightarrow>
       cache_max_bytes (app_cache b) = parse_unsigned 64 v \<and> parse_unsigned 64 v \<noteq> None) \<and>
    (\<forall>v. var P ''NUM_THREADS'' = Some v \<longrightarrow>
       (\<exists>n. parse_unsigned 64 v = Some n \<and> app_parallelism b = \<lparr>par_mode = Fixed n, parallel_search = n > 1\<rparr>))"
  using execution_wins [OF assms] memory_budget_wins [OF assms] cache_budget_wins [OF assms] threads_win [OF assms] by blast

text \<open>A process with the given variables, on the small machine; its text is all lowercase.\<close>

definition process_with :: "(string \<times> string) list \<Rightarrow> process" where
  "process_with vars = platform.extend scalar_machine
     \<lparr>var = map_of vars, to_lowercase = (\<lambda>t. t), read_f32 = (\<lambda>_. None), read_file = (\<lambda>_. Inl ''no such file''),
      parse_yaml = (\<lambda>_. Inl ''not read''), parse_json = (\<lambda>_. Inl ''not read'')\<rparr>"

lemma process_with_simps [simp]:
  "var (process_with vars) = map_of vars" "to_lowercase (process_with vars) = (\<lambda>t. t)"
  by (simp_all add: process_with_def platform.defs)

lemma no_such_variable [simp]: "var P n = None \<Longrightarrow> on_var P n p f a = Inr a"
  by (simp add: on_var_def)

lemmas env_defs = apply_env_overrides_def env_settings_def index_type_setting_def auto_index_setting_def auto_settings_def
  auto_size_def hardware_settings_def wal_memory_settings_def execution_settings_def search_settings_env_def
  overfetch_name_def quantization_settings_def limit_settings_def cache_settings_def logging_settings_def on_size_def
  on_flag_def on_var_def

text \<open>The container settings of the deployment guide, with a memory profile.\<close>

lemma budget_overrides:
  "apply_env_overrides (process_with [(''HARDWARE_PROFILE'', ''8gb''), (''CACHE_MAX_BYTES'', ''536870912'')]) default_app_config
     = Inr (apply_hardware_profile (default_app_config\<lparr>app_hardware := default_hardware\<lparr>profile := Memory8Gb\<rparr>\<rparr>)
         \<lparr>app_cache := default_cache_config\<lparr>cache_max_bytes := Some 536870912\<rparr>\<rparr>)"
  by (simp add: env_defs parse_hardware_profile_def parse_env_def parse_unsigned_def without_plus_def digit_def
      apply_hardware_profile_def default_app_config_def default_cache_config_def default_index_config_def)

theorem specific_variables_win_witness:
  "\<exists>b. apply_env_overrides (process_with [(''HARDWARE_PROFILE'', ''8gb''), (''CACHE_MAX_BYTES'', ''536870912'')]) default_app_config = Inr b
     \<and> cache_max_bytes (app_cache b) = parse_unsigned 64 ''536870912''"
proof -
  let ?P = "process_with [(''HARDWARE_PROFILE'', ''8gb''), (''CACHE_MAX_BYTES'', ''536870912'')]"
  have "var ?P ''CACHE_MAX_BYTES'' = Some ''536870912''" by simp
  then show ?thesis using specific_variables_win [OF budget_overrides] budget_overrides by blast
qed

lemma exit_with_Inr [simp]: "exit_with t r = Inr x \<longleftrightarrow> r = Inr x"
  by (simp add: exit_with_def split: sum.split)

lemma parse_optional_bound: "parse_optional_env P bits name = Inr (Some n) \<Longrightarrow> n < 2 ^ bits"
  by (auto simp: parse_optional_env_def and_then_eq_Inr parse_env_Inr parse_unsigned_def split: option.splits if_splits)

text \<open>
  C29. A server starts only on a valid configuration: whatever the file and the environment hold,
  loading either ends the process or gives settings that satisfy every constraint of
  \<^verbatim>\<open>validate\<close>, a port of 16 bits and a disk limit of 64 bits; and loading fails when a variable
  that is set does not parse.
\<close>

theorem loaded_config_ok:
  assumes "load_runtime_config P = Inr rt"
  shows "config_ok (rt_app rt) \<and> rt_port rt < 2 ^ 16 \<and> (\<forall>n. rt_disk_min_free_bytes rt = Some n \<longrightarrow> n < 2 ^ 64) \<and>
    (\<forall>v. var P ''PORT'' = Some v \<longrightarrow> parse_unsigned 16 v = Some (rt_port rt))"
proof -
  obtain port where p: "parse_env_or_default P 16 ''PORT'' 6333 = Inr port" "rt_port rt = port"
    and a: "load_app_config_from P = Inr (rt_app rt)"
    and d: "parse_optional_env P 64 ''DISK_MIN_FREE_BYTES'' = Inr (rt_disk_min_free_bytes rt)"
    using assms by (auto simp: load_runtime_config_def and_then_eq_Inr)
  have "config_ok (rt_app rt)"
    using a by (auto simp: load_app_config_from_def and_then_eq_Inr validate_iff)
  moreover obtain n where n: "parse_optional_env P 16 ''PORT'' = Inr n" "port = (case n of Some k \<Rightarrow> k | None \<Rightarrow> 6333)"
    using p(1) by (auto simp: parse_env_or_default_def and_then_eq_Inr)
  moreover have "port < 2 ^ 16"
    using n parse_optional_bound [of P 16 "''PORT''"] by (auto split: option.splits)
  moreover have "parse_unsigned 16 v = Some port" if "var P ''PORT'' = Some v" for v
    using n that by (auto simp: parse_optional_env_def and_then_eq_Inr parse_env_Inr)
  moreover have "n < 2 ^ 64" if "rt_disk_min_free_bytes rt = Some n" for n
    using parse_optional_bound [of P 64 "''DISK_MIN_FREE_BYTES''" n] d that by simp
  ultimately show ?thesis using p(2) by simp
qed

theorem loaded_config_ok_witness:
  "\<exists>rt. load_runtime_config (process_with [(''HARDWARE_PROFILE'', ''8gb''), (''CACHE_MAX_BYTES'', ''536870912'')]) = Inr rt
     \<and> config_ok (rt_app rt) \<and> rt_port rt < 2 ^ 16"
proof -
  let ?P = "process_with [(''HARDWARE_PROFILE'', ''8gb''), (''CACHE_MAX_BYTES'', ''536870912'')]"
  let ?cfg = "apply_hardware_profile (default_app_config\<lparr>app_hardware := default_hardware\<lparr>profile := Memory8Gb\<rparr>\<rparr>)
         \<lparr>app_cache := default_cache_config\<lparr>cache_max_bytes := Some 536870912\<rparr>\<rparr>"
  have "validate ?cfg = Inr ()"
    unfolding validate_iff using default_config_ok
    by (simp add: config_ok_def apply_hardware_profile_def default_hardware_def default_app_config_def default_memory_config_def)
  then have "load_app_config_from ?P = Inr ?cfg"
    by (simp add: load_app_config_from_def load_from_file_def exit_with_def budget_overrides)
  then have "\<exists>rt. load_runtime_config ?P = Inr rt"
    by (simp add: load_runtime_config_def parse_env_or_default_def parse_optional_env_def)
  then obtain rt where "load_runtime_config ?P = Inr rt" by blast
  with loaded_config_ok [OF this] show ?thesis by blast
qed

end
