(* ===== verification/Providers.thy ===== *)
theory Providers
  imports Env_Config Embedders
begin

text \<open>
  The embedding providers of \<^verbatim>\<open>src/src/embeddings/providers/\<close>: how each is set up from the
  configuration (\<^verbatim>\<open>factory.rs\<close>), the request it sends and what it makes of the reply
  (\<^verbatim>\<open>openai.rs\<close>, \<^verbatim>\<open>ollama.rs\<close>, \<^verbatim>\<open>local.rs\<close>). The HTTP client and the
  parsers serde generates for the replies are parameters.
\<close>

section \<open>Talking HTTP\<close>

text \<open>A reply has its status, the text of the status, and its body unless reading that fails.\<close>

record http_reply =
  reply_status :: nat
  reply_reason :: string
  reply_body :: "string option"

record openai_item =
  item_embedding :: "f32 list"
  item_index :: nat

record usage_data =
  prompt_tokens :: nat
  total_tokens :: nat

record openai_reply =
  or_data :: "openai_item list"
  or_model :: string
  or_usage :: usage_data

record local_item =
  li_embedding :: "f32 list"
  li_index :: "nat option"

record local_reply =
  lr_data :: "local_item list"
  lr_model :: string
  lr_usage :: "usage_data option"

record ollama_reply =
  ol_embedding :: "f32 list"

type_synonym headers = "(string \<times> string) list"

record 's http_client =
  build_client :: "nat \<Rightarrow> string + unit"
  post :: "nat option \<Rightarrow> string \<Rightarrow> headers \<Rightarrow> json \<Rightarrow> ('s, string, http_reply) op"
  decode_openai :: "string option \<Rightarrow> string + openai_reply"
  decode_ollama :: "string option \<Rightarrow> string + ollama_reply"
  decode_local :: "string option \<Rightarrow> string + local_reply"

definition as_error :: "(string \<Rightarrow> embedding_error) \<Rightarrow> string + 'a \<Rightarrow> embedding_error + 'a" where
  "as_error E r = (case r of Inl e \<Rightarrow> Inl (E e) | Inr x \<Rightarrow> Inr x)"

definition request_failed :: "string \<Rightarrow> embedding_error" where
  "request_failed e = RequestFailed [Txt e]"

definition invalid_response :: "string \<Rightarrow> embedding_error" where
  "invalid_response e = InvalidResponse [Txt e]"

definition http_success :: "http_reply \<Rightarrow> bool" where
  "http_success r \<longleftrightarrow> 200 \<le> reply_status r \<and> reply_status r < 300"

definition error_text :: "http_reply \<Rightarrow> string" where
  "error_text r = (case reply_body r of Some t \<Rightarrow> t | None \<Rightarrow> ''Unknown error'')"

definition api_error :: "http_reply \<Rightarrow> embedding_error" where
  "api_error r = ApiError [Txt (reply_reason r @ '': '' @ error_text r)]"

text \<open>The call all three share: send, then look at the reply.\<close>

definition exchange ::
  "('s, string, http_reply) op \<Rightarrow> (http_reply \<Rightarrow> embedding_error + embedding_response)
    \<Rightarrow> ('s, embedding_error, embedding_response) op" where
  "exchange m answer = (\<lambda>s.
     case m s of
       (Inl e, s') \<Rightarrow> (Inl (request_failed e), s')
     | (Inr r, s') \<Rightarrow> (answer r, s'))"

section \<open>Settings of a provider\<close>

record provider_client =
  pc_api_key :: string
  pc_model :: string
  pc_base_url :: string
  pc_timeout :: "nat option"

text \<open>The client is built with the timeout if there is one; only then can that fail.\<close>

definition client_for :: "'s http_client \<Rightarrow> embedding_config \<Rightarrow> string \<Rightarrow> string \<Rightarrow> embedding_error + provider_client" where
  "client_for C cfg key url =
     and_then (case ec_timeout cfg of None \<Rightarrow> Inr () | Some n \<Rightarrow> as_error request_failed (build_client C n)) (\<lambda>_.
     Inr \<lparr>pc_api_key = key, pc_model = ec_model cfg, pc_base_url = url, pc_timeout = ec_timeout cfg\<rparr>)"

definition openai_new :: "'p process_scheme \<Rightarrow> 's http_client \<Rightarrow> embedding_config \<Rightarrow> embedding_error + provider_client" where
  "openai_new P C cfg =
     and_then (case ec_api_key cfg of
         Some k \<Rightarrow> Inr k
       | None \<Rightarrow>
           (case var P ''OPENAI_API_KEY'' of
              Some k \<Rightarrow> Inr k
            | None \<Rightarrow> Inl (ConfigError [Txt ''OpenAI API key not provided in config or OPENAI_API_KEY env var'']))) (\<lambda>key.
     client_for C cfg key
       (case ec_base_url cfg of Some u \<Rightarrow> u | None \<Rightarrow> ''https://api.openai.com/v1/embeddings''))"

definition ollama_new :: "'s http_client \<Rightarrow> embedding_config \<Rightarrow> embedding_error + provider_client" where
  "ollama_new C cfg =
     client_for C cfg [] (case ec_base_url cfg of Some u \<Rightarrow> u | None \<Rightarrow> ''http://localhost:11434'')"

definition local_new :: "'s http_client \<Rightarrow> embedding_config \<Rightarrow> embedding_error + provider_client" where
  "local_new C cfg =
     (case ec_base_url cfg of
        None \<Rightarrow> Inl (ConfigError [Txt ''LOCAL provider requires base_url''])
      | Some u \<Rightarrow> client_for C cfg [] u)"

definition openai_dimensions :: "string \<Rightarrow> nat option" where
  "openai_dimensions model =
     (if model = ''text-embedding-3-small'' then Some 1536
      else if model = ''text-embedding-3-large'' then Some 3072
      else if model = ''text-embedding-ada-002'' then Some 1536
      else None)"

definition ollama_dimensions :: "string \<Rightarrow> nat option" where
  "ollama_dimensions model =
     (if model = ''nomic-embed-text'' then Some 768
      else if model = ''mxbai-embed-large'' then Some 1024
      else if model = ''all-minilm'' then Some 384
      else None)"

section \<open>Requests and replies\<close>

definition openai_request :: "provider_client \<Rightarrow> string \<Rightarrow> json" where
  "openai_request c t = JObject [(''model'', JString (pc_model c)), (''input'', JString t),
     (''encoding_format'', JString ''float'')]"

definition openai_answer :: "'s http_client \<Rightarrow> http_reply \<Rightarrow> embedding_error + embedding_response" where
  "openai_answer C r =
     (if \<not> http_success r then
        Inl (if reply_status r = 401 then AuthenticationFailed [Txt (error_text r)]
             else if reply_status r = 429 then RateLimitExceeded
             else api_error r)
      else
        and_then (as_error invalid_response (decode_openai C (reply_body r))) (\<lambda>a.
        case or_data a of
          [] \<Rightarrow> Inl (invalid_response ''No embeddings in response'')
        | x # _ \<Rightarrow> Inr \<lparr>embedding = item_embedding x, tokens = Some (total_tokens (or_usage a)),
            response_model = or_model a\<rparr>))"

definition openai_embed :: "'s http_client \<Rightarrow> provider_client \<Rightarrow> 's embedder" where
  "openai_embed C c t =
     exchange
       (post C (pc_timeout c) (pc_base_url c)
         [(''Authorization'', ''Bearer '' @ pc_api_key c), (''Content-Type'', ''application/json'')] (openai_request c t))
       (openai_answer C)"

definition ollama_request :: "provider_client \<Rightarrow> string \<Rightarrow> json" where
  "ollama_request c t = JObject [(''model'', JString (pc_model c)), (''prompt'', JString t)]"

definition ollama_answer :: "'s http_client \<Rightarrow> provider_client \<Rightarrow> http_reply \<Rightarrow> embedding_error + embedding_response" where
  "ollama_answer C c r =
     (if \<not> http_success r then Inl (api_error r)
      else
        and_then (as_error invalid_response (decode_ollama C (reply_body r))) (\<lambda>a.
        Inr \<lparr>embedding = ol_embedding a, tokens = None, response_model = pc_model c\<rparr>))"

definition ollama_embed :: "'s http_client \<Rightarrow> provider_client \<Rightarrow> 's embedder" where
  "ollama_embed C c t =
     exchange
       (post C (pc_timeout c) (pc_base_url c @ ''/api/embeddings'') [(''Content-Type'', ''application/json'')] (ollama_request c t))
       (ollama_answer C c)"

definition local_request :: "provider_client \<Rightarrow> string \<Rightarrow> json" where
  "local_request c t = JObject [(''model'', JString (pc_model c)), (''input'', JString t)]"

definition local_answer :: "'s http_client \<Rightarrow> http_reply \<Rightarrow> embedding_error + embedding_response" where
  "local_answer C r =
     (if \<not> http_success r then Inl (api_error r)
      else
        and_then (as_error invalid_response (decode_local C (reply_body r))) (\<lambda>a.
        case lr_data a of
          [] \<Rightarrow> Inl (invalid_response ''No embeddings in response'')
        | x # _ \<Rightarrow> Inr \<lparr>embedding = li_embedding x, tokens = map_option total_tokens (lr_usage a),
            response_model = lr_model a\<rparr>))"

definition local_embed :: "'s http_client \<Rightarrow> provider_client \<Rightarrow> 's embedder" where
  "local_embed C c t = exchange (post C (pc_timeout c) (pc_base_url c) [] (local_request c t)) (local_answer C)"

section \<open>The factory\<close>

datatype provider = OpenAI | Ollama | Local

fun provider_name :: "provider \<Rightarrow> string" where
  "provider_name OpenAI = ''openai''"
| "provider_name Ollama = ''ollama''"
| "provider_name Local = ''local''"

definition provider_of :: "'p process_scheme \<Rightarrow> string \<Rightarrow> provider option" where
  "provider_of P t =
     (let u = to_lowercase P t in
      if u = ''openai'' then Some OpenAI
      else if u = ''ollama'' then Some Ollama
      else if u = ''local'' then Some Local
      else None)"

fun provider_new :: "'p process_scheme \<Rightarrow> 's http_client \<Rightarrow> embedding_config \<Rightarrow> provider \<Rightarrow> embedding_error + provider_client" where
  "provider_new P C cfg OpenAI = openai_new P C cfg"
| "provider_new P C cfg Ollama = ollama_new C cfg"
| "provider_new P C cfg Local = local_new C cfg"

fun provider_embed :: "'s http_client \<Rightarrow> provider \<Rightarrow> provider_client \<Rightarrow> 's embedder" where
  "provider_embed C OpenAI c = openai_embed C c"
| "provider_embed C Ollama c = ollama_embed C c"
| "provider_embed C Local c = local_embed C c"

fun provider_dimensions :: "provider \<Rightarrow> provider_client \<Rightarrow> nat option" where
  "provider_dimensions OpenAI c = openai_dimensions (pc_model c)"
| "provider_dimensions Ollama c = ollama_dimensions (pc_model c)"
| "provider_dimensions Local c = None"

definition default_cache_size :: nat where
  "default_cache_size = 10000"

text \<open>The provider behind its cache, and the cache's first state.\<close>

definition create_embedder ::
  "'p process_scheme \<Rightarrow> 's http_client \<Rightarrow> 'l lru \<Rightarrow> embedding_config \<Rightarrow> embedding_error + ('l \<times> 's) embedder \<times> 'l" where
  "create_embedder P C L cfg =
     (case provider_of P (ec_provider cfg) of
        None \<Rightarrow> Inl (ConfigError [Txt (''Unknown provider: '' @ ec_provider cfg)])
      | Some p \<Rightarrow>
          and_then (provider_new P C cfg p) (\<lambda>c.
          Inr (cached_embed L (pc_model c) (provider_embed C p c), cached_new L default_cache_size)))"

text \<open>The server wraps it in retries.\<close>

definition server_embedder ::
  "'p process_scheme \<Rightarrow> 's http_client \<Rightarrow> 'l lru \<Rightarrow> embedding_config
    \<Rightarrow> embedding_error + (('l \<times> 's) \<times> nat list) embedder \<times> 'l" where
  "server_embedder P C L cfg =
     and_then (create_embedder P C L cfg) (\<lambda>(f, l). Inr (retry_embed f default_retry_config, l))"

section \<open>Calls of a failing provider\<close>

lemma failing_cached_calls:
  assumes "lru_ok L view" and "view l t = None" and "\<And>s. f t s = (Inl e, step s)"
  shows "\<exists>l'. after_calls (cached_embed L model f) t k (l, s) = (l', (step ^^ k) s)"
    and "call_answer (cached_embed L model f) t (l, s) k = Inl e"
proof -
  have lru: "fst (lru_get L t m) = view m t" "view (snd (lru_get L t m)) = view m" for m
    using assms(1) by (simp_all add: lru_ok_def)
  have one: "cached_embed L model f t (m, s) = (Inl e, (snd (lru_get L t m), step s))" if "view m t = None" for m s
    using lru [of m] that assms(3) by (cases "lru_get L t m") (simp add: cached_embed_def)
  have after: "\<exists>l'. after_calls (cached_embed L model f) t k (m, s) = (l', (step ^^ k) s) \<and> view l' = view m"
    if "view m t = None" for m s k
    using that
  proof (induction k arbitrary: m s)
    case (Suc k)
    have "view (snd (lru_get L t m)) t = None" using lru(2) Suc.prems by simp
    from Suc.IH [OF this, of "step s"] show ?case using lru(2) Suc.prems by (simp add: one funpow_swap1)
  qed simp
  then show "\<exists>l'. after_calls (cached_embed L model f) t k (l, s) = (l', (step ^^ k) s)" using assms(2) by blast
  obtain l' where "after_calls (cached_embed L model f) t k (l, s) = (l', (step ^^ k) s)" "view l' = view l"
    using after [OF assms(2)] by blast
  then show "call_answer (cached_embed L model f) t (l, s) k = Inl e" using assms(2) by (simp add: call_answer_def one)
qed

lemma retries_of_a_failure:
  assumes "lru_ok L view" and "view l t = None" and "\<And>s. f t s = (Inl e, step s)"
  shows "\<exists>l'. retry_embed (cached_embed L model f) default_retry_config t ((l, s), [])
    = (if embedding_is_recoverable e then (Inl e, ((l', (step ^^ 4) s), [1000, 2000, 4000])) else (Inl e, ((l', step s), [])))"
proof -
  note calls = failing_cached_calls [where f = f and step = step and e = e, OF assms]
  let ?F = "cached_embed L model f"
  have m: "max_retries default_retry_config = 3" "initial_delay_ms default_retry_config = 1000"
    by (simp_all add: default_retry_config_def)
  have w: "worth_retrying (Inl e) = embedding_is_recoverable e" by (simp add: worth_retrying_def)
  obtain n where n: "n \<le> 3" "retry_loop ?F default_retry_config t 0 1000 ((l, s), [])
      = (Inl e, (after_calls ?F t (Suc n) (l, s), map (nth_delay default_retry_config 1000) [0..<n]))"
    "\<forall>k < n. embedding_is_recoverable e" "embedding_is_recoverable e \<longrightarrow> n = 3"
    using retry_loop_stops [of 0 default_retry_config ?F t 1000 "(l, s)" "[]", OF le0, unfolded m calls(2) w diff_zero append_Nil]
    by (elim exE conjE) (rule that, assumption+)
  have r: "retry_embed ?F default_retry_config t ((l, s), []) = retry_loop ?F default_retry_config t 0 1000 ((l, s), [])"
    by (simp only: retry_embed_def m)
  obtain l' where l': "after_calls (cached_embed L model f) t (Suc n) (l, s) = (l', (step ^^ Suc n) s)" using calls(1) by blast
  show ?thesis
  proof (cases "embedding_is_recoverable e")
    case True
    then have "n = 3" using n(4) by simp
    have "map (nth_delay default_retry_config 1000) [0..<3] = [1000, 2000, 4000]"
      by (simp add: upt_rec next_delay_def wrap64_def default_retry_config_def)
    moreover have "Suc 3 = 4" by simp
    ultimately show ?thesis using True unfolding r n(2) \<open>n = 3\<close> l' [unfolded \<open>n = 3\<close>] by auto
  next
    case False
    then have "n = 0" using n(3) by auto
    show ?thesis using False unfolding r n(2) \<open>n = 0\<close> l' [unfolded \<open>n = 0\<close>] by auto
  qed
qed

text \<open>A client that gives every request the same reply, and counts them.\<close>

definition replying :: "http_reply \<Rightarrow> nat http_client \<Rightarrow> bool" where
  "replying r C \<longleftrightarrow> (\<forall>timeout url h body s. post C timeout url h body s = (Inr r, s + 1))"

definition provider_error :: "provider \<Rightarrow> http_reply \<Rightarrow> embedding_error" where
  "provider_error p r =
     (if p = OpenAI \<and> reply_status r = 401 then AuthenticationFailed [Txt (error_text r)]
      else if p = OpenAI \<and> reply_status r = 429 then RateLimitExceeded
      else api_error r)"

lemma provider_fails:
  assumes "replying r C" and "\<not> http_success r"
  shows "provider_embed C p c t s = (Inl (provider_error p r), s + 1)"
  using assms by (cases p) (simp_all add: replying_def openai_embed_def ollama_embed_def local_embed_def exchange_def
      openai_answer_def ollama_answer_def local_answer_def provider_error_def)

section \<open>Properties\<close>

text \<open>
  C1. An embedder is created exactly when the configuration is complete: the provider is known by
  its name in any case, OpenAI has a key from the configuration or the environment, a local provider
  has a URL, and a client can be built for the timeout if there is one.
\<close>

theorem create_embedder_exact:
  "(\<exists>f l. create_embedder P C L cfg = Inr (f, l)) \<longleftrightarrow>
     (case ec_timeout cfg of Some n \<Rightarrow> build_client C n = Inr () | None \<Rightarrow> True) \<and>
     (case provider_of P (ec_provider cfg) of
        Some OpenAI \<Rightarrow> ec_api_key cfg \<noteq> None \<or> var P ''OPENAI_API_KEY'' \<noteq> None
      | Some Ollama \<Rightarrow> True
      | Some Local \<Rightarrow> ec_base_url cfg \<noteq> None
      | None \<Rightarrow> False)"
proof -
  have client: "(\<exists>c. client_for C cfg k u = Inr c) \<longleftrightarrow>
      (case ec_timeout cfg of Some n \<Rightarrow> build_client C n = Inr () | None \<Rightarrow> True)" for k u
    by (auto simp: client_for_def and_then_eq_Inr as_error_def split: option.split sum.split)
  have "(\<exists>f l. create_embedder P C L cfg = Inr (f, l)) \<longleftrightarrow>
      (\<exists>p c. provider_of P (ec_provider cfg) = Some p \<and> provider_new P C cfg p = Inr c)"
    by (auto simp: create_embedder_def and_then_eq_Inr split: option.splits)
  also have "\<dots> \<longleftrightarrow> (case provider_of P (ec_provider cfg) of
      None \<Rightarrow> False | Some p \<Rightarrow> \<exists>c. provider_new P C cfg p = Inr c)"
    by (simp split: option.split)
  finally show ?thesis
    using client by (auto simp: openai_new_def ollama_new_def local_new_def and_then_eq_Inr split: option.splits provider.splits)
qed

text \<open>
  C38. What a refusing provider costs: a text that is not cached is sent once if OpenAI refuses the key
  (status 401), and four times, with sleeps of 1, 2 and 4 seconds, for every other failing
  status and provider, a rejected request or a missing model included; the answer is the error of the
  last reply.
\<close>

theorem failing_provider_calls:
  assumes "lru_ok L view" and "view l t = None" and "replying r C" and "\<not> http_success r"
    and "provider_of P (ec_provider cfg) = Some p" and "server_embedder P C L cfg = Inr (f, l0)"
  shows "\<exists>l'. f t ((l, s), []) =
    (if p = OpenAI \<and> reply_status r = 401 then (Inl (provider_error p r), ((l', s + 1), []))
     else (Inl (provider_error p r), ((l', s + 4), [1000, 2000, 4000])))"
proof -
  obtain c where c: "f = retry_embed (cached_embed L (pc_model c) (provider_embed C p c)) default_retry_config"
    using assms(5,6) by (auto simp: server_embedder_def create_embedder_def and_then_eq_Inr)
  obtain l' where "f t ((l, s), []) = (if embedding_is_recoverable (provider_error p r)
      then (Inl (provider_error p r), ((l', (Suc ^^ 4) s), [1000, 2000, 4000])) else (Inl (provider_error p r), ((l', Suc s), [])))"
    using retries_of_a_failure [OF assms(1,2), where f = "provider_embed C p c" and step = Suc and e = "provider_error p r"
        and model = "pc_model c" and s = s] provider_fails [OF assms(3,4)] c by auto
  moreover have "embedding_is_recoverable (provider_error p r) \<longleftrightarrow> \<not> (p = OpenAI \<and> reply_status r = 401)"
    by (simp add: provider_error_def api_error_def)
  ultimately show ?thesis by (auto simp: eval_nat_numeral)
qed

definition refusing_client :: "nat http_client" where
  "refusing_client = \<lparr>build_client = (\<lambda>_. Inr ()),
     post = (\<lambda>_ _ _ _ s. (Inr \<lparr>reply_status = 404, reply_reason = ''404 Not Found'', reply_body = None\<rparr>, s + 1)),
     decode_openai = (\<lambda>_. Inl ''not read''), decode_ollama = (\<lambda>_. Inl ''not read''), decode_local = (\<lambda>_. Inl ''not read'')\<rparr>"

theorem failing_provider_calls_witness:
  "\<exists>f l0 l'. server_embedder (process_with []) refusing_client one_entry_lru (default_embedding_config\<lparr>ec_provider := ''ollama''\<rparr>) = Inr (f, l0)
     \<and> f ''a'' ((None, 0), []) = (Inl (ApiError [Txt ''404 Not Found: Unknown error'']), ((l', 4), [1000, 2000, 4000]))"
proof -
  let ?cfg = "default_embedding_config\<lparr>ec_provider := ''ollama''\<rparr>"
  let ?r = "\<lparr>reply_status = 404, reply_reason = ''404 Not Found'', reply_body = None\<rparr>"
  have p: "provider_of (process_with []) (ec_provider ?cfg) = Some Ollama" by (simp add: provider_of_def)
  have "\<exists>f l0. server_embedder (process_with []) refusing_client one_entry_lru ?cfg = Inr (f, l0)"
    using p by (simp add: server_embedder_def create_embedder_def ollama_new_def client_for_def default_embedding_config_def)
  then obtain f l0 where f: "server_embedder (process_with []) refusing_client one_entry_lru ?cfg = Inr (f, l0)" by blast
  have r: "replying ?r refusing_client" "\<not> http_success ?r" by (simp_all add: replying_def refusing_client_def http_success_def)
  have v: "one_entry_view None ''a'' = None" by (simp add: one_entry_view_def)
  from failing_provider_calls [OF one_entry_lru_ok v r p f, of 0] f
  show ?thesis by (auto simp: provider_error_def api_error_def error_text_def)
qed

end
