(* ===== verification/Startup.thy ===== *)
theory Startup
  imports Service_Limits Providers
begin

text \<open>
  The program of \<^verbatim>\<open>src/src/bin/piramid.rs\<close>: how the command line changes the environment,
  how the server is put together from the loaded configuration, and the scan of the data directory
  behind \<^verbatim>\<open>piramid show metrics\<close>. Printing, tracing and the listening socket are left out.
\<close>

section \<open>Command line\<close>

datatype output_format = Yaml_format | Json_format

datatype cli_command =
    Serve "string option" "nat option" "string option"
  | Init string output_format
  | ShowConfigCmd "string option" output_format
  | ShowMetrics "string option" "string option" output_format
  | Help

text \<open>\<^verbatim>\<open>to_string\<close> of an unsigned integer.\<close>

definition digit_char :: "nat \<Rightarrow> char" where
  "digit_char d = char_of (48 + d)"

fun show_nat :: "nat \<Rightarrow> string" where
  "show_nat n = (if n < 10 then [digit_char n] else show_nat (n div 10) @ [digit_char (n mod 10)])"

declare show_nat.simps [simp del]

definition set_var :: "string \<Rightarrow> string \<Rightarrow> process \<Rightarrow> process" where
  "set_var name v P = P\<lparr>var := (var P)(name \<mapsto> v)\<rparr>"

definition set_if :: "string \<Rightarrow> string option \<Rightarrow> process \<Rightarrow> process" where
  "set_if name v P = (case v of None \<Rightarrow> P | Some t \<Rightarrow> set_var name t P)"

fun command_env :: "cli_command \<Rightarrow> process \<Rightarrow> process" where
  "command_env (Serve config port dir) P =
     set_if ''DATA_DIR'' dir (set_if ''PORT'' (map_option show_nat port) (set_if ''CONFIG_FILE'' config P))"
| "command_env (ShowConfigCmd config _) P = set_if ''CONFIG_FILE'' config P"
| "command_env (ShowMetrics config dir _) P = set_if ''DATA_DIR'' dir (set_if ''CONFIG_FILE'' config P)"
| "command_env (Init _ _) P = P"
| "command_env Help P = P"

section \<open>Starting the server\<close>

datatype start_error = Bad_settings string | No_embedder embedding_error

text \<open>The state of the new server, with its embedder if one is configured.\<close>

definition start_server ::
  "process \<Rightarrow> 's http_client \<Rightarrow> 'l lru \<Rightarrow> 'b host \<Rightarrow> (string, 'b disk) hmap
    \<Rightarrow> start_error + 'b server \<times> ((('l \<times> 's) \<times> nat list) embedder \<times> 'l) option" where
  "start_server P C L H ds =
     (case load_runtime_config P of
        Inl e \<Rightarrow> Inl (Bad_settings e)
      | Inr rt \<Rightarrow>
          (let s = app_state_new H ds (rt_app rt) (rt_disk_min_free_bytes rt) (rt_disk_readonly_on_low_space rt) in
           case rt_embedding rt of
             None \<Rightarrow> Inr (s, None)
           | Some cfg \<Rightarrow>
               (case server_embedder P C L cfg of
                  Inl e \<Rightarrow> Inl (No_embedder e)
                | Inr f \<Rightarrow> Inr (s, Some f))))"

section \<open>Collections on disk\<close>

definition collection_name_from_base_db_filename :: "string \<Rightarrow> string option" where
  "collection_name_from_base_db_filename f =
     (if \<not> suffix ''.db'' f then None
      else if suffix ''.index.db'' f \<or> suffix ''.vecindex.db'' f \<or> suffix ''.metadata.db'' f \<or> suffix ''.wal.db'' f
        then None
      else
        (let name = take (length f - 3) f in
         if name = [] then None else Some name))"

text \<open>A collection that does not open is skipped with a message.\<close>

definition skip_errors :: "('b, unit) service \<Rightarrow> ('b, unit) service" where
  "skip_errors m = (\<lambda>s. case m s of (Inl (Stopped (Failed e)), s') \<Rightarrow> (Inr (), s') | r \<Rightarrow> r)"

definition preload_collections_for_metrics :: "'b host \<Rightarrow> string list \<Rightarrow> ('b, unit) service" where
  "preload_collections_for_metrics H files =
     op_for (\<lambda>f. case collection_name_from_base_db_filename f of
         None \<Rightarrow> op_return ()
       | Some n \<Rightarrow> skip_errors (get_existing_collection H n)) files"

definition show_metrics ::
  "process \<Rightarrow> 'b host \<Rightarrow> (string, 'b disk) hmap \<Rightarrow> string + ((halt + metrics_response) \<times> 'b server)" where
  "show_metrics P H ds =
     and_then (load_runtime_config P) (\<lambda>rt.
     (let s = app_state_new H ds (rt_app rt) (rt_disk_min_free_bytes rt) (rt_disk_readonly_on_low_space rt) in
      Inr (op_then (preload_collections_for_metrics H (db_files H s)) (\<lambda>_. metrics H) s)))"

section \<open>Numbers as text\<close>

lemma digit_digit_char: "d < 10 \<Longrightarrow> digit (digit_char d) = Some d"
  by (simp add: digit_def digit_char_def)

lemma digits_value_append:
  "digits_value a (xs @ ys) = (case digits_value a xs of None \<Rightarrow> None | Some b \<Rightarrow> digits_value b ys)"
  by (induction xs arbitrary: a) (simp_all split: option.split)

lemma digits_value_show: "digits_value 0 (show_nat n) = Some n"
proof (induction n rule: show_nat.induct)
  case (1 n)
  show ?case
  proof (cases "n < 10")
    case True
    then show ?thesis by (subst show_nat.simps) (simp add: digit_digit_char)
  next
    case False
    then show ?thesis using 1 by (subst show_nat.simps) (simp add: digits_value_append digit_digit_char)
  qed
qed

lemma show_nat_first: "show_nat n \<noteq> [] \<and> hd (show_nat n) \<noteq> CHR ''+''"
proof (induction n rule: show_nat.induct)
  case (1 n)
  have "digit_char d \<noteq> CHR ''+''" if "d < 10" for d
    using digit_digit_char [OF that] by (auto simp: digit_def)
  then show ?case using 1 by (subst (1 2) show_nat.simps) auto
qed

lemma parse_show: "n < 2 ^ bits \<Longrightarrow> parse_unsigned bits (show_nat n) = Some n"
proof -
  have "without_plus (show_nat n) = show_nat n"
    using show_nat_first [of n] by (cases "show_nat n") (auto simp: without_plus_def)
  then show "n < 2 ^ bits \<Longrightarrow> ?thesis"
    using show_nat_first [of n] by (simp add: parse_unsigned_def digits_value_show)
qed

lemma set_if_var: "var (set_if n v P) = (case v of None \<Rightarrow> var P | Some t \<Rightarrow> (var P)(n \<mapsto> t))"
  by (simp add: set_if_def set_var_def split: option.split)

lemma set_if_read [simp]:
  "read_file (set_if n v P) = read_file P" "parse_yaml (set_if n v P) = parse_yaml P" "parse_json (set_if n v P) = parse_json P"
  by (simp_all add: set_if_def set_var_def split: option.split)

lemma runtime_parts:
  assumes "load_runtime_config P = Inr rt"
  shows "load_app_config_from P = Inr (rt_app rt) \<and> parse_env_or_default P 16 ''PORT'' 6333 = Inr (rt_port rt) \<and>
    rt_data_dir rt = (case var P ''DATA_DIR'' of Some d \<Rightarrow> d | None \<Rightarrow> default_data_dir P)"
  using assms by (auto simp: load_runtime_config_def and_then_eq_Inr)

lemma loaded_file:
  assumes "load_app_config_from P = Inr cfg" and "var P ''CONFIG_FILE'' = Some f"
  shows "\<exists>data. read_file P f = Inr data \<and>
    ((suffix ''.yaml'' f \<or> suffix ''.yml'' f) \<and> (\<exists>cfg. parse_yaml P data = Inr cfg) \<or>
     suffix ''.json'' f \<and> (\<exists>cfg. parse_json P data = Inr cfg))"
  using assms by (auto simp: load_app_config_from_def load_from_file_def and_then_eq_Inr split: if_splits)

section \<open>Properties\<close>

text \<open>
  C1. The command line wins over the environment: a server that starts from
  \<^verbatim>\<open>piramid serve\<close> listens on the port given, printed into the environment and parsed back,
  keeps its data in the directory given, and was started on the configuration file given.
\<close>

theorem command_line_wins:
  assumes "load_runtime_config (command_env (Serve config port dir) P) = Inr rt" and "\<forall>n. port = Some n \<longrightarrow> n < 2 ^ 16"
  shows "(\<forall>n. port = Some n \<longrightarrow> rt_port rt = n) \<and> (\<forall>d. dir = Some d \<longrightarrow> rt_data_dir rt = d) \<and>
    (\<forall>f. config = Some f \<longrightarrow> (\<exists>data. read_file P f = Inr data \<and>
       ((suffix ''.yaml'' f \<or> suffix ''.yml'' f) \<and> (\<exists>cfg. parse_yaml P data = Inr cfg) \<or>
        suffix ''.json'' f \<and> (\<exists>cfg. parse_json P data = Inr cfg))))"
proof -
  let ?P = "command_env (Serve config port dir) P"
  obtain k where a: "load_app_config_from ?P = Inr (rt_app rt)"
    and k: "parse_env_or_default ?P 16 ''PORT'' 6333 = Inr k" "rt_port rt = k"
    and d: "rt_data_dir rt = (case var ?P ''DATA_DIR'' of Some d \<Rightarrow> d | None \<Rightarrow> default_data_dir ?P)"
    using runtime_parts [OF assms(1)] by blast
  have "rt_port rt = n" if n: "port = Some n" for n
  proof -
    have "var ?P ''PORT'' = Some (show_nat n)" by (simp add: set_if_var n split: option.split)
    moreover have "parse_unsigned 16 (show_nat n) = Some n" using assms(2) n by (intro parse_show) simp
    ultimately show ?thesis using k by (simp add: parse_env_or_default_def parse_optional_env_def and_then_eq_Inr parse_env_def)
  qed
  moreover have "rt_data_dir rt = x" if "dir = Some x" for x using that d by (simp add: set_if_var)
  moreover have "\<exists>data. read_file P f = Inr data \<and>
       ((suffix ''.yaml'' f \<or> suffix ''.yml'' f) \<and> (\<exists>cfg. parse_yaml P data = Inr cfg) \<or>
        suffix ''.json'' f \<and> (\<exists>cfg. parse_json P data = Inr cfg))" if f: "config = Some f" for f
    using loaded_file [OF a, of f] by (simp add: set_if_var f split: option.split)
  ultimately show ?thesis by blast
qed

lemma suffix_of_append: "suffix x (n @ y) \<Longrightarrow> length x \<le> length y \<Longrightarrow> suffix x y"
  by (auto simp: suffix_def append_eq_append_conv2)

lemma no_dot_suffix:
  assumes "CHR ''.'' \<notin> set n" and "2 \<le> count_list x CHR ''.''" 
  shows "\<not> suffix x (n @ ''.db'')"
proof
  assume "suffix x (n @ ''.db'')"
  then obtain y where "n @ ''.db'' = y @ x" by (auto simp: suffix_def)
  then have "count_list (n @ ''.db'') CHR ''.'' = count_list y CHR ''.'' + count_list x CHR ''.''" by simp
  moreover have "count_list n CHR ''.'' = 0" using assms(1) by (simp add: count_list_0_iff)
  ultimately show False using assms(2) by simp
qed

lemma base_file_name:
  assumes "CHR ''.'' \<notin> set n" and "n \<noteq> []"
  shows "collection_name_from_base_db_filename (n @ ''.db'') = Some n"
proof -
  have "\<not> suffix ''.index.db'' (n @ ''.db'')" "\<not> suffix ''.vecindex.db'' (n @ ''.db'')"
    "\<not> suffix ''.metadata.db'' (n @ ''.db'')" "\<not> suffix ''.wal.db'' (n @ ''.db'')"
    by (rule no_dot_suffix [OF assms(1)], simp)+
  then show ?thesis using assms(2) by (simp add: collection_name_from_base_db_filename_def suffix_def)
qed

lemma side_file_name:
  "f \<in> set (map (\<lambda>x. n @ ''.db'' @ x) (side_files d)) \<Longrightarrow> collection_name_from_base_db_filename f = None"
  by (auto simp: side_files_def collection_name_from_base_db_filename_def suffix_def split: if_splits)

lemma map_filter_none: "\<forall>x \<in> set xs. f x = None \<Longrightarrow> List.map_filter f xs = []"
  by (induction xs) (simp_all add: List.map_filter_simps)

lemma scan_files:
  assumes "CHR ''.'' \<notin> set n" and "n \<noteq> []"
  shows "List.map_filter collection_name_from_base_db_filename (files_of n d) = [n]"
proof -
  have "List.map_filter collection_name_from_base_db_filename (map (\<lambda>x. n @ ''.db'' @ x) (side_files d)) = []"
    by (rule map_filter_none) (use side_file_name in blast)
  then show ?thesis unfolding files_of_def by (simp only: List.map_filter_simps base_file_name [OF assms] option.case)
qed

lemma map_filter_mset: "mset xs = mset ys \<Longrightarrow> mset (List.map_filter f xs) = mset (List.map_filter f ys)"
  by (simp add: map_filter_def)

lemma map_filter_concat: "List.map_filter f (concat xss) = concat (map (List.map_filter f) xss)"
  by (induction xss) (simp_all add: map_filter_def)

text \<open>
  C1. The scan of the data directory finds every collection exactly once and takes no side file for
  one: whatever the order of the directory, the names are those of the collections, as long as these
  have no dot in them.
\<close>

theorem startup_scan_exact:
  assumes "hash_order (name_order H)"
    and "\<forall>n \<in> set (hm_keys (loaded s)) \<union> set (hm_keys (disks s)). CHR ''.'' \<notin> set n \<and> n \<noteq> []"
  shows "mset (List.map_filter collection_name_from_base_db_filename (db_files H s))
    = mset (hm_keys (loaded s)) + mset (hm_keys (disks s))"
proof -
  let ?f = "collection_name_from_base_db_filename"
  have scan: "List.map_filter ?f (concat (map (\<lambda>(n, d). files_of n (g d)) m)) = hm_keys m"
    if "\<forall>n \<in> set (hm_keys m). CHR ''.'' \<notin> set n \<and> n \<noteq> []" for m :: "(string, 'c) hmap" and g :: "'c \<Rightarrow> 'a disk"
  proof -
    have "map (List.map_filter ?f) (map (\<lambda>(n, d). files_of n (g d)) m) = map (\<lambda>p. [fst p]) m"
      using that by (auto simp: hm_keys_def scan_files)
    then show ?thesis by (simp add: map_filter_concat hm_keys_def del: map_map)
  qed
  have "mset (List.map_filter ?f (db_files H s)) = mset (List.map_filter ?f
      (concat (map (\<lambda>(n, c). files_of n (disk_of c)) (loaded s)) @ concat (map (\<lambda>(n, d). files_of n d) (disks s))))"
    using assms(1) by (intro map_filter_mset) (simp add: db_files_def hash_order_def)
  also have "\<dots> = mset (hm_keys (loaded s) @ hm_keys (disks s))"
    using scan [of "loaded s" disk_of] scan [of "disks s" "\<lambda>d. d"] assms(2) by (simp add: map_filter_def)
  finally show ?thesis by simp
qed

section \<open>The container of the deployment guide\<close>

text \<open>
  While the process runs its environment stays as it is, so a reload gives what the start gave.
\<close>

definition same_environment :: "process \<Rightarrow> 'b host \<Rightarrow> bool" where
  "same_environment P H \<longleftrightarrow> (\<forall>k. load_app_config_from P = Inr (load_app_config H k))"

lemma budget_from_env:
  assumes "load_app_config_from P = Inr cfg" and "var P ''CONFIG_FILE'' = None" and "var P ''CACHE_ENABLED'' = None"
    and "var P ''CACHE_MAX_BYTES'' = Some v"
  shows "budget_set cfg"
proof -
  have o: "apply_env_overrides P default_app_config = Inr cfg"
    using assms(1,2) by (auto simp: load_app_config_from_def load_from_file_def and_then_eq_Inr)
  have "cache_enabled (app_cache default_app_config)" by (simp add: default_app_config_def default_cache_config_def)
  then show ?thesis
    using cache_stays_enabled [OF o _ assms(3)] cache_budget_wins [OF o assms(4)] by (auto simp: budget_set_def)
qed

lemma budget_stays:
  assumes "\<And>k. budget_set (load_app_config H k)" and "budget_set (app_conf s)"
  shows "budget_set (app_conf (served H reqs s))"
proof -
  have "server_invariant H UNIV (\<lambda>s. budget_set (app_conf s))"
    by unfold_locales (simp_all add: assms(1))
  from served_keeps [of "\<lambda>s. budget_set (app_conf s)", OF server_invariant.keep_serve [OF this]] assms(2)
  show ?thesis by simp
qed

text \<open>
  C25. In the container the deployment guide describes, with \<^verbatim>\<open>CACHE_MAX_BYTES\<close> set and no
  other setting of the cache, no insert and no upsert ever succeeds: not in the fresh server and not
  after any sequence of requests, reloads of the configuration included.
\<close>

theorem documented_container_never_inserts:
  assumes "start_server P C L H ds = Inr (s, e)" and "same_environment P H" and "hash_order (name_order H)"
    and "var P ''CONFIG_FILE'' = None" and "var P ''CACHE_ENABLED'' = None" and "var P ''CACHE_MAX_BYTES'' = Some v"
  shows "fst (serve H (InsertVectors n r) (served H reqs s)) \<noteq> Inr () \<and>
    fst (serve H (UpsertVector n u) (served H reqs s)) \<noteq> Inr ()"
proof -
  have l: "load_app_config_from P = Inr (load_app_config H k)" for k using assms(2) by (simp add: same_environment_def)
  have b: "budget_set (load_app_config H k)" for k by (rule budget_from_env [OF l assms(4,5,6)])
  obtain rt where rt: "load_runtime_config P = Inr rt"
    "s = app_state_new H ds (rt_app rt) (rt_disk_min_free_bytes rt) (rt_disk_readonly_on_low_space rt)"
    using assms(1) by (auto simp: start_server_def Let_def split: sum.splits option.splits)
  have "app_conf s = load_app_config H 0" using runtime_parts [OF rt(1)] l [of 0] rt(2) by (simp add: app_state_new_def)
  then have "budget_set (app_conf (served H reqs s))" by (intro budget_stays b) (simp add: b)
  from writers_never_answer [OF this assms(3)] show ?thesis by blast
qed

section \<open>Witnesses\<close>

lemma port_only:
  "load_runtime_config (command_env (Serve None (Some 7000) None) (process_with []))
     = Inr \<lparr>rt_app = default_app_config, rt_port = 7000, rt_data_dir = ''./.piramid'', rt_slow_query_ms = 500,
         rt_embedding = None, rt_disk_min_free_bytes = None, rt_disk_readonly_on_low_space = True\<rparr>"
proof -
  let ?P = "command_env (Serve None (Some 7000) None) (process_with [])"
  have v: "var ?P = [''PORT'' \<mapsto> show_nat 7000]" by (simp add: set_if_var)
  have "apply_env_overrides ?P default_app_config = Inr default_app_config"
    unfolding env_defs by (simp add: v default_app_config_def default_index_config_def del: command_env.simps)
  moreover have "validate default_app_config = Inr ()" by (simp add: validate_iff default_config_ok)
  ultimately have "load_app_config_from ?P = Inr default_app_config"
    by (simp add: load_app_config_from_def load_from_file_def exit_with_def v del: command_env.simps)
  then show ?thesis
    by (simp add: load_runtime_config_def parse_env_or_default_def parse_optional_env_def v parse_env_def parse_show exit_with_def
        default_data_dir_def path_push_def embedding_config_from_def default_app_config_def default_logging_def
        del: command_env.simps)
qed

theorem command_line_wins_witness:
  "\<exists>rt. load_runtime_config (command_env (Serve None (Some 7000) None) (process_with [])) = Inr rt \<and> rt_port rt = 7000"
  using command_line_wins [OF port_only] port_only by auto

theorem startup_scan_exact_witness:
  "\<exists>c. fresh c \<and> mset (List.map_filter collection_name_from_base_db_filename (db_files blob_host (one_server c default_cache_config)))
     = {#''c''#}"
proof -
  obtain c where c: "fresh c" using fresh_exists by blast
  have "mset (List.map_filter collection_name_from_base_db_filename (db_files blob_host (one_server c default_cache_config)))
      = mset (hm_keys (loaded (one_server c default_cache_config))) + mset (hm_keys (disks (one_server c default_cache_config)))"
    by (rule startup_scan_exact) (simp_all add: hm_keys_def)
  then show ?thesis using c by (auto simp: hm_keys_def)
qed

theorem documented_container_never_inserts_witness:
  "\<exists>cfg s. start_server (process_with [(''CACHE_MAX_BYTES'', ''536870912'')]) refusing_client one_entry_lru
       (blob_host\<lparr>load_app_config := (\<lambda>_. cfg)\<rparr>) [] = Inr (s, None)
     \<and> fst (serve (blob_host\<lparr>load_app_config := (\<lambda>_. cfg)\<rparr>) (InsertVectors ''c'' unit_request)
         (served (blob_host\<lparr>load_app_config := (\<lambda>_. cfg)\<rparr>) [CreateCollection ''c'', ReloadConfig] s)) \<noteq> Inr ()"
proof -
  let ?P = "process_with [(''CACHE_MAX_BYTES'', ''536870912'')]"
  let ?cfg = "default_app_config\<lparr>app_cache := default_cache_config\<lparr>cache_max_bytes := Some 536870912\<rparr>\<rparr>"
  let ?H = "blob_host\<lparr>load_app_config := (\<lambda>_. ?cfg)\<rparr>"
  have "apply_env_overrides ?P default_app_config = Inr ?cfg"
    by (simp add: env_defs parse_env_def parse_unsigned_def without_plus_def digit_def
      default_app_config_def default_cache_config_def default_index_config_def)
  moreover have "validate ?cfg = Inr ()"
    unfolding validate_iff using default_config_ok by (simp add: config_ok_def)
  ultimately have l: "load_app_config_from ?P = Inr ?cfg"
    by (simp add: load_app_config_from_def load_from_file_def exit_with_def)
  then have "\<exists>s. start_server ?P refusing_client one_entry_lru ?H [] = Inr (s, None)"
    by (simp add: start_server_def load_runtime_config_def parse_env_or_default_def parse_optional_env_def
        embedding_config_from_def)
  then obtain s where s: "start_server ?P refusing_client one_entry_lru ?H [] = Inr (s, None)" by blast
  have e: "same_environment ?P ?H" using l by (simp add: same_environment_def)
  have "fst (serve ?H (InsertVectors ''c'' unit_request) (served ?H [CreateCollection ''c'', ReloadConfig] s)) \<noteq> Inr ()"
    using documented_container_never_inserts [OF s e] by (simp del: serve.simps)
  with s show ?thesis by blast
qed

end
