(* ===== verification/Program.thy ===== *)
theory Program
  imports Startup Http
begin

text \<open>
  The program as a whole, \<^verbatim>\<open>main\<close> of \<^verbatim>\<open>src/src/bin/piramid.rs\<close>: what each command prints,
  what it leaves in the file system and how the process ends. serde's writers, the file system's
  answers, the parser of log directives and the socket are parameters; the animation is left out.
\<close>

record tools =
  config_text :: "output_format \<Rightarrow> app_config \<Rightarrow> string fallible"
  metrics_text :: "output_format \<Rightarrow> metrics_response \<Rightarrow> string fallible"
  create_dirs :: "string \<Rightarrow> unit fallible"
  fs_write :: "string \<Rightarrow> unit fallible"
  directive_parses :: "string \<Rightarrow> bool"
  already_set :: string
  binds :: "string \<Rightarrow> unit fallible"
  prints_help :: "string fallible"
  rendered :: "msg \<Rightarrow> string"

section \<open>The configuration file\<close>

text \<open>
  \<^verbatim>\<open>Path::parent\<close>: a path is its components, without empty ones and without \<^verbatim>\<open>.\<close> but in front of a
  relative path.
\<close>

definition path_components :: "string \<Rightarrow> bool \<times> string list" where
  "path_components p =
     (let rooted = (take 1 p = ''/'') in
      (rooted,
       case filter (\<lambda>c. c \<noteq> []) (split_slash p) of
         [] \<Rightarrow> []
       | c # cs \<Rightarrow> (if rooted \<and> c = ''.'' then [] else [c]) @ filter (\<lambda>c. c \<noteq> ''.'') cs))"

fun join_slash :: "string list \<Rightarrow> string" where
  "join_slash [] = []"
| "join_slash [c] = c"
| "join_slash (c # cs) = c @ ''/'' @ join_slash cs"

definition path_parent :: "string \<Rightarrow> string option" where
  "path_parent p =
     (let (rooted, cs) = path_components p in
      if cs = [] then None else Some ((if rooted then ''/'' else []) @ join_slash (butlast cs)))"

text \<open>A write that fails is taken to leave the files as they were.\<close>

definition write_config_file :: "tools \<Rightarrow> string \<Rightarrow> output_format \<Rightarrow> process \<Rightarrow> process fallible" where
  "write_config_file T path fmt P =
     and_then (config_text T fmt default_app_config) (\<lambda>contents.
     and_then (case path_parent path of
         None \<Rightarrow> Inr ()
       | Some d \<Rightarrow> if d = [] then Inr () else create_dirs T d) (\<lambda>_.
     and_then (fs_write T path) (\<lambda>_.
     Inr (P\<lparr>read_file := (read_file P)(path := Inr contents)\<rparr>))))"

section \<open>Logging\<close>

text \<open>Whether logging was set up, and the filter of the subscriber if one was installed.\<close>

record tracing =
  tracing_init :: bool
  global_default :: "string list option"

fun level_directive :: "log_level \<Rightarrow> string" where
  "level_directive Error = ''error''"
| "level_directive Warn = ''warn''"
| "level_directive Info = ''info''"
| "level_directive Debug = ''debug''"
| "level_directive Trace = ''trace''"

definition add_directive :: "tools \<Rightarrow> string \<Rightarrow> string list \<Rightarrow> string list" where
  "add_directive T d f = (if directive_parses T d then f @ [d] else f)"

definition env_filter :: "tools \<Rightarrow> process \<Rightarrow> logging_config \<Rightarrow> string list" where
  "env_filter T P cfg =
     (let f = [case var P ''RUST_LOG'' of Some v \<Rightarrow> v | None \<Rightarrow> level_directive (log_level cfg)];
          f = (if log_config cfg then f else add_directive T ''piramid::config=off'' f);
          f = (if log_indexing cfg then f else add_directive T ''piramid::indexing=off'' f);
          f = (if log_search cfg then f else add_directive T ''piramid::search=off'' f);
          f = (if log_writes cfg then f else add_directive T ''piramid::writes=off'' f);
          f = (if log_inference cfg then f else add_directive T ''piramid::inference=off'' f)
      in f)"

definition init_tracing :: "tools \<Rightarrow> process \<Rightarrow> logging_config \<Rightarrow> tracing \<Rightarrow> unit fallible \<times> tracing" where
  "init_tracing T P cfg g =
     (if tracing_init g then (Inr (), g)
      else if \<not> log_enabled cfg then (Inr (), g\<lparr>tracing_init := True\<rparr>)
      else
        (case global_default g of
           Some _ \<Rightarrow> (Inl (''failed to initialize tracing: '' @ already_set T), g)
         | None \<Rightarrow> (Inr (), \<lparr>tracing_init = True, global_default = Some (env_filter T P cfg)\<rparr>)))"

section \<open>Serving\<close>

text \<open>The loader ends the process itself; other failures are returned; else the server listens.\<close>

datatype 's start = Leaves string | Fails string | Listens string 's

definition start_server_inline ::
  "tools \<Rightarrow> process \<Rightarrow> 's http_client \<Rightarrow> 'l lru \<Rightarrow> 'b host \<Rightarrow> (string, 'b disk) hmap \<Rightarrow> tracing
    \<Rightarrow> ('b server \<times> ((('l \<times> 's) \<times> nat list) embedder \<times> 'l) option) start \<times> tracing" where
  "start_server_inline T P C L H ds g =
     (case load_runtime_config P of
        Inl e \<Rightarrow> (Leaves e, g)
      | Inr rt \<Rightarrow>
          (case init_tracing T P (app_logging (rt_app rt)) g of
             (Inl e, g) \<Rightarrow> (Fails e, g)
           | (Inr _, g) \<Rightarrow>
               (case start_server P C L H ds of
                  Inl (Bad_settings e) \<Rightarrow> (Leaves e, g)
                | Inl (No_embedder e) \<Rightarrow>
                    (Fails (''embedding provider configured but failed to initialize: '' @ rendered T (display_embedding e)), g)
                | Inr s \<Rightarrow>
                    (let addr = ''0.0.0.0:'' @ show_nat (rt_port rt) in
                     case binds T addr of
                       Inl e \<Rightarrow> (Fails (''bind failed: '' @ e), g)
                     | Inr _ \<Rightarrow> (Listens addr s, g)))))"

section \<open>The commands\<close>

datatype 's ending = Exits nat | Serves string 's | Hangs

text \<open>How the process ends, what it has printed, and the environment and files it leaves.\<close>

record 's outcome_of =
  ending :: "'s ending"
  printed :: "string list"
  complaints :: "string list"
  left_behind :: process

definition done_with :: "string list \<Rightarrow> process \<Rightarrow> 's outcome_of" where
  "done_with out P = \<lparr>ending = Exits 0, printed = out, complaints = [], left_behind = P\<rparr>"

definition complain :: "string \<Rightarrow> process \<Rightarrow> 's outcome_of" where
  "complain e P = \<lparr>ending = Exits 1, printed = [], complaints = [e], left_behind = P\<rparr>"

definition print_serialized :: "string \<Rightarrow> string fallible \<Rightarrow> process \<Rightarrow> 's outcome_of" where
  "print_serialized lead r P = (case r of Inl e \<Rightarrow> complain (lead @ e) P | Inr t \<Rightarrow> done_with [t] P)"

definition run_show_config :: "tools \<Rightarrow> string \<Rightarrow> output_format \<Rightarrow> process \<Rightarrow> 's outcome_of" where
  "run_show_config T lead fmt P =
     (case load_app_config_from P of
        Inl e \<Rightarrow> complain e P
      | Inr cfg \<Rightarrow> print_serialized lead (config_text T fmt cfg) P)"

definition run_show_metrics ::
  "tools \<Rightarrow> 'b host \<Rightarrow> (string, 'b disk) hmap \<Rightarrow> output_format \<Rightarrow> process \<Rightarrow> 's outcome_of" where
  "run_show_metrics T H ds fmt P =
     (let lead = ''Failed to show information: '' in
      case show_metrics P H ds of
        Inl e \<Rightarrow> complain e P
      | Inr (Inl (Stopped (Failed e)), _) \<Rightarrow> complain (lead @ rendered T (display e)) P
      | Inr (Inl (Stopped Panicked), _) \<Rightarrow> \<lparr>ending = Exits 101, printed = [], complaints = [], left_behind = P\<rparr>
      | Inr (Inl Deadlock, _) \<Rightarrow> \<lparr>ending = Hangs, printed = [], complaints = [], left_behind = P\<rparr>
      | Inr (Inr m, _) \<Rightarrow> print_serialized lead (metrics_text T fmt m) P)"

fun piramid ::
  "tools \<Rightarrow> 's http_client \<Rightarrow> 'l lru \<Rightarrow> 'b host \<Rightarrow> (string, 'b disk) hmap \<Rightarrow> cli_command \<Rightarrow> process
    \<Rightarrow> ('b server \<times> ((('l \<times> 's) \<times> nat list) embedder \<times> 'l) option) outcome_of" where
  "piramid T C L H ds (Init path fmt) P =
     (case write_config_file T path fmt P of
        Inl e \<Rightarrow> complain (''Failed to write config: '' @ e) P
      | Inr P' \<Rightarrow> done_with [''Wrote config to '' @ path] P')"
| "piramid T C L H ds (ShowConfigCmd config fmt) P =
     run_show_config T ''Failed to show information: '' fmt (command_env (ShowConfigCmd config fmt) P)"
| "piramid T C L H ds (ShowMetrics config dir fmt) P =
     run_show_metrics T H ds fmt (command_env (ShowMetrics config dir fmt) P)"
| "piramid T C L H ds (Serve config port dir) P =
     (let P' = command_env (Serve config port dir) P in
      case fst (start_server_inline T P' C L H ds \<lparr>tracing_init = False, global_default = None\<rparr>) of
        Leaves e \<Rightarrow> complain e P'
      | Fails e \<Rightarrow> complain (''Failed to start piramid-server: '' @ e) P'
      | Listens addr s \<Rightarrow> \<lparr>ending = Serves addr s, printed = [], complaints = [], left_behind = P'\<rparr>)"
| "piramid T C L H ds Help P =
     (case prints_help T of
        Inl e \<Rightarrow> complain (''Failed to print help: '' @ e) P
      | Inr t \<Rightarrow> done_with [t, []] P)"

section \<open>Properties\<close>

lemma no_overrides:
  assumes "\<forall>n. n \<noteq> ''CONFIG_FILE'' \<and> n \<noteq> ''PORT'' \<and> n \<noteq> ''DATA_DIR'' \<longrightarrow> var P n = None"
  shows "apply_env_overrides P default_app_config = Inr default_app_config"
  unfolding env_defs using assms by (simp add: default_app_config_def default_index_config_def)

lemma file_parsed:
  assumes "var P ''CONFIG_FILE'' = Some path" and "read_file P path = Inr t"
    and "(suffix ''.yaml'' path \<or> suffix ''.yml'' path) \<and> parse_yaml P t = Inr a \<or>
      \<not> suffix ''.yaml'' path \<and> \<not> suffix ''.yml'' path \<and> suffix ''.json'' path \<and> parse_json P t = Inr a"
  shows "load_from_file P = Inr (Some a)"
  using assms by (auto simp: load_from_file_def exit_with_def)

lemma written_file:
  assumes "ending (piramid T C L H ds (Init path fmt) P) = Exits 0"
  shows "\<exists>t. config_text T fmt default_app_config = Inr t \<and>
    left_behind (piramid T C L H ds (Init path fmt) P) = P\<lparr>read_file := (read_file P)(path := Inr t)\<rparr>"
  using assms by (auto simp: complain_def done_with_def write_config_file_def and_then_eq_Inr split: sum.splits)

text \<open>
  What \<^verbatim>\<open>piramid init\<close> writes, \<^verbatim>\<open>piramid serve --config\<close> reads: with nothing else
  set, the settings are the default ones, provided the name has an extension the loader knows for the
  format; with an extension it does not know the file is written all the same, and the server does not
  start.
\<close>

theorem generated_config_is_loaded:
  fixes port :: "nat option" and dir :: "string option"
  assumes "ending (piramid T C L H ds (Init path fmt) P) = Exits 0"
    and "\<forall>t. config_text T Yaml_format default_app_config = Inr t \<longrightarrow> parse_yaml P t = Inr default_app_config"
    and "\<forall>t. config_text T Json_format default_app_config = Inr t \<longrightarrow> parse_json P t = Inr default_app_config"
    and "\<forall>n. var P n = None"
  defines "conf \<equiv> load_app_config_from (command_env (Serve (Some path) port dir)
    (left_behind (piramid T C L H ds (Init path fmt) P)))"
  shows "fmt = Yaml_format \<and> (suffix ''.yaml'' path \<or> suffix ''.yml'' path) \<or>
      fmt = Json_format \<and> \<not> suffix ''.yaml'' path \<and> \<not> suffix ''.yml'' path \<and> suffix ''.json'' path \<Longrightarrow>
      conf = Inr default_app_config"
    and "\<not> suffix ''.yaml'' path \<Longrightarrow> \<not> suffix ''.yml'' path \<Longrightarrow> \<not> suffix ''.json'' path \<Longrightarrow>
      \<exists>e. conf = Inl e"
proof -
  let ?P = "command_env (Serve (Some path) port dir) (left_behind (piramid T C L H ds (Init path fmt) P))"
  obtain t where t: "config_text T fmt default_app_config = Inr t"
    and P: "left_behind (piramid T C L H ds (Init path fmt) P) = P\<lparr>read_file := (read_file P)(path := Inr t)\<rparr>"
    using written_file [OF assms(1)] by blast
  have v: "var ?P ''CONFIG_FILE'' = Some path" "read_file ?P path = Inr t" "parse_yaml ?P = parse_yaml P" "parse_json ?P = parse_json P"
    by (simp_all add: P set_if_var assms(4) del: piramid.simps split: option.split)
  have o: "apply_env_overrides ?P default_app_config = Inr default_app_config"
    by (rule no_overrides) (simp add: P set_if_var assms(4) del: piramid.simps split: option.split)
  have ok: "validate default_app_config = Inr ()" by (simp add: validate_iff default_config_ok)
  show "conf = Inr default_app_config"
    if "fmt = Yaml_format \<and> (suffix ''.yaml'' path \<or> suffix ''.yml'' path) \<or>
      fmt = Json_format \<and> \<not> suffix ''.yaml'' path \<and> \<not> suffix ''.yml'' path \<and> suffix ''.json'' path"
  proof -
    have "(suffix ''.yaml'' path \<or> suffix ''.yml'' path) \<and> parse_yaml ?P t = Inr default_app_config \<or>
        \<not> suffix ''.yaml'' path \<and> \<not> suffix ''.yml'' path \<and> suffix ''.json'' path \<and> parse_json ?P t = Inr default_app_config"
      unfolding v(3,4) using that assms(2,3) t by auto
    from file_parsed [OF v(1,2) this] show ?thesis
      by (simp add: conf_def load_app_config_from_def exit_with_def o ok del: command_env.simps piramid.simps)
  qed
  show "\<exists>e. conf = Inl e" if "\<not> suffix ''.yaml'' path" "\<not> suffix ''.yml'' path" "\<not> suffix ''.json'' path"
    using that by (simp add: conf_def load_app_config_from_def load_from_file_def exit_with_def v del: command_env.simps piramid.simps)
qed

definition plain_tools :: tools where
  "plain_tools = \<lparr>config_text = \<lambda>_ _. Inr ''settings'', metrics_text = \<lambda>_ _. Inr ''metrics'', create_dirs = \<lambda>_. Inr (),
     fs_write = \<lambda>_. Inr (), directive_parses = \<lambda>_. True, already_set = ''set'', binds = \<lambda>_. Inr (),
     prints_help = Inr ''help'', rendered = \<lambda>_. ''error''\<rparr>"

theorem generated_config_is_loaded_witness:
  "load_app_config_from (command_env (Serve (Some ''piramid.yaml'') None None)
     (left_behind (piramid plain_tools refusing_client one_entry_lru blob_host [] (Init ''piramid.yaml'' Yaml_format)
       ((process_with [])\<lparr>parse_yaml := \<lambda>_. Inr default_app_config, parse_json := \<lambda>_. Inr default_app_config\<rparr>))))
   = Inr default_app_config"
  by (rule generated_config_is_loaded(1)) (simp_all add: plain_tools_def write_config_file_def path_parent_def
      path_components_def done_with_def process_with_def suffix_def platform.defs)

text \<open>
  \<^verbatim>\<open>piramid serve\<close> either ends with status 1 and one message or listens, on all addresses, on
  the port of the command line when it names one; it prints nothing and never hangs before that.
\<close>

theorem serve_listens_or_complains:
  assumes "\<forall>n. port = Some n \<longrightarrow> n < 2 ^ 16"
  shows "let out = piramid T C L H ds (Serve config port dir) P in printed out = [] \<and>
    (ending out = Exits 1 \<and> (\<exists>e. complaints out = [e]) \<or>
     complaints out = [] \<and> (\<exists>addr s. ending out = Serves addr s \<and>
       (\<forall>n. port = Some n \<longrightarrow> addr = ''0.0.0.0:'' @ show_nat n)))"
proof -
  let ?P = "command_env (Serve config port dir) P"
  let ?g = "\<lparr>tracing_init = False, global_default = None\<rparr>"
  consider e where "fst (start_server_inline T ?P C L H ds ?g) = Leaves e"
    | e where "fst (start_server_inline T ?P C L H ds ?g) = Fails e"
    | addr s where "fst (start_server_inline T ?P C L H ds ?g) = Listens addr s"
    by (cases "fst (start_server_inline T ?P C L H ds ?g)") blast+
  then show ?thesis
  proof cases
    case (3 addr s)
    then obtain rt where rt: "load_runtime_config ?P = Inr rt" and a: "addr = ''0.0.0.0:'' @ show_nat (rt_port rt)"
      by (auto simp: start_server_inline_def Let_def simp del: command_env.simps
          split: sum.splits prod.splits start_error.splits)
    obtain k where k: "parse_env_or_default ?P 16 ''PORT'' 6333 = Inr (rt_port rt)"
      using runtime_parts [OF rt] by blast
    have "rt_port rt = n" if n: "port = Some n" for n
    proof -
      have "var ?P ''PORT'' = Some (show_nat n)" by (simp add: set_if_var n split: option.split)
      moreover have "parse_unsigned 16 (show_nat n) = Some n" using assms(1) n by (intro parse_show) simp
      ultimately show ?thesis using k by (simp add: parse_env_or_default_def parse_optional_env_def and_then_eq_Inr parse_env_def)
    qed
    then show ?thesis using 3 a by (simp add: Let_def del: command_env.simps)
  qed (simp_all add: Let_def complain_def del: command_env.simps)
qed

theorem serve_listens_or_complains_witness:
  "complaints (piramid plain_tools refusing_client one_entry_lru blob_host [] (Serve None (Some 7000) None) (process_with [])) = []
   \<or> ending (piramid plain_tools refusing_client one_entry_lru blob_host [] (Serve None (Some 7000) None) (process_with [])) = Exits 1"
  using serve_listens_or_complains [of "Some 7000" plain_tools refusing_client one_entry_lru blob_host "[]" None None "process_with []"]
  by (auto simp: Let_def simp del: piramid.simps)

end
