(* ===== verification/Concurrency.thy ===== *)
theory Concurrency
  imports Service_Spec
begin

text \<open>
  Requests at the same time. The manager (\<^verbatim>\<open>src/src/collections/manager.rs\<close>) looks a
  collection up in one step and opens and registers it in others; a request then works under the
  collection's lock. Threads interleave between these steps: \<open>step\<close> lets one thread make one.
  The handles of one collection share its files.

  On a loaded collection every interleaving amounts to the requests one after another; on one that
  is not loaded two requests can each open it, and an acknowledged write is gone.
\<close>

section \<open>Threads\<close>

datatype job = Change command | Look uuid

datatype reply = Changed "unit outcome" | Seen "document option outcome" | Refused fault | Missing

text \<open>
  Where a request is: before the lookup, after one that found nothing, with a handle it has opened,
  with the registered handle, inside the lock with what it read there, done.
\<close>

datatype 'b stage =
    Starting | Missed | Opened nat | Holding nat | Inside nat "'b collection" | Finished reply

text \<open>
  The map's entry for the name, every handle made so far, the files all of them share, the lock
  of each handle, and the threads.
\<close>

record 'b machine =
  registered :: "nat option"
  objects :: "'b collection list"
  shared :: "'b disk option"
  writer :: "nat \<Rightarrow> nat option"
  readers :: "nat \<Rightarrow> nat set"
  stages :: "nat \<Rightarrow> 'b stage"

type_synonym event = "nat \<times> job \<times> reply"

text \<open>\<^verbatim>\<open>get_or_create\<close> for inserts and upserts, \<^verbatim>\<open>get_existing\<close> for the rest.\<close>

fun creates :: "job \<Rightarrow> bool" where
  "creates (Change (Insert _)) = True"
| "creates (Change (InsertBatch _)) = True"
| "creates (Change (Upsert _)) = True"
| "creates _ = False"

definition files :: "'b machine \<Rightarrow> 'b disk" where
  "files m = (case shared m of None \<Rightarrow> no_files | Some d \<Rightarrow> d)"

text \<open>A handle's memory over the files as they are now.\<close>

definition attach :: "'b disk \<Rightarrow> 'b collection \<Rightarrow> 'b collection" where
  "attach d c = set_wal (\<lambda>w. w\<lparr>wal_lines := d_wal d\<rparr>)
     (c\<lparr>c_store := (c_store c)\<lparr>rs_file := d_data d\<rparr>, c_saved := d_saved d\<rparr>)"

definition clocked :: "nat \<Rightarrow> nat \<Rightarrow> 'b collection \<Rightarrow> 'b collection" where
  "clocked i j c = c\<lparr>c_ticks := i, c_draws := j\<rparr>"

definition at_stage :: "nat \<Rightarrow> 'b stage \<Rightarrow> 'b machine \<Rightarrow> 'b machine" where
  "at_stage t p m = m\<lparr>stages := (stages m)(t := p)\<rparr>"

text \<open>A step of some thread, with the request it completes.\<close>

inductive step ::
  "'b env \<Rightarrow> string \<Rightarrow> collection_config \<Rightarrow> (nat \<Rightarrow> job) \<Rightarrow> 'b machine \<Rightarrow> event option \<Rightarrow> 'b machine \<Rightarrow> bool"
  for E name cfg jobs where
  found: "stages m t = Starting \<Longrightarrow> registered m = Some h \<Longrightarrow>
    step E name cfg jobs m None (at_stage t (Holding h) m)"
| missed: "stages m t = Starting \<Longrightarrow> registered m = None \<Longrightarrow> creates (jobs t) \<or> shared m \<noteq> None \<Longrightarrow>
    step E name cfg jobs m None (at_stage t Missed m)"
| absent: "stages m t = Starting \<Longrightarrow> registered m = None \<Longrightarrow> \<not> creates (jobs t) \<Longrightarrow> shared m = None \<Longrightarrow>
    step E name cfg jobs m None (at_stage t (Finished Missing) m)"
| opened: "stages m t = Missed \<Longrightarrow> open_collection E name cfg i j (files m) = (Inr c, d) \<Longrightarrow>
    step E name cfg jobs m None
      (at_stage t (Opened (length (objects m))) (m\<lparr>objects := objects m @ [c], shared := Some d\<rparr>))"
| unreadable: "stages m t = Missed \<Longrightarrow> open_collection E name cfg i j (files m) = (Inl e, d) \<Longrightarrow>
    step E name cfg jobs m None (at_stage t (Finished (Refused e)) (m\<lparr>shared := Some d\<rparr>))"
| registers: "stages m t = Opened h \<Longrightarrow>
    step E name cfg jobs m None (at_stage t (Holding h) (m\<lparr>registered := Some h\<rparr>))"
| write_lock: "stages m t = Holding h \<Longrightarrow> jobs t = Change cmd \<Longrightarrow> writer m h = None \<Longrightarrow> readers m h = {} \<Longrightarrow>
    step E name cfg jobs m None
      (at_stage t (Inside h (objects m ! h)) (m\<lparr>writer := (writer m)(h := Some t)\<rparr>))"
| read_lock: "stages m t = Holding h \<Longrightarrow> jobs t = Look x \<Longrightarrow> writer m h = None \<Longrightarrow>
    step E name cfg jobs m None
      (at_stage t (Inside h (objects m ! h)) (m\<lparr>readers := (readers m)(h := insert t (readers m h))\<rparr>))"
| changes: "stages m t = Inside h c \<Longrightarrow> jobs t = Change cmd \<Longrightarrow> shared m = Some d \<Longrightarrow>
    run E cmd (clocked i j (attach d c)) = (r, c') \<Longrightarrow>
    step E name cfg jobs m (Some (t, Change cmd, Changed r))
      (at_stage t (Finished (Changed r))
        (m\<lparr>objects := (objects m)[h := c'], shared := Some (disk_of c'), writer := (writer m)(h := None)\<rparr>))"
| looks: "stages m t = Inside h c \<Longrightarrow> jobs t = Look x \<Longrightarrow> shared m = Some d \<Longrightarrow>
    step E name cfg jobs m (Some (t, Look x, Seen (get E x (attach d c))))
      (at_stage t (Finished (Seen (get E x (attach d c)))) (m\<lparr>readers := (readers m)(h := readers m h - {t})\<rparr>))"

text \<open>A run, and the requests it completes in the order they do.\<close>

inductive trace ::
  "'b env \<Rightarrow> string \<Rightarrow> collection_config \<Rightarrow> (nat \<Rightarrow> job) \<Rightarrow> 'b machine \<Rightarrow> event list \<Rightarrow> 'b machine \<Rightarrow> bool"
  for E name cfg jobs m where
  start: "trace E name cfg jobs m [] m"
| silent: "trace E name cfg jobs m es n \<Longrightarrow> step E name cfg jobs n None n' \<Longrightarrow> trace E name cfg jobs m es n'"
| visible: "trace E name cfg jobs m es n \<Longrightarrow> step E name cfg jobs n (Some e) n' \<Longrightarrow> trace E name cfg jobs m (es @ [e]) n'"

section \<open>One after another\<close>

text \<open>The same requests in turn, each on the collection the one before left.\<close>

inductive serial :: "'b env \<Rightarrow> 'b collection \<Rightarrow> event list \<Rightarrow> 'b collection \<Rightarrow> bool" for E c where
  none: "serial E c [] c"
| change: "serial E c es d \<Longrightarrow> run E cmd (clocked i j d) = (r, d') \<Longrightarrow> serial E c (es @ [(t, Change cmd, Changed r)]) d'"
| look: "serial E c es d \<Longrightarrow> serial E c (es @ [(t, Look x, Seen (get E x d))]) d"

section \<open>A loaded collection\<close>

lemma attach_own [simp]: "attach (disk_of c) c = c"
  by (simp add: attach_def disk_of_def set_wal_def)

text \<open>What a thread may be at while the registered handle \<open>h\<close> is the only one, holding \<open>c\<close>.\<close>

fun placed :: "job \<Rightarrow> nat \<Rightarrow> 'b collection \<Rightarrow> nat option \<Rightarrow> nat set \<Rightarrow> nat \<Rightarrow> 'b stage \<Rightarrow> bool" where
  "placed j h c w rs t Missed = False"
| "placed j h c w rs t (Opened _) = False"
| "placed j h c w rs t (Holding k) = (k = h)"
| "placed j h c w rs t (Inside k d) =
     (k = h \<and> d = c \<and> (case j of Change _ \<Rightarrow> w = Some t | Look _ \<Rightarrow> t \<in> rs))"
| "placed j h c w rs t _ = True"

text \<open>Whoever has the lock is inside.\<close>

definition held :: "nat \<Rightarrow> 'b collection \<Rightarrow> 'b machine \<Rightarrow> bool" where
  "held h c m \<longleftrightarrow> (\<forall>t. writer m h = Some t \<or> t \<in> readers m h \<longrightarrow> stages m t = Inside h c)"

text \<open>The one handle is registered, and its lock is free or held by those inside.\<close>

definition loaded_once :: "(nat \<Rightarrow> job) \<Rightarrow> nat \<Rightarrow> 'b collection \<Rightarrow> 'b machine \<Rightarrow> bool" where
  "loaded_once jobs h c m \<longleftrightarrow>
     registered m = Some h \<and> h < length (objects m) \<and> objects m ! h = c \<and> shared m = Some (disk_of c) \<and>
     (writer m h \<noteq> None \<longrightarrow> readers m h = {}) \<and>
     held h c m \<and>
     (\<forall>t. placed (jobs t) h c (writer m h) (readers m h) t (stages m t))"

lemma placed_free:
  "placed j h c None {} u p \<Longrightarrow> placed j h c' w rs u p"
  by (cases p) (auto split: job.splits)

lemma placed_alone:
  "placed j h c (Some t) {} u p \<Longrightarrow> u \<noteq> t \<Longrightarrow> placed j h c' w rs u p"
  by (cases p) (auto split: job.splits)

lemma placed_readers:
  "placed j h c w rs u p \<Longrightarrow> rs - {t} \<subseteq> rs' \<Longrightarrow> u \<noteq> t \<Longrightarrow> placed j h c w rs' u p"
  by (cases p) (auto split: job.splits)

lemma loaded_once_placed: "loaded_once jobs h c m \<Longrightarrow> placed (jobs t) h c (writer m h) (readers m h) t (stages m t)"
  by (simp add: loaded_once_def)

lemma loaded_once_not:
  assumes "loaded_once jobs h c m"
  shows "stages m t \<noteq> Missed" and "stages m t \<noteq> Opened k" and "stages m t = Holding k \<Longrightarrow> k = h"
    and "stages m t = Inside k d \<Longrightarrow> k = h \<and> d = c"
  using loaded_once_placed [OF assms, of t] by auto

text \<open>A thread that moves without the lock.\<close>

lemma loaded_once_at:
  assumes "loaded_once jobs h c m" and "placed (jobs t) h c (writer m h) (readers m h) t p"
    and "\<forall>k d. stages m t \<noteq> Inside k d"
  shows "loaded_once jobs h c (at_stage t p m)"
proof -
  have "held h c (at_stage t p m)" using assms(1,3) by (auto simp: loaded_once_def held_def at_stage_def)
  then show ?thesis using assms(1,2) by (simp add: loaded_once_def at_stage_def)
qed

lemma loaded_once_locks:
  assumes "loaded_once jobs h c m" and "writer m h = None" and "readers m h = {}" and "jobs t = Change cmd"
  shows "loaded_once jobs h c (at_stage t (Inside h (objects m ! h)) (m\<lparr>writer := (writer m)(h := Some t)\<rparr>))" (is "loaded_once jobs h _ ?n")
proof -
  have "held h c ?n" using assms by (auto simp: loaded_once_def held_def at_stage_def)
  then show ?thesis using assms by (auto simp: loaded_once_def at_stage_def intro: placed_free)
qed

lemma loaded_once_reads:
  assumes "loaded_once jobs h c m" and "writer m h = None" and "jobs t = Look x"
  shows "loaded_once jobs h c (at_stage t (Inside h (objects m ! h)) (m\<lparr>readers := (readers m)(h := insert t (readers m h))\<rparr>))" (is "loaded_once jobs h _ ?n")
proof -
  have "held h c ?n" using assms by (auto simp: loaded_once_def held_def at_stage_def)
  then show ?thesis
    using assms by (auto simp: loaded_once_def at_stage_def intro: placed_readers [where rs = "readers m h" and t = t])
qed

lemma loaded_once_changes:
  assumes "loaded_once jobs h c m" and "stages m t = Inside h c" and "jobs t = Change cmd"
  shows "loaded_once jobs h c' (at_stage t (Finished r)
    (m\<lparr>objects := (objects m)[h := c'], shared := Some (disk_of c'), writer := (writer m)(h := None)\<rparr>))" (is "loaded_once jobs h _ ?n")
proof -
  have w: "writer m h = Some t" using loaded_once_placed [OF assms(1), of t] assms(2,3) by simp
  then have r: "readers m h = {}" using assms(1) by (simp add: loaded_once_def)
  then have "held h c' ?n" by (simp add: held_def at_stage_def)
  then show ?thesis
    using assms(1) w r by (auto simp: loaded_once_def at_stage_def intro: placed_alone [where t = t and c = c])
qed

lemma loaded_once_looks:
  assumes "loaded_once jobs h c m" and "stages m t = Inside h c" and "jobs t = Look x"
  shows "loaded_once jobs h c (at_stage t (Finished r) (m\<lparr>readers := (readers m)(h := readers m h - {t})\<rparr>))" (is "loaded_once jobs h _ ?n")
proof -
  have "t \<in> readers m h" using loaded_once_placed [OF assms(1), of t] assms(2,3) by simp
  then have "held h c ?n" using assms(1) by (auto simp: loaded_once_def held_def at_stage_def)
  then show ?thesis
    using assms by (auto simp: loaded_once_def at_stage_def intro: placed_readers [where rs = "readers m h" and t = t])
qed

text \<open>A step keeps the invariant, and adds the request it completes to the serial run.\<close>

lemma step_serial:
  assumes "step E name cfg jobs m e m'" and "loaded_once jobs h c m"
  shows "\<exists>c'. loaded_once jobs h c' m' \<and>
     (case e of None \<Rightarrow> c' = c | Some x \<Rightarrow> (\<forall>b es. serial E b es c \<longrightarrow> serial E b (es @ [x]) c'))"
  using assms
proof cases
  case (found t k)
  then have "k = h" using assms(2) by (simp add: loaded_once_def)
  then show ?thesis using found assms(2) by (auto intro: loaded_once_at)
next
  case (write_lock t k cmd)
  then have k: "k = h" using loaded_once_not(3) [OF assms(2)] by simp
  then show ?thesis using write_lock loaded_once_locks [OF assms(2)] by auto
next
  case (read_lock t k x)
  then have k: "k = h" using loaded_once_not(3) [OF assms(2)] by simp
  then show ?thesis using read_lock loaded_once_reads [OF assms(2)] by auto
next
  case (changes t k d cmd f i j r c')
  then have k: "k = h \<and> d = c" using loaded_once_not(4) [OF assms(2)] by simp
  then have "f = disk_of c" using changes assms(2) by (simp add: loaded_once_def)
  then have run: "run E cmd (clocked i j c) = (r, c')" using changes k by simp
  have "loaded_once jobs h c' m'" using loaded_once_changes [OF assms(2)] changes k by simp
  then show ?thesis using run changes(1) by (auto intro: serial.change)
next
  case (looks t k d x f)
  then have k: "k = h \<and> d = c" using loaded_once_not(4) [OF assms(2)] by simp
  then have "f = disk_of c" using looks assms(2) by (simp add: loaded_once_def)
  then have "e = Some (t, Look x, Seen (get E x c))" using looks k by simp
  moreover have "loaded_once jobs h c m'" using loaded_once_looks [OF assms(2)] looks k by simp
  ultimately show ?thesis by (auto intro: serial.look)
qed (use assms(2) loaded_once_not [OF assms(2)] in \<open>auto simp: loaded_once_def\<close>)

lemma trace_serial:
  assumes "trace E name cfg jobs m es m'" and "loaded_once jobs h c m"
  shows "\<exists>c'. serial E c es c' \<and> loaded_once jobs h c' m'"
  using assms(1)
proof induction
  case start
  then show ?case using assms(2) serial.none by blast
next
  case (silent es n n')
  then show ?case using step_serial [OF silent.hyps(2)] by fastforce
next
  case (visible es n e n')
  then show ?case using step_serial [OF visible.hyps(2)] by fastforce
qed

text \<open>Who has finished, and with what.\<close>

definition finished :: "'b machine \<Rightarrow> (nat \<times> reply) set" where
  "finished m = {(t, r). stages m t = Finished r}"

lemma step_finished:
  assumes "step E name cfg jobs m e m'" and "loaded_once jobs h c m"
  shows "case e of None \<Rightarrow> finished m' = finished m
    | Some (t, j, r) \<Rightarrow> j = jobs t \<and> t \<notin> fst ` finished m \<and> finished m' = insert (t, r) (finished m)"
  using assms(1)
proof cases
  case (found t k)
  then show ?thesis by (auto simp: finished_def at_stage_def split: if_splits)
next
  case (write_lock t k cmd)
  then show ?thesis by (auto simp: finished_def at_stage_def split: if_splits)
next
  case (read_lock t k x)
  then show ?thesis by (auto simp: finished_def at_stage_def split: if_splits)
next
  case (changes t k d cmd f i j r c')
  then show ?thesis by (auto simp: finished_def at_stage_def split: if_splits)
next
  case (looks t k d x f)
  then show ?thesis by (auto simp: finished_def at_stage_def split: if_splits)
qed (use assms(2) loaded_once_not [OF assms(2)] in \<open>auto simp: loaded_once_def\<close>)

lemma trace_finished:
  assumes "trace E name cfg jobs m es m'" and "loaded_once jobs h c m"
  shows "finished m' = finished m \<union> {(t, r). (t, jobs t, r) \<in> set es}
    \<and> distinct (map fst es) \<and> (\<forall>(t, j, r) \<in> set es. j = jobs t \<and> t \<notin> fst ` finished m)"
  using assms(1)
proof induction
  case start
  then show ?case by simp
next
  case (silent es n n')
  obtain d where "loaded_once jobs h d n" using trace_serial [OF silent.hyps(1) assms(2)] by blast
  then have "finished n' = finished n" using step_finished [OF silent.hyps(2)] by fastforce
  then show ?case using silent.IH by simp
next
  case (visible es n e n')
  obtain d where d: "loaded_once jobs h d n" using trace_serial [OF visible.hyps(1) assms(2)] by blast
  obtain t j r where e: "e = (t, j, r)" by (cases e)
  have s: "j = jobs t" "t \<notin> fst ` finished n" "finished n' = insert (t, r) (finished n)"
    using step_finished [OF visible.hyps(2) d] e by simp_all
  have "t \<notin> fst ` set es" using visible.IH s(2) by force
  moreover have "t \<notin> fst ` finished m" using visible.IH s(2) by auto
  ultimately show ?case using visible.IH s(1,3) e by auto
qed

section \<open>The documents\<close>

text \<open>What the requests mean, in turn, on the map of documents, and what they write.\<close>

fun after_requests :: "event list \<Rightarrow> doc_map \<Rightarrow> doc_map" where
  "after_requests [] D = D"
| "after_requests ((t, Change cmd, r) # es) D = after_requests es (meaning cmd D)"
| "after_requests ((t, Look x, r) # es) D = after_requests es D"

fun written_by :: "event list \<Rightarrow> doc_map \<Rightarrow> document list" where
  "written_by [] D = []"
| "written_by ((t, Change cmd, r) # es) D = written cmd D @ written_by es (meaning cmd D)"
| "written_by ((t, Look x, r) # es) D = written_by es D"

lemma after_requests_append [simp]:
  "after_requests (es @ fs) D = after_requests fs (after_requests es D)"
  by (induction es D rule: after_requests.induct) simp_all

lemma written_by_append [simp]:
  "written_by (es @ fs) D = written_by es D @ written_by fs (after_requests es D)"
  by (induction es D rule: after_requests.induct) simp_all

definition acknowledged :: "event list \<Rightarrow> bool" where
  "acknowledged es \<longleftrightarrow> (\<forall>(t, j, r) \<in> set es. \<forall>cmd. j = Change cmd \<longrightarrow> r = Changed (Inr ()))"

text \<open>A read answers from the documents of the requests before it.\<close>

fun reads_see :: "event list \<Rightarrow> doc_map \<Rightarrow> bool" where
  "reads_see [] D = True"
| "reads_see ((t, Change cmd, r) # es) D = reads_see es (meaning cmd D)"
| "reads_see ((t, Look x, r) # es) D = (r = Seen (Inr (D x)) \<and> reads_see es D)"

lemma reads_see_append [simp]:
  "reads_see (es @ fs) D \<longleftrightarrow> reads_see es D \<and> reads_see fs (after_requests es D)"
  by (induction es D rule: after_requests.induct) auto

lemma good_clocked [simp]: "good E (clocked i j c) D = good E c D"
  by (simp add: clocked_def)

lemma serial_good:
  assumes "serial E c es c'" and "codecs_ok E" and "good E c D" and "acknowledged es"
    and "fits E c (written_by es D)" and "\<forall>d \<in> set (written_by es D). loggable E d"
  shows "good E c' (after_requests es D) \<and> reads_see es D
    \<and> append_cursor (c_store c') = append_cursor (c_store c) + collection_bytes E (written_by es D)"
  using assms(1,4-6)
proof induction
  case none
  then show ?case using assms(3) by simp
next
  case (change es d cmd i j r d' t)
  let ?D = "after_requests es D"
  have IH: "good E d ?D" "reads_see es D"
    "append_cursor (c_store d) = append_cursor (c_store c) + collection_bytes E (written_by es D)"
    using change.IH change.prems by (simp_all add: acknowledged_def fits_def)
  have r: "r = Inr ()" using change.prems(1) by (simp add: acknowledged_def)
  have f: "fits E (clocked i j d) (written cmd ?D)"
    using change.prems(2) by (simp add: fits_def clocked_def IH(3))
  have g: "good E (clocked i j d) ?D" using IH(1) by simp
  have "advances E (clocked i j d) (written cmd ?D) (meaning cmd ?D) d'"
    using advances_run [OF assms(2), of "clocked i j d" cmd d'] g f change.hyps(2) r by (simp add: good_def)
  moreover have "good E d' (meaning cmd ?D)"
    by (rule good_run [OF assms(2) g f _ change.hyps(2) [unfolded r]]) (use change.prems(3) in simp)
  ultimately show ?case using IH(2,3) by (simp add: advances_def clocked_def)
next
  case (look es d t x)
  then have IH: "good E d (after_requests es D)" "reads_see es D"
    "append_cursor (c_store d) = append_cursor (c_store c) + collection_bytes E (written_by es D)"
    by (simp_all add: acknowledged_def)
  then show ?case using get_docs [of E d x] by (simp add: good_def)
qed

section \<open>Progress\<close>

lemma inside_steps:
  assumes "loaded_once jobs h c m" and "stages m t = Inside h c"
  shows "\<exists>e m'. step E name cfg jobs m e m'"
proof (cases "jobs t")
  case (Change cmd)
  obtain r c' where run: "run E cmd (clocked 0 0 (attach (disk_of c) c)) = (r, c')" by fastforce
  have "shared m = Some (disk_of c)" using assms(1) by (simp add: loaded_once_def)
  from step.changes [where jobs = jobs, OF assms(2) Change this run] show ?thesis by blast
next
  case (Look x)
  have "shared m = Some (disk_of c)" using assms(1) by (simp add: loaded_once_def)
  from step.looks [where jobs = jobs, OF assms(2) Look this] show ?thesis by blast
qed

text \<open>Nobody waits for a lock no thread will give back.\<close>

lemma loaded_progress:
  assumes "loaded_once jobs h c m" and "\<nexists>r. stages m t = Finished r"
  shows "\<exists>e m'. step E name cfg jobs m e m'"
proof (cases "stages m t")
  case Starting
  have "registered m = Some h" using assms(1) by (simp add: loaded_once_def)
  from step.found [OF Starting this] show ?thesis by blast
next
  case (Holding k)
  then have k: "k = h" using loaded_once_not(3) [OF assms(1)] by simp
  show ?thesis
  proof (cases "\<exists>u. writer m h = Some u \<or> u \<in> readers m h")
    case True
    then obtain u where "stages m u = Inside h c" using assms(1) by (auto simp: loaded_once_def held_def)
    then show ?thesis by (rule inside_steps [OF assms(1)])
  next
    case False
    then have free: "writer m k = None" "readers m k = {}" by (auto simp: k intro: option.exhaust)
    show ?thesis
    proof (cases "jobs t")
      case (Change cmd)
      from step.write_lock [where jobs = jobs, OF Holding this free] show ?thesis by blast
    next
      case (Look x)
      from step.read_lock [where jobs = jobs, OF Holding this free(1)] show ?thesis by blast
    qed
  qed
next
  case (Inside k d)
  then have "stages m t = Inside h c" using loaded_once_not(4) [OF assms(1)] by simp
  then show ?thesis by (rule inside_steps [OF assms(1)])
qed (use assms loaded_once_not [OF assms(1)] in auto)

text \<open>How many steps a request is from its end.\<close>

fun steps_left :: "'b stage \<Rightarrow> nat" where
  "steps_left Starting = 5"
| "steps_left Missed = 4"
| "steps_left (Opened _) = 3"
| "steps_left (Holding _) = 2"
| "steps_left (Inside _ _) = 1"
| "steps_left (Finished _) = 0"

lemma steps_left_0 [simp]: "steps_left p = 0 \<longleftrightarrow> (\<exists>r. p = Finished r)"
  by (cases p) simp_all

lemma steps_left_le: "steps_left p \<le> 5"
  by (cases p) simp_all

lemma step_moves_one:
  assumes "step E name cfg jobs m e m'"
  obtains t p where "stages m' = (stages m)(t := p)" and "steps_left p < steps_left (stages m t)"
  using assms by cases (auto simp: at_stage_def)

definition unfinished :: "'b machine \<Rightarrow> nat set" where
  "unfinished m = {t. \<nexists>r. stages m t = Finished r}"

definition work_left :: "nat set \<Rightarrow> 'b machine \<Rightarrow> nat" where
  "work_left T m = (\<Sum>t \<in> T. steps_left (stages m t))"

lemma step_less_work:
  assumes "step E name cfg jobs m e m'" and "finite T" and "unfinished m \<subseteq> T"
  shows "work_left T m' < work_left T m" and "unfinished m' \<subseteq> T"
proof -
  obtain t p where m': "stages m' = (stages m)(t := p)" and p: "steps_left p < steps_left (stages m t)"
    by (rule step_moves_one [OF assms(1)])
  have t: "t \<in> unfinished m"
  proof (rule ccontr)
    assume "t \<notin> unfinished m"
    then show False using p by (auto simp: unfinished_def)
  qed
  have "t \<in> T" using t assms(3) by auto
  then show "work_left T m' < work_left T m"
    unfolding work_left_def by (intro sum_strict_mono_ex1) (use assms(2) m' p in auto)
  show "unfinished m' \<subseteq> T" using assms(3) t m' by (auto simp: unfinished_def)
qed

text \<open>A scheduler that makes some step whenever there is one.\<close>

definition schedule ::
  "'b env \<Rightarrow> string \<Rightarrow> collection_config \<Rightarrow> (nat \<Rightarrow> job) \<Rightarrow> (nat \<Rightarrow> 'b machine) \<Rightarrow> bool" where
  "schedule E name cfg jobs f \<longleftrightarrow>
     (\<forall>i. (\<exists>e. step E name cfg jobs (f i) e (f (Suc i))) \<or>
        f (Suc i) = f i \<and> (\<nexists>e n. step E name cfg jobs (f i) e n))"

lemma schedule_exists: "\<exists>f. f 0 = m \<and> schedule E name cfg jobs f"
proof -
  let ?next = "\<lambda>x. if \<exists>e n. step E name cfg jobs x e n then SOME n. \<exists>e. step E name cfg jobs x e n else x"
  let ?f = "rec_nat m (\<lambda>_. ?next)"
  have "(\<exists>e. step E name cfg jobs x e (?next x)) \<or> ?next x = x \<and> (\<nexists>e n. step E name cfg jobs x e n)" for x
    using someI_ex [of "\<lambda>n. \<exists>e. step E name cfg jobs x e n"] by (cases "\<exists>e n. step E name cfg jobs x e n") auto
  then have "schedule E name cfg jobs ?f" by (simp add: schedule_def)
  then show ?thesis by (intro exI [of _ ?f]) simp
qed

lemma schedule_loaded:
  assumes "schedule E name cfg jobs f" and "loaded_once jobs h c (f 0)"
  shows "\<exists>c'. loaded_once jobs h c' (f i)"
proof (induction i)
  case 0
  then show ?case using assms(2) by blast
next
  case (Suc i)
  then obtain c' where c': "loaded_once jobs h c' (f i)" by blast
  consider e where "step E name cfg jobs (f i) e (f (Suc i))" | "f (Suc i) = f i"
    using assms(1) unfolding schedule_def by blast
  then show ?case
  proof cases
    case 1
    then show ?thesis using step_serial [OF 1 c'] by blast
  next
    case 2
    then show ?thesis using c' by auto
  qed
qed

lemma schedule_works:
  assumes "schedule E name cfg jobs f" and "loaded_once jobs h c (f 0)" and "finite (unfinished (f 0))"
  shows "unfinished (f k) \<subseteq> unfinished (f 0) \<and>
    ((\<exists>i \<le> k. unfinished (f i) = {}) \<or> work_left (unfinished (f 0)) (f k) + k \<le> work_left (unfinished (f 0)) (f 0))"
proof (induction k)
  case (Suc k)
  let ?T = "unfinished (f 0)"
  consider e where "step E name cfg jobs (f k) e (f (Suc k))"
    | "f (Suc k) = f k" "\<nexists>e n. step E name cfg jobs (f k) e n"
    using assms(1) unfolding schedule_def by blast
  then show ?case
  proof cases
    case 1
    have "work_left ?T (f (Suc k)) < work_left ?T (f k)" "unfinished (f (Suc k)) \<subseteq> ?T"
      using step_less_work [OF 1 assms(3)] Suc by simp_all
    moreover have "\<exists>i \<le> Suc k. unfinished (f i) = {}" if "\<exists>i \<le> k. unfinished (f i) = {}"
      using that le_SucI by blast
    moreover have "work_left ?T (f (Suc k)) + Suc k \<le> work_left ?T (f 0)"
      if "work_left ?T (f k) + k \<le> work_left ?T (f 0)" using that calculation(1) by simp
    ultimately show ?thesis using Suc by blast
  next
    case 2
    obtain c' where "loaded_once jobs h c' (f k)" using schedule_loaded [OF assms(1,2)] by blast
    then have "unfinished (f k) = {}"
      using loaded_progress [of jobs h c' "f k" _ E name cfg] 2(2) unfolding unfinished_def by blast
    then show ?thesis using 2(1) by auto
  qed
qed simp

lemma schedule_done:
  assumes "schedule E name cfg jobs f" and "loaded_once jobs h c (f 0)" and "finite (unfinished (f 0))"
  shows "\<exists>k \<le> 5 * card (unfinished (f 0)). unfinished (f k) = {}"
proof -
  let ?T = "unfinished (f 0)"
  let ?k = "work_left ?T (f 0)"
  have "work_left ?T (f 0) \<le> (\<Sum>t \<in> ?T. 5)" unfolding work_left_def by (rule sum_mono) (rule steps_left_le)
  then have k: "?k \<le> 5 * card ?T" by (simp add: mult.commute)
  have w: "unfinished (f ?k) \<subseteq> ?T \<and> ((\<exists>i \<le> ?k. unfinished (f i) = {}) \<or> work_left ?T (f ?k) + ?k \<le> ?k)"
    by (rule schedule_works [OF assms])
  show ?thesis
  proof (cases "\<exists>i \<le> ?k. unfinished (f i) = {}")
    case True
    then show ?thesis using k by (meson order_trans)
  next
    case False
    then have "work_left ?T (f ?k) + ?k \<le> ?k" using w by blast
    then have "work_left ?T (f ?k) = 0" by simp
    then have "unfinished (f ?k) \<inter> ?T = {}" using assms(3) by (auto simp: work_left_def unfinished_def)
    then have "unfinished (f ?k) = {}" using w by blast
    then show ?thesis using k by blast
  qed
qed

section \<open>Two requests open the collection\<close>

definition cold :: "'b disk option \<Rightarrow> 'b machine" where
  "cold s = \<lparr>registered = None, objects = [], shared = s, writer = \<lambda>_. None, readers = \<lambda>_. {}, stages = \<lambda>_. Starting\<rparr>"

text \<open>Threads 0 and 1 open and register one after the other; 0 writes in between; then 2 reads.\<close>

lemma double_open_trace:
  assumes "creates (jobs 0)" and "creates (jobs 1)" and "jobs 0 = Change cmd" and "jobs 2 = Look x"
    and "open_collection E name cfg a b (files (cold s)) = (Inr c1, d1)"
    and "open_collection E name cfg a' b' d1 = (Inr c2, d2)"
    and "run E cmd (clocked i j (attach d2 c1)) = (r, c')"
  shows "\<exists>m'. trace E name cfg jobs (cold s)
    [(0, Change cmd, Changed r), (2, Look x, Seen (get E x (attach (disk_of c') c2)))] m'"
proof -
  let ?tr = "trace E name cfg jobs (cold s)"
  define m0 where "m0 = cold s"
  define m1 where "m1 = at_stage 0 Missed m0"
  define m2 where "m2 = at_stage 1 Missed m1"
  define m3 where "m3 = at_stage 0 (Opened (length (objects m2))) (m2\<lparr>objects := objects m2 @ [c1], shared := Some d1\<rparr>)"
  define m4 where "m4 = at_stage 1 (Opened (length (objects m3))) (m3\<lparr>objects := objects m3 @ [c2], shared := Some d2\<rparr>)"
  define m5 where "m5 = at_stage 0 (Holding 0) (m4\<lparr>registered := Some 0\<rparr>)"
  define m6 where "m6 = at_stage 0 (Inside 0 (objects m5 ! 0)) (m5\<lparr>writer := (writer m5)(0 := Some 0)\<rparr>)"
  define m7 where "m7 = at_stage 0 (Finished (Changed r))
    (m6\<lparr>objects := (objects m6)[0 := c'], shared := Some (disk_of c'), writer := (writer m6)(0 := None)\<rparr>)"
  define m8 where "m8 = at_stage 1 (Holding 1) (m7\<lparr>registered := Some 1\<rparr>)"
  define m9 where "m9 = at_stage 2 (Holding 1) m8"
  define m10 where "m10 = at_stage 2 (Inside 1 (objects m9 ! 1)) (m9\<lparr>readers := (readers m9)(1 := insert 2 (readers m9 1))\<rparr>)"
  define m11 where "m11 = at_stage 2 (Finished (Seen (get E x (attach (disk_of c') c2))))
    (m10\<lparr>readers := (readers m10)(1 := readers m10 1 - {2})\<rparr>)"
  note ms = m0_def m1_def m2_def m3_def m4_def m5_def m6_def m7_def m8_def m9_def m10_def cold_def at_stage_def
  have "?tr [] m1" unfolding m1_def m0_def
    by (rule silent [OF start step.missed]) (simp_all add: cold_def assms(1))
  then have "?tr [] m2" unfolding m2_def by (rule silent [OF _ step.missed]) (use assms(2) in \<open>simp_all add: ms\<close>)
  then have "?tr [] m3" unfolding m3_def
    by (rule silent [OF _ step.opened]) (use assms(5) in \<open>simp_all add: ms files_def\<close>)
  then have "?tr [] m4" unfolding m4_def
    by (rule silent [OF _ step.opened]) (use assms(6) in \<open>simp_all add: ms files_def\<close>)
  then have "?tr [] m5" unfolding m5_def by (rule silent [OF _ step.registers]) (simp add: ms)
  then have "?tr [] m6" unfolding m6_def by (rule silent [OF _ step.write_lock]) (simp_all add: ms assms(3))
  then have "?tr ([] @ [(0, Change cmd, Changed r)]) m7" unfolding m7_def
    by (rule visible [OF _ step.changes]) (use assms(3,7) in \<open>simp_all add: ms\<close>)
  then have "?tr [(0, Change cmd, Changed r)] m8" unfolding m8_def
    by (intro silent [OF _ step.registers]) (simp_all add: ms)
  then have "?tr [(0, Change cmd, Changed r)] m9" unfolding m9_def
    by (rule silent [OF _ step.found]) (simp_all add: ms)
  then have "?tr [(0, Change cmd, Changed r)] m10" unfolding m10_def
    by (rule silent [OF _ step.read_lock]) (simp_all add: ms assms(4))
  moreover have "stages m10 2 = Inside 1 c2" "shared m10 = Some (disk_of c')" by (simp_all add: ms)
  ultimately have "?tr ([(0, Change cmd, Changed r)] @ [(2, Look x, Seen (get E x (attach (disk_of c') c2)))]) m11"
    unfolding m11_def using step.looks [where jobs = jobs, OF _ assms(4)] visible by blast
  then show ?thesis by auto
qed

section \<open>Properties\<close>

text \<open>Requests that arrive together at a collection that is loaded.\<close>

definition arriving :: "'b collection \<Rightarrow> nat set \<Rightarrow> 'b machine" where
  "arriving c T = \<lparr>registered = Some 0, objects = [c], shared = Some (disk_of c), writer = \<lambda>_. None,
     readers = \<lambda>_. {}, stages = \<lambda>t. if t \<in> T then Starting else Finished Missing\<rparr>"

lemma arriving_loaded: "loaded_once jobs 0 c (arriving c T)"
  by (simp add: loaded_once_def arriving_def held_def)

lemma arriving_unfinished [simp]: "unfinished (arriving c T) = T" "finished (arriving c T) = {(t, Missing) | t. t \<notin> T}"
  by (auto simp: arriving_def unfinished_def finished_def split: if_splits)


text \<open>A thread that inserts and one that reads, both waiting for the lock when the first gets it.\<close>

lemma insert_then_look:
  assumes "jobs 0 = Change cmd" and "jobs 1 = Look x" and "run E cmd (clocked 0 0 c) = (r, c')"
  shows "\<exists>m. trace E name cfg jobs (arriving c {0, 1}) [(0, Change cmd, Changed r), (1, Look x, Seen (get E x c'))] m"
proof -
  let ?tr = "trace E name cfg jobs (arriving c {0, 1})"
  define m1 where "m1 = at_stage 0 (Holding 0) (arriving c {0, 1})"
  define m2 where "m2 = at_stage 1 (Holding 0) m1"
  define m3 where "m3 = at_stage 0 (Inside 0 (objects m2 ! 0)) (m2\<lparr>writer := (writer m2)(0 := Some 0)\<rparr>)"
  define m4 where "m4 = at_stage 0 (Finished (Changed r))
    (m3\<lparr>objects := (objects m3)[0 := c'], shared := Some (disk_of c'), writer := (writer m3)(0 := None)\<rparr>)"
  define m5 where "m5 = at_stage 1 (Inside 0 (objects m4 ! 0)) (m4\<lparr>readers := (readers m4)(0 := insert 1 (readers m4 0))\<rparr>)"
  note ms = m1_def m2_def m3_def m4_def m5_def arriving_def at_stage_def
  have "?tr [] m1" unfolding m1_def by (rule silent [OF start step.found]) (simp_all add: arriving_def)
  then have "?tr [] m2" unfolding m2_def by (rule silent [OF _ step.found]) (simp_all add: ms)
  then have "?tr [] m3" unfolding m3_def by (rule silent [OF _ step.write_lock]) (simp_all add: ms assms(1))
  then have "?tr ([] @ [(0, Change cmd, Changed r)]) m4" unfolding m4_def
    by (rule visible [OF _ step.changes [where i = 0 and j = 0 and c = c and d = "disk_of c"]]) (use assms in \<open>simp_all add: ms\<close>)
  then have "?tr [(0, Change cmd, Changed r)] m5" unfolding m5_def
    by (intro silent [OF _ step.read_lock]) (use assms(2) in \<open>simp_all add: ms\<close>)
  moreover have "stages m5 1 = Inside 0 c'" "shared m5 = Some (disk_of c')" by (simp_all add: ms)
  ultimately have "\<exists>m. ?tr ([(0, Change cmd, Changed r)] @ [(1, Look x, Seen (get E x (attach (disk_of c') c')))]) m"
    using step.looks [where jobs = jobs, OF _ assms(2)] visible by blast
  then show ?thesis by simp
qed

lemma clocked_insert:
  assumes "rs_file (c_store c) = []" and "append_cursor (c_store c) = 0"
    and "rs_mmap (c_store c) = None \<or> rs_mmap (c_store c) = Some 0"
    and "c_config c = small_config" and "\<exists>i. c_vindex c = FlatIdx i" and "cm_dimensions (c_meta c) = None"
  shows "\<exists>c'. run blob_env (Insert (unit_document x)) (clocked i j (attach \<lparr>d_data = [], d_wal = w, d_saved = z\<rparr> c)) = (Inr (), c')"
proof -
  obtain k where k: "c_vindex c = FlatIdx k" using assms(5) by blast
  have "\<exists>c'. insert_document blob_env (unit_document x) (clocked i j (attach \<lparr>d_data = [], d_wal = w, d_saved = z\<rparr> c)) = (Inr x, c')"
    by (rule insert_first [where i = k]) (use assms k in
      \<open>simp_all add: clocked_def attach_def set_wal_def small_config_def default_collection_config_def\<close>)
  then show ?thesis by (auto simp: ignore_result_def op_then_Inr)
qed

definition two_jobs :: "nat \<Rightarrow> job" where
  "two_jobs t = (if t = 0 then Change (Insert (unit_document 5)) else if t = 1 then Look 5 else Look 6)"




text \<open>
  C12. Opening a collection twice loses a write. Looking a collection up and registering it are
  separate steps, so two requests that both find it missing both open it, and the handle registered
  last replaces the other: an insert acknowledged in between is not seen by any request that
  comes after it.
\<close>

theorem double_open_loses_write:
  assumes "codecs_ok E" and "wal_enabled (cc_wal cfg)" and "recoverable E (files (cold s)) D" and "D (doc_id d) = None"
    and "open_collection E name cfg a b (files (cold s)) = (Inr c1, d1)"
    and "open_collection E name cfg a' b' d1 = (Inr c2, d2)"
    and "run E (Insert d) (clocked i j (attach d2 c1)) = (Inr (), c')"
    and "jobs 0 = Change (Insert d)" and "creates (jobs 1)" and "jobs 2 = Look (doc_id d)"
  shows "\<exists>m. trace E name cfg jobs (cold s)
    [(0, Change (Insert d), Changed (Inr ())), (2, Look (doc_id d), Seen (Inr None))] m"
proof -
  have o1: "stored E c1 \<and> docs E c1 = D \<and> durable E c1 \<and> d1 = disk_of c1 \<and> append_cursor (c_store c1) \<le> max_u64"
    using open_recovers [OF assms(1,2,3,5)] by simp
  then have "recoverable E d1 D" using durable_recoverable [of E c1] by auto
  then have o2: "stored E c2" "docs E c2 = D" using open_recovers [OF assms(1,2) _ assms(6)] by simp_all
  then have "hm_get (c_index c2) (doc_id d) = None"
    using contains_docs [OF o2(1), of "doc_id d"] assms(4) by (simp add: domIff hm_contains_iff)
  then have "get E (doc_id d) (attach (disk_of c') c2) = Inr None"
    by (simp add: get_def attach_def set_wal_def)
  then show ?thesis
    using double_open_trace [of jobs, OF _ assms(9,8,10,5-7)] assms(8) by simp
qed

text \<open>Opening the files a first opening left.\<close>

lemma open_small_twice:
  "\<exists>c1 d c2. open_collection blob_env ''c'' small_config 0 0 no_files = (Inr c1, d)
     \<and> open_collection blob_env ''c'' small_config 0 0 d = (Inr c2, d) \<and> d_data d = []
     \<and> rs_file (c_store c1) = [] \<and> append_cursor (c_store c1) = 0 \<and> rs_mmap (c_store c1) = Some 0
     \<and> c_config c1 = small_config \<and> (\<exists>i. c_vindex c1 = FlatIdx i) \<and> cm_dimensions (c_meta c1) = None"
  by (simp add: open_collection_def no_files_def load_index_def Let_def load_metadata_def
      load_vector_index_def small_config_def default_collection_config_def default_wal_config_def
      load_wal_meta_def opened_wal_def replay_def wal_new_def ensure_header_def store_open_def
      initial_size_def default_memory_config_def ensure_file_size_def next_append_offset_def
      finish_open_def rebuild_vector_cache_def collect_documents_def hm_iter_def hm_keys_def
      op_then_apply create_index_def default_index_config_def default_auto_index_def disk_of_def
      opened_metadata_def collection_metadata_new_def wal_version_def replay_lines.simps(2) checkpoint_manager_new_def)

definition three_jobs :: "nat \<Rightarrow> job" where
  "three_jobs t = (if t < 2 then Change (Insert (unit_document (5 + of_nat t))) else Look 5)"

theorem double_open_loses_write_witness:
  "\<exists>m. trace blob_env ''c'' small_config three_jobs (cold None)
     [(0, Change (Insert (unit_document 5)), Changed (Inr ())), (2, Look 5, Seen (Inr None))] m"
proof -
  obtain c1 d c2 where o: "open_collection blob_env ''c'' small_config 0 0 no_files = (Inr c1, d)"
      "open_collection blob_env ''c'' small_config 0 0 d = (Inr c2, d)" "d_data d = []"
    and s: "rs_file (c_store c1) = []" "append_cursor (c_store c1) = 0" "rs_mmap (c_store c1) = Some 0"
      "c_config c1 = small_config" "\<exists>i. c_vindex c1 = FlatIdx i" "cm_dimensions (c_meta c1) = None"
    using open_small_twice by blast
  have w: "wal_enabled (cc_wal small_config)"
    by (simp add: small_config_def default_collection_config_def default_wal_config_def)
  have f: "files (cold None) = no_files" by (simp add: files_def cold_def)
  obtain c' where c': "run blob_env (Insert (unit_document 5)) (clocked 0 0 (attach d c1)) = (Inr (), c')"
    using clocked_insert [OF s(1,2) _ s(4-6), of 5 0 0 "d_wal d" "d_saved d"] s(3) o(3) by (cases d) auto
  have r: "recoverable blob_env (files (cold None)) Map.empty" unfolding f by (rule no_files_recoverable)
  have "\<exists>m. trace blob_env ''c'' small_config three_jobs (cold None)
     [(0, Change (Insert (unit_document 5)), Changed (Inr ())), (2, Look (doc_id (unit_document 5)), Seen (Inr None))] m"
    by (rule double_open_loses_write [OF _ w r _ o(1) [folded f] o(2) c']) (simp_all add: three_jobs_def)
  then show ?thesis by simp
qed

end
