(* ===== verification/Spec2Isabelle.thy ===== *)
theory Spec2Isabelle
  imports Validation Metadata Kernels Config Errors Vector_Index Cache Storage Liveness
    Quantization Service_Limits Service_Liveness Http Startup Program Concurrency
begin

text \<open>
  Piramid, a vector database in Rust (\<^verbatim>\<open>src/src/\<close>), as executable definitions with
  the theorems that make it correct.

  \<^bold>\<open>The program.\<close> A collection maps ids to documents: a vector, a text and metadata. The
  documents lie in a memory-mapped data file; a document index gives the place of each id; a
  write-ahead log has the operations since the last checkpoint; a cache holds every vector and some
  metadata; and a vector index, one of flat, inverted-file and HNSW, proposes candidates for a
  search. The engine reads the candidates back, scores them with the requested metric and cuts them
  to \<open>k\<close>. Opening a collection loads what a checkpoint saved and replays the log. Above the
  collections stand the server's state (a manager that opens collections on demand, locks, limits,
  caches, latency trackers, background rebuilds), the services, one function per endpoint, and the
  HTTP router; beside them the configuration from file and environment, the embedding providers and
  the program that puts all of it together.

  \<^bold>\<open>Vocabulary\<close> (Prelude, Floats, Errors, Platform). Rust's \<^verbatim>\<open>Result\<close> with
  \<^verbatim>\<open>?\<close> is a sum with \<open>and_then\<close>; a method on \<^verbatim>\<open>&mut self\<close> is a function from a
  state to a result and a state, composed with \<open>op_then\<close>, which keeps the state an early return
  leaves behind. \<open>op_preserves\<close> says that an operation keeps a predicate whatever its outcome.
  An error and a panic are different faults. \<^verbatim>\<open>HashMap\<close> is an association list without
  duplicates, iterated in an order that is a parameter. Floats are IEEE 754 values with rounding to
  nearest even, computed, not axiomatised. Sizes are naturals where the code cannot wrap and are
  wrapped by \<open>wrap64\<close> or kept as words where it can.

  \<^bold>\<open>The data path, from the bottom.\<close>
  \<^item> Config, Env_Config: \<^verbatim>\<open>config/\<close>, the types, presets and \<^verbatim>\<open>validate\<close>; every
    environment override and the loader. A configuration that loads satisfies every constraint.
  \<^item> Metadata, Validation, Json: \<^verbatim>\<open>metadata.rs\<close>, the filters, \<^verbatim>\<open>validation.rs\<close>,
    \<^verbatim>\<open>server/helpers.rs\<close>. Exactness of the checks, the round trip of metadata.
  \<^item> Kernels: \<^verbatim>\<open>compute/\<close> and \<^verbatim>\<open>metrics/mod.rs\<close>, every similarity in every
    execution mode; the unrolled loops agree with the scalar ones on the same additions.
  \<^item> Index_Contract, Flat_Index, Ivf_Index, Candidate_Heap, Hnsw_Index, Vector_Index:
    \<^verbatim>\<open>index/\<close>. The trait is the locale \<open>vector_index\<close> (what insert, remove and search
    promise), interpreted on each implementation and on their sum. Flat and inverted-file search are
    exact over what they probe; the HNSW graph keeps its invariant and its search returns.
  \<^item> Cache, Storage, Wal: \<^verbatim>\<open>cache/\<close>, \<^verbatim>\<open>storage/\<close>. What is appended is read
    back, what is logged is replayed, rotation keeps the numbers growing. The store is the locale
    \<open>record_log\<close>.
  \<^item> Collection, Collection_Ops: \<^verbatim>\<open>collections/\<close>, every operation statement by
    statement. Collection_Spec gives the document map they stand for, Collection_Refinement shows that
    each command that returns implements its meaning on that map.
  \<^item> Recovery, Crash, Liveness: opening (\<^verbatim>\<open>collections/builder.rs\<close>). Documents survive any
    alternation of commands and crashes; a checkpoint can be cut short between any two of its writes;
    and under stated conditions every operation does return.
  \<^item> Invariants: the locales \<open>document_invariant\<close> and \<open>collection_invariant\<close> lift an
    invariant from single assignments to every operation; Crash and Liveness interpret them.
  \<^item> Search_Engine, Maintenance, Duplicates, Quantization: \<^verbatim>\<open>search/\<close>, rebuilding and
    compaction, duplicate detection, \<^verbatim>\<open>quantization/\<close>.

  \<^bold>\<open>The server.\<close>
  \<^item> Latency, Embedders, Providers: \<^verbatim>\<open>metrics/\<close> and \<^verbatim>\<open>embeddings/\<close>, the moving
    averages, retries, the cache of embeddings and the three providers.
  \<^item> Server: \<^verbatim>\<open>runtime/state.rs\<close> and \<^verbatim>\<open>collections/manager.rs\<close>. Services and
    Services_Collections: \<^verbatim>\<open>services/\<close> with the types of \<^verbatim>\<open>server/types/\<close>.
  \<^item> Service_Frame: the requests as one datatype and the locale \<open>server_invariant\<close>, which lifts
    an invariant of the shared state to every request; it is interpreted for the consistency of the
    tables, for isolation between collections, for the read-only latch and, in Service_Spec, for the
    documents of a collection.
  \<^item> Service_Spec: the document map behind each name, and the refinement of every request.
  \<^item> Service_Limits, Service_Liveness: which requests block, and that no other does; readiness; the
    life of a rebuild job.
  \<^item> Concurrency: threads between the steps of the manager (\<^verbatim>\<open>collections/manager.rs\<close>: look
    up, open, register, lock, work) as a step relation. On a loaded collection every interleaving is
    linearizable and every request is answered; on one that is not loaded two requests can each open
    it, and an acknowledged write is lost.
  \<^item> Http: \<^verbatim>\<open>server/routes.rs\<close>, \<^verbatim>\<open>handlers/\<close>, \<^verbatim>\<open>request_id.rs\<close>; an HTTP
    request is refused with the state untouched or is exactly one request to the services.
  \<^item> Startup, Program: \<^verbatim>\<open>bin/piramid.rs\<close>, the command line, the start, the scan of the data
    directory; every command of \<^verbatim>\<open>main\<close> with what it prints, what it writes, its exit status and
    the log filter. A generated configuration is the one the server runs on.

  \<^bold>\<open>Termination and bounds.\<close> No definition has fuel. The sifting of the heap, the halving of
  rayon's reductions, the layer search and the retry loop are recursive with a measure: the layer
  search on the nodes not yet visited and the candidates left, the retries on the attempts left. So
  a theorem that an operation answers is about the operation itself. Byte limits, batch limits,
  timeouts and the size of a body are the code's constants.

  \<^bold>\<open>Parameters\<close> stand for what is not under \<^verbatim>\<open>src/\<close> and are arguments of the
  definitions: bincode, JSON and YAML codecs (with decoding undoing encoding as a hypothesis where a
  theorem needs it), hash orders, the clock, the random source, UUIDs, Unicode data, the logarithm, SIMD
  lanes and rayon's splits, the \<^verbatim>\<open>lru\<close> crate, the HTTP client and the extractors of axum.
  Witnesses instantiate them with concrete functions.

  \<^bold>\<open>Modelled with a simplification.\<close> The services run one after the other, and a lock taken
  twice by a handler, or one held by a handler that blocks, is the outcome \<open>Deadlock\<close>; only
  Concurrency interleaves, and only the lookup of one collection and the operations under its lock,
  not the counters and the cache budget beside them. A crash loses memory and keeps
  files. Errors of the operating system other than a missing file and a short read are not raised.
  In the server a provider is the function of its call count and text, and a rebuild queued for a
  deleted collection is dropped.

  \<^bold>\<open>Not modelled.\<close> Logging and tracing, warming of the page cache, the memory estimate in the
  metrics (it rests on allocation capacities), the animation of the command line program, and the
  placeholder modules \<^verbatim>\<open>cluster\<close>, \<^verbatim>\<open>inference\<close> and \<^verbatim>\<open>cli/animation.rs\<close>,
  which have no behaviour; the software kits, the website, benchmarks and tests outside
  \<^verbatim>\<open>src/src/\<close>.
\<close>

end
